(* ===== verification/Prelude.thy ===== *)
theory Prelude
  imports Main "HOL-Library.Word"
begin

text \<open>
  Shared vocabulary of the development.

  \<^item> Machine types: \<open>byte\<close> is \<^verbatim>\<open>std::byte\<close> and \<^verbatim>\<open>std::uint8_t\<close>, the \<open>u16\<close>, \<open>u32\<close> and
    \<open>u64\<close> types are the unsigned integers of the source (\<open>u64\<close> is also \<^verbatim>\<open>std::size_t\<close> where
    its wrap-around is part of the algorithm).
  \<^item> Fallible operations return \<open>'e + 'a\<close>, with \<open>Inl\<close> the error, the thrown exception or the
    error half of \<^verbatim>\<open>core::Result\<close>.
  \<^item> \<open>find_index\<close>, \<open>erase_at\<close>, \<open>std_clamp\<close> and the ordered map \<open>omap\<close> model the pieces of the
    C++ standard library the components share (\<^verbatim>\<open>std::find_if\<close>, \<^verbatim>\<open>vector::erase\<close>,
    \<^verbatim>\<open>std::clamp\<close>, \<^verbatim>\<open>std::map\<close>).
  \<^item> Three interfaces as locales: \<open>guarded_machine\<close> (an invariant kept by the admissible
    operations of a component is kept by every run), \<open>stream_parser\<close> (an incremental parser
    whose result does not depend on how the input is cut into chunks), \<open>fifo_channel\<close> (a
    bounded queue between two components).
\<close>

unbundle bit_operations_syntax

section \<open>Machine types\<close>

type_synonym byte = "8 word"
type_synonym u16 = "16 word"
type_synonym u32 = "32 word"
type_synonym u64 = "64 word"

named_theorems codec_simps \<open>byte-level encoders and decoders that cancel\<close>
named_theorems frame_simps \<open>what an operation leaves unchanged\<close>
named_theorems inv_intros \<open>operations preserve the invariant of their component\<close>

section \<open>Two- and four-byte integers\<close>

text \<open>
  The four codecs of the source (little- and big-endian, 16 and 32 bit) all split a word into
  its bytes with shifts and masks and join them with shifts and \<open>OR\<close>. The lemmas below are
  the arithmetic they rest on.
\<close>

lemma join_split_16 [codec_simps]:
  "(ucast (ucast w :: byte) :: u16) OR push_bit 8 (ucast (ucast (drop_bit 8 w) :: byte)) = w"
  by (rule bit_word_eqI) (auto simp: bit_simps)

lemma split_low_16 [codec_simps]:
  "(ucast ((ucast lo :: u16) OR push_bit 8 (ucast hi)) :: byte) = lo" for lo hi :: byte
  by (rule bit_word_eqI) (auto simp: bit_simps)

lemma split_high_16 [codec_simps]:
  "(ucast (drop_bit 8 ((ucast lo :: u16) OR push_bit 8 (ucast hi))) :: byte) = hi" for lo hi :: byte
  by (rule bit_word_eqI) (auto simp: bit_simps dest: bit_imp_le_length)

lemma join_split_32 [codec_simps]:
  "(ucast (ucast w :: byte) :: u32) OR push_bit 8 (ucast (ucast (drop_bit 8 w) :: byte))
     OR push_bit 16 (ucast (ucast (drop_bit 16 w) :: byte))
     OR push_bit 24 (ucast (ucast (drop_bit 24 w) :: byte)) = w" (is "?l = w")
proof (rule bit_word_eqI)
  fix n assume "n < LENGTH(32)"
  then consider "n < 16" | "16 \<le> n" "n < 24" | "24 \<le> n" "n - 24 < 8" by fastforce
  then show "bit ?l n = bit w n" by cases (auto simp: bit_simps)
qed

lemma ucast_and_FF [codec_simps]: "(ucast (w AND 0xFF) :: byte) = ucast w"
  for w :: "'a::len word"
proof -
  have m: "(0xFF :: 'a word) = mask 8" by (simp add: mask_eq_exp_minus_1)
  show ?thesis unfolding m
    by (rule bit_word_eqI) (auto simp: bit_simps dest: bit_imp_le_length)
qed

lemma unat_take_bit_64: "unat (w AND (of_nat (2 ^ k) - 1)) = unat w mod 2 ^ k" for w :: u64
proof -
  have "w AND (of_nat (2 ^ k) - 1) = take_bit k w"
    by (simp add: take_bit_eq_mask mask_eq_exp_minus_1)
  then have "unat (w AND (of_nat (2 ^ k) - 1)) = take_bit k (unat w)"
    by (simp only: unsigned_take_bit_eq)
  then show ?thesis by (simp add: take_bit_eq_mod)
qed

section \<open>Standard library pieces\<close>

text \<open>\<^verbatim>\<open>std::clamp(v, lo, hi)\<close>, by the two comparisons the standard prescribes.\<close>

definition std_clamp :: "'a::linorder \<Rightarrow> 'a \<Rightarrow> 'a \<Rightarrow> 'a" where
  "std_clamp v lo hi = (if v < lo then lo else if hi < v then hi else v)"

lemma std_clamp_bounds: "lo \<le> hi \<Longrightarrow> lo \<le> std_clamp v lo hi \<and> std_clamp v lo hi \<le> hi"
  by (auto simp: std_clamp_def)

lemma std_clamp_id: "lo \<le> v \<Longrightarrow> v \<le> hi \<Longrightarrow> std_clamp v lo hi = v"
  by (auto simp: std_clamp_def)

lemma std_clamp_idem: "lo \<le> hi \<Longrightarrow> std_clamp (std_clamp v lo hi) lo hi = std_clamp v lo hi"
  by (auto simp: std_clamp_def)

text \<open>\<^verbatim>\<open>std::find_if\<close>: the index of the first element that satisfies the predicate, \<open>None\<close>
  for \<^verbatim>\<open>end()\<close>.\<close>

fun find_index :: "('a \<Rightarrow> bool) \<Rightarrow> 'a list \<Rightarrow> nat option" where
  "find_index P [] = None"
| "find_index P (x # xs) = (if P x then Some 0 else map_option Suc (find_index P xs))"

lemma find_index_None_iff: "find_index P xs = None \<longleftrightarrow> (\<forall>x\<in>set xs. \<not> P x)"
  by (induction xs) auto

lemma find_index_SomeD:
  "find_index P xs = Some i \<Longrightarrow> i < length xs \<and> P (xs ! i) \<and> (\<forall>j<i. \<not> P (xs ! j))"
proof (induction xs arbitrary: i)
  case Nil
  then show ?case by simp
next
  case (Cons x xs)
  show ?case
  proof (cases "P x")
    case True
    with Cons.prems show ?thesis by simp
  next
    case False
    with Cons.prems obtain k where k: "find_index P xs = Some k" "i = Suc k" by auto
    with Cons.IH [OF k(1)] False show ?thesis by (auto simp: nth_Cons split: nat.splits)
  qed
qed

lemma find_index_split:
  "find_index P xs = Some i \<Longrightarrow>
     \<exists>ys x zs. xs = ys @ x # zs \<and> length ys = i \<and> P x \<and> (\<forall>y\<in>set ys. \<not> P y)"
proof -
  assume "find_index P xs = Some i"
  then have i: "i < length xs" "P (xs ! i)" "\<forall>j<i. \<not> P (xs ! j)"
    using find_index_SomeD by blast+
  have "\<forall>y\<in>set (take i xs). \<not> P y" using i by (auto simp: in_set_conv_nth)
  then show ?thesis
    using i id_take_nth_drop [OF i(1)] by (metis length_take less_imp_le min.absorb2)
qed

text \<open>\<^verbatim>\<open>vector::erase(begin() + i)\<close>.\<close>

definition erase_at :: "nat \<Rightarrow> 'a list \<Rightarrow> 'a list" where
  "erase_at i xs = take i xs @ drop (Suc i) xs"

lemma erase_at_split [simp]: "erase_at (length ys) (ys @ x # zs) = ys @ zs"
  by (simp add: erase_at_def)

lemma list_update_split [simp]: "(ys @ x # zs)[length ys := v] = ys @ v # zs"
  by (simp add: list_update_append)

text \<open>\<^verbatim>\<open>static_cast\<close> between \<^verbatim>\<open>char\<close> and \<^verbatim>\<open>std::uint8_t\<close>.\<close>

definition byte_char :: "byte \<Rightarrow> char" where
  "byte_char b = char_of (unat b)"

definition char_byte :: "char \<Rightarrow> byte" where
  "char_byte c = of_nat (of_char c)"

lemma byte_char_byte [codec_simps]: "byte_char (char_byte c) = c"
proof -
  have "(of_char c :: nat) < 256" by simp
  then show ?thesis by (simp add: byte_char_def char_byte_def unat_of_nat)
qed

lemma char_byte_char [codec_simps]: "char_byte (byte_char b) = b"
proof -
  have "unat b < 2 ^ 8" using unsigned_less [of b] by simp
  then show ?thesis by (simp add: byte_char_def char_byte_def of_char_of)
qed

subsection \<open>Vectors searched by a key\<close>

text \<open>
  Several components keep a vector and find elements by a key field. \<open>lookup_by key xs k\<close> is the
  first element with that key; the lemmas say what the vector operations used with
  \<open>find_index\<close> do to every lookup.
\<close>

definition lookup_by :: "('a \<Rightarrow> 'k) \<Rightarrow> 'a list \<Rightarrow> 'k \<Rightarrow> 'a option" where
  "lookup_by key xs k = List.find (\<lambda>x. key x = k) xs"

lemma lookup_by_simps [simp]:
  "lookup_by key [] k = None"
  "lookup_by key (x # xs) k = (if key x = k then Some x else lookup_by key xs k)"
  by (simp_all add: lookup_by_def)

lemma lookup_by_None_iff: "lookup_by key xs k = None \<longleftrightarrow> k \<notin> key ` set xs"
  by (auto simp: lookup_by_def find_None_iff)

lemma lookup_by_SomeD: "lookup_by key xs k = Some x \<Longrightarrow> x \<in> set xs \<and> key x = k"
  by (auto simp: lookup_by_def find_Some_iff)

lemma lookup_by_append:
  "lookup_by key (xs @ ys) k =
     (case lookup_by key xs k of None \<Rightarrow> lookup_by key ys k | Some x \<Rightarrow> Some x)"
  by (induction xs) auto

lemma lookup_by_map:
  "(\<And>x. x \<in> set xs \<Longrightarrow> key (f x) = key x) \<Longrightarrow>
     lookup_by key (map f xs) k = map_option f (lookup_by key xs k)"
  by (induction xs) auto

lemma find_key_None: "find_index (\<lambda>x. key x = k) xs = None \<Longrightarrow> lookup_by key xs k = None"
  by (auto simp: find_index_None_iff lookup_by_None_iff)

lemma find_key_Some:
  "find_index (\<lambda>x. key x = k) xs = Some i \<Longrightarrow>
     i < length xs \<and> key (xs ! i) = k \<and> lookup_by key xs k = Some (xs ! i)"
  by (induction xs arbitrary: i) (auto split: if_splits)

lemma lookup_by_update:
  "find_index (\<lambda>x. key x = k) xs = Some i \<Longrightarrow> key b = k \<Longrightarrow>
     lookup_by key (xs[i := b]) k' = (if k' = k then Some b else lookup_by key xs k')"
  by (induction xs arbitrary: i) (auto split: if_splits)

lemma keys_update:
  "find_index (\<lambda>x. key x = k) xs = Some i \<Longrightarrow> key b = k \<Longrightarrow> map key (xs[i := b]) = map key xs"
  by (induction xs arbitrary: i) (auto split: if_splits)

lemma lookup_by_erase:
  "find_index (\<lambda>x. key x = k) xs = Some i \<Longrightarrow> distinct (map key xs) \<Longrightarrow>
     lookup_by key (erase_at i xs) k' = (if k' = k then None else lookup_by key xs k')"
proof (drule find_index_split, elim exE conjE)
  fix ys x zs
  assume "xs = ys @ x # zs" "length ys = i" "key x = k" "\<forall>y\<in>set ys. key y \<noteq> k" "distinct (map key xs)"
  moreover from this have "lookup_by key ys k = None" "lookup_by key zs k = None"
    by (auto simp: lookup_by_None_iff)
  ultimately show ?thesis by (auto simp: lookup_by_append split: option.splits)
qed

lemma distinct_erase:
  "find_index P xs = Some i \<Longrightarrow> distinct (map key xs) \<Longrightarrow> distinct (map key (erase_at i xs))"
  by (drule find_index_split) auto

lemma set_erase_subset: "find_index P xs = Some i \<Longrightarrow> set (erase_at i xs) \<subseteq> set xs"
  by (drule find_index_split) auto

lemmas keyed_simps = lookup_by_update lookup_by_erase lookup_by_append keys_update distinct_erase

subsection \<open>Ordered maps\<close>

text \<open>\<^verbatim>\<open>std::map\<close>: an association list with strictly ascending keys. \<open>omap_put\<close> is
  \<^verbatim>\<open>m[k] = v\<close>, \<open>omap_get d m k\<close> is the value \<^verbatim>\<open>m[k]\<close> refers to, which inserts the default
  \<open>d\<close> when the key is absent.\<close>

type_synonym ('k, 'v) omap = "('k \<times> 'v) list"

fun omap_put :: "'k::linorder \<Rightarrow> 'v \<Rightarrow> ('k, 'v) omap \<Rightarrow> ('k, 'v) omap" where
  "omap_put k v [] = [(k, v)]"
| "omap_put k v ((a, b) # m) =
     (if k < a then (k, v) # (a, b) # m
      else if k = a then (k, v) # m else (a, b) # omap_put k v m)"

definition omap_get :: "'v \<Rightarrow> ('k, 'v) omap \<Rightarrow> 'k \<Rightarrow> 'v" where
  "omap_get d m k = (case map_of m k of None \<Rightarrow> d | Some v \<Rightarrow> v)"

abbreviation omap_wf :: "('k::linorder, 'v) omap \<Rightarrow> bool" where
  "omap_wf m \<equiv> sorted_wrt (<) (map fst m)"

lemma map_of_omap_put [simp]: "map_of (omap_put k v m) = (map_of m)(k \<mapsto> v)"
  by (induction m) (auto simp: fun_eq_iff)

lemma keys_omap_put: "set (map fst (omap_put k v m)) = insert k (set (map fst m))"
  by (induction k v m rule: omap_put.induct) auto

lemma omap_wf_put [intro]: "omap_wf m \<Longrightarrow> omap_wf (omap_put k v m)"
proof (induction m)
  case Nil
  then show ?case by simp
next
  case (Cons p m)
  obtain a b where p: "p = (a, b)" by (cases p)
  have "\<forall>x \<in> set (map fst (omap_put k v m)). a < x" if "a < k"
    using Cons.prems that keys_omap_put [of k v m] by (auto simp: p)
  then show ?case using Cons by (auto simp: p)
qed

lemma omap_put_present:
  "omap_wf m \<Longrightarrow> map_of m k = Some u \<Longrightarrow> map fst (omap_put k v m) = map fst m"
proof (induction m)
  case Nil
  then show ?case by simp
next
  case (Cons p m)
  obtain a b where p: "p = (a, b)" by (cases p)
  show ?case
  proof (cases "k = a")
    case True
    then show ?thesis by (simp add: p)
  next
    case False
    with Cons.prems have "map_of m k = Some u" by (simp add: p split: if_splits)
    moreover from this have "k \<in> set (map fst m)" by (metis map_of_eq_None_iff not_None_eq list.set_map)
    ultimately have "a < k" using Cons.prems(1) by (auto simp: p)
    with False Cons \<open>map_of m k = Some u\<close> show ?thesis by (auto simp: p)
  qed
qed

subsection \<open>Sorting by a key\<close>

lemma insort_map: "insort_key f (g x) (map g xs) = map g (insort_key (\<lambda>x. f (g x)) x xs)"
  by (induction xs) simp_all

lemma sort_map: "sort_key f (map g xs) = map g (sort_key (\<lambda>x. f (g x)) xs)"
  by (induction xs) (simp_all add: insort_map)

section \<open>Numbers as text\<close>

text \<open>\<^verbatim>\<open>std::format("{}")\<close> and \<^verbatim>\<open>std::to_string\<close> of integers and booleans.\<close>

fun nat_str :: "nat \<Rightarrow> string" where
  "nat_str n = (if n < 10 then [char_of (48 + n)] else nat_str (n div 10) @ [char_of (48 + n mod 10)])"

declare nat_str.simps [simp del]

definition int_str :: "int \<Rightarrow> string" where
  "int_str i = (if i < 0 then ''-'' @ nat_str (nat (- i)) else nat_str (nat i))"

definition bool_str :: "bool \<Rightarrow> string" where
  "bool_str b = (if b then ''true'' else ''false'')"

section \<open>Backend health\<close>

text \<open>\<^verbatim>\<open>integration/IntegrationBackend.h\<close>\<close>

datatype BackendState = BackendDisconnected | BackendConnecting | BackendConnected | BackendDegraded

section \<open>Interfaces\<close>

subsection \<open>Invariants of a component\<close>

text \<open>
  A component is a state and a set of operations; \<open>ok\<close> selects the operations a property
  allows (for instance: everything but an acknowledgement of one alarm). What each admissible
  operation keeps, every sequence of them keeps.
\<close>

locale guarded_machine =
  fixes step :: "'s \<Rightarrow> 'e \<Rightarrow> 's" and ok :: "'e \<Rightarrow> bool" and inv :: "'s \<Rightarrow> bool"
  assumes inv_step: "inv s \<Longrightarrow> ok e \<Longrightarrow> inv (step s e)"
begin

lemma inv_run: "inv s \<Longrightarrow> (\<And>e. e \<in> set es \<Longrightarrow> ok e) \<Longrightarrow> inv (foldl step s es)"
  by (induction es arbitrary: s) (auto intro: inv_step)

lemma inv_prefix: "inv s \<Longrightarrow> (\<And>e. e \<in> set es \<Longrightarrow> ok e) \<Longrightarrow> inv (foldl step s (take n es))"
  by (rule inv_run) (auto dest: in_set_takeD)

end

locale invariant_machine =
  fixes step :: "'s \<Rightarrow> 'e \<Rightarrow> 's" and inv :: "'s \<Rightarrow> bool"
  assumes inv_step: "inv s \<Longrightarrow> inv (step s e)"

sublocale invariant_machine \<subseteq> all_ops: guarded_machine step "\<lambda>_. True" inv
  by unfold_locales (rule inv_step)

subsection \<open>Incremental parsers\<close>

text \<open>
  \<open>consume s xs\<close> feeds a chunk to a parser in state \<open>s\<close> and returns the new state and what the
  chunk completed; \<open>join\<close> concatenates two outputs. \<open>inv\<close> is the parser's invariant and \<open>fits s
  xs\<close> says the input stays within the parser's buffer limits. The contract: cutting the input
  anywhere changes neither the final state nor the joined output.
\<close>

locale stream_parser =
  fixes consume :: "'s \<Rightarrow> 'a list \<Rightarrow> 's \<times> 'o"
    and none :: 'o and join :: "'o \<Rightarrow> 'o \<Rightarrow> 'o"
    and inv :: "'s \<Rightarrow> bool" and fits :: "'s \<Rightarrow> 'a list \<Rightarrow> bool"
  assumes consume_Nil: "inv s \<Longrightarrow> fits s [] \<Longrightarrow> consume s [] = (s, none)"
    and inv_consume: "inv s \<Longrightarrow> fits s xs \<Longrightarrow> inv (fst (consume s xs))"
    and fits_append: "inv s \<Longrightarrow> fits s (xs @ ys) \<Longrightarrow> fits s xs \<and> fits (fst (consume s xs)) ys"
    and consume_append: "inv s \<Longrightarrow> fits s (xs @ ys) \<Longrightarrow>
          consume s (xs @ ys) =
            (fst (consume (fst (consume s xs)) ys),
             join (snd (consume s xs)) (snd (consume (fst (consume s xs)) ys)))"
    and join_none: "join v none = v"
    and join_assoc: "join (join u v) w = join u (join v w)"
begin

fun feed :: "'s \<times> 'o \<Rightarrow> 'a list list \<Rightarrow> 's \<times> 'o" where
  "feed so [] = so"
| "feed so (c # cs) =
     feed (fst (consume (fst so) c), join (snd so) (snd (consume (fst so) c))) cs"

lemma feed_concat:
  "inv s \<Longrightarrow> fits s (concat cs) \<Longrightarrow>
     feed (s, u) cs = (fst (consume s (concat cs)), join u (snd (consume s (concat cs))))"
proof (induction cs arbitrary: s u)
  case Nil
  then show ?case by (simp add: consume_Nil join_none)
next
  case (Cons c cs)
  let ?s1 = "fst (consume s c)"
  have f: "fits s c" "fits ?s1 (concat cs)"
    using fits_append [OF Cons.prems(1)] Cons.prems(2) by auto
  have "feed (?s1, join u (snd (consume s c))) cs =
      (fst (consume ?s1 (concat cs)),
       join (join u (snd (consume s c))) (snd (consume ?s1 (concat cs))))"
    by (rule Cons.IH) (simp_all add: f inv_consume Cons.prems)
  then show ?case
    using consume_append [OF Cons.prems(1)] Cons.prems(2) by (simp add: join_assoc)
qed

lemma feed_chunking:
  "inv s \<Longrightarrow> fits s (concat cs) \<Longrightarrow> concat cs = concat ds \<Longrightarrow> feed (s, u) cs = feed (s, u) ds"
  by (simp add: feed_concat)

end

subsection \<open>Bounded queues\<close>

text \<open>
  A bounded queue: \<open>push\<close> says whether the element was stored, \<open>pop\<close> removes the oldest
  element; \<open>contents\<close> is the abstract list of buffered elements, oldest first.
\<close>

locale fifo_channel =
  fixes push :: "'q \<Rightarrow> 'a \<Rightarrow> bool \<times> 'q" and pop :: "'q \<Rightarrow> 'a option \<times> 'q"
    and contents :: "'q \<Rightarrow> 'a list" and inv :: "'q \<Rightarrow> bool" and depth :: nat
  assumes push_room: "inv q \<Longrightarrow> length (contents q) < depth \<Longrightarrow>
            fst (push q x) \<and> contents (snd (push q x)) = contents q @ [x]"
    and push_full: "inv q \<Longrightarrow> \<not> length (contents q) < depth \<Longrightarrow> push q x = (False, q)"
    and pop_empty: "inv q \<Longrightarrow> contents q = [] \<Longrightarrow> pop q = (None, q)"
    and pop_some: "inv q \<Longrightarrow> contents q = x # xs \<Longrightarrow>
            fst (pop q) = Some x \<and> contents (snd (pop q)) = xs"
    and inv_push: "inv q \<Longrightarrow> inv (snd (push q x))"
    and inv_pop: "inv q \<Longrightarrow> inv (snd (pop q))"
    and within_depth: "inv q \<Longrightarrow> length (contents q) \<le> depth"
begin

text \<open>Pushing a whole list: what fits is stored in order, the rest is refused.\<close>

fun push_all :: "'q \<Rightarrow> 'a list \<Rightarrow> nat \<times> 'q" where
  "push_all q [] = (0, q)"
| "push_all q (x # xs) =
     (let (stored, q1) = push q x; (dropped, q2) = push_all q1 xs
      in (if stored then dropped else Suc dropped, q2))"

lemma push_all_contents:
  "inv q \<Longrightarrow> inv (snd (push_all q xs)) \<and>
     contents (snd (push_all q xs)) = contents q @ take (depth - length (contents q)) xs \<and>
     fst (push_all q xs) = length xs - (depth - length (contents q))"
proof (induction xs arbitrary: q)
  case Nil
  then show ?case by simp
next
  case (Cons x xs)
  let ?q1 = "snd (push q x)"
  have IH: "inv (snd (push_all ?q1 xs))"
    "contents (snd (push_all ?q1 xs)) = contents ?q1 @ take (depth - length (contents ?q1)) xs"
    "fst (push_all ?q1 xs) = length xs - (depth - length (contents ?q1))"
    using Cons.IH [OF inv_push [OF Cons.prems]] by auto
  show ?case
  proof (cases "length (contents q) < depth")
    case True
    then obtain m where m: "depth - length (contents q) = Suc m"
      by (metis Suc_diff_Suc)
    then have m': "depth - Suc (length (contents q)) = m" by simp
    with push_room [OF Cons.prems True] IH m m' show ?thesis
      by (auto simp: Let_def split_beta)
  next
    case False
    with push_full [OF Cons.prems False] IH show ?thesis by (auto simp: Let_def split_beta)
  qed
qed

text \<open>Draining the queue returns its contents, oldest first, and leaves it empty. The bound on
  the number of pops is the number of buffered elements.\<close>

fun drain :: "nat \<Rightarrow> 'q \<Rightarrow> 'a list \<times> 'q" where
  "drain 0 q = ([], q)"
| "drain (Suc n) q =
     (case pop q of (None, q1) \<Rightarrow> ([], q1)
      | (Some x, q1) \<Rightarrow> let (xs, q2) = drain n q1 in (x # xs, q2))"

lemma drain_contents:
  "inv q \<Longrightarrow> length (contents q) \<le> n \<Longrightarrow>
     fst (drain n q) = contents q \<and> contents (snd (drain n q)) = [] \<and> inv (snd (drain n q))"
proof (induction n arbitrary: q)
  case 0
  then show ?case by simp
next
  case (Suc n)
  show ?case
  proof (cases "contents q")
    case Nil
    with Suc.prems pop_empty show ?thesis by simp
  next
    case (Cons x xs)
    with Suc.prems pop_some [OF Suc.prems(1) Cons] inv_pop [OF Suc.prems(1)]
      Suc.IH [of "snd (pop q)"]
    show ?thesis by (cases "pop q") (auto simp: split_beta Let_def)
  qed
qed

end

subsection \<open>Observed values\<close>

text \<open>
  A component publishes the values of its keys: \<open>told n\<close> is what a notification tells the subscriber, if it
  is addressed to it. The provider promises that what it tells is the value after the operation and that no
  change goes untold. A subscriber that stores what it is told then holds the provider's values.
\<close>

locale observed_store =
  fixes exec :: "'s \<Rightarrow> 'c \<Rightarrow> 's \<times> 'n list" and value_of :: "'s \<Rightarrow> 'k \<Rightarrow> 'v option"
    and told :: "'n \<Rightarrow> ('k \<times> 'v) option" and inv :: "'s \<Rightarrow> bool" and ok :: "'c \<Rightarrow> bool"
  assumes keeps: "inv s \<Longrightarrow> ok c \<Longrightarrow> inv (fst (exec s c))"
    and current: "inv s \<Longrightarrow> ok c \<Longrightarrow> n \<in> set (snd (exec s c)) \<Longrightarrow> told n = Some (k, v) \<Longrightarrow> value_of (fst (exec s c)) k = Some v"
    and complete: "inv s \<Longrightarrow> ok c \<Longrightarrow> value_of (fst (exec s c)) k \<noteq> value_of s k \<Longrightarrow>
      \<exists>n \<in> set (snd (exec s c)). \<exists>v. told n = Some (k, v)"
begin

definition note_down :: "('k \<Rightarrow> 'v option) \<Rightarrow> 'n \<Rightarrow> ('k \<Rightarrow> 'v option)" where
  "note_down copy n = (case told n of None \<Rightarrow> copy | Some (k, v) \<Rightarrow> copy(k \<mapsto> v))"

lemma note_down_all:
  assumes "\<And>n k v. n \<in> set ns \<Longrightarrow> told n = Some (k, v) \<Longrightarrow> f k = Some v"
  shows "foldl note_down copy ns k = (if \<exists>n \<in> set ns. \<exists>v. told n = Some (k, v) then f k else copy k)"
  using assms
proof (induction ns arbitrary: copy)
  case (Cons n ns)
  have "foldl note_down (note_down copy n) ns k =
      (if \<exists>n \<in> set ns. \<exists>v. told n = Some (k, v) then f k else note_down copy n k)"
    by (rule Cons.IH) (rule Cons.prems, simp_all)
  moreover have "f k' = Some v" if "told n = Some (k', v)" for k' v using that by (rule Cons.prems [rotated]) simp
  ultimately show ?case by (cases "told n") (auto simp: note_down_def [of copy n])
qed simp

lemma copy_step:
  assumes "inv s" and "ok c" and "copy k = value_of s k"
  shows "foldl note_down copy (snd (exec s c)) k = value_of (fst (exec s c)) k"
proof -
  have "foldl note_down copy (snd (exec s c)) k =
      (if \<exists>n \<in> set (snd (exec s c)). \<exists>v. told n = Some (k, v) then value_of (fst (exec s c)) k else copy k)"
    by (rule note_down_all) (rule current [OF assms(1,2)])
  then show ?thesis using complete [OF assms(1,2), of k] assms(3) by presburger
qed

lemma copy_told:
  assumes "inv s" and "ok c" and "n \<in> set (snd (exec s c))" and "told n = Some (k, v)"
  shows "foldl note_down copy (snd (exec s c)) k = value_of (fst (exec s c)) k"
proof -
  have "foldl note_down copy (snd (exec s c)) k =
      (if \<exists>n \<in> set (snd (exec s c)). \<exists>v. told n = Some (k, v) then value_of (fst (exec s c)) k else copy k)"
    by (rule note_down_all) (rule current [OF assms(1,2)])
  then show ?thesis using assms(3,4) by (metis (full_types))
qed

end

end
