(* ===== verification/SpscQueue.thy ===== *)
theory SpscQueue
  imports Prelude
begin

text \<open>
  \<^verbatim>\<open>src/core/SpscQueue.h\<close>: the bounded lock-free ring between one producer and one consumer.

  The record \<open>spsc\<close> holds the two free-running 64-bit indices and the slots, \<open>emplaceImpl\<close> and
  \<open>spsc_pop\<close> are the two operations with their index arithmetic on 64-bit words, wrap-around
  included. \<open>contents\<close> is the abstract queue, and the interpretation \<open>spsc\<close> of
  \<open>fifo_channel\<close> says the ring is a bounded FIFO of depth \<open>kCapacity - 1\<close>.

  The second half is the concurrent algorithm: \<open>spsc_step\<close> interleaves the two threads at the
  granularity of their atomic loads and stores. The acquire/release pairs of the source order
  each element write before the index store that publishes it, so the interleaving semantics
  has the element accesses as steps of their own; \<open>spsc_sys_inv\<close> is the inductive invariant,
  and the theorems are FIFO delivery and the absence of a slot race.
\<close>

section \<open>The ring\<close>

text \<open>The two static assertions on the template argument.\<close>

definition valid_capacity :: "u64 \<Rightarrow> bool" where
  "valid_capacity kCapacity \<longleftrightarrow> 2 \<le> kCapacity \<and> kCapacity AND (kCapacity - 1) = 0"

definition kMask :: "u64 \<Rightarrow> u64" where
  "kMask kCapacity = kCapacity - 1"

record 'a spsc =
  q_head :: u64
  q_tail :: u64
  q_buffer :: "'a list"

text \<open>A fresh queue: both indices zero, every slot value-initialised (\<open>d\<close> is \<^verbatim>\<open>T{}\<close>).\<close>

definition spsc_new :: "u64 \<Rightarrow> 'a \<Rightarrow> 'a spsc" where
  "spsc_new kCapacity d =
     \<lparr>q_head = 0, q_tail = 0, q_buffer = replicate (unat kCapacity) d\<rparr>"

definition emplaceImpl :: "u64 \<Rightarrow> 'a spsc \<Rightarrow> 'a \<Rightarrow> bool \<times> 'a spsc" where
  "emplaceImpl kCapacity q item =
     (let tail = q_tail q; nxt = tail + 1
      in if nxt - q_head q > kCapacity - 1 then (False, q)
         else (True, q\<lparr>q_buffer := (q_buffer q)[unat (tail AND kMask kCapacity) := item],
                       q_tail := nxt\<rparr>))"

definition spsc_push :: "u64 \<Rightarrow> 'a spsc \<Rightarrow> 'a \<Rightarrow> bool \<times> 'a spsc" where
  "spsc_push kCapacity q item = emplaceImpl kCapacity q item"

definition spsc_pop :: "u64 \<Rightarrow> 'a spsc \<Rightarrow> 'a option \<times> 'a spsc" where
  "spsc_pop kCapacity q =
     (let head = q_head q
      in if head = q_tail q then (None, q)
         else (Some (q_buffer q ! unat (head AND kMask kCapacity)), q\<lparr>q_head := head + 1\<rparr>))"

definition spsc_empty :: "'a spsc \<Rightarrow> bool" where
  "spsc_empty q \<longleftrightarrow> q_head q = q_tail q"

definition spsc_size :: "'a spsc \<Rightarrow> u64" where
  "spsc_size q = q_tail q - q_head q"

definition spsc_full :: "u64 \<Rightarrow> 'a spsc \<Rightarrow> bool" where
  "spsc_full kCapacity q \<longleftrightarrow> spsc_size q \<ge> kCapacity - 1"

subsection \<open>Abstraction and invariant\<close>

definition slot :: "u64 \<Rightarrow> u64 \<Rightarrow> nat" where
  "slot kCapacity i = unat (i AND kMask kCapacity)"

definition contents :: "u64 \<Rightarrow> 'a spsc \<Rightarrow> 'a list" where
  "contents kCapacity q =
     map (\<lambda>i. q_buffer q ! slot kCapacity (q_head q + of_nat i)) [0..<unat (spsc_size q)]"

definition spsc_inv :: "u64 \<Rightarrow> 'a spsc \<Rightarrow> bool" where
  "spsc_inv kCapacity q \<longleftrightarrow>
     length (q_buffer q) = unat kCapacity \<and> unat (spsc_size q) < unat kCapacity"

subsection \<open>Index arithmetic\<close>

lemma bit_of_top:
  fixes w :: u64
  assumes "2 ^ k \<le> unat w" "unat w < 2 ^ Suc k"
  shows "bit w k"
proof -
  have "unat w div 2 ^ k = 1"
    using assms by (intro div_nat_eqI) simp_all
  then have "bit (unat w) k" by (simp add: bit_iff_odd)
  then show ?thesis by (simp add: bit_unsigned_iff)
qed

lemma valid_capacityE:
  assumes "valid_capacity c"
  obtains k where "0 < k" "k < 64" "c = 2 ^ k" "unat c = 2 ^ k"
proof -
  let ?n = "unat c"
  have n2: "2 \<le> ?n" using assms by (simp add: valid_capacity_def word_le_nat_alt)
  obtain k where k: "2 ^ k \<le> ?n" "?n < 2 ^ Suc k"
    using n2 ex_power_ivl1 [of 2 ?n] by auto
  have "?n < 2 ^ 64" using unsigned_less [of c] by simp
  then have k64: "k < 64" using k by (metis linorder_not_le order.strict_trans1
        power_strict_increasing_iff one_less_numeral_iff semiring_norm(76))
  have k0: "0 < k" using k n2 by (cases k) auto
  have "?n = 2 ^ k"
  proof (rule ccontr)
    assume "?n \<noteq> 2 ^ k"
    then have "2 ^ k \<le> ?n - 1" "?n - 1 < 2 ^ Suc k" using k by auto
    moreover have "unat (c - 1) = ?n - 1" using n2 by (intro unat_minus_one) auto
    ultimately have "bit (c - 1) k" by (metis bit_of_top)
    moreover have "bit c k" using k by (rule bit_of_top)
    ultimately have "bit (c AND (c - 1)) k" by (simp add: bit_and_iff)
    then show False using assms by (simp add: valid_capacity_def)
  qed
  moreover from this have "of_nat ?n = (of_nat (2 ^ k) :: u64)" by (simp only:)
  then have "c = 2 ^ k" by simp
  ultimately show ?thesis using that k0 k64 by blast
qed

lemma slot_offset:
  assumes "valid_capacity c"
  shows "slot c (h + of_nat i) = (unat h + i) mod unat c"
proof -
  obtain k where k: "k < 64" "c = 2 ^ k" "unat c = 2 ^ k"
    using assms by (rule valid_capacityE)
  have "slot c (h + of_nat i) = unat (h + of_nat i) mod 2 ^ k"
    using unat_take_bit_64 [of "h + of_nat i" k] by (simp add: slot_def kMask_def k(2))
  also have "\<dots> = (unat h + i) mod 2 ^ 64 mod 2 ^ k"
    by (simp add: unat_word_ariths unat_of_nat mod_simps)
  also have "\<dots> = (unat h + i) mod 2 ^ k"
    using k(1) by (intro mod_mod_cancel le_imp_power_dvd) simp
  finally show ?thesis by (simp only: k(3))
qed

lemma slot_bound: "valid_capacity c \<Longrightarrow> slot c i < unat c"
  using slot_offset [of c i 0] by (auto elim: valid_capacityE)

lemma slot_distinct:
  assumes "valid_capacity c" "i < j" "j < unat c"
  shows "slot c (h + of_nat i) \<noteq> slot c (h + of_nat j)"
proof
  assume "slot c (h + of_nat i) = slot c (h + of_nat j)"
  then have "(unat h + i) mod unat c = (unat h + j) mod unat c"
    by (simp add: slot_offset [OF assms(1)])
  then have "unat c dvd (unat h + j) - (unat h + i)"
    by (metis mod_eq_dvd_iff_nat assms(2) add_le_cancel_left less_imp_le)
  then have "unat c dvd j - i" by simp
  moreover have "0 < j - i" "j - i < unat c" using assms by auto
  ultimately show False by (meson dvd_imp_le linorder_not_le)
qed

lemma tail_is_offset: "q_tail q = q_head q + of_nat (unat (spsc_size q))"
  by (simp add: spsc_size_def)

lemma capacity_minus_1: "valid_capacity c \<Longrightarrow> unat (c - 1) = unat c - 1"
  by (rule unat_minus_one) (auto simp: valid_capacity_def)

lemma size_plus_1:
  assumes "valid_capacity c" "unat (w :: u64) < unat c"
  shows "unat (w + 1) = Suc (unat w)"
proof -
  obtain k where "k < 64" "unat c = 2 ^ k" using assms(1) by (rule valid_capacityE)
  then have "unat c \<le> 2 ^ 63" using power_increasing [of k 63 "2 :: nat"] by simp
  with assms(2) have "unat w + 1 < 2 ^ 64" by simp
  then show ?thesis by (simp add: unat_word_ariths)
qed

lemma full_iff:
  assumes "valid_capacity c" "spsc_inv c q"
  shows "q_tail q + 1 - q_head q > c - 1 \<longleftrightarrow> Suc (unat (spsc_size q)) = unat c"
proof -
  have "q_tail q + 1 - q_head q = spsc_size q + 1" by (simp add: spsc_size_def)
  moreover have "unat (spsc_size q + 1) = Suc (unat (spsc_size q))"
    using size_plus_1 [OF assms(1)] assms(2) by (simp add: spsc_inv_def)
  ultimately have "unat (q_tail q + 1 - q_head q) = Suc (unat (spsc_size q))" by (simp only:)
  then show ?thesis
    using assms(2) capacity_minus_1 [OF assms(1)]
    by (auto simp: word_less_nat_alt spsc_inv_def)
qed

lemma length_contents [simp]: "length (contents c q) = unat (spsc_size q)"
  by (simp add: contents_def)

lemma contents_nth:
  "i < unat (spsc_size q) \<Longrightarrow> contents c q ! i = q_buffer q ! slot c (q_head q + of_nat i)"
  by (simp add: contents_def)

subsection \<open>What each shared write does to the abstract queue\<close>

text \<open>Writing the free slot at \<open>q_tail\<close> is invisible; advancing \<open>q_tail\<close> appends that slot's
  element; advancing \<open>q_head\<close> drops the oldest. The sequential operations and the concurrent
  steps are both built from these three facts.\<close>

definition write_slot :: "u64 \<Rightarrow> 'a spsc \<Rightarrow> 'a \<Rightarrow> 'a spsc" where
  "write_slot c q x = q\<lparr>q_buffer := (q_buffer q)[unat (q_tail q AND kMask c) := x]\<rparr>"

lemma tail_slot_free:
  assumes "valid_capacity c" "spsc_inv c q" "i < unat (spsc_size q)"
  shows "slot c (q_head q + of_nat i) \<noteq> slot c (q_tail q)"
  using slot_distinct [OF assms(1,3), of "q_head q"] assms(2) tail_is_offset [of q]
  by (simp add: spsc_inv_def)

lemma contents_write_slot:
  assumes "valid_capacity c" "spsc_inv c q"
  shows "contents c (write_slot c q x) = contents c q"
proof -
  have "q_buffer (write_slot c q x) ! slot c (q_head q + of_nat i) =
      q_buffer q ! slot c (q_head q + of_nat i)" if "i < unat (spsc_size q)" for i
    using tail_slot_free [OF assms that] by (simp add: write_slot_def slot_def)
  then show ?thesis by (simp add: contents_def) (simp add: write_slot_def spsc_size_def)
qed

lemma spsc_inv_write_slot: "spsc_inv c q \<Longrightarrow> spsc_inv c (write_slot c q x)"
  by (simp add: spsc_inv_def write_slot_def spsc_size_def)

lemma size_publish:
  assumes "valid_capacity c" "spsc_inv c q"
  shows "unat (spsc_size (q\<lparr>q_tail := q_tail q + 1\<rparr>)) = Suc (unat (spsc_size q))"
proof -
  have "spsc_size (q\<lparr>q_tail := q_tail q + 1\<rparr>) = spsc_size q + 1" by (simp add: spsc_size_def)
  then show ?thesis using size_plus_1 [OF assms(1)] assms(2) by (simp add: spsc_inv_def)
qed

lemma contents_publish:
  assumes "valid_capacity c" "spsc_inv c q" "q_buffer q ! slot c (q_tail q) = x"
  shows "contents c (q\<lparr>q_tail := q_tail q + 1\<rparr>) = contents c q @ [x]"
proof (rule nth_equalityI)
  show "length (contents c (q\<lparr>q_tail := q_tail q + 1\<rparr>)) = length (contents c q @ [x])"
    by (simp add: size_publish [OF assms(1,2)])
next
  fix i assume "i < length (contents c (q\<lparr>q_tail := q_tail q + 1\<rparr>))"
  then have "i < Suc (unat (spsc_size q))" by (simp add: size_publish [OF assms(1,2)])
  moreover have "contents c (q\<lparr>q_tail := q_tail q + 1\<rparr>) ! i =
      q_buffer q ! slot c (q_head q + of_nat i)" if "i < Suc (unat (spsc_size q))"
    using contents_nth [of i "q\<lparr>q_tail := q_tail q + 1\<rparr>" c] that
    by (simp add: size_publish [OF assms(1,2)])
  ultimately show "contents c (q\<lparr>q_tail := q_tail q + 1\<rparr>) ! i = (contents c q @ [x]) ! i"
    using assms(3) tail_is_offset [of q]
    by (cases "i = unat (spsc_size q)") (auto simp: contents_nth nth_append simp del: of_nat_unat)
qed

lemma spsc_inv_publish:
  assumes "valid_capacity c" "spsc_inv c q" "Suc (unat (spsc_size q)) < unat c"
  shows "spsc_inv c (q\<lparr>q_tail := q_tail q + 1\<rparr>)"
  using assms by (simp add: spsc_inv_def size_publish)

lemma size_zero_iff: "unat (spsc_size q) = 0 \<longleftrightarrow> q_head q = q_tail q"
  by (auto simp: spsc_size_def unat_eq_0)

lemma size_release:
  assumes "q_head q \<noteq> q_tail q"
  shows "unat (spsc_size (q\<lparr>q_head := q_head q + 1\<rparr>)) = unat (spsc_size q) - 1"
proof -
  have "spsc_size (q\<lparr>q_head := q_head q + 1\<rparr>) = spsc_size q - 1" by (simp add: spsc_size_def)
  moreover have "spsc_size q \<noteq> 0" using assms by (simp add: spsc_size_def)
  ultimately show ?thesis by (simp add: unat_minus_one)
qed

lemma contents_release:
  assumes "q_head q \<noteq> q_tail q"
  shows "contents c q = q_buffer q ! slot c (q_head q) # contents c (q\<lparr>q_head := q_head q + 1\<rparr>)"
proof -
  obtain n where n: "unat (spsc_size q) = Suc n"
    using assms size_zero_iff [of q] not0_implies_Suc by blast
  have "contents c q = map (\<lambda>i. q_buffer q ! slot c (q_head q + of_nat i)) (0 # map Suc [0..<n])"
    by (simp only: contents_def n map_Suc_upt upt_conv_Cons [OF zero_less_Suc])
  then show ?thesis using n size_release [OF assms]
    by (simp add: contents_def o_def add.assoc)
qed

lemma spsc_inv_release: "spsc_inv c q \<Longrightarrow> q_head q \<noteq> q_tail q \<Longrightarrow> spsc_inv c (q\<lparr>q_head := q_head q + 1\<rparr>)"
  by (auto simp: spsc_inv_def size_release)

section \<open>The sequential queue\<close>

lemma emplaceImpl_eq:
  assumes "valid_capacity c" "spsc_inv c q"
  shows "emplaceImpl c q x =
    (if Suc (unat (spsc_size q)) = unat c then (False, q)
     else (True, (write_slot c q x)\<lparr>q_tail := q_tail q + 1\<rparr>))"
  using full_iff [OF assms] by (simp add: emplaceImpl_def write_slot_def Let_def)

lemma spsc_pop_eq:
  "spsc_pop c q =
    (if q_head q = q_tail q then (None, q)
     else (Some (hd (contents c q)), q\<lparr>q_head := q_head q + 1\<rparr>))"
  using contents_release [of q c] by (simp add: spsc_pop_def slot_def Let_def)

lemma contents_emplace:
  assumes "valid_capacity c" "spsc_inv c q"
  shows "contents c ((write_slot c q x)\<lparr>q_tail := q_tail q + 1\<rparr>) = contents c q @ [x]"
proof -
  let ?w = "write_slot c q x"
  have "q_buffer ?w ! slot c (q_tail ?w) = x"
    using slot_bound [OF assms(1), of "q_tail q"] assms(2)
    by (simp add: write_slot_def slot_def spsc_inv_def)
  with contents_publish [OF assms(1) spsc_inv_write_slot [OF assms(2)]]
  show ?thesis by (simp add: contents_write_slot [OF assms]) (simp add: write_slot_def)
qed

lemma spsc_inv_emplace:
  assumes "valid_capacity c" "spsc_inv c q" "Suc (unat (spsc_size q)) \<noteq> unat c"
  shows "spsc_inv c ((write_slot c q x)\<lparr>q_tail := q_tail q + 1\<rparr>)"
proof -
  have "Suc (unat (spsc_size (write_slot c q x))) < unat c"
    using assms(2,3) by (simp add: write_slot_def spsc_size_def spsc_inv_def)
  from spsc_inv_publish [OF assms(1) spsc_inv_write_slot [OF assms(2)] this]
  show ?thesis by (simp add: write_slot_def)
qed

lemma spsc_fifo:
  assumes "valid_capacity c"
  shows "fifo_channel (spsc_push c) (spsc_pop c) (contents c) (spsc_inv c) (unat c - 1)"
proof
  fix q :: "'a spsc" and x
  assume inv: "spsc_inv c q"
  show "length (contents c q) \<le> unat c - 1" using inv by (auto simp: spsc_inv_def)
  show "spsc_inv c (snd (spsc_push c q x))"
    using inv spsc_inv_emplace [OF assms inv] by (auto simp: spsc_push_def emplaceImpl_eq [OF assms])
  show "spsc_inv c (snd (spsc_pop c q))"
    using inv spsc_inv_release [of c q] by (auto simp: spsc_pop_eq)
  show "fst (spsc_push c q x) \<and> contents c (snd (spsc_push c q x)) = contents c q @ [x]"
    if "length (contents c q) < unat c - 1"
    using that contents_emplace [OF assms inv]
    by (auto simp: spsc_push_def emplaceImpl_eq [OF assms inv])
  show "spsc_push c q x = (False, q)" if "\<not> length (contents c q) < unat c - 1"
    using that inv by (auto simp: spsc_push_def emplaceImpl_eq [OF assms inv] spsc_inv_def)
  show "spsc_pop c q = (None, q)" if "contents c q = []"
    using that contents_release [of q c] by (auto simp: spsc_pop_eq)
  show "fst (spsc_pop c q) = Some y \<and> contents c (snd (spsc_pop c q)) = ys"
    if "contents c q = y # ys" for y ys
    using that contents_release [of q c] size_zero_iff [of q] length_contents [of c q]
    by (auto simp: spsc_pop_eq)
qed

text \<open>
  The ring is a bounded FIFO queue, at every value of the 64-bit indices: a push is refused
  exactly when \<open>kCapacity - 1\<close> elements are buffered and otherwise appends; a pop returns the
  oldest element and fails exactly on the empty queue; \<^verbatim>\<open>size\<close>, \<^verbatim>\<open>empty\<close> and \<^verbatim>\<open>full\<close> report the
  abstract queue.
\<close>

theorem spsc_refines_bounded_fifo:
  assumes "valid_capacity c" "spsc_inv c q"
  shows "contents c (snd (spsc_push c q x)) =
           (if length (contents c q) < unat c - 1 then contents c q @ [x] else contents c q)
    \<and> (fst (spsc_push c q x) \<longleftrightarrow> length (contents c q) < unat c - 1)
    \<and> fst (spsc_pop c q) = (case contents c q of [] \<Rightarrow> None | y # _ \<Rightarrow> Some y)
    \<and> contents c (snd (spsc_pop c q)) = tl (contents c q)
    \<and> unat (spsc_size q) = length (contents c q)
    \<and> (spsc_empty q \<longleftrightarrow> contents c q = [])
    \<and> (spsc_full c q \<longleftrightarrow> \<not> fst (spsc_push c q x))"
proof -
  note laws = fifo_channel.push_room [OF spsc_fifo [OF assms(1)] assms(2)]
    fifo_channel.push_full [OF spsc_fifo [OF assms(1)] assms(2)]
    fifo_channel.pop_empty [OF spsc_fifo [OF assms(1)] assms(2)]
    fifo_channel.pop_some [OF spsc_fifo [OF assms(1)] assms(2)]
  have push: "fst (spsc_push c q x) \<longleftrightarrow> length (contents c q) < unat c - 1"
    using laws(1,2) [of x] by (cases "length (contents c q) < unat c - 1") auto
  moreover have "fst (spsc_pop c q) = (case contents c q of [] \<Rightarrow> None | y # _ \<Rightarrow> Some y)"
    "contents c (snd (spsc_pop c q)) = tl (contents c q)"
    using laws(3,4) by (cases "contents c q"; force)+
  moreover have "spsc_empty q \<longleftrightarrow> contents c q = []"
    using size_zero_iff [of q] by (simp add: spsc_empty_def contents_def)
  moreover have "spsc_full c q \<longleftrightarrow> \<not> fst (spsc_push c q x)"
    using capacity_minus_1 [OF assms(1)] by (auto simp: push spsc_full_def word_le_nat_alt)
  ultimately show ?thesis using laws(1,2) [of x] by simp
qed

lemma spsc_new_inv: "valid_capacity c \<Longrightarrow> spsc_inv c (spsc_new c d) \<and> contents c (spsc_new c d) = []"
  by (auto simp: spsc_inv_def spsc_new_def spsc_size_def contents_def elim: valid_capacityE)

section \<open>Two threads\<close>

text \<open>
  Program counters of the two threads. \<open>P_tail\<close>: the producer has loaded its own index;
  \<open>P_room\<close>: it has observed \<open>q_head\<close> and found room; \<open>P_written\<close>: the element is in its
  slot, the index not yet stored. \<open>C_head\<close>, \<open>C_nonempty\<close> and \<open>C_read\<close> are the consumer's
  counterparts. The indices they carry are the local copies of the source. \<open>accepted\<close> lists the
  elements whose push returned true, \<open>delivered\<close> those a pop returned.
\<close>

datatype 'a prod_pc = P_idle | P_tail 'a u64 | P_room 'a u64 | P_written 'a u64
datatype 'a cons_pc = C_idle | C_head u64 | C_nonempty u64 | C_read u64 'a

record 'a spsc_sys =
  chan :: "'a spsc"
  ppc :: "'a prod_pc"
  cpc :: "'a cons_pc"
  accepted :: "'a list"
  delivered :: "'a list"

inductive spsc_step :: "u64 \<Rightarrow> 'a spsc_sys \<Rightarrow> 'a spsc_sys \<Rightarrow> bool" for c where
  p_begin: "ppc s = P_idle \<Longrightarrow> spsc_step c s (s\<lparr>ppc := P_tail x (q_tail (chan s))\<rparr>)"
| p_full: "ppc s = P_tail x t \<Longrightarrow> (t + 1) - q_head (chan s) > c - 1 \<Longrightarrow>
     spsc_step c s (s\<lparr>ppc := P_idle\<rparr>)"
| p_room: "ppc s = P_tail x t \<Longrightarrow> \<not> (t + 1) - q_head (chan s) > c - 1 \<Longrightarrow>
     spsc_step c s (s\<lparr>ppc := P_room x t\<rparr>)"
| p_write: "ppc s = P_room x t \<Longrightarrow>
     spsc_step c s
       (s\<lparr>ppc := P_written x t,
          chan := (chan s)\<lparr>q_buffer := (q_buffer (chan s))[slot c t := x]\<rparr>\<rparr>)"
| p_publish: "ppc s = P_written x t \<Longrightarrow>
     spsc_step c s
       (s\<lparr>ppc := P_idle, chan := (chan s)\<lparr>q_tail := t + 1\<rparr>, accepted := accepted s @ [x]\<rparr>)"
| c_begin: "cpc s = C_idle \<Longrightarrow> spsc_step c s (s\<lparr>cpc := C_head (q_head (chan s))\<rparr>)"
| c_empty: "cpc s = C_head h \<Longrightarrow> h = q_tail (chan s) \<Longrightarrow> spsc_step c s (s\<lparr>cpc := C_idle\<rparr>)"
| c_nonempty: "cpc s = C_head h \<Longrightarrow> h \<noteq> q_tail (chan s) \<Longrightarrow>
     spsc_step c s (s\<lparr>cpc := C_nonempty h\<rparr>)"
| c_read: "cpc s = C_nonempty h \<Longrightarrow>
     spsc_step c s (s\<lparr>cpc := C_read h (q_buffer (chan s) ! slot c h)\<rparr>)"
| c_release: "cpc s = C_read h v \<Longrightarrow>
     spsc_step c s
       (s\<lparr>cpc := C_idle, chan := (chan s)\<lparr>q_head := h + 1\<rparr>, delivered := delivered s @ [v]\<rparr>)"

definition spsc_sys_init :: "u64 \<Rightarrow> 'a \<Rightarrow> 'a spsc_sys" where
  "spsc_sys_init c d =
     \<lparr>chan = spsc_new c d, ppc = P_idle, cpc = C_idle, accepted = [], delivered = []\<rparr>"

inductive spsc_reachable :: "u64 \<Rightarrow> 'a \<Rightarrow> 'a spsc_sys \<Rightarrow> bool" for c d where
  init: "spsc_reachable c d (spsc_sys_init c d)"
| step: "spsc_reachable c d s \<Longrightarrow> spsc_step c s t \<Longrightarrow> spsc_reachable c d t"

text \<open>What each thread may rely on at each program counter, whatever the other has done since.\<close>

fun prod_ok :: "u64 \<Rightarrow> 'a spsc \<Rightarrow> 'a prod_pc \<Rightarrow> bool" where
  "prod_ok c q P_idle = True"
| "prod_ok c q (P_tail x t) = (t = q_tail q)"
| "prod_ok c q (P_room x t) = (t = q_tail q \<and> Suc (unat (spsc_size q)) < unat c)"
| "prod_ok c q (P_written x t) =
     (t = q_tail q \<and> Suc (unat (spsc_size q)) < unat c \<and> q_buffer q ! slot c t = x)"

fun cons_ok :: "u64 \<Rightarrow> 'a spsc \<Rightarrow> 'a cons_pc \<Rightarrow> bool" where
  "cons_ok c q C_idle = True"
| "cons_ok c q (C_head h) = (h = q_head q)"
| "cons_ok c q (C_nonempty h) = (h = q_head q \<and> h \<noteq> q_tail q)"
| "cons_ok c q (C_read h v) = (h = q_head q \<and> h \<noteq> q_tail q \<and> q_buffer q ! slot c h = v)"

definition spsc_sys_inv :: "u64 \<Rightarrow> 'a spsc_sys \<Rightarrow> bool" where
  "spsc_sys_inv c s \<longleftrightarrow>
     spsc_inv c (chan s) \<and> prod_ok c (chan s) (ppc s) \<and> cons_ok c (chan s) (cpc s) \<and>
     accepted s = delivered s @ contents c (chan s)"

lemma head_slot_free:
  assumes "valid_capacity c" "spsc_inv c q" "q_head q \<noteq> q_tail q"
  shows "slot c (q_head q) \<noteq> slot c (q_tail q)"
  using tail_slot_free [OF assms(1,2), of 0] size_zero_iff [of q] assms(3) by simp

text \<open>The other thread's writes do not disturb what a thread relies on.\<close>

lemma cons_ok_write:
  assumes "valid_capacity c" "spsc_inv c q" "cons_ok c q p"
  shows "cons_ok c (write_slot c q x) p"
  using assms(3) head_slot_free [OF assms(1,2)]
  by (cases p) (auto simp: write_slot_def slot_def)

lemma cons_ok_publish:
  assumes "valid_capacity c" "spsc_inv c q" "cons_ok c q p"
  shows "cons_ok c (q\<lparr>q_tail := q_tail q + 1\<rparr>) p"
  using assms(3) size_publish [OF assms(1,2)] size_zero_iff [of "q\<lparr>q_tail := q_tail q + 1\<rparr>"]
  by (cases p) auto

lemma prod_ok_release:
  assumes "prod_ok c q p" "q_head q \<noteq> q_tail q"
  shows "prod_ok c (q\<lparr>q_head := q_head q + 1\<rparr>) p"
  using assms(1) size_release [OF assms(2)] by (cases p) auto

lemma spsc_sys_inv_step:
  assumes "valid_capacity c" "spsc_step c s t" "spsc_sys_inv c s"
  shows "spsc_sys_inv c t"
  using assms(2)
proof cases
  case (p_room x i)
  then have "spsc_inv c (chan s)" "i = q_tail (chan s)"
    using assms(3) by (auto simp: spsc_sys_inv_def)
  then have "Suc (unat (spsc_size (chan s))) < unat c"
    using full_iff [OF assms(1), of "chan s"] p_room(3) by (auto simp: spsc_inv_def)
  with assms(3) p_room(1,2) show ?thesis by (simp add: spsc_sys_inv_def)
next
  case (p_write x i)
  let ?q = "chan s"
  have t: "i = q_tail ?q" "Suc (unat (spsc_size ?q)) < unat c" and inv: "spsc_inv c ?q"
    using assms(3) p_write by (auto simp: spsc_sys_inv_def)
  have w: "?q\<lparr>q_buffer := (q_buffer ?q)[slot c i := x]\<rparr> = write_slot c ?q x"
    by (simp add: write_slot_def slot_def t)
  have "q_buffer (write_slot c ?q x) ! slot c (q_tail ?q) = x"
    using slot_bound [OF assms(1), of "q_tail ?q"] inv
    by (simp add: write_slot_def slot_def spsc_inv_def)
  then have "prod_ok c (write_slot c ?q x) (P_written x i)"
    using t by (simp add: write_slot_def spsc_size_def)
  moreover have "t = s\<lparr>ppc := P_written x i, chan := write_slot c ?q x\<rparr>"
    using p_write(1) by (simp only: w)
  ultimately show ?thesis
    using assms(3) cons_ok_write [OF assms(1) inv] contents_write_slot [OF assms(1) inv]
      spsc_inv_write_slot [OF inv] by (simp add: spsc_sys_inv_def del: prod_ok.simps)
next
  case (p_publish x i)
  let ?q = "chan s"
  have i: "i = q_tail ?q" "Suc (unat (spsc_size ?q)) < unat c" "q_buffer ?q ! slot c (q_tail ?q) = x"
    and inv: "spsc_inv c ?q"
    using assms(3) p_publish by (auto simp: spsc_sys_inv_def)
  with assms p_publish(1) show ?thesis
    by (simp add: spsc_sys_inv_def spsc_inv_publish cons_ok_publish contents_publish)
next
  case (c_release h v)
  let ?q = "chan s"
  have h: "h = q_head ?q" "q_head ?q \<noteq> q_tail ?q" "q_buffer ?q ! slot c (q_head ?q) = v"
    and inv: "spsc_inv c ?q"
    using assms(3) c_release by (auto simp: spsc_sys_inv_def)
  from contents_release [OF h(2), of c] h assms(3) c_release(1)
  show ?thesis by (simp add: spsc_sys_inv_def spsc_inv_release prod_ok_release)
qed (use assms(3) in \<open>auto simp: spsc_sys_inv_def\<close>)

lemma spsc_reachable_inv:
  assumes "valid_capacity c" "spsc_reachable c d s"
  shows "spsc_sys_inv c s"
  using assms(2)
proof (induction rule: spsc_reachable.induct)
  case init
  then show ?case
    using spsc_new_inv [OF assms(1), of d] by (auto simp: spsc_sys_inv_def spsc_sys_init_def)
next
  case (step s t)
  then show ?case using assms(1) by (blast intro: spsc_sys_inv_step)
qed

text \<open>
  C7. Under every interleaving of the two threads the queue delivers exactly the accepted
  elements, in order: what the consumer has received, followed by what is still buffered, is
  what the producer was told it stored. Nothing is lost, duplicated or reordered, and no more
  than \<open>kCapacity - 1\<close> elements are ever buffered.
\<close>

theorem spsc_concurrent_fifo:
  assumes "valid_capacity c" "spsc_reachable c d s"
  shows "accepted s = delivered s @ contents c (chan s)
       \<and> length (contents c (chan s)) \<le> unat c - 1"
  using spsc_reachable_inv [OF assms] by (auto simp: spsc_sys_inv_def spsc_inv_def)

text \<open>
  There is no data race on a slot: in no reachable state is the producer about to write the
  slot that the consumer is about to read.
\<close>

theorem spsc_race_free:
  assumes "valid_capacity c" "spsc_reachable c d s"
    and "ppc s = P_room x t" and "cpc s = C_nonempty h"
  shows "slot c t \<noteq> slot c h"
  using spsc_reachable_inv [OF assms(1,2)] assms(3,4) head_slot_free [OF assms(1), of "chan s"]
  by (auto simp: spsc_sys_inv_def)

text \<open>The sequential operations are the uninterrupted runs of one thread.\<close>

lemma push_is_uninterrupted_run:
  assumes "ppc s = P_idle"
  shows "(spsc_step c)\<^sup>*\<^sup>* s
           (if fst (spsc_push c (chan s) x)
            then s\<lparr>chan := snd (spsc_push c (chan s) x), accepted := accepted s @ [x]\<rparr> else s)"
proof -
  let ?q = "chan s" and ?s1 = "s\<lparr>ppc := P_tail x (q_tail (chan s))\<rparr>"
  have s1: "spsc_step c s ?s1" using assms by (rule spsc_step.p_begin)
  have idle_again: "?s1\<lparr>ppc := P_idle\<rparr> = s" using assms by simp
  show ?thesis
  proof (cases "(q_tail ?q + 1) - q_head ?q > c - 1")
    case True
    then have "spsc_step c ?s1 (?s1\<lparr>ppc := P_idle\<rparr>)" by (intro spsc_step.p_full) auto
    with s1 True show ?thesis
      unfolding idle_again by (simp add: spsc_push_def emplaceImpl_def)
  next
    case False
    let ?s2 = "?s1\<lparr>ppc := P_room x (q_tail ?q)\<rparr>"
    let ?s3 = "?s2\<lparr>ppc := P_written x (q_tail ?q),
        chan := ?q\<lparr>q_buffer := (q_buffer ?q)[slot c (q_tail ?q) := x]\<rparr>\<rparr>"
    have "spsc_step c ?s1 ?s2" using False by (intro spsc_step.p_room) auto
    moreover have "spsc_step c ?s2 ?s3" using spsc_step.p_write [of ?s2 x "q_tail ?q" c] by simp
    moreover have "spsc_step c ?s3 (?s3\<lparr>ppc := P_idle, chan := (chan ?s3)\<lparr>q_tail := q_tail ?q + 1\<rparr>,
        accepted := accepted ?s3 @ [x]\<rparr>)"
      by (rule spsc_step.p_publish) simp
    moreover have "?s3\<lparr>ppc := P_idle, chan := (chan ?s3)\<lparr>q_tail := q_tail ?q + 1\<rparr>,
        accepted := accepted ?s3 @ [x]\<rparr> =
        s\<lparr>chan := snd (spsc_push c ?q x), accepted := accepted s @ [x]\<rparr>"
      using False assms by (simp add: spsc_push_def emplaceImpl_def Let_def slot_def)
    ultimately show ?thesis
      using s1 False by (simp add: spsc_push_def emplaceImpl_def Let_def)
  qed
qed

section \<open>Witnesses\<close>

text \<open>A ring of four slots whose indices are about to wrap around \<open>2 ^ 64\<close>.\<close>

definition wrap_ring :: "nat spsc" where
  "wrap_ring = \<lparr>q_head = - 2, q_tail = - 1, q_buffer = [10, 20, 30, 40]\<rparr>"

theorem spsc_refines_bounded_fifo_witness:
  "valid_capacity 4 \<and> spsc_inv 4 wrap_ring \<and> contents 4 (snd (spsc_push 4 wrap_ring 7)) = [30, 7]
   \<and> fst (spsc_pop 4 wrap_ring) = Some 30"
proof -
  have v: "valid_capacity 4" and i: "spsc_inv 4 wrap_ring" and c: "contents 4 wrap_ring = [30]"
    by (simp_all add: valid_capacity_def spsc_inv_def wrap_ring_def spsc_size_def contents_def slot_def
        kMask_def)
  show ?thesis
    using spsc_refines_bounded_fifo [OF v i, of 7] v i by (simp add: c)
qed

lemma spsc_reachable_run: "(spsc_step c)\<^sup>*\<^sup>* s t \<Longrightarrow> spsc_reachable c d s \<Longrightarrow> spsc_reachable c d t"
  by (induction rule: rtranclp_induct) (auto intro: spsc_reachable.step)

text \<open>One element published; then both threads in the middle of their next operation.\<close>

definition one_pending :: "nat spsc_sys" where
  "one_pending =
     \<lparr>chan = \<lparr>q_head = 0, q_tail = 1, q_buffer = [5, 0, 0, 0]\<rparr>, ppc = P_idle, cpc = C_idle,
      accepted = [5], delivered = []\<rparr>"

lemma one_pending_reachable: "spsc_reachable 4 0 one_pending"
proof (rule spsc_reachable_run)
  have four: "replicate 4 x = [x, x, x, x]" for x :: nat by code_simp
  show "(spsc_step 4)\<^sup>*\<^sup>* (spsc_sys_init 4 0) one_pending"
    using push_is_uninterrupted_run [of "spsc_sys_init 4 (0 :: nat)" 4 5]
    by (simp add: spsc_sys_init_def spsc_push_def emplaceImpl_def spsc_new_def one_pending_def
        kMask_def four)
qed (rule spsc_reachable.init)

lemma both_busy_reachable:
  "spsc_reachable 4 0 (one_pending\<lparr>ppc := P_room 6 1, cpc := C_nonempty 0\<rparr>)"
proof -
  have "spsc_step 4 one_pending (one_pending\<lparr>ppc := P_tail 6 1\<rparr>)"
    using spsc_step.p_begin [of one_pending 4 6] by (simp add: one_pending_def)
  moreover have "spsc_step 4 (one_pending\<lparr>ppc := P_tail 6 1\<rparr>) (one_pending\<lparr>ppc := P_room 6 1\<rparr>)"
    using spsc_step.p_room [of "one_pending\<lparr>ppc := P_tail 6 1\<rparr>" 6 1 4] by (simp add: one_pending_def)
  moreover have "spsc_step 4 (one_pending\<lparr>ppc := P_room 6 1\<rparr>)
      (one_pending\<lparr>ppc := P_room 6 1, cpc := C_head 0\<rparr>)"
    using spsc_step.c_begin [of "one_pending\<lparr>ppc := P_room 6 1\<rparr>" 4] by (simp add: one_pending_def)
  moreover have "spsc_step 4 (one_pending\<lparr>ppc := P_room 6 1, cpc := C_head 0\<rparr>)
      (one_pending\<lparr>ppc := P_room 6 1, cpc := C_nonempty 0\<rparr>)"
    using spsc_step.c_nonempty [of "one_pending\<lparr>ppc := P_room 6 1, cpc := C_head 0\<rparr>" 0 4]
    by (simp add: one_pending_def)
  ultimately show ?thesis by (meson one_pending_reachable spsc_reachable.step)
qed

theorem spsc_concurrent_fifo_witness:
  "spsc_reachable 4 0 one_pending \<and> accepted one_pending = delivered one_pending @ contents 4 (chan one_pending)
   \<and> accepted one_pending = [5]"
proof -
  have "valid_capacity 4" by (simp add: valid_capacity_def)
  from spsc_concurrent_fifo [OF this one_pending_reachable] one_pending_reachable
  show ?thesis by (simp add: one_pending_def)
qed

theorem spsc_race_free_witness:
  "spsc_reachable 4 0 (one_pending\<lparr>ppc := P_room 6 1, cpc := C_nonempty 0\<rparr>) \<and> slot 4 1 \<noteq> slot 4 0"
proof -
  have "valid_capacity 4" by (simp add: valid_capacity_def)
  from spsc_race_free [OF this both_busy_reachable, of 6 1 0] both_busy_reachable
  show ?thesis by simp
qed

end
