(* ===== verification/SystemStateMachine.thy ===== *)
theory SystemStateMachine
  imports Prelude
begin

text \<open>
  \<^verbatim>\<open>src/model/SystemStateMachine.{h,cpp}\<close>: the production lifecycle.

  \<open>SystemStateTable\<close> is the Boost.SML transition table, row by row: \<open>None\<close> where the table has
  no row, in which case \<^verbatim>\<open>process_event\<close> leaves the state alone. \<open>ssm\<close> is the \<^verbatim>\<open>Impl\<close> struct;
  every command returns the new state and the observer calls it makes, in order. The theorems
  are the lock-out of the error state, the exact notification discipline and the fault-reason
  invariant.
\<close>

section \<open>States, events and the transition table\<close>

datatype SystemState = IDLE | RUNNING | ERROR | CALIBRATION

datatype sm_event = StartEvt | StopEvt | ResetEvt | CalibrateEvt | CalibrationDoneEvt | FaultEvt

fun SystemStateTable :: "SystemState \<Rightarrow> sm_event \<Rightarrow> SystemState option" where
  "SystemStateTable IDLE StartEvt = Some RUNNING"
| "SystemStateTable IDLE CalibrateEvt = Some CALIBRATION"
| "SystemStateTable IDLE ResetEvt = Some IDLE"
| "SystemStateTable RUNNING StopEvt = Some IDLE"
| "SystemStateTable RUNNING ResetEvt = Some IDLE"
| "SystemStateTable RUNNING StartEvt = Some RUNNING"
| "SystemStateTable CALIBRATION CalibrationDoneEvt = Some IDLE"
| "SystemStateTable CALIBRATION StopEvt = Some IDLE"
| "SystemStateTable CALIBRATION ResetEvt = Some IDLE"
| "SystemStateTable IDLE FaultEvt = Some ERROR"
| "SystemStateTable RUNNING FaultEvt = Some ERROR"
| "SystemStateTable CALIBRATION FaultEvt = Some ERROR"
| "SystemStateTable ERROR ResetEvt = Some IDLE"
| "SystemStateTable _ _ = None"

text \<open>\<^verbatim>\<open>sml::sm::process_event\<close>: an event without a matching row is dropped.\<close>

definition process_event :: "SystemState \<Rightarrow> sm_event \<Rightarrow> SystemState" where
  "process_event s e = (case SystemStateTable s e of None \<Rightarrow> s | Some s' \<Rightarrow> s')"

section \<open>The machine\<close>

text \<open>\<^verbatim>\<open>Impl\<close>. Observers are opaque callback handles; a call of one is a pair of the handle and the
  state it is given.\<close>

record 'cb ssm =
  sm :: SystemState
  observers :: "'cb list"
  lastNotified :: SystemState
  lastFaultReason :: string

type_synonym 'cb calls = "('cb \<times> SystemState) list"

definition ssm_new :: "'cb ssm" where
  "ssm_new = \<lparr>sm = IDLE, observers = [], lastNotified = IDLE, lastFaultReason = ''''\<rparr>"

definition afterDispatch :: "'cb ssm \<Rightarrow> 'cb ssm \<times> 'cb calls" where
  "afterDispatch m =
     (let now = sm m
      in if now = lastNotified m then (m, [])
         else (m\<lparr>lastNotified := now\<rparr>, map (\<lambda>cb. (cb, now)) (observers m)))"

definition dispatch_sm :: "sm_event \<Rightarrow> 'cb ssm \<Rightarrow> 'cb ssm \<times> 'cb calls" where
  "dispatch_sm e m = afterDispatch (m\<lparr>sm := process_event (sm m) e\<rparr>)"

definition ssm_start :: "'cb ssm \<Rightarrow> 'cb ssm \<times> 'cb calls" where
  "ssm_start m = dispatch_sm StartEvt m"

definition ssm_stop :: "'cb ssm \<Rightarrow> 'cb ssm \<times> 'cb calls" where
  "ssm_stop m = dispatch_sm StopEvt m"

definition ssm_reset :: "'cb ssm \<Rightarrow> 'cb ssm \<times> 'cb calls" where
  "ssm_reset m = dispatch_sm ResetEvt (m\<lparr>lastFaultReason := ''''\<rparr>)"

definition ssm_fault :: "string \<Rightarrow> 'cb ssm \<Rightarrow> 'cb ssm \<times> 'cb calls" where
  "ssm_fault reason m = dispatch_sm FaultEvt (m\<lparr>lastFaultReason := reason\<rparr>)"

definition ssm_calibrate :: "'cb ssm \<Rightarrow> 'cb ssm \<times> 'cb calls" where
  "ssm_calibrate m = dispatch_sm CalibrateEvt m"

definition ssm_calibrationDone :: "'cb ssm \<Rightarrow> 'cb ssm \<times> 'cb calls" where
  "ssm_calibrationDone m = dispatch_sm CalibrationDoneEvt m"

definition ssm_onStateChanged :: "'cb \<Rightarrow> 'cb ssm \<Rightarrow> 'cb ssm" where
  "ssm_onStateChanged cb m = m\<lparr>observers := observers m @ [cb]\<rparr>"

lemmas ssm_defs = ssm_start_def ssm_stop_def ssm_reset_def ssm_fault_def ssm_calibrate_def
  ssm_calibrationDone_def ssm_onStateChanged_def dispatch_sm_def afterDispatch_def Let_def

text \<open>The public commands as one type, so that runs are lists of commands.\<close>

datatype 'cb ssm_cmd = Start | Stop | Reset | Fault string | Calibrate | CalibrationDone | Subscribe 'cb

fun ssm_exec :: "'cb ssm \<Rightarrow> 'cb ssm_cmd \<Rightarrow> 'cb ssm \<times> 'cb calls" where
  "ssm_exec m Start = ssm_start m"
| "ssm_exec m Stop = ssm_stop m"
| "ssm_exec m Reset = ssm_reset m"
| "ssm_exec m (Fault r) = ssm_fault r m"
| "ssm_exec m Calibrate = ssm_calibrate m"
| "ssm_exec m CalibrationDone = ssm_calibrationDone m"
| "ssm_exec m (Subscribe cb) = (ssm_onStateChanged cb m, [])"

definition ssm_apply :: "'cb ssm \<Rightarrow> 'cb ssm_cmd \<Rightarrow> 'cb ssm" where
  "ssm_apply m c = fst (ssm_exec m c)"

section \<open>Invariant\<close>

definition ssm_inv :: "'cb ssm \<Rightarrow> bool" where
  "ssm_inv m \<longleftrightarrow> lastNotified m = sm m \<and> (lastFaultReason m \<noteq> '''' \<longrightarrow> sm m = ERROR)"

lemma process_event_simps [simp]:
  "process_event s FaultEvt = ERROR" "process_event s ResetEvt = IDLE"
  "process_event ERROR e = (if e = ResetEvt then IDLE else ERROR)"
  by (cases s; cases e; simp add: process_event_def)+

lemma process_event_not_error [simp]:
  "s \<noteq> ERROR \<Longrightarrow> e \<noteq> FaultEvt \<Longrightarrow> process_event s e \<noteq> ERROR"
  by (cases s; cases e) (simp_all add: process_event_def)

lemma ssm_inv_new [inv_intros]: "ssm_inv ssm_new"
  by (simp add: ssm_inv_def ssm_new_def)

lemma ssm_inv_apply [inv_intros]: "ssm_inv m \<Longrightarrow> ssm_inv (ssm_apply m c)"
  by (cases c) (auto simp: ssm_inv_def ssm_apply_def ssm_defs)

interpretation lifecycle: invariant_machine ssm_apply ssm_inv
  by unfold_locales (rule ssm_inv_apply)

lemma sm_apply:
  "sm (ssm_apply m c) =
     (case c of Start \<Rightarrow> process_event (sm m) StartEvt | Stop \<Rightarrow> process_event (sm m) StopEvt
      | Reset \<Rightarrow> IDLE | Fault r \<Rightarrow> ERROR | Calibrate \<Rightarrow> process_event (sm m) CalibrateEvt
      | CalibrationDone \<Rightarrow> process_event (sm m) CalibrationDoneEvt | Subscribe cb \<Rightarrow> sm m)"
  by (cases c) (simp_all add: ssm_apply_def ssm_defs)

interpretation lockout: guarded_machine ssm_apply "\<lambda>c. c \<noteq> Reset" "\<lambda>m. sm m = ERROR"
  by unfold_locales (simp add: sm_apply split: ssm_cmd.splits)

section \<open>Properties\<close>

text \<open>
  Safe-state lock-out. A fault drives the machine to ERROR from any state, and from then on
  no sequence of commands without a reset leaves ERROR; a reset always leads back to IDLE.
\<close>

theorem fault_locks_out:
  assumes "Reset \<notin> set cs"
  shows "sm (foldl ssm_apply (ssm_apply m (Fault r)) cs) = ERROR
       \<and> sm (ssm_apply (foldl ssm_apply (ssm_apply m (Fault r)) cs) Reset) = IDLE"
proof -
  have "sm (ssm_apply m (Fault r)) = ERROR" by (simp add: sm_apply)
  from lockout.inv_run [OF this, of cs] assms show ?thesis by (auto simp: sm_apply)
qed

theorem fault_locks_out_witness:
  "sm (foldl ssm_apply (ssm_apply (ssm_new :: nat ssm) (Fault ''E-stop'')) [Start, Stop, Calibrate]) = ERROR"
  using fault_locks_out [of "[Start, Stop, Calibrate]" "ssm_new :: nat ssm" "''E-stop''"] by simp

text \<open>
  Observers are notified exactly on real transitions: in every state a run of commands
  can reach, a command calls every registered observer once, in registration order, with the
  new state, if it changed the state, and calls nobody if it did not.
\<close>

theorem notified_iff_changed:
  shows "let m = foldl ssm_apply ssm_new cs; m' = ssm_apply m c
         in snd (ssm_exec m c) =
              (if sm m' = sm m then [] else map (\<lambda>cb. (cb, sm m')) (observers m))"
proof -
  let ?m = "foldl ssm_apply ssm_new cs"
  have "ssm_inv ?m" by (rule lifecycle.all_ops.inv_run) (simp_all add: ssm_inv_new)
  then show ?thesis
    by (cases c) (auto simp: Let_def ssm_apply_def ssm_defs ssm_inv_def)
qed

text \<open>
  A recorded fault reason implies the error state: in every reachable state
  \<^verbatim>\<open>lastFaultReason()\<close> is empty unless the machine is in ERROR, and it is the reason of the most
  recent fault when the last command was a fault.
\<close>

theorem fault_reason_only_in_error:
  shows "let m = foldl ssm_apply (ssm_new :: 'cb ssm) cs
         in (sm m = ERROR \<or> lastFaultReason m = '''') \<and> lastFaultReason (ssm_apply m (Fault r)) = r
            \<and> lastFaultReason (ssm_apply m Reset) = ''''"
proof -
  let ?m = "foldl ssm_apply (ssm_new :: 'cb ssm) cs"
  have "ssm_inv ?m" by (rule lifecycle.all_ops.inv_run) (simp_all add: ssm_inv_new)
  then show ?thesis by (auto simp: Let_def ssm_inv_def ssm_apply_def ssm_defs)
qed

end
