(* ===== verification/AlertCenter.thy ===== *)
theory AlertCenter
  imports Prelude "HOL-Library.Multiset"
begin

text \<open>
  \<^verbatim>\<open>src/presenter/AlertCenter.h\<close> and \<^verbatim>\<open>src/presenter/modelview/AlertViewModel.h\<close>: the process-wide
  alarm store with the ISA-18.2 lifecycle.

  Every mutator is a function from the store to the new store and the list of effects it has
  outside the lock, in order (the two signals, the audit hook). The wall clock is an argument:
  \<open>stamp\<close> is what \<^verbatim>\<open>formatNow()\<close> returns, \<open>now\<close> what the injected \<^verbatim>\<open>NowFn\<close> returns, in nanoseconds.
  A \<^verbatim>\<open>retranslate\<close> callback is a handle, and what calling it does to the view model is the
  parameter \<open>invoke\<close>.

  \<open>lifecycle\<close> is the abstract specification: the state machine of one alarm key, written from
  the table in the class comment. The refinement lemma says the store runs one such machine per
  key; the safety theorem (an unacknowledged alarm never disappears), the audit theorem and the
  snapshot theorems follow.
\<close>

section \<open>View models\<close>

datatype AlertSeverity = Info | Warning | Critical

datatype AlarmState = UnackActive | AckActive | RtnUnack | Shelved

record AlertViewModel =
  av_key :: string
  av_severity :: AlertSeverity
  av_title :: string
  av_message :: string
  av_timestamp :: string
  av_state :: AlarmState
  av_priority :: int
  av_retranslate :: "nat option"

record AlertHistoryEntry =
  he_alert :: AlertViewModel
  resolvedAt :: string

record Alarm =
  al_vm :: AlertViewModel
  conditionActive :: bool
  shelvedUntil :: int

record AlertCenter =
  alarms :: "Alarm list"
  history :: "AlertHistoryEntry list"
  auditSet :: bool

datatype ac_effect = AlertsChanged | HistoryChanged | Audit string string

definition kHistoryCapacity :: nat where
  "kHistoryCapacity = 50"

section \<open>Operations\<close>

definition al_key :: "Alarm \<Rightarrow> string" where
  "al_key a = av_key (al_vm a)"

definition findByKey :: "string \<Rightarrow> Alarm list \<Rightarrow> nat option" where
  "findByKey k as = find_index (\<lambda>a. al_key a = k) as"

definition pushHistoryUnlocked :: "string \<Rightarrow> AlertViewModel \<Rightarrow> AlertHistoryEntry list \<Rightarrow> AlertHistoryEntry list" where
  "pushHistoryUnlocked stamp alert h =
     (let h' = \<lparr>he_alert = alert, resolvedAt = stamp\<rparr> # h
      in if length h' > kHistoryCapacity then butlast h' else h')"

definition emitAudit :: "AlertCenter \<Rightarrow> string \<Rightarrow> string \<Rightarrow> ac_effect list" where
  "emitAudit ac action k = (if auditSet ac then [Audit action k] else [])"

text \<open>\<open>fn\<close> is whether the installed \<^verbatim>\<open>std::function\<close> is non-empty.\<close>

definition setAuditCallback :: "bool \<Rightarrow> AlertCenter \<Rightarrow> AlertCenter" where
  "setAuditCallback fn ac = ac\<lparr>auditSet := fn\<rparr>"

definition ac_raise :: "string \<Rightarrow> AlertViewModel \<Rightarrow> AlertCenter \<Rightarrow> AlertCenter \<times> ac_effect list" where
  "ac_raise stamp alert ac =
     (let stamped = (if av_timestamp alert = '''' then alert\<lparr>av_timestamp := stamp\<rparr> else alert);
          k = av_key stamped
      in case findByKey k (alarms ac) of
           None \<Rightarrow>
             (ac\<lparr>alarms := alarms ac @
                 [\<lparr>al_vm = stamped\<lparr>av_state := UnackActive\<rparr>, conditionActive = True, shelvedUntil = 0\<rparr>]\<rparr>,
              AlertsChanged # emitAudit ac ''RAISE'' k)
         | Some i \<Rightarrow>
             (let a = alarms ac ! i;
                  wasReturned = (av_state (al_vm a) = RtnUnack);
                  nxt = (if wasReturned then UnackActive else av_state (al_vm a))
              in (ac\<lparr>alarms := (alarms ac)
                       [i := a\<lparr>al_vm := stamped\<lparr>av_state := nxt\<rparr>, conditionActive := True\<rparr>]\<rparr>,
                  AlertsChanged # (if wasReturned then emitAudit ac ''REALARM'' k else []))))"

definition ac_clear :: "string \<Rightarrow> string \<Rightarrow> AlertCenter \<Rightarrow> AlertCenter \<times> ac_effect list" where
  "ac_clear stamp k ac =
     (case findByKey k (alarms ac) of
        None \<Rightarrow> (ac, [])
      | Some i \<Rightarrow>
          (let a = (alarms ac ! i)\<lparr>conditionActive := False\<rparr>
           in if av_state (al_vm a) = AckActive then
                (ac\<lparr>history := pushHistoryUnlocked stamp (al_vm a) (history ac),
                    alarms := erase_at i (alarms ac)\<rparr>,
                 AlertsChanged # HistoryChanged # emitAudit ac ''RESOLVE'' k)
              else if av_state (al_vm a) = UnackActive then
                (ac\<lparr>alarms := (alarms ac)[i := a\<lparr>al_vm := (al_vm a)\<lparr>av_state := RtnUnack\<rparr>\<rparr>]\<rparr>,
                 AlertsChanged # emitAudit ac ''RTN'' k)
              else (ac\<lparr>alarms := (alarms ac)[i := a]\<rparr>, [])))"

definition ac_acknowledge :: "string \<Rightarrow> string \<Rightarrow> AlertCenter \<Rightarrow> AlertCenter \<times> ac_effect list" where
  "ac_acknowledge stamp k ac =
     (case findByKey k (alarms ac) of
        None \<Rightarrow> (ac, [])
      | Some i \<Rightarrow>
          (let a = alarms ac ! i
           in if av_state (al_vm a) = UnackActive then
                (ac\<lparr>alarms := (alarms ac)[i := a\<lparr>al_vm := (al_vm a)\<lparr>av_state := AckActive\<rparr>\<rparr>]\<rparr>,
                 AlertsChanged # emitAudit ac ''ACK'' k)
              else if av_state (al_vm a) = RtnUnack then
                (ac\<lparr>history := pushHistoryUnlocked stamp (al_vm a) (history ac),
                    alarms := erase_at i (alarms ac)\<rparr>,
                 AlertsChanged # HistoryChanged # emitAudit ac ''RESOLVE'' k)
              else (ac, [])))"

text \<open>The clock counts nanoseconds, \<open>duration\<close> is in seconds.\<close>

definition ns_per_second :: int where
  "ns_per_second = 1000000000"

definition ac_shelve :: "string \<Rightarrow> int \<Rightarrow> int \<Rightarrow> AlertCenter \<Rightarrow> AlertCenter \<times> ac_effect list" where
  "ac_shelve k now duration ac =
     (case findByKey k (alarms ac) of
        None \<Rightarrow> (ac, [])
      | Some i \<Rightarrow>
          (let a = alarms ac ! i
           in (ac\<lparr>alarms := (alarms ac)
                    [i := a\<lparr>al_vm := (al_vm a)\<lparr>av_state := Shelved\<rparr>,
                            shelvedUntil := now + duration * ns_per_second\<rparr>]\<rparr>,
               AlertsChanged # emitAudit ac ''SHELVE'' k)))"

definition unshelved :: "Alarm \<Rightarrow> Alarm" where
  "unshelved a =
     a\<lparr>al_vm := (al_vm a)\<lparr>av_state := (if conditionActive a then UnackActive else RtnUnack)\<rparr>,
       shelvedUntil := 0\<rparr>"

definition ac_unshelve :: "string \<Rightarrow> AlertCenter \<Rightarrow> AlertCenter \<times> ac_effect list" where
  "ac_unshelve k ac =
     (case findByKey k (alarms ac) of
        None \<Rightarrow> (ac, [])
      | Some i \<Rightarrow>
          (let a = alarms ac ! i
           in if av_state (al_vm a) \<noteq> Shelved then (ac, [])
              else (ac\<lparr>alarms := (alarms ac)[i := unshelved a]\<rparr>,
                    AlertsChanged # emitAudit ac ''UNSHELVE'' k)))"

definition expired :: "int \<Rightarrow> Alarm \<Rightarrow> bool" where
  "expired now a \<longleftrightarrow> av_state (al_vm a) = Shelved \<and> now \<ge> shelvedUntil a"

definition ac_tick :: "int \<Rightarrow> AlertCenter \<Rightarrow> AlertCenter \<times> ac_effect list" where
  "ac_tick now ac =
     (let expiredKeys = map al_key (filter (expired now) (alarms ac))
      in (ac\<lparr>alarms := map (\<lambda>a. if expired now a then unshelved a else a) (alarms ac)\<rparr>,
          (if expiredKeys \<noteq> [] then [AlertsChanged] else []) @
          concat (map (emitAudit ac ''EXPIRE'') expiredKeys)))"

text \<open>\<open>stamps i\<close> is the \<^verbatim>\<open>formatNow()\<close> of the \<open>i\<close>-th entry pushed.\<close>

fun push_all_history :: "(nat \<Rightarrow> string) \<Rightarrow> nat \<Rightarrow> Alarm list \<Rightarrow> AlertHistoryEntry list \<Rightarrow> AlertHistoryEntry list" where
  "push_all_history stamps n [] h = h"
| "push_all_history stamps n (a # as) h =
     push_all_history stamps (Suc n) as (pushHistoryUnlocked (stamps n) (al_vm a) h)"

definition ac_clearAll :: "(nat \<Rightarrow> string) \<Rightarrow> AlertCenter \<Rightarrow> AlertCenter \<times> ac_effect list" where
  "ac_clearAll stamps ac =
     (if alarms ac = [] then (ac, [])
      else (ac\<lparr>history := push_all_history stamps 0 (alarms ac) (history ac), alarms := []\<rparr>,
            AlertsChanged # HistoryChanged #
            concat (map (emitAudit ac ''RESOLVE'') (map al_key (alarms ac)))))"

definition ac_clearHistory :: "AlertCenter \<Rightarrow> AlertCenter \<times> ac_effect list" where
  "ac_clearHistory ac =
     (if history ac = [] then (ac, []) else (ac\<lparr>history := []\<rparr>, [HistoryChanged]))"

definition retranslate_vm :: "(nat \<Rightarrow> AlertViewModel \<Rightarrow> AlertViewModel) \<Rightarrow> AlertViewModel \<Rightarrow> AlertViewModel" where
  "retranslate_vm invoke vm = (case av_retranslate vm of None \<Rightarrow> vm | Some h \<Rightarrow> invoke h vm)"

definition ac_retranslate ::
  "(nat \<Rightarrow> AlertViewModel \<Rightarrow> AlertViewModel) \<Rightarrow> AlertCenter \<Rightarrow> AlertCenter \<times> ac_effect list" where
  "ac_retranslate invoke ac =
     (ac\<lparr>alarms := map (\<lambda>a. a\<lparr>al_vm := retranslate_vm invoke (al_vm a)\<rparr>) (alarms ac),
         history := map (\<lambda>e. e\<lparr>he_alert := retranslate_vm invoke (he_alert e)\<rparr>) (history ac)\<rparr>,
      (if list_ex (\<lambda>a. av_retranslate (al_vm a) \<noteq> None) (alarms ac) then [AlertsChanged] else []) @
      (if list_ex (\<lambda>e. av_retranslate (he_alert e) \<noteq> None) (history ac) then [HistoryChanged] else []))"

section \<open>Queries\<close>

definition snapshot :: "AlertCenter \<Rightarrow> AlertViewModel list" where
  "snapshot ac =
     sort_key av_priority (map al_vm (filter (\<lambda>a. av_state (al_vm a) \<noteq> Shelved) (alarms ac)))"

record ShelvedView =
  sv_vm :: AlertViewModel
  deadline :: int
  secondsRemaining :: int

text \<open>\<^verbatim>\<open>std::chrono::duration_cast<seconds>\<close> truncates towards zero.\<close>

definition to_seconds :: "int \<Rightarrow> int" where
  "to_seconds ns = (if ns < 0 then - ((- ns) div ns_per_second) else ns div ns_per_second)"

text \<open>\<^verbatim>\<open>std::sort\<close> leaves the order of equal deadlines open; the model takes the stable one and
  no theorem depends on it.\<close>

definition shelvedSnapshot :: "int \<Rightarrow> AlertCenter \<Rightarrow> ShelvedView list" where
  "shelvedSnapshot now ac =
     sort_key deadline
       (map (\<lambda>a. let delta = to_seconds (shelvedUntil a - now)
                 in \<lparr>sv_vm = al_vm a, deadline = shelvedUntil a,
                     secondsRemaining = (if delta < 0 then 0 else delta)\<rparr>)
            (filter (\<lambda>a. av_state (al_vm a) = Shelved) (alarms ac)))"

section \<open>Runs\<close>

datatype ac_op =
    Raise string AlertViewModel
  | Clear string string
  | Acknowledge string string
  | Shelve string int int
  | Unshelve string
  | Tick int
  | ClearAll "nat \<Rightarrow> string"
  | ClearHistory
  | Retranslate
  | SetAuditCallback bool

fun ac_exec :: "(nat \<Rightarrow> AlertViewModel \<Rightarrow> AlertViewModel) \<Rightarrow> AlertCenter \<Rightarrow> ac_op \<Rightarrow> AlertCenter \<times> ac_effect list" where
  "ac_exec invoke ac (Raise stamp alert) = ac_raise stamp alert ac"
| "ac_exec invoke ac (Clear stamp k) = ac_clear stamp k ac"
| "ac_exec invoke ac (Acknowledge stamp k) = ac_acknowledge stamp k ac"
| "ac_exec invoke ac (Shelve k now d) = ac_shelve k now d ac"
| "ac_exec invoke ac (Unshelve k) = ac_unshelve k ac"
| "ac_exec invoke ac (Tick now) = ac_tick now ac"
| "ac_exec invoke ac (ClearAll stamps) = ac_clearAll stamps ac"
| "ac_exec invoke ac ClearHistory = ac_clearHistory ac"
| "ac_exec invoke ac Retranslate = ac_retranslate invoke ac"
| "ac_exec invoke ac (SetAuditCallback fn) = (setAuditCallback fn ac, [])"

definition ac_apply :: "(nat \<Rightarrow> AlertViewModel \<Rightarrow> AlertViewModel) \<Rightarrow> AlertCenter \<Rightarrow> ac_op \<Rightarrow> AlertCenter" where
  "ac_apply invoke ac op = fst (ac_exec invoke ac op)"

definition ac_new :: AlertCenter where
  "ac_new = \<lparr>alarms = [], history = [], auditSet = False\<rparr>"

section \<open>Specification: one lifecycle per key\<close>

text \<open>
  The life of one alarm as the class comment tabulates it. Whether the process condition is
  active is part of the phase, and has to be remembered separately only while the alarm is
  shelved, together with the deadline.
\<close>

datatype phase = Absent | ActiveUnack | ActiveAck | ReturnedUnack | Suppressed bool int

fun released :: "phase \<Rightarrow> phase" where
  "released (Suppressed c d) = (if c then ActiveUnack else ReturnedUnack)"
| "released p = p"

fun phase_raise :: "phase \<Rightarrow> phase" where
  "phase_raise ActiveAck = ActiveAck"
| "phase_raise (Suppressed c d) = Suppressed True d"
| "phase_raise _ = ActiveUnack"

fun phase_clear :: "phase \<Rightarrow> phase" where
  "phase_clear ActiveUnack = ReturnedUnack"
| "phase_clear ActiveAck = Absent"
| "phase_clear (Suppressed c d) = Suppressed False d"
| "phase_clear p = p"

fun phase_ack :: "phase \<Rightarrow> phase" where
  "phase_ack ActiveUnack = ActiveAck"
| "phase_ack ReturnedUnack = Absent"
| "phase_ack p = p"

fun phase_shelve :: "int \<Rightarrow> phase \<Rightarrow> phase" where
  "phase_shelve d Absent = Absent"
| "phase_shelve d ReturnedUnack = Suppressed False d"
| "phase_shelve d (Suppressed c d') = Suppressed c d"
| "phase_shelve d _ = Suppressed True d"

fun phase_tick :: "int \<Rightarrow> phase \<Rightarrow> phase" where
  "phase_tick now (Suppressed c d) = (if now \<ge> d then released (Suppressed c d) else Suppressed c d)"
| "phase_tick now p = p"

fun lifecycle :: "string \<Rightarrow> phase \<Rightarrow> ac_op \<Rightarrow> phase" where
  "lifecycle k p (Raise _ alert) = (if k = av_key alert then phase_raise p else p)"
| "lifecycle k p (Clear _ k') = (if k = k' then phase_clear p else p)"
| "lifecycle k p (Acknowledge _ k') = (if k = k' then phase_ack p else p)"
| "lifecycle k p (Shelve k' now d) = (if k = k' then phase_shelve (now + d * ns_per_second) p else p)"
| "lifecycle k p (Unshelve k') = (if k = k' then released p else p)"
| "lifecycle k p (Tick now) = phase_tick now p"
| "lifecycle k p (ClearAll _) = Absent"
| "lifecycle k p _ = p"

definition alarm_phase :: "Alarm \<Rightarrow> phase" where
  "alarm_phase a = (case av_state (al_vm a) of UnackActive \<Rightarrow> ActiveUnack | AckActive \<Rightarrow> ActiveAck
     | RtnUnack \<Rightarrow> ReturnedUnack | Shelved \<Rightarrow> Suppressed (conditionActive a) (shelvedUntil a))"

definition phase_of :: "AlertCenter \<Rightarrow> string \<Rightarrow> phase" where
  "phase_of ac k =
     (case lookup_by al_key (alarms ac) k of None \<Rightarrow> Absent | Some a \<Rightarrow> alarm_phase a)"

section \<open>Invariant\<close>

definition alarm_ok :: "Alarm \<Rightarrow> bool" where
  "alarm_ok a = (case av_state (al_vm a) of UnackActive \<Rightarrow> conditionActive a
     | AckActive \<Rightarrow> conditionActive a | RtnUnack \<Rightarrow> \<not> conditionActive a | Shelved \<Rightarrow> True)"

definition ac_inv :: "AlertCenter \<Rightarrow> bool" where
  "ac_inv ac \<longleftrightarrow> distinct (map al_key (alarms ac)) \<and> list_all alarm_ok (alarms ac) \<and>
     length (history ac) \<le> kHistoryCapacity"

text \<open>The retranslate callbacks are installed by the producers; their documented job is to
  rewrite the title and the message.\<close>

definition only_texts :: "(nat \<Rightarrow> AlertViewModel \<Rightarrow> AlertViewModel) \<Rightarrow> bool" where
  "only_texts invoke \<longleftrightarrow>
     (\<forall>h vm. av_key (invoke h vm) = av_key vm \<and> av_state (invoke h vm) = av_state vm)"

lemma retranslate_vm_fields:
  "only_texts invoke \<Longrightarrow> av_key (retranslate_vm invoke vm) = av_key vm \<and>
     av_state (retranslate_vm invoke vm) = av_state vm"
  by (simp add: retranslate_vm_def only_texts_def split: option.splits)

lemma push_history_bound [simp]:
  "length h \<le> kHistoryCapacity \<Longrightarrow> length (pushHistoryUnlocked st vm h) \<le> kHistoryCapacity"
  by (auto simp: pushHistoryUnlocked_def Let_def)

lemma push_all_history_bound [simp]:
  "length h \<le> kHistoryCapacity \<Longrightarrow> length (push_all_history st n as h) \<le> kHistoryCapacity"
  by (induction as arbitrary: n h) simp_all

lemma list_all_update: "list_all P xs \<Longrightarrow> P b \<Longrightarrow> list_all P (xs[i := b])"
  by (auto simp: list_all_iff dest!: set_update_subset_insert [THEN subsetD])

lemma list_all_erase: "find_index Q xs = Some i \<Longrightarrow> list_all P xs \<Longrightarrow> list_all P (erase_at i xs)"
  using set_erase_subset by (fastforce simp: list_all_iff)

lemma unshelved_key [simp]: "al_key (unshelved a) = al_key a"
  by (simp add: unshelved_def al_key_def)

lemma unshelved_ok [simp]: "alarm_ok (unshelved a)"
  by (simp add: unshelved_def alarm_ok_def)

lemma alarm_phase_unshelved [simp]:
  "av_state (al_vm a) = Shelved \<Longrightarrow> alarm_phase (unshelved a) = released (alarm_phase a)"
  by (simp add: unshelved_def alarm_phase_def)

lemma alarm_phase_tick:
  "alarm_phase (if expired now a then unshelved a else a) = phase_tick now (alarm_phase a)"
  by (auto simp: expired_def unshelved_def alarm_phase_def split: AlarmState.splits)

lemma released_unless_shelved [simp]:
  "av_state (al_vm a) \<noteq> Shelved \<Longrightarrow> released (alarm_phase a) = alarm_phase a"
  by (simp add: alarm_phase_def split: AlarmState.splits)

text \<open>The four mutators that look a key up and replace or erase what they found all go through
  these two facts.\<close>

lemma ac_inv_replace:
  "ac_inv ac \<Longrightarrow> findByKey k (alarms ac) = Some i \<Longrightarrow> al_key b = k \<Longrightarrow> alarm_ok b \<Longrightarrow>
     ac_inv (ac\<lparr>alarms := (alarms ac)[i := b]\<rparr>) \<and>
     phase_of (ac\<lparr>alarms := (alarms ac)[i := b]\<rparr>) k' = (if k' = k then alarm_phase b else phase_of ac k')"
  by (auto simp: ac_inv_def phase_of_def findByKey_def keys_update lookup_by_update list_all_update)

lemma ac_inv_resolve:
  "ac_inv ac \<Longrightarrow> findByKey k (alarms ac) = Some i \<Longrightarrow> length h \<le> kHistoryCapacity \<Longrightarrow>
     ac_inv (ac\<lparr>history := h, alarms := erase_at i (alarms ac)\<rparr>) \<and>
     phase_of (ac\<lparr>history := h, alarms := erase_at i (alarms ac)\<rparr>) k' =
       (if k' = k then Absent else phase_of ac k')"
  by (auto simp: ac_inv_def phase_of_def findByKey_def lookup_by_erase distinct_erase list_all_erase)

lemma found:
  assumes "ac_inv ac" "findByKey k (alarms ac) = Some i"
  shows "al_key (alarms ac ! i) = k \<and> alarm_ok (alarms ac ! i) \<and> phase_of ac k = alarm_phase (alarms ac ! i)"
  using assms find_key_Some [of al_key k "alarms ac" i]
  by (auto simp: findByKey_def ac_inv_def phase_of_def list_all_length)

lemma not_found: "findByKey k (alarms ac) = None \<Longrightarrow> phase_of ac k = Absent"
  by (simp add: findByKey_def phase_of_def find_key_None)

section \<open>Refinement\<close>

lemmas phase_cases = alarm_phase_def alarm_ok_def al_key_def

lemma raise_refines:
  assumes "ac_inv ac"
  shows "ac_inv (fst (ac_raise st alert ac)) \<and>
     phase_of (fst (ac_raise st alert ac)) k = lifecycle k (phase_of ac k) (Raise st alert)"
proof (cases "findByKey (av_key alert) (alarms ac)")
  case None
  then have "av_key alert \<notin> al_key ` set (alarms ac)"
    by (simp add: findByKey_def find_key_None flip: lookup_by_None_iff)
  moreover have "phase_of ac (av_key alert) = Absent" using None by (rule not_found)
  ultimately show ?thesis using assms None
    by (auto simp: ac_raise_def Let_def ac_inv_def phase_of_def lookup_by_append alarm_phase_def
        alarm_ok_def al_key_def image_iff split: option.splits AlarmState.splits)
next
  case (Some i)
  let ?a = "alarms ac ! i"
  define b where "b = ?a\<lparr>al_vm := (if av_timestamp alert = '''' then alert\<lparr>av_timestamp := st\<rparr> else alert)
    \<lparr>av_state := if av_state (al_vm ?a) = RtnUnack then UnackActive else av_state (al_vm ?a)\<rparr>,
    conditionActive := True\<rparr>"
  have "fst (ac_raise st alert ac) = ac\<lparr>alarms := (alarms ac)[i := b]\<rparr>"
    using Some by (simp add: ac_raise_def Let_def b_def)
  moreover have "al_key b = av_key alert" "alarm_ok b"
    using found [OF assms Some] by (auto simp: b_def phase_cases split: AlarmState.splits)
  moreover have "alarm_phase b = phase_raise (alarm_phase ?a)"
    by (simp add: b_def alarm_phase_def split: AlarmState.splits)
  ultimately show ?thesis using ac_inv_replace [OF assms Some] found [OF assms Some] by auto
qed

lemma clear_refines:
  assumes "ac_inv ac"
  shows "ac_inv (fst (ac_clear st k' ac)) \<and>
     phase_of (fst (ac_clear st k' ac)) k = lifecycle k (phase_of ac k) (Clear st k')"
proof (cases "findByKey k' (alarms ac)")
  case None
  with assms not_found [OF None] show ?thesis by (auto simp: ac_clear_def)
next
  case (Some i)
  let ?a = "alarms ac ! i"
  note f = found [OF assms Some] and rep = ac_inv_replace [OF assms Some]
    and res = ac_inv_resolve [OF assms Some, of "pushHistoryUnlocked st (al_vm ?a) (history ac)" k]
  have h: "length (history ac) \<le> kHistoryCapacity" using assms by (simp add: ac_inv_def)
  show ?thesis
  proof (cases "av_state (al_vm ?a)")
    case AckActive
    with Some f res h show ?thesis by (simp add: ac_clear_def Let_def alarm_phase_def)
  next
    case UnackActive
    with Some f show ?thesis
      using rep [of "?a\<lparr>conditionActive := False, al_vm := (al_vm ?a)\<lparr>av_state := RtnUnack\<rparr>\<rparr>" k]
      by (simp add: ac_clear_def Let_def phase_cases)
  next
    case RtnUnack
    with Some f show ?thesis using rep [of "?a\<lparr>conditionActive := False\<rparr>" k]
      by (simp add: ac_clear_def Let_def phase_cases)
  next
    case Shelved
    with Some f show ?thesis using rep [of "?a\<lparr>conditionActive := False\<rparr>" k]
      by (simp add: ac_clear_def Let_def phase_cases)
  qed
qed

lemma acknowledge_refines:
  assumes "ac_inv ac"
  shows "ac_inv (fst (ac_acknowledge st k' ac)) \<and>
     phase_of (fst (ac_acknowledge st k' ac)) k = lifecycle k (phase_of ac k) (Acknowledge st k')"
proof (cases "findByKey k' (alarms ac)")
  case None
  with assms not_found [OF None] show ?thesis by (auto simp: ac_acknowledge_def)
next
  case (Some i)
  let ?a = "alarms ac ! i"
  note f = found [OF assms Some]
    and res = ac_inv_resolve [OF assms Some, of "pushHistoryUnlocked st (al_vm ?a) (history ac)" k]
    and rep = ac_inv_replace [OF assms Some, of "?a\<lparr>al_vm := (al_vm ?a)\<lparr>av_state := AckActive\<rparr>\<rparr>" k]
  have h: "length (history ac) \<le> kHistoryCapacity" using assms by (simp add: ac_inv_def)
  show ?thesis
    using Some f res rep h assms
    by (cases "av_state (al_vm ?a)") (simp_all add: ac_acknowledge_def Let_def phase_cases)
qed

lemma shelve_refines:
  assumes "ac_inv ac"
  shows "ac_inv (fst (ac_shelve k' now d ac)) \<and>
     phase_of (fst (ac_shelve k' now d ac)) k = lifecycle k (phase_of ac k) (Shelve k' now d)"
proof (cases "findByKey k' (alarms ac)")
  case None
  with assms not_found [OF None] show ?thesis by (auto simp: ac_shelve_def)
next
  case (Some i)
  let ?a = "alarms ac ! i"
  note f = found [OF assms Some]
    and rep = ac_inv_replace [OF assms Some, of "?a\<lparr>al_vm := (al_vm ?a)\<lparr>av_state := Shelved\<rparr>,
                            shelvedUntil := now + d * ns_per_second\<rparr>" k]
  show ?thesis using Some f rep
    by (cases "av_state (al_vm ?a)") (simp_all add: ac_shelve_def Let_def phase_cases)
qed

lemma unshelve_refines:
  assumes "ac_inv ac"
  shows "ac_inv (fst (ac_unshelve k' ac)) \<and>
     phase_of (fst (ac_unshelve k' ac)) k = lifecycle k (phase_of ac k) (Unshelve k')"
proof (cases "findByKey k' (alarms ac)")
  case None
  with assms not_found [OF None] show ?thesis by (auto simp: ac_unshelve_def)
next
  case (Some i)
  let ?a = "alarms ac ! i"
  note f = found [OF assms Some] and rep = ac_inv_replace [OF assms Some, of "unshelved ?a" k]
  show ?thesis using Some f rep assms
    by (cases "av_state (al_vm ?a) = Shelved") (simp_all add: ac_unshelve_def Let_def)
qed

lemma map_refines:
  assumes "ac_inv ac" and "alarms ac' = map f (alarms ac)" and "length (history ac') \<le> kHistoryCapacity"
    and f: "\<And>a. alarm_ok a \<Longrightarrow> al_key (f a) = al_key a \<and> alarm_ok (f a) \<and> alarm_phase (f a) = g (alarm_phase a)"
    and g: "g Absent = Absent"
  shows "ac_inv ac' \<and> phase_of ac' k = g (phase_of ac k)"
proof -
  have ok: "\<And>a. a \<in> set (alarms ac) \<Longrightarrow> alarm_ok a" using assms(1) by (simp add: ac_inv_def list_all_iff)
  have "map al_key (alarms ac') = map al_key (alarms ac)"
    unfolding assms(2) by (simp add: f ok)
  moreover have "list_all alarm_ok (alarms ac')" using f ok by (auto simp: assms(2) list_all_iff)
  moreover have "lookup_by al_key (alarms ac') k = map_option f (lookup_by al_key (alarms ac) k)"
    unfolding assms(2) by (rule lookup_by_map) (simp add: f ok)
  ultimately show ?thesis
    using assms(1,3) f g ok by (auto simp: ac_inv_def phase_of_def dest!: lookup_by_SomeD split: option.splits)
qed

lemma tick_refines:
  assumes "ac_inv ac"
  shows "ac_inv (fst (ac_tick now ac)) \<and>
     phase_of (fst (ac_tick now ac)) k = lifecycle k (phase_of ac k) (Tick now)"
proof -
  have "ac_inv (fst (ac_tick now ac)) \<and>
     phase_of (fst (ac_tick now ac)) k = phase_tick now (phase_of ac k)"
    by (rule map_refines [OF assms, where f = "\<lambda>a. if expired now a then unshelved a else a"])
      (use assms in \<open>simp_all add: ac_tick_def Let_def ac_inv_def alarm_phase_tick\<close>)
  then show ?thesis by simp
qed

lemma retranslate_refines:
  assumes "ac_inv ac" "only_texts invoke"
  shows "ac_inv (fst (ac_retranslate invoke ac)) \<and>
     phase_of (fst (ac_retranslate invoke ac)) k = lifecycle k (phase_of ac k) Retranslate"
proof -
  have "ac_inv (fst (ac_retranslate invoke ac)) \<and>
     phase_of (fst (ac_retranslate invoke ac)) k = id (phase_of ac k)"
    by (rule map_refines [OF assms(1), where f = "\<lambda>a. a\<lparr>al_vm := retranslate_vm invoke (al_vm a)\<rparr>"])
      (use assms in \<open>auto simp: ac_retranslate_def ac_inv_def retranslate_vm_fields phase_cases
        split: AlarmState.splits\<close>)
  then show ?thesis by simp
qed

lemma ac_refines:
  assumes "only_texts invoke" "ac_inv ac"
  shows "ac_inv (ac_apply invoke ac op) \<and>
     phase_of (ac_apply invoke ac op) k = lifecycle k (phase_of ac k) op"
proof (cases op)
  case (ClearAll st)
  with assms(2) show ?thesis
    by (auto simp: ac_apply_def ac_clearAll_def ac_inv_def phase_of_def)
next
  case ClearHistory
  with assms(2) show ?thesis
    by (auto simp: ac_apply_def ac_clearHistory_def ac_inv_def phase_of_def)
next
  case (SetAuditCallback fn)
  with assms(2) show ?thesis
    by (auto simp: ac_apply_def setAuditCallback_def ac_inv_def phase_of_def)
qed (use assms in \<open>simp_all add: ac_apply_def raise_refines clear_refines acknowledge_refines
  shelve_refines unshelve_refines tick_refines retranslate_refines del: lifecycle.simps\<close>)

interpretation store: invariant_machine "ac_apply invoke" "\<lambda>ac. only_texts invoke \<and> ac_inv ac" for invoke
  by unfold_locales (simp add: ac_refines)

lemma ac_inv_new: "ac_inv ac_new"
  by (simp add: ac_inv_def ac_new_def)

lemma ac_inv_run: "only_texts invoke \<Longrightarrow> ac_inv (foldl (ac_apply invoke) ac_new ops)"
  using store.all_ops.inv_run [of invoke ac_new ops] by (simp add: ac_inv_new)

lemma phase_of_run:
  "only_texts invoke \<Longrightarrow> ac_inv ac \<Longrightarrow>
     phase_of (foldl (ac_apply invoke) ac ops) k = foldl (lifecycle k) (phase_of ac k) ops"
  by (induction ops arbitrary: ac) (simp_all add: ac_refines)

text \<open>\<open>awaiting_operator\<close>: tracked, and no acknowledgement in force.\<close>

fun awaiting_operator :: "phase \<Rightarrow> bool" where
  "awaiting_operator Absent = False"
| "awaiting_operator ActiveAck = False"
| "awaiting_operator _ = True"

fun acts_on :: "string \<Rightarrow> ac_op \<Rightarrow> bool" where
  "acts_on k (Acknowledge _ k') = (k' = k)"
| "acts_on k (ClearAll _) = True"
| "acts_on k _ = False"

lemma awaiting_step: "awaiting_operator p \<Longrightarrow> \<not> acts_on k op \<Longrightarrow> awaiting_operator (lifecycle k p op)"
  by (cases op; cases p) auto

interpretation pending: guarded_machine "ac_apply invoke" "\<lambda>op. \<not> acts_on k op"
    "\<lambda>ac. only_texts invoke \<and> ac_inv ac \<and> awaiting_operator (phase_of ac k)" for invoke k
  by unfold_locales (simp add: ac_refines awaiting_step)

section \<open>What the panel shows\<close>

lemma lookup_in_views:
  "lookup_by al_key (alarms ac) k = Some a \<Longrightarrow>
     (if av_state (al_vm a) = Shelved then al_vm a \<in> sv_vm ` set (shelvedSnapshot now ac)
      else al_vm a \<in> set (snapshot ac))"
  by (force dest: lookup_by_SomeD simp: snapshot_def shelvedSnapshot_def Let_def image_iff)

lemma tracked_is_shown:
  assumes "phase_of ac k \<noteq> Absent"
  shows "\<exists>vm. av_key vm = k \<and> (vm \<in> set (snapshot ac) \<or> vm \<in> sv_vm ` set (shelvedSnapshot now ac))"
proof -
  obtain a where a: "lookup_by al_key (alarms ac) k = Some a"
    using assms by (auto simp: phase_of_def split: option.splits)
  then have "av_key (al_vm a) = k" by (auto dest: lookup_by_SomeD simp: al_key_def)
  with lookup_in_views [OF a, of now] show ?thesis by (auto split: if_splits)
qed

section \<open>Properties\<close>

text \<open>
  C2. The store implements the documented lifecycle: after any sequence of operations on a fresh
  store, the phase of every key is what the per-key ISA-18.2 machine reaches on the same
  sequence (operations on other keys do not interfere).
\<close>

theorem alarm_store_refines_lifecycle:
  assumes "only_texts invoke"
  shows "phase_of (foldl (ac_apply invoke) ac_new ops) k = foldl (lifecycle k) Absent ops"
  using phase_of_run [OF assms ac_inv_new, of ops k] by (simp add: phase_of_def ac_new_def)

definition demo_alert :: "string \<Rightarrow> AlertViewModel" where
  "demo_alert k = \<lparr>av_key = k, av_severity = Critical, av_title = ''T'', av_message = ''M'',
     av_timestamp = '''', av_state = UnackActive, av_priority = 3, av_retranslate = None\<rparr>"

theorem alarm_store_refines_lifecycle_witness:
  "phase_of (foldl (ac_apply (\<lambda>_ vm. vm\<lparr>av_title := ''X''\<rparr>)) ac_new
      [Raise ''t'' (demo_alert ''a''), Clear ''t'' ''a'', Retranslate]) ''a'' = ReturnedUnack"
  using alarm_store_refines_lifecycle
    [of "\<lambda>_ vm. vm\<lparr>av_title := ''X''\<rparr>" "[Raise ''t'' (demo_alert ''a''), Clear ''t'' ''a'', Retranslate]" "''a''"]
  by (simp add: only_texts_def demo_alert_def)

text \<open>
  C1. An unacknowledged alarm never silently disappears: once a key is unacknowledged (active,
  returned to normal, or shelved), it stays so, and stays visible in the active or in the
  shelved list, through any sequence of operations that has no acknowledgement of that key and
  no "clear all".
\<close>

theorem unacknowledged_never_lost:
  assumes "only_texts invoke" and "ac = foldl (ac_apply invoke) ac_new ops"
    and "awaiting_operator (phase_of ac k)" and "\<forall>op \<in> set ops'. \<not> acts_on k op"
    and "ac' = foldl (ac_apply invoke) ac ops'"
  shows "awaiting_operator (phase_of ac' k) \<and>
    (\<exists>vm. av_key vm = k \<and> (vm \<in> set (snapshot ac') \<or> vm \<in> sv_vm ` set (shelvedSnapshot now ac')))"
proof -
  have "awaiting_operator (phase_of ac' k)"
    using pending.inv_run [of invoke ac k ops'] ac_inv_run [OF assms(1)] assms by auto
  moreover from this have "phase_of ac' k \<noteq> Absent" by auto
  ultimately show ?thesis using tracked_is_shown by blast
qed

theorem unacknowledged_never_lost_witness:
  "awaiting_operator (phase_of (foldl (ac_apply (\<lambda>_ vm. vm)) (ac_apply (\<lambda>_ vm. vm) ac_new
      (Raise ''t'' (demo_alert ''a''))) [Clear ''t'' ''a'', Shelve ''a'' 10 5, Tick 99]) ''a'')"
  using unacknowledged_never_lost [of "\<lambda>_ vm. vm" _ "[Raise ''t'' (demo_alert ''a'')]" "''a''"
      "[Clear ''t'' ''a'', Shelve ''a'' 10 5, Tick 99]", OF _ refl _ _ refl]
  by (simp add: only_texts_def demo_alert_def ac_apply_def ac_raise_def ac_new_def findByKey_def
      phase_of_def alarm_phase_def al_key_def)

section \<open>Audit trail\<close>

text \<open>The audit actions an operation has to journal for key \<open>k\<close>, by the phase it finds.\<close>

fun audit_spec :: "string \<Rightarrow> phase \<Rightarrow> ac_op \<Rightarrow> string list" where
  "audit_spec k p (Raise _ alert) =
     (if k \<noteq> av_key alert then [] else
        case p of Absent \<Rightarrow> [''RAISE''] | ReturnedUnack \<Rightarrow> [''REALARM''] | _ \<Rightarrow> [])"
| "audit_spec k p (Clear _ k') =
     (if k \<noteq> k' then [] else
        case p of ActiveAck \<Rightarrow> [''RESOLVE''] | ActiveUnack \<Rightarrow> [''RTN''] | _ \<Rightarrow> [])"
| "audit_spec k p (Acknowledge _ k') =
     (if k \<noteq> k' then [] else
        case p of ActiveUnack \<Rightarrow> [''ACK''] | ReturnedUnack \<Rightarrow> [''RESOLVE''] | _ \<Rightarrow> [])"
| "audit_spec k p (Shelve k' _ _) = (if k \<noteq> k' \<or> p = Absent then [] else [''SHELVE''])"
| "audit_spec k p (Unshelve k') =
     (if k \<noteq> k' then [] else case p of Suppressed _ _ \<Rightarrow> [''UNSHELVE''] | _ \<Rightarrow> [])"
| "audit_spec k p (Tick now) =
     (case p of Suppressed _ d \<Rightarrow> if now \<ge> d then [''EXPIRE''] else [] | _ \<Rightarrow> [])"
| "audit_spec k p (ClearAll _) = (if p = Absent then [] else [''RESOLVE''])"
| "audit_spec k p _ = []"

fun audits :: "string \<Rightarrow> ac_effect list \<Rightarrow> string list" where
  "audits k [] = []"
| "audits k (Audit act k' # es) = (if k' = k then act # audits k es else audits k es)"
| "audits k (_ # es) = audits k es"

lemma audits_append [simp]: "audits k (xs @ ys) = audits k xs @ audits k ys"
  by (induction k xs rule: audits.induct) auto

lemma audits_emit [simp]:
  "auditSet ac \<Longrightarrow> audits k (emitAudit ac act k') = (if k' = k then [act] else [])"
  by (simp add: emitAudit_def)

lemma audits_each:
  assumes "auditSet ac" "distinct (map al_key as)"
  shows "audits k (concat (map (emitAudit ac act) (map al_key (filter P as)))) =
     (case lookup_by al_key as k of None \<Rightarrow> [] | Some a \<Rightarrow> if P a then [act] else [])"
  using assms(2)
proof (induction as)
  case (Cons a as)
  moreover have "lookup_by al_key as k = None" if "al_key a = k"
    using Cons.prems that by (auto simp: lookup_by_None_iff)
  ultimately show ?case using assms(1) by (cases "al_key a = k") (auto simp del: map_map)
qed simp

lemma found_cases:
  assumes "ac_inv ac"
  obtains (missing) "findByKey k (alarms ac) = None" "phase_of ac k = Absent"
    | (present) i where "findByKey k (alarms ac) = Some i" "phase_of ac k = alarm_phase (alarms ac ! i)"
  using found [OF assms] not_found by (cases "findByKey k (alarms ac)") blast+

lemma audited:
  assumes "ac_inv ac" "auditSet ac"
  shows "audits k (snd (ac_exec invoke ac op)) = audit_spec k (phase_of ac k) op"
proof (cases op)
  case (Raise st alert)
  with assms(2) show ?thesis
    by (cases rule: found_cases [OF assms(1), of "av_key alert"])
      (auto simp: ac_raise_def Let_def alarm_phase_def split: AlarmState.splits)
next
  case (Clear st k')
  with assms(2) show ?thesis
    by (cases rule: found_cases [OF assms(1), of k'])
      (auto simp: ac_clear_def Let_def alarm_phase_def split: AlarmState.splits)
next
  case (Acknowledge st k')
  with assms(2) show ?thesis
    by (cases rule: found_cases [OF assms(1), of k'])
      (auto simp: ac_acknowledge_def Let_def alarm_phase_def split: AlarmState.splits)
next
  case (Shelve k' now d)
  with assms(2) show ?thesis
    by (cases rule: found_cases [OF assms(1), of k'])
      (auto simp: ac_shelve_def Let_def alarm_phase_def split: AlarmState.splits)
next
  case (Unshelve k')
  with assms(2) show ?thesis
    by (cases rule: found_cases [OF assms(1), of k'])
      (auto simp: ac_unshelve_def Let_def alarm_phase_def split: AlarmState.splits)
next
  case (Tick now)
  have "audits k (snd (ac_tick now ac)) =
      (case lookup_by al_key (alarms ac) k of None \<Rightarrow> [] | Some a \<Rightarrow> if expired now a then [''EXPIRE''] else [])"
    using audits_each [OF assms(2), of "alarms ac" k "''EXPIRE''" "expired now"] assms(1)
    by (simp add: ac_tick_def Let_def ac_inv_def)
  with Tick show ?thesis
    by (auto simp: phase_of_def alarm_phase_def expired_def split: option.splits AlarmState.splits)
next
  case (ClearAll st)
  with audits_each [OF assms(2), of "alarms ac" k "''RESOLVE''" "\<lambda>_. True"] assms(1) show ?thesis
    by (auto simp: ac_clearAll_def ac_inv_def phase_of_def alarm_phase_def
        split: option.splits AlarmState.splits)
qed (simp_all add: ac_clearHistory_def ac_retranslate_def)

text \<open>
  The audit trail is complete and exact: in every reachable state with an audit callback
  installed, an operation journals for each key exactly the action its lifecycle transition
  calls for, once, and nothing when the operation does not change that key's visible state; in
  particular an alarm that leaves the store is journalled as RESOLVE.
\<close>

theorem audit_trail_exact:
  assumes "only_texts invoke" and "ac = foldl (ac_apply invoke) ac_new ops" and "auditSet ac"
  shows "audits k (snd (ac_exec invoke ac op)) = audit_spec k (phase_of ac k) op
    \<and> (phase_of ac k \<noteq> Absent \<longrightarrow> phase_of (ac_apply invoke ac op) k = Absent \<longrightarrow>
         audits k (snd (ac_exec invoke ac op)) = [''RESOLVE''])"
proof -
  have inv: "ac_inv ac" using assms ac_inv_run by simp
  note audited [OF inv assms(3), of k invoke op] ac_refines [OF assms(1) inv, of op k]
  then show ?thesis by (cases op; cases "phase_of ac k") (auto split: if_splits)
qed

theorem audit_trail_exact_witness:
  "audits ''a'' (snd (ac_exec (\<lambda>_ vm. vm) (foldl (ac_apply (\<lambda>_ vm. vm)) ac_new
     [SetAuditCallback True, Raise ''t'' (demo_alert ''a''), Clear ''t'' ''a'']) (Acknowledge ''t'' ''a''))) = [''RESOLVE'']"
  using audit_trail_exact [of "\<lambda>_ vm. vm" _
    "[SetAuditCallback True, Raise ''t'' (demo_alert ''a''), Clear ''t'' ''a'']" "''a''" "Acknowledge ''t'' ''a''", OF _ refl]
  by (simp add: only_texts_def demo_alert_def ac_apply_def ac_raise_def ac_clear_def setAuditCallback_def ac_new_def
      findByKey_def phase_of_def alarm_phase_def al_key_def Let_def)

text \<open>
  The two inventories the panel renders partition the alarms: every alarm is in exactly one
  of them. The active list is ordered by priority with ties in insertion order (\<^verbatim>\<open>stable_sort\<close>);
  the shelved list is ordered by deadline and its countdown is never negative.
\<close>

theorem snapshots_partition_and_order:
  shows "mset (snapshot ac) + mset (map sv_vm (shelvedSnapshot now ac)) = mset (map al_vm (alarms ac))
    \<and> list_all (\<lambda>vm. av_state vm \<noteq> Shelved) (snapshot ac)
    \<and> list_all (\<lambda>sv. av_state (sv_vm sv) = Shelved \<and> 0 \<le> secondsRemaining sv) (shelvedSnapshot now ac)
    \<and> sorted (map av_priority (snapshot ac)) \<and> sorted (map deadline (shelvedSnapshot now ac))
    \<and> filter (\<lambda>vm. av_priority vm = p) (snapshot ac) =
        filter (\<lambda>vm. av_priority vm = p) (map al_vm (filter (\<lambda>a. av_state (al_vm a) \<noteq> Shelved) (alarms ac)))"
proof -
  have "mset (map al_vm (filter (\<lambda>a. av_state (al_vm a) \<noteq> Shelved) as)) +
      mset (map al_vm (filter (\<lambda>a. av_state (al_vm a) = Shelved) as)) = mset (map al_vm as)" for as
    by (induction as) auto
  from this [of "alarms ac"] have "mset (map al_vm (filter (\<lambda>a. av_state (al_vm a) \<noteq> Shelved) (alarms ac))) +
      mset (map al_vm (filter (\<lambda>a. av_state (al_vm a) = Shelved) (alarms ac))) = mset (map al_vm (alarms ac))" .
  moreover have "mset (map sv_vm (shelvedSnapshot now ac)) =
      mset (map al_vm (filter (\<lambda>a. av_state (al_vm a) = Shelved) (alarms ac)))"
    by (simp add: shelvedSnapshot_def Let_def image_mset.compositionality comp_def)
  ultimately show ?thesis
    by (auto simp: snapshot_def shelvedSnapshot_def Let_def sort_key_stable list_all_iff)
qed

section \<open>History\<close>

lemma pushHistory_take:
  "length h \<le> kHistoryCapacity \<Longrightarrow>
     pushHistoryUnlocked st vm h = take kHistoryCapacity (\<lparr>he_alert = vm, resolvedAt = st\<rparr> # h)"
  by (cases "length h = kHistoryCapacity")
    (auto simp: pushHistoryUnlocked_def Let_def butlast_conv_take take_Cons' kHistoryCapacity_def)

lemma push_all_history_take:
  "length h \<le> kHistoryCapacity \<Longrightarrow>
     push_all_history stamps n as h = take kHistoryCapacity
       (rev (map (\<lambda>(i, a). \<lparr>he_alert = al_vm a, resolvedAt = stamps i\<rparr>) (enumerate n as)) @ h)"
proof (induction as arbitrary: n h)
  case (Cons a as)
  let ?e = "\<lparr>he_alert = al_vm a, resolvedAt = stamps n\<rparr>"
  have "take c (xs @ take c (?e # h)) = take c (xs @ ?e # h)" for c xs
    by (simp add: take_take min_def)
  with Cons show ?case by (simp add: pushHistory_take)
qed simp

text \<open>The entries an operation has to add to the history, newest first.\<close>

definition resolved_by :: "AlertCenter \<Rightarrow> ac_op \<Rightarrow> AlertHistoryEntry list" where
  "resolved_by ac op =
     (case op of
        Clear st k \<Rightarrow> (case lookup_by al_key (alarms ac) k of
            Some a \<Rightarrow> if av_state (al_vm a) = AckActive then [\<lparr>he_alert = al_vm a, resolvedAt = st\<rparr>] else []
          | None \<Rightarrow> [])
      | Acknowledge st k \<Rightarrow> (case lookup_by al_key (alarms ac) k of
            Some a \<Rightarrow> if av_state (al_vm a) = RtnUnack then [\<lparr>he_alert = al_vm a, resolvedAt = st\<rparr>] else []
          | None \<Rightarrow> [])
      | ClearAll stamps \<Rightarrow>
          rev (map (\<lambda>(i, a). \<lparr>he_alert = al_vm a, resolvedAt = stamps i\<rparr>) (enumerate 0 (alarms ac)))
      | _ \<Rightarrow> [])"

text \<open>
  The history is the bounded newest-first log of the resolutions: in every reachable state it
  has at most 50 entries, and an operation other than wiping or retranslating it puts exactly the
  alarms it resolved in front and keeps the newest 50.
\<close>

theorem history_is_bounded_log:
  assumes "only_texts invoke" and "ac = foldl (ac_apply invoke) ac_new ops"
  shows "length (history ac) \<le> kHistoryCapacity \<and>
    (op \<noteq> ClearHistory \<longrightarrow> op \<noteq> Retranslate \<longrightarrow>
       history (ac_apply invoke ac op) = take kHistoryCapacity (resolved_by ac op @ history ac))"
proof -
  have h: "length (history ac) \<le> kHistoryCapacity"
    using assms ac_inv_run by (simp add: ac_inv_def)
  have "history (ac_apply invoke ac op) = take kHistoryCapacity (resolved_by ac op @ history ac)"
    if "op \<noteq> ClearHistory" "op \<noteq> Retranslate"
    using h that
    by (cases op) (auto simp: ac_apply_def resolved_by_def ac_raise_def ac_clear_def ac_acknowledge_def ac_shelve_def
        ac_unshelve_def ac_tick_def ac_clearAll_def setAuditCallback_def Let_def findByKey_def
        pushHistory_take push_all_history_take kHistoryCapacity_def
        dest: find_key_Some find_key_None split: option.splits)
  with h show ?thesis by blast
qed

theorem history_is_bounded_log_witness:
  "length (history (ac_apply (\<lambda>_ vm. vm) (foldl (ac_apply (\<lambda>_ vm. vm)) ac_new
     [Raise ''t'' (demo_alert ''a''), Clear ''t'' ''a'']) (Acknowledge ''u'' ''a''))) = 1"
  using history_is_bounded_log [of "\<lambda>_ vm. vm" _
    "[Raise ''t'' (demo_alert ''a''), Clear ''t'' ''a'']" "Acknowledge ''u'' ''a''", OF _ refl]
  by (simp add: only_texts_def demo_alert_def ac_apply_def ac_raise_def ac_clear_def ac_new_def kHistoryCapacity_def
      findByKey_def resolved_by_def alarm_phase_def al_key_def Let_def)

end
