(* ===== verification/FlashFrame.thy ===== *)
theory FlashFrame
  imports Prelude
begin

text \<open>
  \<^verbatim>\<open>src/integration/FlashFrame.{h,cpp}\<close>: frames of the UART flash protocol, their CRC-16 and the
  image CRC-32.

  The CRC registers have the width the source gives them: a 32-bit \<^verbatim>\<open>unsigned\<close> masked to 16 bits
  after each shift, and a \<^verbatim>\<open>uint32_t\<close>. \<open>Inl\<close> is the \<^verbatim>\<open>std::length_error\<close>. The theorems: the layout
  of an encoded frame, and what the CRC-16 detects, proved by linearity of the register step and
  its injectivity.
\<close>

section \<open>Frames and checksums\<close>

record FlashFrame =
  ff_type :: byte
  ff_seq :: u16
  ff_payload :: "byte list"

definition kFlashStartByte :: byte where "kFlashStartByte = 0xA5"
definition kFlashMaxPayloadBytes :: nat where "kFlashMaxPayloadBytes = 260"
definition kFlashHeaderBytes :: nat where "kFlashHeaderBytes = 6"
definition kFlashTrailerBytes :: nat where "kFlashTrailerBytes = 2"

lemmas flash_consts = kFlashStartByte_def kFlashMaxPayloadBytes_def kFlashHeaderBytes_def
  kFlashTrailerBytes_def

definition appendLittleEndian :: "byte list \<Rightarrow> u16 \<Rightarrow> byte list" where
  "appendLittleEndian out value =
     (let wide = (ucast value :: u32)
      in out @ [ucast (wide AND 0xFF), ucast (drop_bit 8 wide)])"

text \<open>One iteration of the inner loop of \<^verbatim>\<open>crc16CcittFalse\<close>, one of its outer loop, and the
  function.\<close>

definition crc16_bit :: "u32 \<Rightarrow> u32" where
  "crc16_bit crc =
     (if crc AND 0x8000 \<noteq> 0 then push_bit 1 crc XOR 0x1021 else push_bit 1 crc) AND 0xFFFF"

definition crc16_byte :: "u32 \<Rightarrow> byte \<Rightarrow> u32" where
  "crc16_byte crc b = (crc16_bit ^^ 8) (crc XOR push_bit 8 (ucast b))"

definition crc16CcittFalse :: "byte list \<Rightarrow> u16" where
  "crc16CcittFalse bytes = ucast (foldl crc16_byte 0xFFFF bytes)"

definition crc32_bit :: "u32 \<Rightarrow> u32" where
  "crc32_bit crc =
     (let lowBitSet = crc AND 1; crc = drop_bit 1 crc
      in if lowBitSet \<noteq> 0 then crc XOR 0xEDB88320 else crc)"

definition crc32_byte :: "u32 \<Rightarrow> byte \<Rightarrow> u32" where
  "crc32_byte crc b = (crc32_bit ^^ 8) (crc XOR ucast b)"

definition crc32IsoHdlc :: "byte list \<Rightarrow> u32" where
  "crc32IsoHdlc bytes = foldl crc32_byte 0xFFFFFFFF bytes XOR 0xFFFFFFFF"

datatype flash_error = LengthError nat

definition encodeFlashFrame :: "FlashFrame \<Rightarrow> flash_error + byte list" where
  "encodeFlashFrame frame =
     (if length (ff_payload frame) > kFlashMaxPayloadBytes then Inl (LengthError (length (ff_payload frame)))
      else
        let out = [kFlashStartByte, ff_type frame];
            out = appendLittleEndian out (ff_seq frame);
            out = appendLittleEndian out (of_nat (length (ff_payload frame)));
            out = out @ ff_payload frame;
            crc = crc16CcittFalse (drop 1 out)
        in Inr (appendLittleEndian out crc))"

section \<open>The CRC-16 register is linear and its step is injective\<close>

text \<open>The same step on the 16-bit register the mask keeps.\<close>

definition reg_bit :: "u16 \<Rightarrow> u16" where
  "reg_bit c = (if bit c 15 then push_bit 1 c XOR 0x1021 else push_bit 1 c)"

definition reg_byte :: "u16 \<Rightarrow> byte \<Rightarrow> u16" where
  "reg_byte c b = (reg_bit ^^ 8) (c XOR push_bit 8 (ucast b))"

lemma and_8000_iff: "(c :: u32) AND 0x8000 \<noteq> 0 \<longleftrightarrow> bit c 15"
proof -
  have "(0x8000 :: u32) = push_bit 15 1" by simp
  then show ?thesis by (metis and_exp_eq_0_iff_not_bit push_bit_of_1)
qed

lemma crc16_bit_reg: "crc16_bit (ucast c) = ucast (reg_bit c)"
proof -
  have m: "(0xFFFF :: u32) = mask 16" by (simp add: mask_eq_exp_minus_1)
  have "(ucast (push_bit 1 c) :: u32) = take_bit 16 (push_bit 1 (ucast c))"
    by (rule bit_word_eqI) (auto simp: bit_simps simp del: push_bit_Suc push_bit_numeral)
  then show ?thesis
    by (simp add: crc16_bit_def reg_bit_def m and_8000_iff bit_simps unsigned_xor_eq
        flip: take_bit_eq_mask)
qed

lemma crc16_byte_reg: "crc16_byte (ucast c) b = ucast (reg_byte c b)"
proof -
  have "(crc16_bit ^^ n) (ucast c) = ucast ((reg_bit ^^ n) c)" for n c
    by (induction n) (simp_all add: crc16_bit_reg)
  moreover have "(ucast c :: u32) XOR push_bit 8 (ucast b) = ucast (c XOR push_bit 8 (ucast b :: u16))"
    by (rule bit_word_eqI) (auto simp: bit_simps dest: bit_imp_le_length)
  ultimately show ?thesis by (simp add: crc16_byte_def reg_byte_def)
qed

lemma crc16_reg: "crc16CcittFalse bytes = foldl reg_byte 0xFFFF bytes"
proof -
  have "foldl crc16_byte (ucast c) bytes = ucast (foldl reg_byte c bytes)" for c
    by (induction bytes arbitrary: c) (simp_all add: crc16_byte_reg)
  from this [of "0xFFFF"] show ?thesis
    by (simp add: crc16CcittFalse_def) (rule bit_word_eqI, auto simp: bit_simps)
qed

lemma word_xor_eq_0: "a XOR b = 0 \<Longrightarrow> a = b" for a b :: "'a::len word"
  by (metis xor.assoc xor.right_neutral xor_self_eq xor.left_neutral)

lemma reg_bit_xor: "reg_bit (c XOR d) = reg_bit c XOR reg_bit d"
  by (auto simp: reg_bit_def bit_simps push_bit_xor ac_simps)

lemma reg_bit_0 [simp]: "reg_bit 0 = 0"
  by (simp add: reg_bit_def)

lemma bit_reg_bit_0: "bit (reg_bit c) 0 \<longleftrightarrow> bit c 15"
proof -
  have "bit (push_bit 1 c XOR 0x1021) 0" "\<not> bit (push_bit 1 c) 0"
    unfolding bit_xor_iff bit_push_bit_iff by simp_all
  then show ?thesis by (simp only: reg_bit_def) auto
qed

lemma push_1_eq_0: "push_bit 1 c = 0 \<Longrightarrow> \<not> bit c 15 \<Longrightarrow> c = 0" for c :: u16
proof (rule bit_word_eqI)
  fix n assume p: "push_bit 1 c = 0" "\<not> bit c 15" and n: "n < LENGTH(16)"
  have "bit (push_bit 1 c) (Suc n) = False" unfolding p(1) by simp
  with n p(2) show "bit c n = bit 0 n"
    by (cases "n = 15") (auto simp: bit_push_bit_iff simp del: push_bit_Suc push_bit_numeral)
qed

lemma reg_bit_eq_0: "reg_bit c = 0 \<Longrightarrow> c = 0"
proof -
  assume z: "reg_bit c = 0"
  then have top: "\<not> bit c 15" using bit_reg_bit_0 [of c] by simp
  with z have "push_bit 1 c = 0" by (simp only: reg_bit_def if_False)
  then show "c = 0" using top by (rule push_1_eq_0)
qed

abbreviation reg8 :: "u16 \<Rightarrow> u16" where "reg8 \<equiv> reg_bit ^^ 8"

lemma regn_xor: "(reg_bit ^^ n) (c XOR d) = (reg_bit ^^ n) c XOR (reg_bit ^^ n) d"
  by (induction n) (simp_all add: reg_bit_xor)

lemma regn_eq_0: "(reg_bit ^^ n) c = 0 \<Longrightarrow> c = 0"
  by (induction n) (auto dest: reg_bit_eq_0)

lemma regn_inj: "(reg_bit ^^ n) c = (reg_bit ^^ n) d \<Longrightarrow> c = d"
  using regn_eq_0 [of n "c XOR d"] word_xor_eq_0 by (simp add: regn_xor)

lemma foldl_reg_inj: "foldl reg_byte c bs = foldl reg_byte d bs \<Longrightarrow> c = d"
proof (induction bs arbitrary: c d)
  case (Cons b bs)
  then have "reg_byte c b = reg_byte d b" by auto
  then have "c XOR push_bit 8 (ucast b) = d XOR push_bit 8 (ucast b)"
    unfolding reg_byte_def by (rule regn_inj)
  then have "(c XOR push_bit 8 (ucast b)) XOR push_bit 8 (ucast b)
      = (d XOR push_bit 8 (ucast b)) XOR push_bit 8 (ucast b)" by simp
  then show ?case by (simp add: xor.assoc)
qed simp

text \<open>Eight steps move a register that holds only a low byte to the high byte, because no set bit
  reaches the top.\<close>

lemma regn_low: "n \<le> 8 \<Longrightarrow> (reg_bit ^^ n) (ucast (b :: byte)) = push_bit n (ucast b)"
proof (induction n)
  case (Suc n)
  have "\<not> bit (push_bit n (ucast b :: u16)) 15"
    using Suc.prems by (auto simp: bit_simps dest: bit_imp_le_length)
  with Suc show ?case by (simp add: reg_bit_def)
qed simp

lemma reg_two_bytes:
  "reg_byte (reg_byte c x) y = reg8 (reg8 (c XOR (push_bit 8 (ucast x) XOR ucast y)))"
proof -
  have "reg8 (c XOR push_bit 8 (ucast x)) XOR push_bit 8 (ucast y) =
      reg8 (c XOR push_bit 8 (ucast x)) XOR reg8 (ucast y)"
    using regn_low [of 8 y] by simp
  then show ?thesis by (simp only: reg_byte_def regn_xor [symmetric] xor.assoc)
qed

lemma two_bytes_inj:
  assumes "reg_byte (reg_byte c x) y = reg_byte (reg_byte c x') y'"
  shows "x = x' \<and> y = y'"
proof -
  let ?j = "\<lambda>x y :: byte. push_bit 8 (ucast x) XOR ucast y :: u16"
  have "c XOR ?j x y = c XOR ?j x' y'"
    using assms unfolding reg_two_bytes by (rule regn_inj [OF regn_inj])
  then have "c XOR (c XOR ?j x y) = c XOR (c XOR ?j x' y')" by simp
  then have e: "?j x y = ?j x' y'" by (simp add: xor.assoc [symmetric])
  have j: "?j x y = ucast y OR push_bit 8 (ucast x)" for x y
    by (rule bit_word_eqI) (auto simp: bit_simps dest: bit_imp_le_length)
  have "ucast y OR push_bit 8 (ucast x) = (ucast y' OR push_bit 8 (ucast x') :: u16)" using e unfolding j .
  then have "(ucast (ucast y OR push_bit 8 (ucast x) :: u16) :: byte) = ucast (ucast y' OR push_bit 8 (ucast x') :: u16)"
    "(ucast (drop_bit 8 (ucast y OR push_bit 8 (ucast x) :: u16)) :: byte) =
       ucast (drop_bit 8 (ucast y' OR push_bit 8 (ucast x') :: u16))" by simp_all
  then show ?thesis unfolding split_low_16 split_high_16 by simp
qed

lemma funpow_8: "(f ^^ 8) x = f (f (f (f (f (f (f (f x)))))))"
  by (simp add: eval_nat_numeral)

section \<open>Properties\<close>

text \<open>
  The checksums are the standard ones on the standard check string "123456789":
  CRC-16/CCITT-FALSE gives 0x29B1 and CRC-32/ISO-HDLC gives 0xCBF43926.
\<close>

theorem crc_check_values:
  shows "crc16CcittFalse [49, 50, 51, 52, 53, 54, 55, 56, 57] = 0x29B1 \<and>
         crc32IsoHdlc [49, 50, 51, 52, 53, 54, 55, 56, 57] = 0xCBF43926"
  by (simp add: crc16CcittFalse_def crc16_byte_def crc16_bit_def crc32IsoHdlc_def crc32_byte_def
      crc32_bit_def funpow_8)

text \<open>
  The frame CRC detects every corruption confined to two adjacent bytes (every burst of up to
  nine bits, every single damaged byte): if two byte strings agree except in two neighbouring
  positions and have the same CRC-16, they are equal.
\<close>

theorem crc16_detects_adjacent_corruption:
  shows "(crc16CcittFalse (xs @ [a, b] @ ys) = crc16CcittFalse (xs @ [a', b'] @ ys)) = (a = a' \<and> b = b')"
  by (auto simp: crc16_reg dest!: foldl_reg_inj two_bytes_inj)

end
