(* ===== verification/FlashFrameParser.thy ===== *)
theory FlashFrameParser
  imports FlashFrame
begin

text \<open>
  \<^verbatim>\<open>src/integration/FlashFrameParser.{h,cpp}\<close>: splits the serial byte stream into flash frames and
  telemetry text.

  \<open>scan\<close> is the \<^verbatim>\<open>while\<close> loop of \<^verbatim>\<open>consume\<close>; its first argument is what is left of \<^verbatim>\<open>work\<close> from
  \<^verbatim>\<open>pos\<close> on, so the loop terminates because every turn that goes on shortens it. The theorems:
  cutting the stream anywhere changes nothing (the parser interprets \<open>stream_parser\<close>), a stream of
  encoded frames and text is read back exactly, every byte is accounted for and an accepted frame
  is byte for byte an encoded frame, and the buffer never holds more than one frame.
\<close>

section \<open>The parser\<close>

record FlashStreamOutput =
  frames :: "FlashFrame list"
  out_text :: string

record FlashFrameParser =
  fp_buffer :: "byte list"
  falseStarts :: nat

definition kTypeOffset :: nat where "kTypeOffset = 1"
definition kSeqOffset :: nat where "kSeqOffset = 2"
definition kLenOffset :: nat where "kLenOffset = 4"

lemmas offset_consts = kTypeOffset_def kSeqOffset_def kLenOffset_def

definition readLittleEndian :: "byte list \<Rightarrow> nat \<Rightarrow> u16" where
  "readLittleEndian buf offset =
     (let low = (ucast (buf ! offset) :: u32); high = (ucast (buf ! (offset + 1)) :: u32)
      in ucast (low OR push_bit 8 high))"

function scan :: "byte list \<Rightarrow> nat \<Rightarrow> FlashStreamOutput \<Rightarrow> FlashStreamOutput \<times> nat \<times> byte list" where
  "scan work fs out =
     (if work = [] then (out, fs, [])
      else if hd work \<noteq> kFlashStartByte
        then scan (tl work) fs (out\<lparr>out_text := out_text out @ [byte_char (hd work)]\<rparr>)
      else
        let available = length work
        in if available < kFlashHeaderBytes then (out, fs, work)
        else
          let len = unat (readLittleEndian work kLenOffset)
          in if len > kFlashMaxPayloadBytes then scan (tl work) (fs + 1) out
          else
            let total = kFlashHeaderBytes + len + kFlashTrailerBytes
            in if available < total then (out, fs, work)
            else
              let crcOffset = kFlashHeaderBytes + len;
                  received = readLittleEndian work crcOffset;
                  computed = crc16CcittFalse (take (crcOffset - 1) (drop kTypeOffset work))
              in if received \<noteq> computed then scan (tl work) (fs + 1) out
              else
                let frame = \<lparr>ff_type = work ! kTypeOffset, ff_seq = readLittleEndian work kSeqOffset,
                             ff_payload = take len (drop kFlashHeaderBytes work)\<rparr>
                in scan (drop total work) fs (out\<lparr>frames := frames out @ [frame]\<rparr>))"
  by pat_completeness auto
termination
  by (relation "measure (\<lambda>(work, fs, out). length work)") (auto simp: flash_consts)

declare scan.simps [simp del]

definition no_output :: FlashStreamOutput where
  "no_output = \<lparr>frames = [], out_text = []\<rparr>"

definition fp_consume :: "FlashFrameParser \<Rightarrow> byte list \<Rightarrow> FlashFrameParser \<times> FlashStreamOutput" where
  "fp_consume p bytes =
     (let work = fp_buffer p @ bytes;
          (out, fs, rest) = scan work (falseStarts p) no_output
      in (\<lparr>fp_buffer = rest, falseStarts = fs\<rparr>, out))"

definition fp_new :: FlashFrameParser where
  "fp_new = \<lparr>fp_buffer = [], falseStarts = 0\<rparr>"

section \<open>One turn of the loop\<close>

text \<open>What the loop does with the front of the remaining bytes: the turn depends only on the
  bytes it inspects, which is why more input never changes it.\<close>

datatype turn = Stop | TextByte | FalseStart | Frame nat FlashFrame

definition turn_of :: "byte list \<Rightarrow> turn" where
  "turn_of work =
     (if work = [] then Stop else if hd work \<noteq> kFlashStartByte then TextByte
      else if length work < 6 then Stop
      else let len = unat (readLittleEndian work 4) in
        if len > 260 then FalseStart else if length work < 8 + len then Stop
        else if readLittleEndian work (6 + len) \<noteq> crc16CcittFalse (take (5 + len) (tl work)) then FalseStart
        else Frame (8 + len) \<lparr>ff_type = work ! 1, ff_seq = readLittleEndian work 2,
                              ff_payload = take len (drop 6 work)\<rparr>)"

lemma scan_turn:
  "scan work fs out = (case turn_of work of
       Stop \<Rightarrow> (out, fs, work)
     | TextByte \<Rightarrow> scan (tl work) fs (out\<lparr>out_text := out_text out @ [byte_char (hd work)]\<rparr>)
     | FalseStart \<Rightarrow> scan (tl work) (fs + 1) out
     | Frame n f \<Rightarrow> scan (drop n work) fs (out\<lparr>frames := frames out @ [f]\<rparr>))"
  by (subst scan.simps)
    (simp add: turn_of_def flash_consts offset_consts Let_def drop_Suc)

lemma turn_nonempty: "turn_of work \<noteq> Stop \<Longrightarrow> work \<noteq> []"
  by (auto simp: turn_of_def)

lemma turn_Frame_length: "turn_of work = Frame n f \<Longrightarrow> 8 \<le> n \<and> n \<le> length work"
  by (auto simp: turn_of_def Let_def split: if_splits)

lemma read_append:
  "off + 1 < length xs \<Longrightarrow> readLittleEndian (xs @ ys) off = readLittleEndian xs off"
  by (simp add: readLittleEndian_def nth_append)

lemma turn_stable: "turn_of work \<noteq> Stop \<Longrightarrow> turn_of (work @ ext) = turn_of work"
proof (cases "work \<noteq> [] \<and> hd work = kFlashStartByte")
  case False
  assume "turn_of work \<noteq> Stop"
  with False show ?thesis by (auto simp: turn_of_def)
next
  case True
  assume t: "turn_of work \<noteq> Stop"
  with True have six: "6 \<le> length work" by (auto simp: turn_of_def split: if_splits)
  let ?len = "unat (readLittleEndian work 4)"
  have fields: "readLittleEndian (work @ ext) 4 = readLittleEndian work 4"
    "readLittleEndian (work @ ext) 2 = readLittleEndian work 2" "(work @ ext) ! 1 = work ! 1"
    using six by (simp_all add: read_append nth_append)
  show ?thesis
  proof (cases "?len > 260")
    case True
    with fields six \<open>work \<noteq> [] \<and> _\<close> show ?thesis by (simp add: turn_of_def)
  next
    case False
    with t six True have all: "8 + ?len \<le> length work"
      by (auto simp: turn_of_def Let_def split: if_splits)
    then have "readLittleEndian (work @ ext) (6 + ?len) = readLittleEndian work (6 + ?len)"
      by (intro read_append) simp
    moreover have "take (5 + ?len) (tl (work @ ext)) = take (5 + ?len) (tl work)"
      "take ?len (drop 6 (work @ ext)) = take ?len (drop 6 work)" using all True by simp_all
    ultimately show ?thesis using fields six True False all unfolding turn_of_def Let_def by simp
  qed
qed

text \<open>Induction over the turns of a scan.\<close>

lemma scan_induct [case_names stop plain false_start frame]:
  assumes "\<And>work. turn_of work = Stop \<Longrightarrow> P work"
    and "\<And>work. turn_of work = TextByte \<Longrightarrow> P (tl work) \<Longrightarrow> P work"
    and "\<And>work. turn_of work = FalseStart \<Longrightarrow> P (tl work) \<Longrightarrow> P work"
    and "\<And>work n f. turn_of work = Frame n f \<Longrightarrow> P (drop n work) \<Longrightarrow> P work"
  shows "P work"
proof (induction "length work" arbitrary: work rule: less_induct)
  case less
  have "turn_of work \<noteq> Stop \<Longrightarrow> length (tl work) < length work"
    using turn_nonempty by (cases work) auto
  moreover have "turn_of work = Frame n f \<Longrightarrow> length (drop n work) < length work" for n f
    using turn_Frame_length turn_nonempty [of work] by force
  ultimately show ?case using less assms by (cases "turn_of work") (blast | simp)+
qed

section \<open>Chunk independence\<close>

definition join_output :: "FlashStreamOutput \<Rightarrow> FlashStreamOutput \<Rightarrow> FlashStreamOutput" where
  "join_output u v = \<lparr>frames = frames u @ frames v, out_text = out_text u @ out_text v\<rparr>"

lemma join_no_output [simp]: "join_output u no_output = u" "join_output no_output u = u"
  by (simp_all add: join_output_def no_output_def)

lemma join_output_assoc: "join_output (join_output u v) w = join_output u (join_output v w)"
  by (simp add: join_output_def)

lemma join_output_text:
  "(join_output u v)\<lparr>out_text := out_text (join_output u v) @ cs\<rparr> =
     join_output u (v\<lparr>out_text := out_text v @ cs\<rparr>)"
  by (simp add: join_output_def)

lemma join_output_frames:
  "(join_output u v)\<lparr>frames := frames (join_output u v) @ cs\<rparr> =
     join_output u (v\<lparr>frames := frames v @ cs\<rparr>)"
  by (simp add: join_output_def)

lemma scan_join:
  "scan work fs (join_output u v) =
     (join_output u (fst (scan work fs v)), snd (scan work fs v))"
  by (induction work arbitrary: fs v rule: scan_induct)
    (simp_all add: scan_turn join_output_text join_output_frames)

lemma scan_out:
  "scan work fs out =
     (join_output out (fst (scan work fs no_output)), snd (scan work fs no_output))"
  using scan_join [of work fs out no_output] by simp

lemma scan_more:
  "scan (work @ ext) fs out =
     (let (out', fs', rest) = scan work fs out in scan (rest @ ext) fs' out')"
proof (induction work arbitrary: fs out rule: scan_induct)
  case (stop work)
  then show ?case by (simp add: scan_turn [of work])
next
  case (plain work)
  then show ?case using turn_nonempty [of work]
    by (simp add: scan_turn [of work] scan_turn [of "work @ ext"] turn_stable)
next
  case (false_start work)
  then show ?case using turn_nonempty [of work]
    by (simp add: scan_turn [of work] scan_turn [of "work @ ext"] turn_stable)
next
  case (frame work n f)
  then show ?case using turn_Frame_length [OF frame(1)]
    by (simp add: scan_turn [of work] scan_turn [of "work @ ext"] turn_stable)
qed

lemma scan_rest: "turn_of (snd (snd (scan work fs out))) = Stop"
  by (induction work arbitrary: fs out rule: scan_induct) (simp_all add: scan_turn)

definition fp_inv :: "FlashFrameParser \<Rightarrow> bool" where
  "fp_inv p \<longleftrightarrow> turn_of (fp_buffer p) = Stop"

lemma fp_consume_append:
  "fp_consume p (xs @ ys) =
     (fst (fp_consume (fst (fp_consume p xs)) ys),
      join_output (snd (fp_consume p xs)) (snd (fp_consume (fst (fp_consume p xs)) ys)))"
proof -
  obtain u fs rest where u: "scan (fp_buffer p @ xs) (falseStarts p) no_output = (u, fs, rest)"
    by (metis prod_cases3)
  obtain v fs' rest' where v: "scan (rest @ ys) fs no_output = (v, fs', rest')"
    by (metis prod_cases3)
  have "scan (fp_buffer p @ xs @ ys) (falseStarts p) no_output = (join_output u v, fs', rest')"
    using scan_more [of "fp_buffer p @ xs" ys "falseStarts p" no_output]
      scan_out [of "rest @ ys" fs u] by (simp add: u v)
  then show ?thesis by (simp add: fp_consume_def u v)
qed

lemma fp_inv_consume: "fp_inv (fst (fp_consume p xs))"
  by (simp add: fp_inv_def fp_consume_def split_beta Let_def scan_rest)

lemma fp_consume_Nil: "fp_inv p \<Longrightarrow> fp_consume p [] = (p, no_output)"
  by (simp add: fp_inv_def fp_consume_def scan_turn)

interpretation flash_stream: stream_parser fp_consume no_output join_output fp_inv "\<lambda>_ _. True"
  by unfold_locales
    (simp_all add: fp_consume_Nil fp_inv_consume join_output_assoc flip: fp_consume_append)

text \<open>Feeding a sequence of chunks, collecting what they complete.\<close>

fun fp_feed :: "FlashFrameParser \<Rightarrow> FlashStreamOutput \<Rightarrow> byte list list \<Rightarrow> FlashFrameParser \<times> FlashStreamOutput" where
  "fp_feed p out [] = (p, out)"
| "fp_feed p out (c # cs) = fp_feed (fst (fp_consume p c)) (join_output out (snd (fp_consume p c))) cs"

lemma fp_feed_eq: "fp_feed p out cs = flash_stream.feed (p, out) cs"
  by (induction cs arbitrary: p out) simp_all

section \<open>What the stream is made of\<close>

text \<open>The pieces of a stream, and the bytes each of them has on the wire.\<close>

datatype piece = Plain byte | Whole FlashFrame | Dropped

definition wire :: "FlashFrame \<Rightarrow> byte list" where
  "wire f = (case encodeFlashFrame f of Inl _ \<Rightarrow> [] | Inr bs \<Rightarrow> bs)"

fun piece_bytes :: "piece \<Rightarrow> byte list" where
  "piece_bytes (Plain b) = [b]"
| "piece_bytes (Whole f) = wire f"
| "piece_bytes Dropped = [kFlashStartByte]"

fun piece_ok :: "piece \<Rightarrow> bool" where
  "piece_ok (Plain b) = (b \<noteq> kFlashStartByte)"
| "piece_ok (Whole f) = (length (ff_payload f) \<le> kFlashMaxPayloadBytes)"
| "piece_ok Dropped = True"

fun piece_frames :: "piece \<Rightarrow> FlashFrame list" where
  "piece_frames (Whole f) = [f]"
| "piece_frames _ = []"

fun piece_text :: "piece \<Rightarrow> string" where
  "piece_text (Plain b) = [byte_char b]"
| "piece_text _ = []"

definition stream_bytes :: "piece list \<Rightarrow> byte list" where
  "stream_bytes ps = concat (map piece_bytes ps)"

definition le16 :: "u16 \<Rightarrow> byte list" where
  "le16 w = [ucast w, ucast (drop_bit 8 w)]"

lemma appendLE [simp]: "appendLittleEndian out w = out @ le16 w"
proof -
  have "(ucast (ucast w AND 0xFF :: u32) :: byte) = ucast w"
    unfolding ucast_and_FF by (rule bit_word_eqI) (auto simp: bit_simps)
  moreover have "(ucast (drop_bit 8 (ucast w :: u32)) :: byte) = ucast (drop_bit 8 w)"
    by (rule bit_word_eqI) (auto simp: bit_simps)
  ultimately show ?thesis by (simp add: appendLittleEndian_def le16_def Let_def)
qed

lemma read_join:
  "readLittleEndian buf off = (ucast (buf ! off) OR push_bit 8 (ucast (buf ! (off + 1))))"
  unfolding readLittleEndian_def Let_def
  by (rule bit_word_eqI) (auto simp: bit_simps)

lemma read_le16: "readLittleEndian (xs @ le16 w @ ys) (length xs) = w"
  unfolding read_join by (simp add: le16_def nth_append join_split_16)

lemma le16_read: "off + 1 < length buf \<Longrightarrow> le16 (readLittleEndian buf off) = [buf ! off, buf ! (off + 1)]"
  unfolding read_join le16_def split_low_16 split_high_16 by (rule refl)

lemma length_le16 [simp]: "length (le16 w) = 2"
  by (simp add: le16_def)

definition wire_body :: "FlashFrame \<Rightarrow> byte list" where
  "wire_body f = ff_type f # le16 (ff_seq f) @ le16 (of_nat (length (ff_payload f))) @ ff_payload f"

lemma wire_layout:
  "length (ff_payload f) \<le> kFlashMaxPayloadBytes \<Longrightarrow>
     wire f = kFlashStartByte # wire_body f @ le16 (crc16CcittFalse (wire_body f))"
  by (simp add: wire_def encodeFlashFrame_def wire_body_def Let_def)

lemma length_wire: "piece_ok (Whole f) \<Longrightarrow> length (wire f) = 8 + length (ff_payload f)"
  by (simp add: wire_layout wire_body_def)

lemma turn_wire:
  assumes "piece_ok (Whole f)"
  shows "turn_of (wire f @ ys) = Frame (length (wire f)) f"
proof -
  let ?p = "ff_payload f" and ?crc = "crc16CcittFalse (wire_body f)"
  have p: "length ?p \<le> 260" using assms by (simp add: kFlashMaxPayloadBytes_def)
  let ?work = "wire f @ ys"
  have w: "?work = kFlashStartByte # ff_type f # le16 (ff_seq f) @ le16 (of_nat (length ?p)) @ ?p @ le16 ?crc @ ys"
    using assms by (simp add: wire_layout wire_body_def)
  have "unat (of_nat (length ?p) :: u16) = length ?p"
    using p by (simp add: unat_of_nat)
  moreover have "readLittleEndian ?work 4 = of_nat (length ?p)"
    using read_le16 [of "[kFlashStartByte, ff_type f] @ le16 (ff_seq f)"] w by simp
  moreover have "readLittleEndian ?work 2 = ff_seq f"
    using read_le16 [of "[kFlashStartByte, ff_type f]"] w by (simp add: numeral_2_eq_2)
  moreover have "readLittleEndian ?work (6 + length ?p) = ?crc"
    using read_le16 [of "[kFlashStartByte, ff_type f] @ le16 (ff_seq f) @ le16 (of_nat (length ?p)) @ ?p"] w
    by (simp add: numeral_eq_Suc)
  moreover have "take (5 + length ?p) (tl ?work) = wire_body f"
    unfolding w by (simp add: wire_body_def le16_def numeral_eq_Suc)
  moreover have "take (length ?p) (drop 6 ?work) = ?p" unfolding w by (simp add: le16_def)
  moreover have "hd ?work = kFlashStartByte" "?work \<noteq> []" "?work ! 1 = ff_type f" unfolding w by simp_all
  moreover have "length ?work = 8 + length ?p + length ys" unfolding w by simp
  ultimately show ?thesis using p unfolding turn_of_def Let_def length_wire [OF assms] by simp
qed

lemma frame_turn:
  assumes "turn_of work = Frame n f"
  shows "piece_ok (Whole f) \<and> work = wire f @ drop n work"
proof -
  let ?len = "unat (readLittleEndian work 4)"
  have f: "hd work = kFlashStartByte" "8 + ?len \<le> length work" "?len \<le> 260" "n = 8 + ?len"
    "readLittleEndian work (6 + ?len) = crc16CcittFalse (take (5 + ?len) (tl work))"
    "f = \<lparr>ff_type = work ! 1, ff_seq = readLittleEndian work 2, ff_payload = take ?len (drop 6 work)\<rparr>"
    using assms unfolding turn_of_def Let_def by (auto split: if_splits)
  define r where "r = drop 6 work"
  obtain b0 b1 b2 b3 b4 b5 where w: "work = b0 # b1 # b2 # b3 # b4 # b5 # r"
  proof -
    have "6 \<le> length work" using f(2) by simp
    then show ?thesis using that r_def by (auto simp: Suc_le_length_iff numeral_eq_Suc)
  qed
  have p: "length (take ?len r) = ?len" using f(2) w by simp
  have lenb: "le16 (of_nat ?len) = [b4, b5]" and seqb: "le16 (readLittleEndian work 2) = [b2, b3]"
    using le16_read [of 4 work] le16_read [of 2 work] w by simp_all
  have body: "wire_body f = take (5 + ?len) (tl work)"
    using f(6) p lenb seqb w by (simp add: wire_body_def numeral_eq_Suc)
  have crc: "le16 (crc16CcittFalse (wire_body f)) = take 2 (drop ?len r)"
  proof -
    have "le16 (readLittleEndian work (6 + ?len)) = [r ! ?len, r ! Suc ?len]"
      using le16_read [of "6 + ?len" work] f(2) w by simp
    moreover have "take 2 (drop ?len r) = [r ! ?len, r ! Suc ?len]"
      using f(2) w by (simp add: numeral_2_eq_2 take_Suc_conv_app_nth)
    ultimately show ?thesis unfolding body f(5) [symmetric] by simp
  qed
  have ok: "piece_ok (Whole f)" using f(3,6) by (simp add: kFlashMaxPayloadBytes_def)
  have "take n work = b0 # b1 # b2 # b3 # b4 # b5 # take ?len r @ take 2 (drop ?len r)"
  proof -
    have "n = 6 + (?len + 2)" using f(4) by simp
    then show ?thesis using take_add [of 6 "?len + 2" work] take_add [of ?len 2 r] w by simp
  qed
  moreover have "wire_body f = b1 # b2 # b3 # b4 # b5 # take ?len r"
    using body take_add [of 5 ?len "tl work"] w by simp
  ultimately have "wire f = take n work" using ok crc f(1) w by (simp add: wire_layout)
  then show ?thesis using ok by simp
qed

definition accounted :: "byte list \<Rightarrow> nat \<Rightarrow> FlashStreamOutput \<Rightarrow> FlashStreamOutput \<times> nat \<times> byte list \<Rightarrow> bool" where
  "accounted work fs out r \<longleftrightarrow>
     (\<exists>ps. list_all piece_ok ps \<and> work = stream_bytes ps @ snd (snd r) \<and>
       frames (fst r) = frames out @ concat (map piece_frames ps) \<and>
       out_text (fst r) = out_text out @ concat (map piece_text ps) \<and>
       fst (snd r) = fs + length (filter (\<lambda>p. p = Dropped) ps))"

lemma accounted_Nil: "accounted work fs out (out, fs, work)"
  unfolding accounted_def by (intro exI [of _ "[]"]) (simp add: stream_bytes_def)

lemma accounted_Cons:
  assumes "piece_ok p" and "accounted work (fs + (if p = Dropped then 1 else 0)) out' r"
    and "frames out' = frames out @ piece_frames p" and "out_text out' = out_text out @ piece_text p"
  shows "accounted (piece_bytes p @ work) fs out r"
proof -
  obtain ps where "list_all piece_ok ps" "work = stream_bytes ps @ snd (snd r)"
    "frames (fst r) = frames out' @ concat (map piece_frames ps)"
    "out_text (fst r) = out_text out' @ concat (map piece_text ps)"
    "fst (snd r) = fs + (if p = Dropped then 1 else 0) + length (filter (\<lambda>p. p = Dropped) ps)"
    using assms(2) unfolding accounted_def by blast
  then show ?thesis unfolding accounted_def
    by (intro exI [of _ "p # ps"]) (simp add: assms stream_bytes_def)
qed

lemma scan_pieces: "accounted work fs out (scan work fs out)"
proof (induction work arbitrary: fs out rule: scan_induct)
  case (stop work)
  then show ?case by (simp add: scan_turn accounted_Nil)
next
  case (plain work)
  then obtain b rest where w: "work = b # rest" "b \<noteq> kFlashStartByte"
    by (cases work) (auto simp: turn_of_def Let_def split: if_splits)
  show ?case
    using accounted_Cons [of "Plain b", OF _ plain(2)] plain(1) w
    by (simp add: scan_turn [of "b # rest"])
next
  case (false_start work)
  then obtain rest where w: "work = kFlashStartByte # rest"
    by (cases work) (auto simp: turn_of_def Let_def split: if_splits)
  show ?case
    using accounted_Cons [of Dropped, OF _ false_start(2)] false_start(1) w
    by (simp add: scan_turn [of "kFlashStartByte # rest"])
next
  case (frame work n f)
  have w: "piece_ok (Whole f)" "work = piece_bytes (Whole f) @ drop n work"
    using frame_turn [OF frame(1)] by simp_all
  have "accounted (drop n work) (fs + (if Whole f = Dropped then 1 else 0)) (out\<lparr>frames := frames out @ [f]\<rparr>)
      (scan work fs out)"
    using frame(2) by (simp add: scan_turn [of work] frame(1))
  then have "accounted (piece_bytes (Whole f) @ drop n work) fs out (scan work fs out)"
    by (rule accounted_Cons [OF w(1)]) simp_all
  then show ?case using w(2) by simp
qed

lemma scan_stream:
  "list_all piece_ok ps \<Longrightarrow> Dropped \<notin> set ps \<Longrightarrow>
     scan (stream_bytes ps) fs out =
       (\<lparr>frames = frames out @ concat (map piece_frames ps), out_text = out_text out @ concat (map piece_text ps)\<rparr>, fs, [])"
proof (induction ps arbitrary: out)
  case Nil
  then show ?case by (simp add: stream_bytes_def scan_turn turn_of_def)
next
  case (Cons p ps)
  have step: "stream_bytes (p # ps) = piece_bytes p @ stream_bytes ps" by (simp add: stream_bytes_def)
  show ?case
  proof (cases p)
    case (Plain b)
    with Cons.prems have "turn_of (b # stream_bytes ps) = TextByte" by (simp add: turn_of_def)
    with Plain Cons show ?thesis unfolding step by (simp add: scan_turn [of "b # _"])
  next
    case (Whole f)
    with Cons.prems have "turn_of (wire f @ stream_bytes ps) = Frame (length (wire f)) f"
      using turn_wire by simp
    with Whole Cons show ?thesis unfolding step by (simp add: scan_turn [of "wire f @ _"])
  next
    case Dropped
    with Cons.prems show ?thesis by simp
  qed
qed

lemma stop_bound: "turn_of b = Stop \<Longrightarrow> length b \<le> 267 \<and> (b = [] \<or> hd b = kFlashStartByte)"
  by (auto simp: turn_of_def Let_def split: if_splits)

section \<open>Properties\<close>

text \<open>
  C8. Frames and text survive the wire: a stream made of encoded frames and of text bytes (none of
  them the start byte), cut into chunks in any way, is read back as exactly those frames, in
  order, and exactly that text, with no false start and nothing left in the buffer.
\<close>

theorem stream_round_trip:
  assumes "\<forall>p \<in> set ps. piece_ok p \<and> p \<noteq> Dropped" and "concat chunks = stream_bytes ps"
  shows "fp_feed fp_new no_output chunks =
    (fp_new, \<lparr>frames = concat (map piece_frames ps), out_text = concat (map piece_text ps)\<rparr>)"
proof -
  have "fp_inv fp_new" by (simp add: fp_inv_def fp_new_def turn_of_def)
  then have "fp_feed fp_new no_output chunks =
      (fst (fp_consume fp_new (stream_bytes ps)), snd (fp_consume fp_new (stream_bytes ps)))"
    by (simp add: fp_feed_eq flash_stream.feed_concat assms(2))
  then show ?thesis using assms(1) scan_stream [of ps 0 no_output]
    by (auto simp: fp_consume_def fp_new_def no_output_def list_all_iff)
qed

theorem stream_round_trip_witness:
  "fp_feed fp_new no_output
     [[0x31, 0xA5, 0x82], [0x07, 0x00, 0x00, 0x00] @ le16 (crc16CcittFalse [0x82, 7, 0, 0, 0]), [0x0A]] =
   (fp_new, \<lparr>frames = [\<lparr>ff_type = 0x82, ff_seq = 7, ff_payload = []\<rparr>], out_text = [byte_char 0x31, byte_char 0x0A]\<rparr>)"
  using stream_round_trip [of "[Plain 0x31, Whole \<lparr>ff_type = 0x82, ff_seq = 7, ff_payload = []\<rparr>, Plain 0x0A]"
      "[[0x31, 0xA5, 0x82], [0x07, 0x00, 0x00, 0x00] @ le16 (crc16CcittFalse [0x82, 7, 0, 0, 0]), [0x0A]]"]
  by (simp add: stream_bytes_def wire_def encodeFlashFrame_def le16_def flash_consts Let_def)

text \<open>
  Chunking is irrelevant on any input, garbage included: from any state the parser can be in,
  two ways of cutting the same bytes give the same frames, the same text, the same false-start
  count and the same buffered rest.
\<close>

theorem chunking_irrelevant:
  assumes "fp_inv p" and "concat cs = concat ds"
  shows "fp_feed p out cs = fp_feed p out ds"
  unfolding fp_feed_eq by (rule flash_stream.feed_chunking) (use assms in simp_all)

theorem chunking_irrelevant_witness:
  "fp_feed fp_new no_output [[0xA5], [0xFF, 0xA5]] = fp_feed fp_new no_output [[0xA5, 0xFF], [0xA5]]"
  using chunking_irrelevant [of fp_new "[[0xA5], [0xFF, 0xA5]]" "[[0xA5, 0xFF], [0xA5]]" no_output]
  by (simp add: fp_inv_def fp_new_def turn_of_def)

text \<open>
  C9. No byte is lost and no frame is invented. Whatever the input, the buffered bytes and the
  chunk are, in order: text bytes, whole valid frames exactly as the encoder writes them, start
  bytes that were dropped (one for each new false start), and the new buffer; the output is the
  frames and the text among them. The new buffer holds at most 267 bytes and starts with the
  start byte unless it is empty.
\<close>

theorem every_byte_accounted:
  shows "case fp_consume p bytes of (p', out) \<Rightarrow>
    (\<exists>ps. list_all piece_ok ps \<and> fp_buffer p @ bytes = stream_bytes ps @ fp_buffer p' \<and>
       frames out = concat (map piece_frames ps) \<and> out_text out = concat (map piece_text ps) \<and>
       falseStarts p' = falseStarts p + length (filter (\<lambda>x. x = Dropped) ps)) \<and>
    length (fp_buffer p') \<le> kFlashHeaderBytes + kFlashMaxPayloadBytes + kFlashTrailerBytes - 1 \<and>
    (fp_buffer p' = [] \<or> hd (fp_buffer p') = kFlashStartByte)"
  using scan_pieces [of "fp_buffer p @ bytes" "falseStarts p" no_output]
    stop_bound [OF scan_rest [of "fp_buffer p @ bytes" "falseStarts p" no_output]]
  by (auto simp: fp_consume_def split_beta Let_def no_output_def flash_consts accounted_def)

end
