(* ===== verification/OtaSession.thy ===== *)
theory OtaSession
  imports FlashFrameParser
begin

text \<open>
  \<^verbatim>\<open>src/integration/OtaSession.{h,cpp}\<close>: one firmware update of one board, the host side of the UART
  flash protocol.

  \<open>ota_rows s e\<close> lists the rows of the Boost.SML table for one state and event, in table order, as
  guard, action, target; \<open>process_ota\<close> takes the first whose guard holds. \<open>Context\<close> is the object
  guards and actions work on, time points and durations are integers (milliseconds). The public
  calls return the new session and the bytes to send. \<^verbatim>\<open>encodeFlashFrame\<close> can throw, so \<open>ctx_send\<close>
  records an exception in \<open>thrown\<close>; the invariant shows that it never happens.

  The theorems: an update ends in \<open>Done\<close> only if the board reported the target version, the data in
  flight is always the image's own bytes at its own offset, the board is asked to commit only
  after every byte was acknowledged, resends are bounded and a silent board leads to \<open>NoAnswer\<close>
  after the budget, terminal stages absorb, and with an answering board the update finishes.
\<close>

section \<open>Constants and codecs\<close>

definition kInfoReq :: byte where "kInfoReq = 0x01"
definition kBegin :: byte where "kBegin = 0x02"
definition kData :: byte where "kData = 0x03"
definition kCommit :: byte where "kCommit = 0x04"
definition kConfirm :: byte where "kConfirm = 0x05"
definition kInfo :: byte where "kInfo = 0x81"
definition kAck :: byte where "kAck = 0x82"
definition kNak :: byte where "kNak = 0x83"
definition kNakBadCrc :: byte where "kNakBadCrc = 0x01"
definition kInfoPayloadBytes :: nat where "kInfoPayloadBytes = 6"
definition kInfoVersionAt :: nat where "kInfoVersionAt = 0"
definition kInfoStateAt :: nat where "kInfoStateAt = 5"
definition kStateConfirmed :: byte where "kStateConfirmed = 0"
definition kStateTrial :: byte where "kStateTrial = 1"
definition kDataChunkBytes :: nat where "kDataChunkBytes = 256"
definition kFlashWordBytes :: nat where "kFlashWordBytes = 8"
definition kErasedByte :: byte where "kErasedByte = 0xFF"

lemmas message_codes = kInfoReq_def kBegin_def kData_def kCommit_def kConfirm_def kInfo_def kAck_def kNak_def

definition appendLittleEndian32 :: "byte list \<Rightarrow> u32 \<Rightarrow> byte list" where
  "appendLittleEndian32 out value =
     out @ map (\<lambda>shift. ucast (drop_bit shift value AND 0xFF)) [0, 8, 16, 24]"

definition readLittleEndian32 :: "byte list \<Rightarrow> nat \<Rightarrow> u32" where
  "readLittleEndian32 buf at =
     foldl (\<lambda>value index. value OR push_bit (index * 8) (ucast (buf ! (at + index)))) 0 [0, 1, 2, 3]"

section \<open>Context\<close>

datatype OtaFailure = FailNone | BoardRefused | NoAnswer | ProtocolError | WrongVersion

record Timing =
  tm_answer :: int
  tm_beginAnswer :: int
  tm_reboot :: int
  tm_resends :: int

definition defaultTiming :: Timing where
  "defaultTiming = \<lparr>tm_answer = 2000, tm_beginAnswer = 2025, tm_reboot = 500, tm_resends = 3\<rparr>"

record Context =
  c_image :: "byte list"
  c_version :: u32
  c_timing :: Timing
  c_now :: int
  c_outbox :: "byte list"
  c_inFlight :: "byte list"
  c_seq :: u16
  c_resends :: int
  c_waitFor :: int
  c_deadline :: int
  c_waitingOut :: bool
  c_chunkBytes :: nat
  c_sentBytes :: nat
  c_boardVersion :: u32
  c_boardState :: byte
  c_alreadyUpToDate :: bool
  c_failure :: OtaFailure
  c_nakCode :: byte
  c_thrown :: "flash_error option"

definition ctx_send :: "byte \<Rightarrow> byte list \<Rightarrow> int \<Rightarrow> Context \<Rightarrow> Context" where
  "ctx_send type payload within c =
     (let c = c\<lparr>c_seq := c_seq c + 1\<rparr>
      in case encodeFlashFrame \<lparr>ff_type = type, ff_seq = c_seq c, ff_payload = payload\<rparr> of
           Inl e \<Rightarrow> c\<lparr>c_thrown := Some e\<rparr>
         | Inr bs \<Rightarrow> c\<lparr>c_inFlight := bs, c_resends := 0, c_waitFor := within,
                       c_deadline := c_now c + within, c_waitingOut := False, c_outbox := bs\<rparr>)"

definition ctx_resend :: "Context \<Rightarrow> Context" where
  "ctx_resend c = c\<lparr>c_resends := c_resends c + 1, c_deadline := c_now c + c_waitFor c,
                    c_outbox := c_inFlight c\<rparr>"

text \<open>The padding loop of \<^verbatim>\<open>sendDataChunk\<close>.\<close>

function pad_erased :: "byte list \<Rightarrow> byte list" where
  "pad_erased payload =
     (if (length payload - 4) mod kFlashWordBytes \<noteq> 0 then pad_erased (payload @ [kErasedByte]) else payload)"
  by pat_completeness auto
termination
proof (relation "measure (\<lambda>payload. (8 - (length payload - 4) mod 8) mod 8)")
  fix payload :: "byte list"
  assume "(length payload - 4) mod kFlashWordBytes \<noteq> 0"
  then have m: "(length payload - 4) mod 8 \<noteq> 0" by (simp add: kFlashWordBytes_def)
  then have "4 < length payload" by (cases "4 < length payload") auto
  then have e: "length (payload @ [kErasedByte]) - 4 = Suc (length payload - 4)" by simp
  have "n mod 8 \<noteq> 0 \<Longrightarrow> (8 - Suc n mod 8) mod 8 < (8 - n mod 8) mod 8" for n :: nat
    by (cases "n mod 8 = 7") (auto simp: mod_Suc)
  from this [OF m] show
    "(payload @ [kErasedByte], payload) \<in> measure (\<lambda>payload. (8 - (length payload - 4) mod 8) mod 8)"
    unfolding in_measure e .
qed simp

declare pad_erased.simps [simp del]

definition sendDataChunk :: "Context \<Rightarrow> Context" where
  "sendDataChunk c =
     (let remaining = length (c_image c) - c_sentBytes c;
          c = c\<lparr>c_chunkBytes := min kDataChunkBytes remaining\<rparr>;
          payload = appendLittleEndian32 [] (of_nat (c_sentBytes c));
          payload = payload @ take (c_chunkBytes c) (drop (c_sentBytes c) (c_image c));
          payload = pad_erased payload
      in ctx_send kData payload (tm_answer (c_timing c)) c)"

definition stopWith :: "OtaFailure \<Rightarrow> byte \<Rightarrow> Context \<Rightarrow> Context" where
  "stopWith why code c = c\<lparr>c_failure := why, c_nakCode := code, c_inFlight := [], c_outbox := []\<rparr>"

section \<open>Events, guards, actions\<close>

datatype ota_event = EvStart | EvAck | EvInfo u32 byte | EvNak byte | EvTimeout | EvRebootDone

definition kHasImage :: "Context \<Rightarrow> bool" where "kHasImage c \<longleftrightarrow> c_image c \<noteq> []"
definition kNoImage :: "Context \<Rightarrow> bool" where "kNoImage c \<longleftrightarrow> c_image c = []"
definition kIsConfirmedTarget :: "u32 \<Rightarrow> byte \<Rightarrow> Context \<Rightarrow> bool" where
  "kIsConfirmedTarget v st c \<longleftrightarrow> v = c_version c \<and> st = kStateConfirmed"
definition kIsTrialTarget :: "u32 \<Rightarrow> byte \<Rightarrow> Context \<Rightarrow> bool" where
  "kIsTrialTarget v st c \<longleftrightarrow> v = c_version c \<and> st = kStateTrial"
definition kNeedsUpdate :: "u32 \<Rightarrow> Context \<Rightarrow> bool" where
  "kNeedsUpdate v c \<longleftrightarrow> v \<noteq> c_version c"
definition kIsTargetVersion :: "u32 \<Rightarrow> Context \<Rightarrow> bool" where
  "kIsTargetVersion v c \<longleftrightarrow> v = c_version c"
definition kIsOtherVersion :: "u32 \<Rightarrow> Context \<Rightarrow> bool" where
  "kIsOtherVersion v c \<longleftrightarrow> v \<noteq> c_version c"
definition kMoreToSend :: "Context \<Rightarrow> bool" where
  "kMoreToSend c \<longleftrightarrow> c_sentBytes c + c_chunkBytes c < length (c_image c)"
definition kAllSent :: "Context \<Rightarrow> bool" where
  "kAllSent c \<longleftrightarrow> c_sentBytes c + c_chunkBytes c \<ge> length (c_image c)"
definition kCanResend :: "Context \<Rightarrow> bool" where
  "kCanResend c \<longleftrightarrow> c_resends c < tm_resends (c_timing c)"
definition kDamagedAndCanResend :: "byte \<Rightarrow> Context \<Rightarrow> bool" where
  "kDamagedAndCanResend code c \<longleftrightarrow> code = kNakBadCrc \<and> c_resends c < tm_resends (c_timing c)"
definition kRefusedOrSpent :: "byte \<Rightarrow> Context \<Rightarrow> bool" where
  "kRefusedOrSpent code c \<longleftrightarrow> code \<noteq> kNakBadCrc \<or> c_resends c \<ge> tm_resends (c_timing c)"

lemmas guard_defs = kHasImage_def kNoImage_def kIsConfirmedTarget_def kIsTrialTarget_def kNeedsUpdate_def
  kIsTargetVersion_def kIsOtherVersion_def kMoreToSend_def kAllSent_def kCanResend_def
  kDamagedAndCanResend_def kRefusedOrSpent_def

definition kSendInfoReq :: "Context \<Rightarrow> Context" where
  "kSendInfoReq c = ctx_send kInfoReq [] (tm_answer (c_timing c)) c"
definition kSendBegin :: "u32 \<Rightarrow> byte \<Rightarrow> Context \<Rightarrow> Context" where
  "kSendBegin v st c =
     (let c = c\<lparr>c_boardVersion := v, c_boardState := st\<rparr>;
          payload = appendLittleEndian32 [] (of_nat (length (c_image c)));
          payload = appendLittleEndian32 payload (crc32IsoHdlc (c_image c));
          payload = appendLittleEndian32 payload (c_version c)
      in ctx_send kBegin payload (tm_beginAnswer (c_timing c)) c)"
definition kSendFirstChunk :: "Context \<Rightarrow> Context" where
  "kSendFirstChunk c = sendDataChunk (c\<lparr>c_sentBytes := 0, c_chunkBytes := 0\<rparr>)"
definition kAckChunkAndSendNext :: "Context \<Rightarrow> Context" where
  "kAckChunkAndSendNext c = sendDataChunk (c\<lparr>c_sentBytes := c_sentBytes c + c_chunkBytes c\<rparr>)"
definition kAckChunkAndCommit :: "Context \<Rightarrow> Context" where
  "kAckChunkAndCommit c =
     ctx_send kCommit [] (tm_answer (c_timing c))
       (c\<lparr>c_sentBytes := c_sentBytes c + c_chunkBytes c, c_chunkBytes := 0\<rparr>)"
definition kWaitOutReboot :: "Context \<Rightarrow> Context" where
  "kWaitOutReboot c = c\<lparr>c_inFlight := [], c_outbox := [], c_waitingOut := True,
                        c_deadline := c_now c + tm_reboot (c_timing c)\<rparr>"
definition kSendConfirm :: "u32 \<Rightarrow> byte \<Rightarrow> Context \<Rightarrow> Context" where
  "kSendConfirm v st c =
     ctx_send kConfirm [] (tm_answer (c_timing c)) (c\<lparr>c_boardVersion := v, c_boardState := st\<rparr>)"
definition kFinish :: "Context \<Rightarrow> Context" where
  "kFinish c = c\<lparr>c_inFlight := [], c_outbox := []\<rparr>"
definition kFinishUpToDate :: "u32 \<Rightarrow> byte \<Rightarrow> Context \<Rightarrow> Context" where
  "kFinishUpToDate v st c = c\<lparr>c_boardVersion := v, c_boardState := st, c_alreadyUpToDate := True,
                              c_inFlight := [], c_outbox := []\<rparr>"
definition kResendInFlight :: "Context \<Rightarrow> Context" where
  "kResendInFlight c = ctx_resend c"
definition kFailEmptyImage :: "Context \<Rightarrow> Context" where
  "kFailEmptyImage c = stopWith ProtocolError 0 c"
definition kFailRefused :: "byte \<Rightarrow> Context \<Rightarrow> Context" where
  "kFailRefused code c = stopWith BoardRefused code c"
definition kFailSilent :: "Context \<Rightarrow> Context" where
  "kFailSilent c = stopWith NoAnswer 0 c"
definition kFailWrongVersion :: "u32 \<Rightarrow> Context \<Rightarrow> Context" where
  "kFailWrongVersion v c = stopWith WrongVersion 0 (c\<lparr>c_boardVersion := v\<rparr>)"

section \<open>The table\<close>

datatype ota_state = idle | probing | beginning | sending | committing | rebooting | rechecking
  | confirming | done_s | failed_s

type_synonym ota_row = "(Context \<Rightarrow> bool) \<times> (Context \<Rightarrow> Context) \<times> ota_state"

definition always :: "Context \<Rightarrow> bool" where "always c = True"

fun ota_rows :: "ota_state \<Rightarrow> ota_event \<Rightarrow> ota_row list" where
  "ota_rows idle EvStart = [(kHasImage, kSendInfoReq, probing), (kNoImage, kFailEmptyImage, failed_s)]"
| "ota_rows probing (EvInfo v st) =
     [(kIsConfirmedTarget v st, kFinishUpToDate v st, done_s),
      (kIsTrialTarget v st, kSendConfirm v st, confirming),
      (kNeedsUpdate v, kSendBegin v st, beginning)]"
| "ota_rows beginning EvAck = [(always, kSendFirstChunk, sending)]"
| "ota_rows sending EvAck =
     [(kMoreToSend, kAckChunkAndSendNext, sending), (kAllSent, kAckChunkAndCommit, committing)]"
| "ota_rows committing EvAck = [(always, kWaitOutReboot, rebooting)]"
| "ota_rows rebooting EvRebootDone = [(always, kSendInfoReq, rechecking)]"
| "ota_rows rechecking (EvInfo v st) =
     [(kIsTargetVersion v, kSendConfirm v st, confirming),
      (kIsOtherVersion v, kFailWrongVersion v, failed_s)]"
| "ota_rows confirming EvAck = [(always, kFinish, done_s)]"
| "ota_rows probing (EvNak n) =
     [(kDamagedAndCanResend n, kResendInFlight, probing), (kRefusedOrSpent n, kFailRefused n, failed_s)]"
| "ota_rows beginning (EvNak n) =
     [(kDamagedAndCanResend n, kResendInFlight, beginning), (kRefusedOrSpent n, kFailRefused n, failed_s)]"
| "ota_rows sending (EvNak n) =
     [(kDamagedAndCanResend n, kResendInFlight, sending), (kRefusedOrSpent n, kFailRefused n, failed_s)]"
| "ota_rows committing (EvNak n) =
     [(kDamagedAndCanResend n, kResendInFlight, committing), (kRefusedOrSpent n, kFailRefused n, failed_s)]"
| "ota_rows rechecking (EvNak n) =
     [(kDamagedAndCanResend n, kResendInFlight, rechecking), (kRefusedOrSpent n, kFailRefused n, failed_s)]"
| "ota_rows confirming (EvNak n) =
     [(kDamagedAndCanResend n, kResendInFlight, confirming), (kRefusedOrSpent n, kFailRefused n, failed_s)]"
| "ota_rows probing EvTimeout = [(kCanResend, kResendInFlight, probing), (always, kFailSilent, failed_s)]"
| "ota_rows beginning EvTimeout = [(kCanResend, kResendInFlight, beginning), (always, kFailSilent, failed_s)]"
| "ota_rows sending EvTimeout = [(kCanResend, kResendInFlight, sending), (always, kFailSilent, failed_s)]"
| "ota_rows committing EvTimeout = [(kCanResend, kResendInFlight, committing), (always, kFailSilent, failed_s)]"
| "ota_rows rechecking EvTimeout = [(kCanResend, kResendInFlight, rechecking), (always, kFailSilent, failed_s)]"
| "ota_rows confirming EvTimeout = [(kCanResend, kResendInFlight, confirming), (always, kFailSilent, failed_s)]"
| "ota_rows _ _ = []"

section \<open>The session\<close>

datatype OtaStage = Idle | Probing | Beginning | Sending | Committing | Rebooting | Rechecking
  | Confirming | Done | Failed

record OtaSession =
  ctx :: Context
  ota_sm :: ota_state

text \<open>\<^verbatim>\<open>sm.process_event\<close>: the first row whose guard holds runs its action and moves; the flag says
  whether a row matched. An exception escaping the action leaves the machine where it was.\<close>

definition process_ota :: "ota_event \<Rightarrow> OtaSession \<Rightarrow> bool \<times> OtaSession" where
  "process_ota e s =
     (case List.find (\<lambda>(g, a, t). g (ctx s)) (ota_rows (ota_sm s) e) of
        None \<Rightarrow> (False, s)
      | Some (g, a, t) \<Rightarrow>
          (let c = a (ctx s)
           in (True, \<lparr>ctx = c, ota_sm = (if c_thrown c = None then t else ota_sm s)\<rparr>)))"

definition ota_dispatch :: "ota_event \<Rightarrow> int \<Rightarrow> OtaSession \<Rightarrow> OtaSession \<times> byte list" where
  "ota_dispatch e now s =
     (let s = s\<lparr>ctx := (ctx s)\<lparr>c_now := now, c_outbox := []\<rparr>\<rparr>
      in case process_ota e s of
           (False, s) \<Rightarrow> (s\<lparr>ctx := stopWith ProtocolError 0 (ctx s)\<rparr>, [])
         | (True, s) \<Rightarrow> (s, c_outbox (ctx s)))"

definition stage :: "OtaSession \<Rightarrow> OtaStage" where
  "stage s =
     (if c_failure (ctx s) \<noteq> FailNone then Failed
      else case ota_sm s of done_s \<Rightarrow> Done | failed_s \<Rightarrow> Failed | probing \<Rightarrow> Probing
        | beginning \<Rightarrow> Beginning | sending \<Rightarrow> Sending | committing \<Rightarrow> Committing
        | rebooting \<Rightarrow> Rebooting | rechecking \<Rightarrow> Rechecking | confirming \<Rightarrow> Confirming | idle \<Rightarrow> Idle)"

definition ota_new :: "byte list \<Rightarrow> u32 \<Rightarrow> Timing \<Rightarrow> OtaSession" where
  "ota_new img version timing =
     \<lparr>ctx = \<lparr>c_image = img, c_version = version, c_timing = timing, c_now = 0, c_outbox = [], c_inFlight = [],
             c_seq = 0, c_resends = 0, c_waitFor = 0, c_deadline = 0, c_waitingOut = False, c_chunkBytes = 0,
             c_sentBytes = 0, c_boardVersion = 0, c_boardState = kStateConfirmed, c_alreadyUpToDate = False,
             c_failure = FailNone, c_nakCode = 0, c_thrown = None\<rparr>,
      ota_sm = idle\<rparr>"

definition ota_start :: "int \<Rightarrow> OtaSession \<Rightarrow> OtaSession \<times> byte list" where
  "ota_start now s =
     (if stage s \<noteq> Idle then (s, [])
      else let s = snd (process_ota EvStart (s\<lparr>ctx := (ctx s)\<lparr>c_now := now, c_outbox := []\<rparr>\<rparr>))
           in (s, c_outbox (ctx s)))"

definition ota_stop :: "OtaFailure \<Rightarrow> OtaSession \<Rightarrow> OtaSession \<times> byte list" where
  "ota_stop why s = (s\<lparr>ctx := stopWith why 0 (ctx s)\<rparr>, [])"

definition ota_onFrame :: "FlashFrame \<Rightarrow> int \<Rightarrow> OtaSession \<Rightarrow> OtaSession \<times> byte list" where
  "ota_onFrame frame now s =
     (if stage s = Idle \<or> stage s = Done \<or> stage s = Failed then (s, [])
      else if ff_type frame \<noteq> kInfo \<and> ff_seq frame \<noteq> c_seq (ctx s) then (s, [])
      else if ff_type frame = kAck then ota_dispatch EvAck now s
      else if ff_type frame = kNak then
        (if ff_payload frame = [] then ota_stop ProtocolError s
         else ota_dispatch (EvNak (ff_payload frame ! 0)) now s)
      else if ff_type frame = kInfo then
        (if length (ff_payload frame) \<noteq> kInfoPayloadBytes then ota_stop ProtocolError s
         else ota_dispatch (EvInfo (readLittleEndian32 (ff_payload frame) kInfoVersionAt)
                                   (ff_payload frame ! kInfoStateAt)) now s)
      else ota_stop ProtocolError s)"

definition ota_onTick :: "int \<Rightarrow> OtaSession \<Rightarrow> OtaSession \<times> byte list" where
  "ota_onTick now s =
     (if stage s = Idle \<or> stage s = Done \<or> stage s = Failed then (s, [])
      else if now < c_deadline (ctx s) then (s, [])
      else if c_waitingOut (ctx s)
        then ota_dispatch EvRebootDone now (s\<lparr>ctx := (ctx s)\<lparr>c_waitingOut := False\<rparr>\<rparr>)
      else ota_dispatch EvTimeout now s)"

datatype ota_call = StartCall int | FrameCall FlashFrame int | TickCall int

fun ota_exec :: "OtaSession \<Rightarrow> ota_call \<Rightarrow> OtaSession \<times> byte list" where
  "ota_exec s (StartCall now) = ota_start now s"
| "ota_exec s (FrameCall f now) = ota_onFrame f now s"
| "ota_exec s (TickCall now) = ota_onTick now s"

definition ota_apply :: "OtaSession \<Rightarrow> ota_call \<Rightarrow> OtaSession" where
  "ota_apply s call = fst (ota_exec s call)"

section \<open>What an action sends\<close>

definition le32 :: "u32 \<Rightarrow> byte list" where
  "le32 w = appendLittleEndian32 [] w"

lemma append_le32 [simp]: "appendLittleEndian32 out w = out @ le32 w"
  by (simp add: appendLittleEndian32_def le32_def)

lemma length_le32 [simp]: "length (le32 w) = 4"
  by (simp add: le32_def appendLittleEndian32_def del: append_le32)

lemma read_le32: "readLittleEndian32 (xs @ le32 w @ ys) (length xs) = w"
proof -
  have "le32 w = [ucast w, ucast (drop_bit 8 w), ucast (drop_bit 16 w), ucast (drop_bit 24 w)]"
    by (simp add: le32_def appendLittleEndian32_def ucast_and_FF del: append_le32)
  then show ?thesis by (simp add: readLittleEndian32_def nth_append join_split_32 or.assoc)
qed

lemma ctx_send_ok:
  "length p \<le> 260 \<Longrightarrow>
     ctx_send t p w c =
       (let bs = wire \<lparr>ff_type = t, ff_seq = c_seq c + 1, ff_payload = p\<rparr>
        in c\<lparr>c_seq := c_seq c + 1, c_inFlight := bs, c_resends := 0, c_waitFor := w,
             c_deadline := c_now c + w, c_waitingOut := False, c_outbox := bs\<rparr>)"
  by (simp add: ctx_send_def wire_def encodeFlashFrame_def kFlashMaxPayloadBytes_def Let_def)

lemma pad_erased_props:
  "4 \<le> length p \<Longrightarrow> length p \<le> 260 \<Longrightarrow>
     length (pad_erased p) \<le> 260 \<and> (length (pad_erased p) - 4) mod 8 = 0 \<and>
     (\<exists>k. pad_erased p = p @ replicate k kErasedByte)"
proof (induction p rule: pad_erased.induct)
  case (1 p)
  show ?case
  proof (cases "(length p - 4) mod kFlashWordBytes \<noteq> 0")
    case True
    then have "length p \<noteq> 260" by (auto simp: kFlashWordBytes_def)
    with 1 True have IH: "length (pad_erased (p @ [kErasedByte])) \<le> 260 \<and>
      (length (pad_erased (p @ [kErasedByte])) - 4) mod 8 = 0 \<and>
      (\<exists>k. pad_erased (p @ [kErasedByte]) = (p @ [kErasedByte]) @ replicate k kErasedByte)" by simp
    have "pad_erased p = pad_erased (p @ [kErasedByte])" using True by (subst pad_erased.simps) simp
    moreover have "(p @ [kErasedByte]) @ replicate k kErasedByte = p @ replicate (Suc k) kErasedByte" for k
      by simp
    ultimately show ?thesis using IH by metis
  next
    case False
    then show ?thesis using 1 by (auto simp: pad_erased.simps [of p] kFlashWordBytes_def intro: exI [of _ 0])
  qed
qed

definition data_payload :: "Context \<Rightarrow> byte list" where
  "data_payload c =
     pad_erased (le32 (of_nat (c_sentBytes c)) @ take (c_chunkBytes c) (drop (c_sentBytes c) (c_image c)))"

lemma data_payload_fits: "c_chunkBytes c \<le> 256 \<Longrightarrow> length (data_payload c) \<le> 260"
  unfolding data_payload_def by (rule pad_erased_props [THEN conjunct1]) simp_all

lemma sendDataChunk_eq:
  "sendDataChunk c =
     (let c = c\<lparr>c_chunkBytes := min 256 (length (c_image c) - c_sentBytes c)\<rparr>
      in ctx_send kData (data_payload c) (tm_answer (c_timing c)) c)"
  by (simp add: sendDataChunk_def data_payload_def Let_def kDataChunkBytes_def)

lemma sendDataChunk_ok:
  "sendDataChunk c =
     (let c = c\<lparr>c_chunkBytes := min 256 (length (c_image c) - c_sentBytes c)\<rparr>;
          bs = wire \<lparr>ff_type = kData, ff_seq = c_seq c + 1, ff_payload = data_payload c\<rparr>
      in c\<lparr>c_seq := c_seq c + 1, c_inFlight := bs, c_resends := 0, c_waitFor := tm_answer (c_timing c),
           c_deadline := c_now c + tm_answer (c_timing c), c_waitingOut := False, c_outbox := bs\<rparr>)"
  unfolding sendDataChunk_eq Let_def by (subst ctx_send_ok) (simp_all add: data_payload_fits Let_def)

text \<open>The payload depends only on the image and the two counters.\<close>

lemma data_payload_cong:
  "c_sentBytes c = c_sentBytes d \<Longrightarrow> c_chunkBytes c = c_chunkBytes d \<Longrightarrow> c_image c = c_image d \<Longrightarrow>
     data_payload c = data_payload d"
  by (simp add: data_payload_def)

lemmas action_defs = kSendInfoReq_def kSendBegin_def kSendFirstChunk_def kAckChunkAndSendNext_def
  kAckChunkAndCommit_def kWaitOutReboot_def kSendConfirm_def kFinish_def kFinishUpToDate_def
  kResendInFlight_def kFailEmptyImage_def kFailRefused_def kFailSilent_def kFailWrongVersion_def
  ctx_resend_def stopWith_def ctx_send_ok sendDataChunk_ok always_def Let_def

section \<open>Invariant\<close>

text \<open>The message the protocol prescribes in each waiting state.\<close>

fun flight :: "ota_state \<Rightarrow> Context \<Rightarrow> (byte \<times> byte list) option" where
  "flight probing c = Some (kInfoReq, [])"
| "flight beginning c =
     Some (kBegin, le32 (of_nat (length (c_image c))) @ le32 (crc32IsoHdlc (c_image c)) @ le32 (c_version c))"
| "flight sending c = Some (kData, data_payload c)"
| "flight committing c = Some (kCommit, [])"
| "flight rechecking c = Some (kInfoReq, [])"
| "flight confirming c = Some (kConfirm, [])"
| "flight _ c = None"

definition in_flight_ok :: "ota_state \<Rightarrow> Context \<Rightarrow> bool" where
  "in_flight_ok st c \<longleftrightarrow>
     (case flight st c of None \<Rightarrow> True
      | Some (t, p) \<Rightarrow> c_inFlight c = wire \<lparr>ff_type = t, ff_seq = c_seq c, ff_payload = p\<rparr>)"

definition progress_ok :: "ota_state \<Rightarrow> Context \<Rightarrow> bool" where
  "progress_ok st c \<longleftrightarrow>
     (case st of
        sending \<Rightarrow> c_sentBytes c < length (c_image c) \<and> 256 dvd c_sentBytes c \<and>
          c_chunkBytes c = min 256 (length (c_image c) - c_sentBytes c)
      | committing \<Rightarrow> c_sentBytes c = length (c_image c)
      | rebooting \<Rightarrow> c_sentBytes c = length (c_image c)
      | rechecking \<Rightarrow> c_sentBytes c = length (c_image c)
      | confirming \<Rightarrow> c_boardVersion c = c_version c
      | done_s \<Rightarrow> c_boardVersion c = c_version c
      | failed_s \<Rightarrow> False
      | _ \<Rightarrow> c_sentBytes c = 0)"

definition ota_ok :: "OtaSession \<Rightarrow> bool" where
  "ota_ok s \<longleftrightarrow>
     (let c = ctx s in
      c_thrown c = None \<and> c_sentBytes c \<le> length (c_image c) \<and>
      (c_failure c = FailNone \<longrightarrow>
         (ota_sm s = idle \<or> c_image c \<noteq> []) \<and> 0 \<le> c_resends c \<and>
         c_resends c \<le> max 0 (tm_resends (c_timing c)) \<and>
         in_flight_ok (ota_sm s) c \<and> progress_ok (ota_sm s) c))"

lemmas ota_ok_defs = ota_ok_def in_flight_ok_def progress_ok_def data_payload_def Let_def

lemma process_start_ok:
  "ota_ok s \<Longrightarrow> c_failure (ctx s) = FailNone \<Longrightarrow> ota_ok (snd (process_ota EvStart s))"
  by (cases "ota_sm s") (auto simp: process_ota_def ota_ok_defs guard_defs action_defs)

lemma process_ack_ok:
  "ota_ok s \<Longrightarrow> c_failure (ctx s) = FailNone \<Longrightarrow> ota_ok (snd (process_ota EvAck s))"
  by (cases "ota_sm s") (auto simp: process_ota_def ota_ok_defs guard_defs action_defs)

lemma process_info_ok:
  "ota_ok s \<Longrightarrow> c_failure (ctx s) = FailNone \<Longrightarrow> ota_ok (snd (process_ota (EvInfo v st) s))"
  by (cases "ota_sm s") (auto simp: process_ota_def ota_ok_defs guard_defs action_defs)

lemma process_nak_ok:
  "ota_ok s \<Longrightarrow> c_failure (ctx s) = FailNone \<Longrightarrow> ota_ok (snd (process_ota (EvNak n) s))"
  by (cases "ota_sm s") (auto simp: process_ota_def ota_ok_defs guard_defs action_defs)

lemma process_timeout_ok:
  "ota_ok s \<Longrightarrow> c_failure (ctx s) = FailNone \<Longrightarrow> ota_ok (snd (process_ota EvTimeout s))"
  by (cases "ota_sm s") (auto simp: process_ota_def ota_ok_defs guard_defs action_defs)

lemma process_reboot_ok:
  "ota_ok s \<Longrightarrow> c_failure (ctx s) = FailNone \<Longrightarrow> ota_ok (snd (process_ota EvRebootDone s))"
  by (cases "ota_sm s") (auto simp: process_ota_def ota_ok_defs guard_defs action_defs)

lemma process_any_ok:
  "ota_ok s \<Longrightarrow> c_failure (ctx s) = FailNone \<Longrightarrow> ota_ok (snd (process_ota e s))"
  by (cases e) (simp_all add: process_start_ok process_ack_ok process_info_ok process_nak_ok
      process_timeout_ok process_reboot_ok)

definition stamped :: "int \<Rightarrow> OtaSession \<Rightarrow> OtaSession" where
  "stamped now s = s\<lparr>ctx := (ctx s)\<lparr>c_now := now, c_outbox := []\<rparr>\<rparr>"

lemma stamped_simps [simp]:
  "ota_sm (stamped now s) = ota_sm s" "c_failure (ctx (stamped now s)) = c_failure (ctx s)"
  "c_waitingOut (ctx (stamped now s)) = c_waitingOut (ctx s)" "c_image (ctx (stamped now s)) = c_image (ctx s)"
  "c_version (ctx (stamped now s)) = c_version (ctx s)" "c_timing (ctx (stamped now s)) = c_timing (ctx s)"
  "c_sentBytes (ctx (stamped now s)) = c_sentBytes (ctx s)" "c_resends (ctx (stamped now s)) = c_resends (ctx s)"
  "c_inFlight (ctx (stamped now s)) = c_inFlight (ctx s)" "c_thrown (ctx (stamped now s)) = c_thrown (ctx s)"
  "c_chunkBytes (ctx (stamped now s)) = c_chunkBytes (ctx s)" "c_seq (ctx (stamped now s)) = c_seq (ctx s)"
  "c_waitFor (ctx (stamped now s)) = c_waitFor (ctx s)" "c_now (ctx (stamped now s)) = now"
  "c_boardVersion (ctx (stamped now s)) = c_boardVersion (ctx s)"
  by (simp_all add: stamped_def)

lemma stamped_ok [simp]: "ota_ok (stamped now s) = ota_ok s"
  using data_payload_cong [of "ctx (stamped now s)" "ctx s"]
  by (cases "ota_sm s") (simp_all add: ota_ok_def in_flight_ok_def progress_ok_def Let_def)

lemma dispatch_stamped:
  "ota_dispatch e now s =
     (case process_ota e (stamped now s) of
        (False, s) \<Rightarrow> ota_stop ProtocolError s | (True, s) \<Rightarrow> (s, c_outbox (ctx s)))"
  by (simp add: ota_dispatch_def stamped_def ota_stop_def Let_def split: prod.splits bool.splits)

lemma start_stamped:
  "ota_start now s =
     (if stage s \<noteq> Idle then (s, [])
      else (snd (process_ota EvStart (stamped now s)), c_outbox (ctx (snd (process_ota EvStart (stamped now s))))))"
  by (simp add: ota_start_def stamped_def Let_def)

lemma ota_stop_ok: "ota_ok s \<Longrightarrow> why \<noteq> FailNone \<Longrightarrow> ota_ok (fst (ota_stop why s))"
  by (simp add: ota_ok_def ota_stop_def stopWith_def Let_def)

lemma dispatch_ok:
  assumes "ota_ok s" "c_failure (ctx s) = FailNone"
  shows "ota_ok (fst (ota_dispatch e now s))"
proof -
  obtain b s' where p: "process_ota e (stamped now s) = (b, s')" by (cases "process_ota e (stamped now s)")
  have "ota_ok s'" using process_any_ok [of "stamped now s" e] assms p by simp
  then show ?thesis by (simp add: dispatch_stamped p ota_stop_ok split: bool.splits)
qed

lemma stage_failure: "stage s \<noteq> Failed \<Longrightarrow> c_failure (ctx s) = FailNone"
  by (auto simp: stage_def split: if_splits)

text \<open>Between a \<^verbatim>\<open>COMMIT\<close> and the first answer of the rebooted board, and only then, the session
  waits without a message in flight.\<close>

definition clock_ok :: "OtaSession \<Rightarrow> bool" where
  "clock_ok s \<longleftrightarrow> c_thrown (ctx s) = None \<and>
     (c_failure (ctx s) = FailNone \<longrightarrow> (c_waitingOut (ctx s) \<longleftrightarrow> ota_sm s = rebooting))"

lemma process_clock_ok:
  "clock_ok s \<Longrightarrow> c_failure (ctx s) = FailNone \<Longrightarrow> clock_ok (snd (process_ota e s))"
  by (cases "ota_sm s"; cases e) (auto simp: process_ota_def clock_ok_def action_defs guard_defs)

lemma reboot_clock_ok:
  "ota_sm s = rebooting \<Longrightarrow> c_thrown (ctx s) = None \<Longrightarrow> clock_ok (fst (ota_dispatch EvRebootDone now s))"
  by (simp add: dispatch_stamped process_ota_def clock_ok_def action_defs)

lemma dispatch_clock_ok:
  assumes "clock_ok s" "c_failure (ctx s) = FailNone"
  shows "clock_ok (fst (ota_dispatch e now s))"
proof -
  obtain b s' where p: "process_ota e (stamped now s) = (b, s')" by (cases "process_ota e (stamped now s)")
  have "clock_ok s'" using process_clock_ok [of "stamped now s" e] assms p by (simp add: clock_ok_def)
  then show ?thesis by (simp add: dispatch_stamped p ota_stop_def stopWith_def clock_ok_def split: bool.splits)
qed

definition ota_inv :: "OtaSession \<Rightarrow> bool" where
  "ota_inv s \<longleftrightarrow> ota_ok s \<and> clock_ok s"

lemma not_waiting_ok: "ota_ok s \<Longrightarrow> ota_ok (s\<lparr>ctx := (ctx s)\<lparr>c_waitingOut := False\<rparr>\<rparr>)"
  using data_payload_cong [of "(ctx s)\<lparr>c_waitingOut := False\<rparr>" "ctx s"]
  by (cases "ota_sm s") (simp_all add: ota_ok_def in_flight_ok_def progress_ok_def Let_def)

lemma tick_inv: "ota_inv s \<Longrightarrow> ota_inv (fst (ota_onTick now s))"
proof (cases "stage s = Failed \<or> \<not> c_waitingOut (ctx s)")
  case True
  assume "ota_inv s"
  with True show ?thesis
    by (auto simp: ota_onTick_def ota_inv_def dispatch_ok dispatch_clock_ok dest: stage_failure)
next
  case False
  assume i: "ota_inv s"
  with False have "ota_sm s = rebooting" "c_failure (ctx s) = FailNone" "c_thrown (ctx s) = None"
    by (auto simp: ota_inv_def clock_ok_def dest: stage_failure)
  with i False show ?thesis
    by (auto simp: ota_onTick_def ota_inv_def intro!: dispatch_ok not_waiting_ok reboot_clock_ok)
qed

lemma stop_inv: "ota_inv s \<Longrightarrow> ota_inv (fst (ota_stop ProtocolError s))"
  by (simp add: ota_inv_def ota_stop_ok clock_ok_def) (simp add: ota_stop_def stopWith_def)

lemma dispatch_inv: "ota_inv s \<Longrightarrow> stage s \<noteq> Failed \<Longrightarrow> ota_inv (fst (ota_dispatch e now s))"
  by (simp add: ota_inv_def dispatch_ok dispatch_clock_ok stage_failure)

lemma ota_inv_apply [inv_intros]: "ota_inv s \<Longrightarrow> ota_inv (ota_apply s call)"
proof (cases call)
  case (StartCall now)
  assume i: "ota_inv s"
  with StartCall show ?thesis
    using process_any_ok [of "stamped now s" EvStart] process_clock_ok [of "stamped now s" EvStart]
      stage_failure [of s]
    by (auto simp: ota_apply_def start_stamped ota_inv_def clock_ok_def)
next
  case (FrameCall f now)
  assume "ota_inv s"
  with FrameCall show ?thesis by (auto simp: ota_apply_def ota_onFrame_def intro: dispatch_inv stop_inv)
next
  case (TickCall now)
  assume "ota_inv s"
  with TickCall show ?thesis by (simp add: ota_apply_def tick_inv)
qed

lemma ota_inv_new [inv_intros]: "ota_inv (ota_new img v tm)"
  by (simp add: ota_inv_def ota_ok_defs clock_ok_def ota_new_def)

interpretation ota: invariant_machine ota_apply ota_inv
  by unfold_locales (rule ota_inv_apply)

section \<open>Progress\<close>

lemma process_frame:
  assumes "ota_ok s" "c_failure (ctx s) = FailNone" "process_ota e s = (b, s')"
  shows "c_image (ctx s') = c_image (ctx s) \<and> c_version (ctx s') = c_version (ctx s) \<and>
     c_timing (ctx s') = c_timing (ctx s) \<and> c_sentBytes (ctx s) \<le> c_sentBytes (ctx s')"
  using assms
  by (cases "ota_sm s"; cases e)
    (auto simp: process_ota_def guard_defs action_defs ota_ok_def progress_ok_def split: if_splits)

definition same_job :: "OtaSession \<Rightarrow> OtaSession \<Rightarrow> bool" where
  "same_job s s' \<longleftrightarrow> c_image (ctx s') = c_image (ctx s) \<and> c_version (ctx s') = c_version (ctx s) \<and>
     c_timing (ctx s') = c_timing (ctx s) \<and> c_sentBytes (ctx s) \<le> c_sentBytes (ctx s')"

lemma same_job_refl: "same_job s s" and same_job_stop: "same_job s (fst (ota_stop why s))"
  by (simp_all add: same_job_def ota_stop_def stopWith_def)

lemma dispatch_same_job:
  assumes "ota_ok s" "stage s \<noteq> Failed"
  shows "same_job s (fst (ota_dispatch e now s))"
proof -
  obtain b s' where p: "process_ota e (stamped now s) = (b, s')" by (cases "process_ota e (stamped now s)")
  have "same_job s s'"
    using process_frame [OF _ _ p] assms stage_failure [of s] by (simp add: same_job_def)
  then show ?thesis
    by (auto simp: dispatch_stamped p ota_stop_def stopWith_def same_job_def split: bool.splits)
qed

lemma apply_same_job: "ota_inv s \<Longrightarrow> same_job s (ota_apply s call)"
proof (cases call)
  case (StartCall now)
  assume "ota_inv s"
  then show ?thesis using StartCall process_frame [of "stamped now s" EvStart] stage_failure [of s]
    by (cases "process_ota EvStart (stamped now s)")
      (auto simp: ota_apply_def start_stamped ota_inv_def same_job_def)
next
  case (FrameCall f now)
  assume "ota_inv s"
  with FrameCall show ?thesis
    by (auto simp: ota_apply_def ota_onFrame_def ota_inv_def
        intro: dispatch_same_job same_job_refl same_job_stop)
next
  case (TickCall now)
  assume "ota_inv s"
  then have "same_job (s\<lparr>ctx := (ctx s)\<lparr>c_waitingOut := False\<rparr>\<rparr>)
      (fst (ota_dispatch EvRebootDone now (s\<lparr>ctx := (ctx s)\<lparr>c_waitingOut := False\<rparr>\<rparr>)))" if "stage s \<noteq> Failed"
    using that by (intro dispatch_same_job not_waiting_ok) (simp_all add: ota_inv_def stage_def split: if_splits)
  then have "stage s \<noteq> Failed \<Longrightarrow>
      same_job s (fst (ota_dispatch EvRebootDone now (s\<lparr>ctx := (ctx s)\<lparr>c_waitingOut := False\<rparr>\<rparr>)))"
    by (simp add: same_job_def)
  with TickCall \<open>ota_inv s\<close> show ?thesis
    by (auto simp: ota_apply_def ota_onTick_def ota_inv_def intro: dispatch_same_job same_job_refl)
qed

definition ota_run :: "byte list \<Rightarrow> u32 \<Rightarrow> Timing \<Rightarrow> ota_call list \<Rightarrow> OtaSession" where
  "ota_run img v tm calls = foldl ota_apply (ota_new img v tm) calls"

lemma ota_run_inv: "ota_inv (ota_run img v tm calls)"
  unfolding ota_run_def by (rule ota.all_ops.inv_run) (simp_all add: ota_inv_new)

lemma ota_run_job:
  "c_image (ctx (ota_run img v tm calls)) = img \<and> c_version (ctx (ota_run img v tm calls)) = v \<and>
   c_timing (ctx (ota_run img v tm calls)) = tm"
proof (induction calls rule: rev_induct)
  case Nil
  then show ?case by (simp add: ota_run_def ota_new_def)
next
  case (snoc call calls)
  have "ota_run img v tm (calls @ [call]) = ota_apply (ota_run img v tm calls) call" by (simp add: ota_run_def)
  with snoc apply_same_job [OF ota_run_inv] show ?case by (simp add: same_job_def)
qed

section \<open>Bounded retry\<close>

text \<open>A call that gives the session trouble: a tick at or after the deadline, or a \<open>BAD_CRC\<close>
  refusal of the frame in flight.\<close>

fun trouble :: "OtaSession \<Rightarrow> ota_call \<Rightarrow> bool" where
  "trouble s (TickCall now) = (c_deadline (ctx s) \<le> now)"
| "trouble s (FrameCall f now) =
     (ff_type f = kNak \<and> ff_seq f = c_seq (ctx s) \<and> ff_payload f \<noteq> [] \<and> ff_payload f ! 0 = kNakBadCrc)"
| "trouble s (StartCall now) = False"

fun troubles :: "OtaSession \<Rightarrow> ota_call list \<Rightarrow> bool" where
  "troubles s [] = True"
| "troubles s (c # cs) = (trouble s c \<and> troubles (ota_apply s c) cs)"

definition waiting :: "OtaSession \<Rightarrow> bool" where
  "waiting s \<longleftrightarrow> c_failure (ctx s) = FailNone \<and>
     ota_sm s \<in> {probing, beginning, sending, committing, rechecking, confirming}"

lemma waiting_stage: "waiting s \<Longrightarrow> stage s \<noteq> Idle \<and> stage s \<noteq> Done \<and> stage s \<noteq> Failed"
  by (auto simp: waiting_def stage_def)

definition budget_left :: "OtaSession \<Rightarrow> int" where
  "budget_left s = tm_resends (c_timing (ctx s)) - c_resends (ctx s)"

lemma process_trouble:
  assumes "waiting s" "c_thrown (ctx s) = None" "e = EvTimeout \<or> e = EvNak kNakBadCrc"
  shows "process_ota e s =
     (if 0 < budget_left s then (True, s\<lparr>ctx := ctx_resend (ctx s)\<rparr>)
      else (True, \<lparr>ctx = (if e = EvTimeout then stopWith NoAnswer 0 (ctx s) else stopWith BoardRefused kNakBadCrc (ctx s)),
                   ota_sm = failed_s\<rparr>))"
  using assms
  by (auto simp: waiting_def process_ota_def budget_left_def guard_defs always_def Let_def kResendInFlight_def
      kFailSilent_def kFailRefused_def stopWith_def ctx_resend_def)

lemma trouble_dispatch:
  assumes "waiting s" "ota_inv s" "trouble s c"
  obtains e now where "ota_exec s c = ota_dispatch e now s" "e = EvTimeout \<or> e = EvNak kNakBadCrc"
proof (cases c)
  case (TickCall now)
  have "\<not> c_waitingOut (ctx s)" using assms(1,2) by (auto simp: waiting_def ota_inv_def clock_ok_def)
  with TickCall assms waiting_stage that [of EvTimeout now] show ?thesis by (simp add: ota_onTick_def)
next
  case (FrameCall f now)
  with assms waiting_stage that [of "EvNak kNakBadCrc" now] show ?thesis
    by (simp add: ota_onFrame_def message_codes)
next
  case (StartCall now)
  with assms(3) show ?thesis by simp
qed

lemma trouble_step:
  assumes "waiting s" "ota_inv s" "trouble s c"
  shows "if 0 < budget_left s
     then snd (ota_exec s c) = c_inFlight (ctx s) \<and> waiting (ota_apply s c) \<and> stage (ota_apply s c) = stage s \<and>
       budget_left (ota_apply s c) = budget_left s - 1 \<and> c_inFlight (ctx (ota_apply s c)) = c_inFlight (ctx s)
     else snd (ota_exec s c) = [] \<and> c_failure (ctx (ota_apply s c)) \<in> {NoAnswer, BoardRefused}"
proof -
  obtain e now where e: "ota_exec s c = ota_dispatch e now s" "e = EvTimeout \<or> e = EvNak kNakBadCrc"
    using trouble_dispatch [OF assms] by metis
  have "waiting (stamped now s)" "c_thrown (ctx (stamped now s)) = None" "budget_left (stamped now s) = budget_left s"
    using assms(1,2) by (simp_all add: waiting_def ota_inv_def clock_ok_def budget_left_def)
  with process_trouble [OF _ _ e(2), of "stamped now s"] assms(1) show ?thesis
    unfolding ota_apply_def e(1) dispatch_stamped
    by (auto simp: ctx_resend_def stopWith_def waiting_def stage_def budget_left_def)
qed

lemma troubles_exhaust:
  assumes "waiting s" "ota_inv s" "troubles s cs"
  shows "(int (length cs) \<le> budget_left s \<longrightarrow>
            stage (foldl ota_apply s cs) = stage s \<and> c_inFlight (ctx (foldl ota_apply s cs)) = c_inFlight (ctx s)) \<and>
         (0 \<le> budget_left s \<longrightarrow> int (length cs) = budget_left s + 1 \<longrightarrow>
            c_failure (ctx (foldl ota_apply s cs)) \<in> {NoAnswer, BoardRefused})"
  using assms
proof (induction cs arbitrary: s)
  case (Cons c cs)
  note st = trouble_step [OF Cons.prems(1,2), of c]
  have t: "trouble s c" "troubles (ota_apply s c) cs" using Cons.prems(3) by simp_all
  show ?case
  proof (cases "0 < budget_left s")
    case True
    with st t(1) have w: "waiting (ota_apply s c)" "budget_left (ota_apply s c) = budget_left s - 1"
      "stage (ota_apply s c) = stage s" "c_inFlight (ctx (ota_apply s c)) = c_inFlight (ctx s)" by simp_all
    show ?thesis using Cons.IH [OF w(1) ota_inv_apply [OF Cons.prems(2)] t(2)] w True by auto
  next
    case False
    with st t(1) show ?thesis by auto
  qed
qed simp

section \<open>An answering board\<close>

text \<open>The answers a board gives: an \<open>ACK\<close> of the frame in flight, and \<open>INFO\<close> with its own
  sequence number, version, bank and state.\<close>

definition ack_frame :: "OtaSession \<Rightarrow> FlashFrame" where
  "ack_frame s = \<lparr>ff_type = kAck, ff_seq = c_seq (ctx s), ff_payload = []\<rparr>"

definition info_frame :: "u16 \<Rightarrow> u32 \<Rightarrow> byte \<Rightarrow> byte \<Rightarrow> FlashFrame" where
  "info_frame sq v bank st = \<lparr>ff_type = kInfo, ff_seq = sq, ff_payload = le32 v @ [bank, st]\<rparr>"

definition acked :: "int \<Rightarrow> OtaSession \<Rightarrow> OtaSession" where
  "acked now s = ota_apply s (FrameCall (ack_frame s) now)"

definition informed :: "u16 \<Rightarrow> u32 \<Rightarrow> byte \<Rightarrow> byte \<Rightarrow> int \<Rightarrow> OtaSession \<Rightarrow> OtaSession" where
  "informed sq v bank st now s = ota_apply s (FrameCall (info_frame sq v bank st) now)"

lemma read_info: "readLittleEndian32 (le32 v @ ys) 0 = v"
  using read_le32 [of "[]" v ys] by simp

lemma acked_eq:
  "waiting s \<Longrightarrow> acked now s = fst (ota_dispatch EvAck now s)"
  using waiting_stage [of s] by (simp add: acked_def ota_apply_def ota_onFrame_def ack_frame_def message_codes)

lemma informed_eq:
  "waiting s \<Longrightarrow> informed sq v bank st now s = fst (ota_dispatch (EvInfo v st) now s)"
  using waiting_stage [of s]
  by (simp add: informed_def ota_apply_def ota_onFrame_def info_frame_def message_codes
      kInfoPayloadBytes_def kInfoVersionAt_def kInfoStateAt_def read_info nth_append)

lemma stage_iff:
  "stage s = Sending \<longleftrightarrow> c_failure (ctx s) = FailNone \<and> ota_sm s = sending"
  "stage s = Committing \<longleftrightarrow> c_failure (ctx s) = FailNone \<and> ota_sm s = committing"
  "stage s = Beginning \<longleftrightarrow> c_failure (ctx s) = FailNone \<and> ota_sm s = beginning"
  "stage s = Probing \<longleftrightarrow> c_failure (ctx s) = FailNone \<and> ota_sm s = probing"
  "stage s = Rebooting \<longleftrightarrow> c_failure (ctx s) = FailNone \<and> ota_sm s = rebooting"
  "stage s = Rechecking \<longleftrightarrow> c_failure (ctx s) = FailNone \<and> ota_sm s = rechecking"
  "stage s = Confirming \<longleftrightarrow> c_failure (ctx s) = FailNone \<and> ota_sm s = confirming"
  "stage s = Done \<longleftrightarrow> c_failure (ctx s) = FailNone \<and> ota_sm s = done_s"
  by (auto simp: stage_def split: ota_state.splits)

lemma acked_inv: "ota_inv s \<Longrightarrow> ota_inv (acked now s)"
  and informed_inv: "ota_inv s \<Longrightarrow> ota_inv (informed sq v bank st now s)"
  by (simp_all add: acked_def informed_def ota_inv_apply)

lemma acked_job:
  "ota_inv s \<Longrightarrow> c_image (ctx (acked now s)) = c_image (ctx s) \<and> c_version (ctx (acked now s)) = c_version (ctx s)"
  using apply_same_job [of s "FrameCall (ack_frame s) now"] by (simp add: acked_def same_job_def)

lemma acked_begin:
  assumes "ota_inv s" "stage s = Beginning"
  shows "stage (acked now s) = Sending \<and> c_sentBytes (ctx (acked now s)) = 0"
proof -
  have "waiting s" "c_thrown (ctx s) = None" using assms by (auto simp: stage_iff waiting_def ota_inv_def clock_ok_def)
  with assms(2) show ?thesis
    by (simp add: acked_eq stage_iff dispatch_stamped process_ota_def action_defs)
qed

lemma acked_chunk:
  assumes "ota_inv s" "stage s = Sending"
  defines "n \<equiv> c_sentBytes (ctx s) + min 256 (length (c_image (ctx s)) - c_sentBytes (ctx s))"
  shows "c_sentBytes (ctx (acked now s)) = n \<and>
    stage (acked now s) = (if n < length (c_image (ctx s)) then Sending else Committing)"
proof -
  have w: "waiting s" "c_thrown (ctx s) = None"
    using assms(1,2) by (auto simp: stage_iff waiting_def ota_inv_def clock_ok_def)
  have "c_chunkBytes (ctx s) = min 256 (length (c_image (ctx s)) - c_sentBytes (ctx s))"
    using assms(1,2) by (simp add: ota_inv_def ota_ok_def progress_ok_def stage_iff Let_def)
  with w assms(2) show ?thesis
    by (auto simp: acked_eq stage_iff dispatch_stamped process_ota_def action_defs guard_defs n_def)
qed

lemma acked_all_chunks:
  "ota_inv s \<Longrightarrow> stage s = Sending \<Longrightarrow>
     n = (length (c_image (ctx s)) - c_sentBytes (ctx s) + 255) div 256 \<Longrightarrow>
     stage ((acked now ^^ n) s) = Committing \<and> ota_inv ((acked now ^^ n) s) \<and>
     c_version (ctx ((acked now ^^ n) s)) = c_version (ctx s)"
proof (induction n arbitrary: s)
  case 0
  then have "length (c_image (ctx s)) - c_sentBytes (ctx s) = 0" by simp
  moreover have "c_sentBytes (ctx s) < length (c_image (ctx s))"
    using 0 by (simp add: ota_inv_def ota_ok_def progress_ok_def stage_iff Let_def)
  ultimately show ?case by simp
next
  case (Suc n)
  let ?s = "acked now s" and ?rest = "length (c_image (ctx s)) - c_sentBytes (ctx s)"
  have inv: "ota_inv ?s" and job: "c_image (ctx ?s) = c_image (ctx s)" "c_version (ctx ?s) = c_version (ctx s)"
    using acked_inv acked_job Suc.prems(1) by simp_all
  note chunk = acked_chunk [OF Suc.prems(1,2), of now]
  show ?case
  proof (cases "?rest > 256")
    case True
    have "n = (length (c_image (ctx ?s)) - c_sentBytes (ctx ?s) + 255) div 256"
      using chunk True Suc.prems(3) job by simp
    moreover have "stage ?s = Sending" using chunk True by simp
    ultimately show ?thesis using Suc.IH [OF inv] job by (simp only: funpow_Suc_right comp_def)
  next
    case False
    then have "n = 0" using Suc.prems(3) by auto
    with chunk False inv job show ?thesis by simp
  qed
qed

lemma inv_thrown: "ota_inv s \<Longrightarrow> c_thrown (ctx s) = None"
  by (simp add: ota_inv_def clock_ok_def)

text \<open>From \<open>COMMIT\<close> on: the acknowledgement, the reboot wait, the version check, the confirmation.\<close>

lemma commit_to_done:
  assumes "ota_inv s2" "stage s2 = Committing"
    and "s3 = acked now s2" "s4 = ota_apply s3 (TickCall (c_deadline (ctx s3)))"
    and "s5 = informed sq (c_version (ctx s2)) bank st now s4"
  shows "stage (acked now s5) = Done"
proof -
  have i3: "ota_inv s3" and f3: "c_failure (ctx s3) = FailNone" "ota_sm s3 = rebooting"
      "c_version (ctx s3) = c_version (ctx s2)"
    using assms(2,3) acked_inv [OF assms(1), of now] acked_job [OF assms(1), of now] inv_thrown [OF assms(1)]
    by (simp_all add: acked_eq waiting_def stage_iff dispatch_stamped process_ota_def action_defs)
  have i4: "ota_inv s4" unfolding assms(4) using i3 by (rule ota_inv_apply)
  have "stage s3 \<noteq> Idle" "stage s3 \<noteq> Done" "stage s3 \<noteq> Failed" using f3 by (simp_all add: stage_def)
  then have p4: "stage s4 = Rechecking" "c_version (ctx s4) = c_version (ctx s2)" using f3 i3 inv_thrown [OF i3]
    by (simp_all add: assms(4) ota_apply_def ota_onTick_def ota_inv_def clock_ok_def stage_iff dispatch_stamped
        process_ota_def action_defs)
  have p5: "stage s5 = Confirming" using p4 inv_thrown [OF i4]
    by (simp add: assms(5) informed_eq waiting_def stage_iff dispatch_stamped process_ota_def action_defs guard_defs)
  have "ota_inv s5" unfolding assms(5) using i4 by (rule informed_inv)
  then show ?thesis using p5 inv_thrown
    by (simp add: acked_eq waiting_def stage_iff dispatch_stamped process_ota_def action_defs)
qed

section \<open>Properties\<close>

text \<open>
  C3. An update is reported as done only if the board said so: in every state any sequence of
  calls can reach, stage \<open>Done\<close> implies that the version the board last reported is the target
  version and that no failure was recorded; and while the board is asked to commit, reboots or is
  rechecked, every byte of the image has been acknowledged.
\<close>

theorem done_only_on_target_version:
  shows "let s = ota_run img v tm calls in
    (stage s = Done \<longrightarrow> c_boardVersion (ctx s) = v \<and> c_failure (ctx s) = FailNone) \<and>
    (stage s \<in> {Committing, Rebooting, Rechecking} \<longrightarrow> c_sentBytes (ctx s) = length img)"
proof -
  let ?s = "ota_run img v tm calls"
  have "ota_ok ?s" using ota_run_inv by (simp add: ota_inv_def)
  then show ?thesis using ota_run_job [of img v tm calls]
    by (auto simp: Let_def stage_iff ota_ok_def progress_ok_def)
qed

lemma demo_done: "stage (ota_run [1] 7 defaultTiming [StartCall 0, FrameCall (info_frame 9 7 0 0) 10]) = Done"
  by (simp add: ota_run_def ota_apply_def start_stamped ota_onFrame_def info_frame_def dispatch_stamped
      process_ota_def action_defs guard_defs stage_def ota_new_def stamped_def message_codes read_info
      kInfoPayloadBytes_def kInfoVersionAt_def kInfoStateAt_def kStateConfirmed_def nth_append)

theorem done_only_on_target_version_witness:
  "c_boardVersion (ctx (ota_run [1] 7 defaultTiming [StartCall 0, FrameCall (info_frame 9 7 0 0) 10])) = 7"
  using done_only_on_target_version [of "[1]" 7 defaultTiming "[StartCall 0, FrameCall (info_frame 9 7 0 0) 10]"]
    demo_done by (simp add: Let_def)

text \<open>
  C6. The transfer carries the image: whenever a session is sending, the frame in flight is the
  encoded \<open>DATA\<close> message whose offset is the number of bytes acknowledged so far and whose data is
  the next (at most 256) bytes of the image, padded with the erased value to a multiple of eight;
  that number is a multiple of 256 below the image size.
\<close>

theorem data_in_flight_is_image:
  assumes "s = ota_run img v tm calls" and "stage s = Sending"
  shows "\<exists>k. c_inFlight (ctx s) = wire \<lparr>ff_type = kData, ff_seq = c_seq (ctx s),
        ff_payload = le32 (of_nat (c_sentBytes (ctx s))) @ take 256 (drop (c_sentBytes (ctx s)) img)
                     @ replicate k kErasedByte\<rparr> \<and>
      (length (take 256 (drop (c_sentBytes (ctx s)) img)) + k) mod 8 = 0 \<and>
      256 dvd c_sentBytes (ctx s) \<and> c_sentBytes (ctx s) < length img"
proof -
  let ?c = "ctx s" and ?d = "take 256 (drop (c_sentBytes (ctx s)) img)"
  have img: "c_image ?c = img" using assms(1) ota_run_job by simp
  have ok: "in_flight_ok sending ?c" "progress_ok sending ?c"
    using ota_run_inv [of img v tm calls] assms by (auto simp: ota_inv_def ota_ok_def stage_iff Let_def)
  have d: "take (c_chunkBytes ?c) (drop (c_sentBytes ?c) img) = ?d"
    using ok(2) img by (simp add: progress_ok_def min_def)
  have "4 \<le> length (le32 (of_nat (c_sentBytes ?c)) @ ?d)" "length (le32 (of_nat (c_sentBytes ?c)) @ ?d) \<le> 260"
    by simp_all
  note pad = pad_erased_props [OF this]
  then obtain k where k:
    "pad_erased (le32 (of_nat (c_sentBytes ?c)) @ ?d) = (le32 (of_nat (c_sentBytes ?c)) @ ?d) @ replicate k kErasedByte"
    by blast
  have "(length ?d + k) mod 8 = 0" using pad [THEN conjunct2, THEN conjunct1] unfolding k by simp
  moreover have "c_inFlight ?c = wire \<lparr>ff_type = kData, ff_seq = c_seq ?c,
      ff_payload = le32 (of_nat (c_sentBytes ?c)) @ ?d @ replicate k kErasedByte\<rparr>"
    using ok(1) k d img by (simp add: in_flight_ok_def data_payload_def)
  ultimately show ?thesis using ok(2) img by (auto simp: progress_ok_def)
qed

definition demo_calls :: "ota_call list" where
  "demo_calls = [StartCall 0, FrameCall (info_frame 9 1 0 0) 10, FrameCall \<lparr>ff_type = kAck, ff_seq = 2, ff_payload = []\<rparr> 20]"

lemma demo_sending: "stage (ota_run [1, 2, 3] 7 defaultTiming demo_calls) = Sending"
  by (simp add: ota_run_def demo_calls_def ota_apply_def start_stamped ota_onFrame_def info_frame_def dispatch_stamped
      process_ota_def action_defs guard_defs stage_def ota_new_def stamped_def message_codes read_info
      kInfoPayloadBytes_def kInfoVersionAt_def kInfoStateAt_def nth_append)

theorem data_in_flight_is_image_witness:
  "c_sentBytes (ctx (ota_run [1, 2, 3] 7 defaultTiming demo_calls)) < 3"
  using data_in_flight_is_image [OF refl demo_sending] by auto



text \<open>
  Terminal stages absorb and stale answers are ignored: a finished or failed session changes
  nothing and sends nothing on any call, and in every other stage an \<open>ACK\<close> or \<open>NAK\<close> for another
  message than the one in flight is dropped without effect.
\<close>

theorem terminal_and_stale_ignored:
  shows "(stage s \<in> {Done, Failed} \<longrightarrow> ota_exec s call = (s, [])) \<and>
    (ff_type f \<noteq> kInfo \<longrightarrow> ff_seq f \<noteq> c_seq (ctx s) \<longrightarrow> ota_exec s (FrameCall f now) = (s, []))"
  by (cases call) (auto simp: ota_start_def ota_onFrame_def ota_onTick_def)

theorem terminal_and_stale_ignored_witness:
  "snd (ota_exec (ota_run [1] 7 defaultTiming [StartCall 0, FrameCall (info_frame 9 7 0 0) 10]) (TickCall 99)) = []"
  using terminal_and_stale_ignored
    [of "ota_run [1] 7 defaultTiming [StartCall 0, FrameCall (info_frame 9 7 0 0) 10]" "TickCall 99"] demo_done by simp

text \<open>
  Progress never goes back: over any further calls the number of acknowledged bytes does not
  decrease and never exceeds the image size; encoding never throws.
\<close>

theorem progress_monotone:
  shows "let s = ota_run img v tm calls; s' = ota_run img v tm (calls @ rest) in
    c_sentBytes (ctx s) \<le> c_sentBytes (ctx s') \<and> c_sentBytes (ctx s') \<le> length img \<and> c_thrown (ctx s') = None"
proof -
  have "c_sentBytes (ctx (ota_run img v tm calls)) \<le> c_sentBytes (ctx (ota_run img v tm (calls @ rest)))"
  proof (induction rest rule: rev_induct)
    case (snoc c rest)
    have "ota_run img v tm (calls @ rest @ [c]) = ota_apply (ota_run img v tm (calls @ rest)) c"
      by (simp add: ota_run_def)
    with snoc apply_same_job [OF ota_run_inv, of img v tm "calls @ rest" c] show ?case by (simp add: same_job_def)
  qed simp
  moreover have "ota_ok (ota_run img v tm (calls @ rest))" using ota_run_inv by (simp add: ota_inv_def)
  ultimately show ?thesis using ota_run_job [of img v tm "calls @ rest"] by (simp add: ota_ok_def Let_def)
qed

text \<open>
  C5. With an answering board the update finishes: starting from any image that is not empty and
  a board that reports another version, one \<open>INFO\<close>, the acknowledgements of \<open>BEGIN\<close>, of each of
  the \<open>\<lceil>size / 256\<rceil>\<close> data frames and of \<open>COMMIT\<close>, the end of the reboot wait, an \<open>INFO\<close> with the
  target version and a last acknowledgement lead to \<open>Done\<close>.
\<close>

theorem answering_board_completes:
  assumes "img \<noteq> []" and "old \<noteq> v"
  shows "let s1 = informed sq old bank st now (ota_run img v tm [StartCall now]);
             s2 = (acked now ^^ ((length img + 255) div 256)) (acked now s1);
             s3 = acked now s2;
             s4 = ota_apply s3 (TickCall (c_deadline (ctx s3)));
             s5 = informed sq' v bank' st' now s4
         in stage s2 = Committing \<and> stage (acked now s5) = Done"
proof -
  define s0 where "s0 = ota_run img v tm [StartCall now]"
  define s1 where "s1 = informed sq old bank st now s0"
  define s2 where "s2 = (acked now ^^ ((length img + 255) div 256)) (acked now s1)"
  have i0: "ota_inv s0" unfolding s0_def by (rule ota_run_inv)
  have p0: "stage s0 = Probing" using assms(1)
    by (simp add: s0_def ota_run_def ota_apply_def start_stamped stage_def ota_new_def stamped_def process_ota_def
        action_defs guard_defs)
  have i1: "ota_inv s1" unfolding s1_def using i0 by (rule informed_inv)
  have "c_version (ctx s0) = v" "c_image (ctx s0) = img" using ota_run_job by (simp_all add: s0_def)
  then have p1: "stage s1 = Beginning" "c_version (ctx s1) = v" "c_image (ctx s1) = img"
    using p0 assms(2) inv_thrown [OF i0]
    by (simp_all add: s1_def informed_eq waiting_def stage_iff dispatch_stamped process_ota_def action_defs guard_defs)
  have i2: "ota_inv s2" and p2: "stage s2 = Committing" "c_version (ctx s2) = v"
    using acked_begin [OF i1 p1(1), of now] acked_inv [OF i1, of now] acked_job [OF i1, of now] p1
      acked_all_chunks [of "acked now s1" "(length img + 255) div 256" now]
    by (simp_all add: s2_def)
  show ?thesis using p2 commit_to_done [OF i2 p2(1) refl refl refl, of now sq' bank' st']
    by (simp add: s2_def s1_def s0_def Let_def)
qed

theorem answering_board_completes_witness:
  "stage ((acked 0 ^^ 1) (acked 0 (informed 5 1 0 0 0 (ota_run [1, 2, 3] 7 defaultTiming [StartCall 0])))) = Committing"
  using answering_board_completes [of "[1, 2, 3]" 1 7 5 0 0 0 defaultTiming 6 1 1]
  by (auto simp: Let_def)

end
