(* ===== verification/SerialFrameParser.thy ===== *)
theory SerialFrameParser
  imports Prelude
begin

text \<open>
  \<^verbatim>\<open>src/integration/SerialFrameParser.{h,cpp}\<close>: turns the telemetry text of the serial link into
  \<^verbatim>\<open>sensorId,value\<close> readings, one per complete line.

  \<open>next_line\<close> is \<^verbatim>\<open>buffer_.find(kFrameDelimiter, start)\<close> with the split at the position found;
  \<open>lines_loop\<close> is the \<^verbatim>\<open>while\<close> loop of \<^verbatim>\<open>consume\<close> on the bytes from \<^verbatim>\<open>start\<close> on. The theorems: a
  printed reading is parsed back, the parser accepts exactly the lines of the documented grammar,
  and as long as no line exceeds the buffer limit the readings do not depend on the chunking (the
  parser interprets \<open>stream_parser\<close>); the buffer never exceeds the limit.
\<close>

section \<open>The parser\<close>

record SerialReading =
  sensorId :: string
  sr_value :: string

definition kFrameDelimiter :: char where "kFrameDelimiter = CHR 0x0A"
definition kFieldDelimiter :: char where "kFieldDelimiter = CHR '',''"
definition kCarriageReturn :: char where "kCarriageReturn = CHR 0x0D"
definition kMaxBufferBytes :: nat where "kMaxBufferBytes = 4096"

definition parseLine :: "string \<Rightarrow> SerialReading option" where
  "parseLine line =
     (let line = (if line \<noteq> [] \<and> last line = kCarriageReturn then butlast line else line)
      in if line = [] then None
         else case find_index (\<lambda>c. c = kFieldDelimiter) line of
             None \<Rightarrow> None
           | Some comma \<Rightarrow>
               if find_index (\<lambda>c. c = kFieldDelimiter) (drop (comma + 1) line) \<noteq> None then None
               else let sid = take comma line; val = drop (comma + 1) line
                    in if sid = [] \<or> val = [] then None
                       else Some \<lparr>sensorId = sid, sr_value = val\<rparr>)"

definition next_line :: "string \<Rightarrow> (string \<times> string) option" where
  "next_line buf =
     (case find_index (\<lambda>c. c = kFrameDelimiter) buf of
        None \<Rightarrow> None
      | Some newline \<Rightarrow> Some (take newline buf, drop (newline + 1) buf))"

lemma next_line_shorter: "next_line buf = Some (line, rest) \<Longrightarrow> length rest < length buf"
  by (auto simp: next_line_def dest!: find_index_SomeD split: option.splits)

function lines_loop :: "string \<Rightarrow> SerialReading list \<Rightarrow> SerialReading list \<times> string" where
  "lines_loop buf readings =
     (case next_line buf of
        None \<Rightarrow> (readings, buf)
      | Some (line, rest) \<Rightarrow>
          lines_loop rest
            (case parseLine line of None \<Rightarrow> readings | Some r \<Rightarrow> readings @ [r]))"
  by pat_completeness auto
termination
  by (relation "measure (\<lambda>(buf, _). length buf)") (auto dest: next_line_shorter)

declare lines_loop.simps [simp del]

definition serial_consume :: "string \<Rightarrow> string \<Rightarrow> string \<times> SerialReading list" where
  "serial_consume buffer bytes =
     (let (readings, rest) = lines_loop (buffer @ bytes) []
      in (if length rest > kMaxBufferBytes then [] else rest, readings))"

section \<open>Lines\<close>

lemma next_line_None: "next_line buf = None \<longleftrightarrow> kFrameDelimiter \<notin> set buf"
  by (auto simp: next_line_def find_index_None_iff dest!: find_index_split split: option.splits)

lemma next_line_Some:
  "next_line buf = Some (line, rest) \<longleftrightarrow> kFrameDelimiter \<notin> set line \<and> buf = line @ kFrameDelimiter # rest"
proof
  assume "next_line buf = Some (line, rest)"
  then show "kFrameDelimiter \<notin> set line \<and> buf = line @ kFrameDelimiter # rest"
    by (auto simp: next_line_def dest!: find_index_split split: option.splits)
next
  assume a: "kFrameDelimiter \<notin> set line \<and> buf = line @ kFrameDelimiter # rest"
  then have "find_index (\<lambda>c. c = kFrameDelimiter) (line @ kFrameDelimiter # rest) = Some (length line)"
    by (induction line arbitrary: buf) auto
  with a show "next_line buf = Some (line, rest)" by (simp add: next_line_def)
qed

text \<open>The grammar of a reading: two non-empty fields without delimiters, an optional carriage
  return.\<close>

definition reading_line :: "string \<Rightarrow> SerialReading \<Rightarrow> bool" where
  "reading_line line r \<longleftrightarrow>
     sensorId r \<noteq> [] \<and> sr_value r \<noteq> [] \<and> kFieldDelimiter \<notin> set (sensorId r) \<and>
     kFieldDelimiter \<notin> set (sr_value r) \<and>
     (let body = sensorId r @ kFieldDelimiter # sr_value r
      in line = body @ [kCarriageReturn] \<or> line = body \<and> last line \<noteq> kCarriageReturn)"

lemma find_comma:
  "kFieldDelimiter \<notin> set xs \<Longrightarrow>
     find_index (\<lambda>c. c = kFieldDelimiter) (xs @ kFieldDelimiter # ys) = Some (length xs)"
  by (induction xs) auto

lemma parse_body:
  assumes "line = sid @ kFieldDelimiter # val" "sid \<noteq> []" "val \<noteq> []"
    "kFieldDelimiter \<notin> set sid" "kFieldDelimiter \<notin> set val"
  shows "(case find_index (\<lambda>c. c = kFieldDelimiter) line of None \<Rightarrow> None
      | Some comma \<Rightarrow>
          if find_index (\<lambda>c. c = kFieldDelimiter) (drop (comma + 1) line) \<noteq> None then None
          else let sid = take comma line; val = drop (comma + 1) line
               in if sid = [] \<or> val = [] then None else Some \<lparr>sensorId = sid, sr_value = val\<rparr>)
      = Some \<lparr>sensorId = sid, sr_value = val\<rparr>"
  using assms find_comma [of sid val] by (simp add: find_index_None_iff)

lemma reading_line_parsed: "reading_line line r \<Longrightarrow> parseLine line = Some r"
proof -
  assume r: "reading_line line r"
  let ?body = "sensorId r @ kFieldDelimiter # sr_value r"
  have "(if line \<noteq> [] \<and> last line = kCarriageReturn then butlast line else line) = ?body"
    using r butlast_snoc [of ?body] by (auto simp: reading_line_def Let_def simp del: butlast_snoc)
  with r parse_body [OF refl, of "sensorId r" "sr_value r"] show ?thesis
    by (simp add: parseLine_def reading_line_def)
qed

lemma parsed_reading_line: "parseLine line = Some r \<Longrightarrow> reading_line line r"
proof -
  assume p: "parseLine line = Some r"
  define body where "body = (if line \<noteq> [] \<and> last line = kCarriageReturn then butlast line else line)"
  obtain comma where c: "find_index (\<lambda>c. c = kFieldDelimiter) body = Some comma"
      "find_index (\<lambda>c. c = kFieldDelimiter) (drop (comma + 1) body) = None" "take comma body \<noteq> []"
      "drop (comma + 1) body \<noteq> []" "r = \<lparr>sensorId = take comma body, sr_value = drop (comma + 1) body\<rparr>"
    using p by (auto simp: parseLine_def body_def [symmetric] Let_def split: option.splits if_splits)
  obtain ys zs where s: "body = ys @ kFieldDelimiter # zs" "length ys = comma" "kFieldDelimiter \<notin> set ys"
    using find_index_split [OF c(1)] by blast
  have "kFieldDelimiter \<notin> set zs" using c(2) s by (auto simp: find_index_None_iff)
  moreover have "r = \<lparr>sensorId = ys, sr_value = zs\<rparr>" "ys \<noteq> []" "zs \<noteq> []" using c s by auto
  moreover have "line = body @ [kCarriageReturn] \<or> line = body \<and> last line \<noteq> kCarriageReturn"
  proof (cases "line \<noteq> [] \<and> last line = kCarriageReturn")
    case True
    then have "line = butlast line @ [kCarriageReturn]" by (metis append_butlast_last_id)
    with True show ?thesis by (simp add: body_def)
  next
    case False
    with s(1) show ?thesis by (auto simp: body_def)
  qed
  ultimately show ?thesis using s by (auto simp: reading_line_def)
qed

section \<open>Chunk independence\<close>

lemma loop_rest: "kFrameDelimiter \<notin> set buf \<Longrightarrow> lines_loop buf rs = (rs, buf)"
  by (subst lines_loop.simps) (simp flip: next_line_None)

lemma loop_line:
  "kFrameDelimiter \<notin> set line \<Longrightarrow>
     lines_loop (line @ kFrameDelimiter # rest) rs = lines_loop rest (rs @ (case parseLine line of None \<Rightarrow> [] | Some r \<Rightarrow> [r]))"
  using next_line_Some [of "line @ kFrameDelimiter # rest" line rest]
  by (subst lines_loop.simps) (simp split: option.splits)

lemma lines_induct [case_names partial line]:
  assumes "\<And>buf. kFrameDelimiter \<notin> set buf \<Longrightarrow> P buf"
    and "\<And>line rest. kFrameDelimiter \<notin> set line \<Longrightarrow> P rest \<Longrightarrow> P (line @ kFrameDelimiter # rest)"
  shows "P buf"
proof (induction buf rule: measure_induct_rule [of length])
  case (less buf)
  show ?case
  proof (cases "kFrameDelimiter \<in> set buf")
    case True
    then obtain line rest where "buf = line @ kFrameDelimiter # rest" "kFrameDelimiter \<notin> set line"
      by (metis split_list_first)
    with assms(2) [of line rest] less [of rest] show ?thesis by simp
  qed (rule assms(1))
qed

lemma loop_readings: "lines_loop buf rs = (rs @ fst (lines_loop buf []), snd (lines_loop buf []))"
proof (induction buf arbitrary: rs rule: lines_induct)
  case (line line rest)
  show ?case unfolding loop_line [OF line(1)]
    by (subst line(2), subst (2) line(2)) (subst (3) line(2), simp)
qed (simp add: loop_rest)

lemma loop_more:
  "lines_loop (buf @ ys) rs = lines_loop (snd (lines_loop buf rs) @ ys) (fst (lines_loop buf rs))"
proof (induction buf arbitrary: rs rule: lines_induct)
  case (line line rest)
  then show ?case by (simp add: loop_line)
qed (simp add: loop_rest)

lemma loop_no_newline: "kFrameDelimiter \<notin> set (snd (lines_loop buf rs))"
  by (induction buf arbitrary: rs rule: lines_induct) (simp_all add: loop_rest loop_line)

definition serial_inv :: "string \<Rightarrow> bool" where
  "serial_inv buffer \<longleftrightarrow> kFrameDelimiter \<notin> set buffer \<and> length buffer \<le> kMaxBufferBytes"

text \<open>\<open>no_long_line\<close>: at no point of the input is more than the buffer limit pending.\<close>

definition no_long_line :: "string \<Rightarrow> string \<Rightarrow> bool" where
  "no_long_line buffer bytes \<longleftrightarrow>
     (\<forall>n \<le> length bytes. length (snd (lines_loop (buffer @ take n bytes) [])) \<le> kMaxBufferBytes)"

lemma serial_inv_consume: "serial_inv (fst (serial_consume buffer bytes))"
  using loop_no_newline [of "buffer @ bytes" "[]"]
  by (simp add: serial_inv_def serial_consume_def split_beta Let_def)

lemma consume_fits:
  assumes "no_long_line buffer bytes"
  shows "serial_consume buffer bytes = prod.swap (lines_loop (buffer @ bytes) [])"
  using assms [unfolded no_long_line_def, rule_format, of "length bytes"]
  by (simp add: serial_consume_def split_beta Let_def prod.swap_def)

lemma no_long_line_append:
  assumes "no_long_line buffer (xs @ ys)"
  shows "no_long_line buffer xs \<and> no_long_line (snd (lines_loop (buffer @ xs) [])) ys"
proof -
  have n: "length (snd (lines_loop (buffer @ take n (xs @ ys)) [])) \<le> kMaxBufferBytes"
    if "n \<le> length xs + length ys" for n using assms that by (simp add: no_long_line_def)
  have "snd (lines_loop (snd (lines_loop (buffer @ xs) []) @ take n ys) []) = snd (lines_loop (buffer @ xs @ take n ys) [])" for n
    using loop_more [of "buffer @ xs" "take n ys" "[]"]
      loop_readings [of "snd (lines_loop (buffer @ xs) []) @ take n ys" "fst (lines_loop (buffer @ xs) [])"]
    by simp
  moreover have "length (snd (lines_loop (buffer @ xs @ take n ys) [])) \<le> kMaxBufferBytes" if "n \<le> length ys" for n
    using n [of "length xs + n"] that by simp
  moreover have "length (snd (lines_loop (buffer @ take n xs) [])) \<le> kMaxBufferBytes" if "n \<le> length xs" for n
    using n [of n] that by simp
  ultimately show ?thesis by (simp add: no_long_line_def)
qed

lemma serial_consume_append:
  assumes "no_long_line buffer (xs @ ys)"
  shows "serial_consume buffer (xs @ ys) =
    (fst (serial_consume (fst (serial_consume buffer xs)) ys),
     snd (serial_consume buffer xs) @ snd (serial_consume (fst (serial_consume buffer xs)) ys))"
  using assms no_long_line_append [OF assms] loop_more [of "buffer @ xs" ys "[]"]
    loop_readings [of "snd (lines_loop (buffer @ xs) []) @ ys" "fst (lines_loop (buffer @ xs) [])"]
  by (simp add: consume_fits prod.swap_def)

interpretation serial_stream: stream_parser serial_consume "[]" "(@)" serial_inv no_long_line
proof unfold_locales
  fix s assume "serial_inv s" "no_long_line s []"
  then show "serial_consume s [] = (s, [])" by (simp add: consume_fits loop_rest serial_inv_def prod.swap_def)
next
  fix s xs ys assume "no_long_line s (xs @ ys)"
  with no_long_line_append [OF this] show "no_long_line s xs \<and> no_long_line (fst (serial_consume s xs)) ys"
    by (simp add: consume_fits)
qed (simp_all add: serial_inv_consume serial_consume_append)

fun serial_feed :: "string \<Rightarrow> SerialReading list \<Rightarrow> string list \<Rightarrow> string \<times> SerialReading list" where
  "serial_feed buffer out [] = (buffer, out)"
| "serial_feed buffer out (c # cs) =
     serial_feed (fst (serial_consume buffer c)) (out @ snd (serial_consume buffer c)) cs"

lemma serial_feed_eq: "serial_feed buffer out cs = serial_stream.feed (buffer, out) cs"
  by (induction cs arbitrary: buffer out) simp_all

section \<open>Properties\<close>

text \<open>
  A line is accepted exactly when it is \<^verbatim>\<open>sensorId,value\<close> with two non-empty fields, one comma
  and at most one trailing carriage return, and then the reading is those two fields.
\<close>

theorem parseLine_iff_grammar:
  shows "(parseLine line = Some r) = reading_line line r"
  using reading_line_parsed parsed_reading_line by blast

text \<open>
  Framing over the stream: if no line exceeds the buffer limit, then for every way of cutting
  the text into chunks the readings are those of the complete lines in order, and the buffer is
  the text after the last newline.
\<close>

theorem serial_chunking_irrelevant:
  assumes "no_long_line [] text" and "concat chunks = text"
  shows "serial_feed [] [] chunks = prod.swap (lines_loop text [])"
proof -
  have "serial_inv []" by (simp add: serial_inv_def)
  then show ?thesis using assms
    by (simp add: serial_feed_eq serial_stream.feed_concat consume_fits prod.swap_def)
qed

theorem serial_chunking_irrelevant_witness:
  "serial_feed [] [] [''t,2'', ''3'' @ [kFrameDelimiter], ''x''] = (''x'', [\<lparr>sensorId = ''t'', sr_value = ''23''\<rparr>])"
proof -
  have "no_long_line [] (''t,23'' @ kFrameDelimiter # ''x'')"
  proof -
    have "length (snd (lines_loop buf rs)) \<le> length buf" for buf rs
      by (induction buf arbitrary: rs rule: lines_induct) (auto simp: loop_rest loop_line intro: le_SucI trans_le_add2)
    moreover have "length (take n (''t,23'' @ kFrameDelimiter # ''x'')) \<le> kMaxBufferBytes" for n
      by (simp add: kMaxBufferBytes_def)
    ultimately show ?thesis unfolding no_long_line_def by (metis append_Nil order_trans)
  qed
  moreover have "lines_loop (''t,23'' @ kFrameDelimiter # ''x'') [] = ([\<lparr>sensorId = ''t'', sr_value = ''23''\<rparr>], ''x'')"
    by (subst loop_line) (simp_all add: kFrameDelimiter_def loop_rest parseLine_def kFieldDelimiter_def kCarriageReturn_def)
  ultimately show ?thesis
    using serial_chunking_irrelevant [of "''t,23'' @ kFrameDelimiter # ''x''" "[''t,2'', ''3'' @ [kFrameDelimiter], ''x'']"]
    by simp
qed

end
