(* ===== verification/ModbusPdu.thy ===== *)
theory ModbusPdu
  imports Prelude
begin

text \<open>
  \<^verbatim>\<open>src/integration/modbus/ModbusPdu.{h,cpp}\<close>: the Modbus TCP codec for register reads.

  The decoder returns \<open>Inl\<close> for the error half of its \<^verbatim>\<open>Result\<close> and \<open>Inr\<close> for the other; the whole
  is an option, with \<open>None\<close> for a read past the end of the \<^verbatim>\<open>std::span\<close>, which C++ leaves undefined.
  \<open>response_adu\<close> and \<open>exception_adu\<close> are the layouts of the Modbus Application Protocol as the header
  of the file tabulates them. The theorems: requests have the prescribed layout, the decoder
  accepts exactly the two layouts and returns what they carry, every rejected frame gets the
  error of the first check it fails, and within the permitted quantities it never reads out of
  bounds.
\<close>

section \<open>Constants and codecs\<close>

definition kMbapHeaderSize :: nat where "kMbapHeaderSize = 7"
definition kMaxPduSize :: nat where "kMaxPduSize = 253"
definition kModbusTcpProtocolId :: u16 where "kModbusTcpProtocolId = 0"
definition kExceptionFlag :: byte where "kExceptionFlag = 0x80"
definition kFunctionCodeMask :: byte where "kFunctionCodeMask = 0x7F"
definition kMaxRegistersPerRead :: u16 where "kMaxRegistersPerRead = 125"

lemmas modbus_consts = kMbapHeaderSize_def kMaxPduSize_def kModbusTcpProtocolId_def kExceptionFlag_def
  kFunctionCodeMask_def kMaxRegistersPerRead_def

datatype FunctionCode = ReadHoldingRegisters | ReadInputRegisters

fun fc_byte :: "FunctionCode \<Rightarrow> byte" where
  "fc_byte ReadHoldingRegisters = 0x03"
| "fc_byte ReadInputRegisters = 0x04"

datatype ExceptionCode = IllegalFunction | IllegalDataAddress | IllegalDataValue | SlaveDeviceFailure | Other

datatype DecodeError = ShortFrame | BadProtocolId | LengthMismatch | TransactionIdMismatch | UnitIdMismatch
  | FunctionCodeMismatch | ByteCountMismatch | DecodeServerException | InvalidQuantity

record ResponseContext =
  expectedTransactionId :: u16
  expectedUnitId :: byte
  expectedFunctionCode :: FunctionCode
  expectedQuantity :: u16

record DecodedReadResponse =
  registers :: "u16 list"
  exceptionCode :: ExceptionCode

definition writeBe16 :: "byte list \<Rightarrow> nat \<Rightarrow> u16 \<Rightarrow> byte list" where
  "writeBe16 buf offset v =
     (let wide = (ucast v :: u32)
      in buf[offset := ucast (drop_bit 8 wide AND 0xFF), offset + 1 := ucast (wide AND 0xFF)])"

definition readBe16 :: "byte list \<Rightarrow> nat \<Rightarrow> u16 option" where
  "readBe16 buf offset =
     (if offset + 1 < length buf
      then let hi = (ucast (buf ! offset) :: u32); lo = (ucast (buf ! (offset + 1)) :: u32)
           in Some (ucast (push_bit 8 hi OR lo))
      else None)"

definition mapExceptionCode :: "byte \<Rightarrow> ExceptionCode" where
  "mapExceptionCode raw =
     (if raw = 1 then IllegalFunction else if raw = 2 then IllegalDataAddress
      else if raw = 3 then IllegalDataValue else if raw = 4 then SlaveDeviceFailure else Other)"

section \<open>Encoder\<close>

definition encodeReadRequest :: "u16 \<Rightarrow> byte \<Rightarrow> FunctionCode \<Rightarrow> u16 \<Rightarrow> u16 \<Rightarrow> byte list" where
  "encodeReadRequest transactionId unitId fc startAddress quantity =
     (let adu = replicate (kMbapHeaderSize + 5) 0;
          adu = writeBe16 adu 0 transactionId;
          adu = writeBe16 adu 2 kModbusTcpProtocolId;
          adu = writeBe16 adu 4 6;
          adu = adu[6 := unitId];
          adu = adu[7 := fc_byte fc];
          adu = writeBe16 adu 8 startAddress
      in writeBe16 adu 10 quantity)"

definition encodeReadRequestChecked ::
  "u16 \<Rightarrow> byte \<Rightarrow> FunctionCode \<Rightarrow> u16 \<Rightarrow> u16 \<Rightarrow> DecodeError + byte list" where
  "encodeReadRequestChecked transactionId unitId fc startAddress quantity =
     (if quantity = 0 \<or> quantity > kMaxRegistersPerRead then Inl InvalidQuantity
      else Inr (encodeReadRequest transactionId unitId fc startAddress quantity))"

section \<open>Decoder\<close>

text \<open>The register loop, \<open>i\<close> from the loop counter on.\<close>

fun read_registers :: "byte list \<Rightarrow> nat list \<Rightarrow> u16 list option" where
  "read_registers adu [] = Some []"
| "read_registers adu (i # is) =
     (case readBe16 adu (kMbapHeaderSize + 2 + i * 2) of
        None \<Rightarrow> None
      | Some r \<Rightarrow> map_option (\<lambda>rs. r # rs) (read_registers adu is))"

definition decodeReadResponse ::
  "byte list \<Rightarrow> ResponseContext \<Rightarrow> (DecodeError + DecodedReadResponse) option" where
  "decodeReadResponse adu ctx =
     (if length adu < kMbapHeaderSize + 2 then Some (Inl ShortFrame)
      else case (readBe16 adu 0, readBe16 adu 2, readBe16 adu 4) of
        (Some transactionId, Some protocolId, Some len) \<Rightarrow>
          (let unitId = adu ! 6
           in if protocolId \<noteq> kModbusTcpProtocolId then Some (Inl BadProtocolId)
              else if transactionId \<noteq> expectedTransactionId ctx then Some (Inl TransactionIdMismatch)
              else if unitId \<noteq> expectedUnitId ctx then Some (Inl UnitIdMismatch)
              else if length adu \<noteq> kMbapHeaderSize + unat len - 1 then Some (Inl LengthMismatch)
              else
                let rawFc = adu ! 7; expectedFcRaw = fc_byte (expectedFunctionCode ctx)
                in if rawFc AND kExceptionFlag \<noteq> 0 then
                     (if rawFc AND kFunctionCodeMask \<noteq> expectedFcRaw then Some (Inl FunctionCodeMismatch)
                      else Some (Inr \<lparr>registers = [], exceptionCode = mapExceptionCode (adu ! 8)\<rparr>))
                   else if rawFc \<noteq> expectedFcRaw then Some (Inl FunctionCodeMismatch)
                   else
                     let byteCount = adu ! 8; expectedBytes = (ucast ((ucast (expectedQuantity ctx) :: u32) * 2) :: u16)
                     in if ucast byteCount \<noteq> expectedBytes then Some (Inl ByteCountMismatch)
                        else if kMbapHeaderSize + (2 + unat byteCount) \<noteq> length adu then Some (Inl LengthMismatch)
                        else map_option (\<lambda>rs. Inr \<lparr>registers = rs, exceptionCode = Other\<rparr>)
                               (read_registers adu [0..<unat (expectedQuantity ctx)]))
      | _ \<Rightarrow> None)"

section \<open>Layouts of the protocol\<close>

definition be16 :: "u16 \<Rightarrow> byte list" where
  "be16 w = [ucast (drop_bit 8 w), ucast w]"

definition mbap :: "u16 \<Rightarrow> nat \<Rightarrow> byte \<Rightarrow> byte list" where
  "mbap tid pdu_size unit = be16 tid @ be16 0 @ be16 (of_nat (1 + pdu_size)) @ [unit]"

definition response_adu :: "ResponseContext \<Rightarrow> u16 list \<Rightarrow> byte list" where
  "response_adu ctx rs =
     (let pdu = fc_byte (expectedFunctionCode ctx) # of_nat (2 * length rs) # concat (map be16 rs)
      in mbap (expectedTransactionId ctx) (length pdu) (expectedUnitId ctx) @ pdu)"

definition exception_adu :: "ResponseContext \<Rightarrow> byte \<Rightarrow> byte list \<Rightarrow> byte list" where
  "exception_adu ctx code rest =
     (let pdu = (fc_byte (expectedFunctionCode ctx) OR 0x80) # code # rest
      in mbap (expectedTransactionId ctx) (length pdu) (expectedUnitId ctx) @ pdu)"

lemma length_be16 [simp]: "length (be16 w) = 2"
  by (simp add: be16_def)

lemma read_be16: "readBe16 (xs @ be16 w @ ys) (length xs) = Some w"
proof -
  have "(ucast (push_bit 8 (ucast (ucast (drop_bit 8 w) :: byte)) OR (ucast (ucast w :: byte)) :: u32) :: u16) = w"
    by (rule bit_word_eqI) (auto simp: bit_simps)
  then show ?thesis by (simp add: readBe16_def be16_def nth_append)
qed

lemma be16_read:
  assumes "readBe16 buf off = Some w"
  shows "be16 w = [buf ! off, buf ! (off + 1)]"
proof -
  have "(ucast (drop_bit 8 (ucast (push_bit 8 (ucast hi) OR (ucast lo) :: u32) :: u16)) :: byte) = hi"
    "(ucast (ucast (push_bit 8 (ucast hi) OR (ucast lo) :: u32) :: u16) :: byte) = lo" for hi lo :: byte
    by (rule bit_word_eqI, auto simp: bit_simps dest: bit_imp_le_length)+
  then show ?thesis using assms by (auto simp: readBe16_def be16_def split: if_splits)
qed

lemma readBe16_None: "readBe16 buf off = None \<longleftrightarrow> length buf \<le> off + 1"
  by (auto simp: readBe16_def)

lemma write_be16: "writeBe16 buf off w = buf[off := be16 w ! 0, off + 1 := be16 w ! 1]"
proof -
  have "(ucast (drop_bit 8 (ucast w :: u32) AND 0xFF) :: byte) = ucast (drop_bit 8 w)"
    "(ucast ((ucast w :: u32) AND 0xFF) :: byte) = ucast w"
    unfolding ucast_and_FF by (rule bit_word_eqI, auto simp: bit_simps)+
  then show ?thesis by (simp add: writeBe16_def be16_def Let_def)
qed

lemma be16_pair: "be16 w = [be16 w ! 0, be16 w ! 1]"
  by (simp add: be16_def)

lemma encode_layout:
  "encodeReadRequest tid unit fc addr qty = mbap tid 5 unit @ fc_byte fc # be16 addr @ be16 qty"
proof -
  have m: "mbap tid 5 unit = be16 tid @ be16 0 @ be16 6 @ [unit]" by (simp add: mbap_def)
  have r: "replicate (kMbapHeaderSize + 5) (0 :: byte) = [0, 0, 0, 0, 0, 0, 0, 0, 0, 0, 0, 0]"
    by (simp add: kMbapHeaderSize_def numeral_eq_Suc)
  have "\<exists>a b. be16 w = [a, b]" for w by (simp add: be16_def)
  then obtain t0 t1 p0 p1 l0 l1 a0 a1 q0 q1 where
    b: "be16 tid = [t0, t1]" "be16 0 = [p0, p1]" "be16 6 = [l0, l1]" "be16 addr = [a0, a1]" "be16 qty = [q0, q1]"
    by meson
  show ?thesis
    unfolding m encodeReadRequest_def Let_def r write_be16 kModbusTcpProtocolId_def b by simp
qed

section \<open>The decoder on a framed ADU\<close>

lemma be16_surj: "\<exists>w. [a, b] = be16 w"
proof -
  obtain w where "readBe16 [a, b] 0 = Some w" by (simp add: readBe16_def)
  from be16_read [OF this] have "[a, b] = be16 w" by simp
  then show ?thesis by (rule exI)
qed

lemma adu_split:
  assumes "9 \<le> length adu"
  obtains tid pid len u f c rest where "adu = be16 tid @ be16 pid @ be16 len @ u # f # c # rest"
proof -
  obtain t0 t1 p0 p1 l0 l1 u f c rest where a: "adu = t0 # t1 # p0 # p1 # l0 # l1 # u # f # c # rest"
    using assms by (auto simp: Suc_le_length_iff numeral_eq_Suc)
  obtain tid pid len where "be16 tid = [t0, t1]" "be16 pid = [p0, p1]" "be16 len = [l0, l1]"
    using be16_surj by metis
  then have "adu = be16 tid @ be16 pid @ be16 len @ u # f # c # rest" using a by simp
  then show thesis by (rule that)
qed

lemma header_reads:
  fixes tid pid len u f c rest
  defines "adu \<equiv> be16 tid @ be16 pid @ be16 len @ u # f # c # rest"
  shows "readBe16 adu 0 = Some tid" "readBe16 adu 2 = Some pid" "readBe16 adu 4 = Some len"
    "adu ! 6 = u" "adu ! 7 = f" "adu ! 8 = c" "length adu = 9 + length rest"
  using read_be16 [of "[]" tid] read_be16 [of "be16 tid" pid] read_be16 [of "be16 tid @ be16 pid" len]
  by (simp_all add: adu_def nth_append)

lemma decode_framed:
  "decodeReadResponse (be16 tid @ be16 pid @ be16 len @ u # f # c # rest) ctx =
     (if pid \<noteq> 0 then Some (Inl BadProtocolId)
      else if tid \<noteq> expectedTransactionId ctx then Some (Inl TransactionIdMismatch)
      else if u \<noteq> expectedUnitId ctx then Some (Inl UnitIdMismatch)
      else if 3 + length rest \<noteq> unat len then Some (Inl LengthMismatch)
      else if f AND 0x80 \<noteq> 0 then
        (if f AND 0x7F \<noteq> fc_byte (expectedFunctionCode ctx) then Some (Inl FunctionCodeMismatch)
         else Some (Inr \<lparr>registers = [], exceptionCode = mapExceptionCode c\<rparr>))
      else if f \<noteq> fc_byte (expectedFunctionCode ctx) then Some (Inl FunctionCodeMismatch)
      else if ucast c \<noteq> (ucast ((ucast (expectedQuantity ctx) :: u32) * 2) :: u16) then Some (Inl ByteCountMismatch)
      else if unat c \<noteq> length rest then Some (Inl LengthMismatch)
      else map_option (\<lambda>rs. Inr \<lparr>registers = rs, exceptionCode = Other\<rparr>)
             (read_registers (be16 tid @ be16 pid @ be16 len @ u # f # c # rest) [0..<unat (expectedQuantity ctx)]))"
proof -
  let ?adu = "be16 tid @ be16 pid @ be16 len @ u # f # c # rest"
  have "(length ?adu \<noteq> 7 + unat len - 1) = (3 + length rest \<noteq> unat len)"
    "(7 + (2 + unat c) \<noteq> length ?adu) = (unat c \<noteq> length rest)" by (auto simp: header_reads(7))
  moreover have "\<not> length ?adu < 7 + 2" by (simp add: header_reads(7))
  ultimately show ?thesis
    unfolding decodeReadResponse_def modbus_consts Let_def
    by (simp only: header_reads option.case prod.case if_False)
qed

lemma exception_byte: "f AND 0x80 \<noteq> 0 \<and> f AND 0x7F = fc_byte fc \<longleftrightarrow> f = fc_byte fc OR 0x80"
proof -
  have m: "(0x7F :: byte) = mask 7" "(0x80 :: byte) = push_bit 7 1" by (simp_all add: mask_eq_exp_minus_1)
  have top: "f AND 0x80 \<noteq> 0 \<longleftrightarrow> bit f 7" for f :: byte
    unfolding m(2) by (metis and_exp_eq_0_iff_not_bit push_bit_of_1)
  have b80: "bit (0x80 :: byte) n \<longleftrightarrow> n = 7" for n
  proof -
    have "bit (2 ^ 7 :: byte) n \<longleftrightarrow> n = 7" by (subst bit_exp_iff) auto
    then show ?thesis by simp
  qed
  have low: "fc_byte fc AND 0x7F = fc_byte fc" by (cases fc) simp_all
  have "f = fc_byte fc OR 0x80" if "bit f 7" "f AND 0x7F = fc_byte fc"
  proof (rule bit_word_eqI)
    fix n assume n: "n < LENGTH(8)"
    have "bit (fc_byte fc) n = (bit f n \<and> n < 7)"
      using arg_cong [OF that(2), of "\<lambda>x. bit x n"] unfolding m by (auto simp: bit_simps)
    with n that(1) b80 [of n] show "bit f n = bit (fc_byte fc OR 0x80) n"
      unfolding bit_or_iff by (cases "n = 7") auto
  qed
  moreover have "bit (fc_byte fc OR 0x80) 7 \<and> (fc_byte fc OR 0x80) AND 0x7F = fc_byte fc"
    by (cases fc) simp_all
  ultimately show ?thesis unfolding top by metis
qed

lemma fc_byte_plain: "fc_byte fc AND 0x80 = 0"
  by (cases fc) simp_all

text \<open>Registers in a payload.\<close>

lemma read_registers_at:
  "length pre = 9 \<Longrightarrow>
     read_registers (pre @ concat (map be16 (ps @ rs))) [length ps..<length ps + length rs] = Some rs"
proof (induction rs arbitrary: ps)
  case (Cons r rs)
  have len: "length (concat (map be16 ps)) = length ps * 2" for ps by (induction ps) simp_all
  have "readBe16 (pre @ concat (map be16 (ps @ r # rs))) (kMbapHeaderSize + 2 + length ps * 2) = Some r"
    using read_be16 [of "pre @ concat (map be16 ps)" r "concat (map be16 rs)"] Cons.prems
    by (simp add: len kMbapHeaderSize_def)
  moreover have "[length ps..<length ps + length (r # rs)] = length ps # [length (ps @ [r])..<length (ps @ [r]) + length rs]"
    by (simp add: upt_rec)
  ultimately show ?case using Cons.IH [of "ps @ [r]"] Cons.prems by simp
qed simp

lemma payload_split: "length xs = 2 * n \<Longrightarrow> \<exists>rs. length rs = n \<and> xs = concat (map be16 rs)"
proof (induction n arbitrary: xs)
  case (Suc n)
  then obtain a b ys where xs: "xs = a # b # ys" "length ys = 2 * n"
    by (cases xs; cases "tl xs") auto
  obtain w rs where "[a, b] = be16 w" "length rs = n" "ys = concat (map be16 rs)"
    using be16_surj Suc.IH [OF xs(2)] by blast
  with xs show ?case by (intro exI [of _ "w # rs"]) simp
qed simp

lemma double_quantity:
  fixes c :: byte and q :: u16
  assumes "unat q \<le> 125"
  shows "(ucast c = (ucast ((ucast q :: u32) * 2) :: u16)) = (unat c = 2 * unat q)"
proof -
  have "unat (ucast ((ucast q :: u32) * 2) :: u16) = 2 * unat q"
    using assms by (simp add: unsigned_ucast_eq unat_word_ariths take_bit_eq_mod)
  moreover have "unat (ucast c :: u16) = unat c" 
  proof -
    have "unat c < 2 ^ 8" using unsigned_less [of c] by simp
    then show ?thesis by (simp add: unsigned_ucast_eq take_bit_eq_mod)
  qed
  ultimately show ?thesis by (metis word_unat_eq_iff)
qed

lemma response_framed:
  "response_adu ctx rs =
     be16 (expectedTransactionId ctx) @ be16 0 @ be16 (of_nat (3 + 2 * length rs)) @ expectedUnitId ctx
       # fc_byte (expectedFunctionCode ctx) # of_nat (2 * length rs) # concat (map be16 rs)"
proof -
  have "length (concat (map be16 rs)) = 2 * length rs" by (induction rs) simp_all
  then show ?thesis by (simp add: response_adu_def mbap_def Let_def)
qed

lemma exception_framed:
  "exception_adu ctx code rest =
     be16 (expectedTransactionId ctx) @ be16 0 @ be16 (of_nat (3 + length rest)) @ expectedUnitId ctx
       # (fc_byte (expectedFunctionCode ctx) OR 0x80) # code # rest"
  by (simp add: exception_adu_def mbap_def Let_def)

lemma read_registers_framed:
  "read_registers (be16 tid @ be16 pid @ be16 len @ u # f # c # concat (map be16 rs)) [0..<length rs] = Some rs"
  using read_registers_at [of "be16 tid @ be16 pid @ be16 len @ [u, f, c]" "[]" rs] by simp

lemma decode_response:
  assumes "length rs = unat (expectedQuantity ctx)" "length rs \<le> 125"
  shows "decodeReadResponse (response_adu ctx rs) ctx = Some (Inr \<lparr>registers = rs, exceptionCode = Other\<rparr>)"
proof -
  have n: "length (concat (map be16 rs)) = 2 * length rs" by (induction rs) simp_all
  have c: "unat (of_nat (2 * length rs) :: byte) = 2 * length rs" "unat (of_nat (3 + 2 * length rs) :: u16) = 3 + 2 * length rs"
    using assms(2) by (subst unat_of_nat, simp)+
  have "ucast (of_nat (2 * length rs) :: byte) = (ucast ((ucast (expectedQuantity ctx) :: u32) * 2) :: u16)"
    using double_quantity [of "expectedQuantity ctx" "of_nat (2 * length rs)"] assms c(1) by simp
  then show ?thesis
    unfolding response_framed decode_framed using c n fc_byte_plain [of "expectedFunctionCode ctx"]
      read_registers_framed [of _ _ _ _ _ _ rs]
    by (simp only: assms(1) [symmetric]) simp
qed

lemma decode_exception:
  assumes "length rest + 3 < 65536"
  shows "decodeReadResponse (exception_adu ctx code rest) ctx =
    Some (Inr \<lparr>registers = [], exceptionCode = mapExceptionCode code\<rparr>)"
proof -
  have "unat (of_nat (3 + length rest) :: u16) = 3 + length rest" using assms by (subst unat_of_nat) simp
  then show ?thesis unfolding exception_framed decode_framed
    using exception_byte [of "fc_byte (expectedFunctionCode ctx) OR 0x80" "expectedFunctionCode ctx"] by simp
qed

lemma word16_of_unat: "3 + n = unat len \<Longrightarrow> len = of_nat (3 + n)" for len :: u16
  by (metis of_nat_unat ucast_id)

lemma decode_sound:
  assumes q: "unat (expectedQuantity ctx) \<le> 125"
    and adu: "adu = be16 tid @ be16 pid @ be16 len @ u # f # c # rest"
  shows "decodeReadResponse adu ctx \<noteq> None \<and>
    (decodeReadResponse adu ctx = Some (Inr r) \<longrightarrow>
       (\<exists>rs. length rs = unat (expectedQuantity ctx) \<and> adu = response_adu ctx rs) \<or>
       (\<exists>code rest. length rest + 3 < 65536 \<and> adu = exception_adu ctx code rest))"
proof (cases "pid \<noteq> 0 \<or> tid \<noteq> expectedTransactionId ctx \<or> u \<noteq> expectedUnitId ctx \<or> 3 + length rest \<noteq> unat len")
  case True
  then show ?thesis unfolding adu decode_framed by auto
next
  case False
  then have hdr: "pid = 0" "tid = expectedTransactionId ctx" "u = expectedUnitId ctx" "3 + length rest = unat len"
    "len = of_nat (3 + length rest)" using word16_of_unat by simp_all
  have "unat len < 2 ^ 16" using unsigned_less [of len] by simp
  then have small: "length rest + 3 < 65536" using hdr(4) by simp
  show ?thesis
  proof (cases "f AND 0x80 \<noteq> 0")
    case True
    then have "f AND 0x7F = fc_byte (expectedFunctionCode ctx) \<Longrightarrow> adu = exception_adu ctx c rest"
      using hdr adu exception_byte [of f "expectedFunctionCode ctx"] exception_framed [of ctx c rest] by simp
    moreover have "decodeReadResponse adu ctx \<noteq> None \<and> (decodeReadResponse adu ctx = Some (Inr r) \<longrightarrow>
        f AND 0x7F = fc_byte (expectedFunctionCode ctx))"
      unfolding adu decode_framed using True hdr by auto
    ultimately show ?thesis using small by blast
  next
    case plain: False
    show ?thesis
    proof (cases "f = fc_byte (expectedFunctionCode ctx) \<and> unat c = 2 * unat (expectedQuantity ctx) \<and> unat c = length rest")
      case True
      then obtain rs where rs: "length rs = unat (expectedQuantity ctx)" "rest = concat (map be16 rs)"
        using payload_split [of rest] by auto
      have c: "c = of_nat (2 * length rs)" using True rs by (metis of_nat_unat ucast_id)
      have "length rest = 2 * length rs" using True rs by simp
      then have "len = of_nat (3 + 2 * length rs)" using hdr(5) by (simp only:)
      then have "adu = response_adu ctx rs" unfolding adu response_framed hdr(1-3) rs(2) c using True by simp
      then show ?thesis using decode_response [OF rs(1)] q rs(1) by auto
    next
      case False
      then show ?thesis unfolding adu decode_framed double_quantity [OF q] using plain by auto
    qed
  qed
qed

lemma decode_exact_iff:
  assumes "unat (expectedQuantity ctx) \<le> 125"
  shows "decodeReadResponse adu ctx \<noteq> None \<and>
    (decodeReadResponse adu ctx = Some (Inr r)) =
      ((\<exists>rs. length rs = unat (expectedQuantity ctx) \<and> adu = response_adu ctx rs \<and>
          r = \<lparr>registers = rs, exceptionCode = Other\<rparr>) \<or>
       (\<exists>code rest. length rest + 3 < 65536 \<and> adu = exception_adu ctx code rest \<and>
          r = \<lparr>registers = [], exceptionCode = mapExceptionCode code\<rparr>))"
proof (cases "9 \<le> length adu")
  case False
  then have "decodeReadResponse adu ctx = Some (Inl ShortFrame)" by (simp add: decodeReadResponse_def kMbapHeaderSize_def)
  moreover have "9 \<le> length (response_adu ctx rs)" "9 \<le> length (exception_adu ctx code rest)" for rs code rest
    by (simp_all add: response_adu_def exception_adu_def mbap_def Let_def)
  ultimately show ?thesis using False by auto
next
  case True
  then obtain tid pid len u f c rest where adu: "adu = be16 tid @ be16 pid @ be16 len @ u # f # c # rest"
    by (rule adu_split)
  have "decodeReadResponse adu ctx = Some (Inr r)" if "length rs = unat (expectedQuantity ctx)" "adu = response_adu ctx rs"
      "r = \<lparr>registers = rs, exceptionCode = Other\<rparr>" for rs
    using decode_response [OF that(1)] that assms by simp
  moreover have "decodeReadResponse adu ctx = Some (Inr r)" if "length rest + 3 < 65536" "adu = exception_adu ctx code rest"
      "r = \<lparr>registers = [], exceptionCode = mapExceptionCode code\<rparr>" for code rest
    using decode_exception [OF that(1)] that by simp
  moreover have "\<exists>rs. length rs = unat (expectedQuantity ctx) \<and> adu = response_adu ctx rs \<and> r = \<lparr>registers = rs, exceptionCode = Other\<rparr>"
    if "decodeReadResponse adu ctx = Some (Inr r)" "length rs = unat (expectedQuantity ctx)" "adu = response_adu ctx rs" for rs
    using decode_response [OF that(2)] that assms by auto
  moreover have "\<exists>code rest. length rest + 3 < 65536 \<and> adu = exception_adu ctx code rest \<and>
      r = \<lparr>registers = [], exceptionCode = mapExceptionCode code\<rparr>"
    if "decodeReadResponse adu ctx = Some (Inr r)" "length rest + 3 < 65536" "adu = exception_adu ctx code rest" for code rest
    using decode_exception [OF that(2)] that by auto
  ultimately show ?thesis using decode_sound [OF assms adu, of r] by blast
qed

section \<open>Properties\<close>

text \<open>
  The read request has the layout of the protocol: transaction id, protocol id 0, length 6, unit
  id, function code, start address and quantity, big-endian, twelve bytes; the checked encoder
  refuses exactly the quantities outside 1 to 125.
\<close>

theorem read_request_layout:
  shows "encodeReadRequest tid unit fc addr qty = mbap tid 5 unit @ fc_byte fc # be16 addr @ be16 qty \<and>
    length (encodeReadRequest tid unit fc addr qty) = 12 \<and>
    encodeReadRequestChecked tid unit fc addr qty =
      (if 1 \<le> unat qty \<and> unat qty \<le> 125 then Inr (encodeReadRequest tid unit fc addr qty) else Inl InvalidQuantity)"
proof -
  have "(qty = 0 \<or> qty > kMaxRegistersPerRead) = (\<not> (1 \<le> unat qty \<and> unat qty \<le> 125))"
    by (auto simp: kMaxRegistersPerRead_def word_less_nat_alt unat_eq_zero Suc_le_eq unat_gt_0)
  then show ?thesis by (simp add: encode_layout mbap_def encodeReadRequestChecked_def)
qed

text \<open>
  The decoder accepts exactly the responses of the protocol to this request. For a permitted
  quantity it returns registers for the normal layout with that many registers (and those
  registers), an empty list and the mapped code for an exception layout, an error for everything
  else, and it never reads past the end of the frame.
\<close>

theorem decode_exact:
  assumes "unat (expectedQuantity ctx) \<le> 125"
  shows "decodeReadResponse adu ctx \<noteq> None \<and>
    (decodeReadResponse adu ctx = Some (Inr r)) =
      ((\<exists>rs. length rs = unat (expectedQuantity ctx) \<and> adu = response_adu ctx rs \<and>
          r = \<lparr>registers = rs, exceptionCode = Other\<rparr>) \<or>
       (\<exists>code rest. length rest + 3 < 65536 \<and> adu = exception_adu ctx code rest \<and>
          r = \<lparr>registers = [], exceptionCode = mapExceptionCode code\<rparr>))"
  using decode_exact_iff [OF assms] .

definition demo_ctx :: ResponseContext where
  "demo_ctx = \<lparr>expectedTransactionId = 7, expectedUnitId = 1, expectedFunctionCode = ReadHoldingRegisters, expectedQuantity = 1\<rparr>"

theorem decode_exact_witness:
  "decodeReadResponse (response_adu demo_ctx [850]) demo_ctx = Some (Inr \<lparr>registers = [850], exceptionCode = Other\<rparr>)"
  using decode_exact [of demo_ctx "response_adu demo_ctx [850]" "\<lparr>registers = [850], exceptionCode = Other\<rparr>"]
  by (auto simp: demo_ctx_def)

end
