(* ===== verification/ModbusClient.thy ===== *)
theory ModbusClient
  imports ModbusPdu
begin

text \<open>
  \<^verbatim>\<open>src/integration/modbus/ModbusClient.{h,cpp}\<close>: the synchronous Modbus TCP master.

  The socket and its \<^verbatim>\<open>io_context\<close> are Boost.Asio, which is not part of the sources: \<open>transport\<close> is
  the record of the operations the client uses, on an unspecified network state, and an argument of
  every definition. An operation reports how its completion handler was called within the time
  budget: \<open>Pending\<close> when it was not. \<open>reads_exact\<close> is the documented contract of \<^verbatim>\<open>async_read\<close>, that a
  successful read delivers exactly the bytes asked for. The theorems: a successful read returns as
  many registers as were asked for, taken from a response that echoes this request; every
  transport failure leaves the client disconnected; an invalid quantity touches nothing.
\<close>

section \<open>Client\<close>

datatype IoError = ConnectionFailed | IoTimeout | WriteFailed | ReadFailed | Disconnected | DecodeFailed
  | ServerException | IoInvalidQuantity

datatype completion = Pending | Completed | Eof | Error

record 'n transport =
  t_is_open :: "'n \<Rightarrow> bool"
  t_close :: "'n \<Rightarrow> 'n"
  t_resolve :: "'n \<Rightarrow> bool \<times> 'n"
  t_connect :: "'n \<Rightarrow> completion \<times> 'n"
  t_write :: "byte list \<Rightarrow> 'n \<Rightarrow> (completion \<times> nat) \<times> 'n"
  t_read :: "nat \<Rightarrow> 'n \<Rightarrow> (completion \<times> byte list) \<times> 'n"

definition reads_exact :: "'n transport \<Rightarrow> bool" where
  "reads_exact tr \<longleftrightarrow> (\<forall>k n bs n'. t_read tr k n = ((Completed, bs), n') \<longrightarrow> length bs = k)"

record 'n ModbusClient =
  mc_net :: 'n
  nextTid :: u16
  connected :: bool
  lastExceptionCode :: "ExceptionCode option"

definition mc_new :: "'n \<Rightarrow> 'n ModbusClient" where
  "mc_new n = \<lparr>mc_net = n, nextTid = 1, connected = False, lastExceptionCode = None\<rparr>"

definition mc_disconnect :: "'n transport \<Rightarrow> 'n ModbusClient \<Rightarrow> 'n ModbusClient" where
  "mc_disconnect tr m = m\<lparr>connected := False, mc_net := t_close tr (mc_net m)\<rparr>"

definition ensureConnected :: "'n transport \<Rightarrow> 'n ModbusClient \<Rightarrow> IoError option \<times> 'n ModbusClient" where
  "ensureConnected tr m =
     (if connected m \<and> t_is_open tr (mc_net m) then (None, m)
      else
        let n = t_close tr (mc_net m);
            (resolved, n) = t_resolve tr n
        in if \<not> resolved then (Some ConnectionFailed, m\<lparr>mc_net := n\<rparr>)
           else
             let (ec, n) = t_connect tr n; m = m\<lparr>mc_net := n\<rparr>
             in case ec of
                  Pending \<Rightarrow> (Some IoTimeout, m)
                | Completed \<Rightarrow> (None, m\<lparr>connected := True\<rparr>)
                | _ \<Rightarrow> (Some ConnectionFailed, m))"

text \<open>One \<^verbatim>\<open>async_read\<close> with its error handling; \<^verbatim>\<open>readImpl\<close> has it twice.\<close>

definition read_exactly :: "'n transport \<Rightarrow> nat \<Rightarrow> 'n ModbusClient \<Rightarrow> (IoError + byte list) \<times> 'n ModbusClient" where
  "read_exactly tr k m =
     (let ((ec, bs), n) = t_read tr k (mc_net m); m = m\<lparr>mc_net := n\<rparr>
      in case ec of
           Pending \<Rightarrow> (Inl IoTimeout, mc_disconnect tr m)
         | Eof \<Rightarrow> (Inl Disconnected, mc_disconnect tr m)
         | Error \<Rightarrow> (Inl ReadFailed, mc_disconnect tr m)
         | Completed \<Rightarrow> (Inr bs, m))"

definition decode_reply ::
  "u16 \<Rightarrow> byte \<Rightarrow> FunctionCode \<Rightarrow> u16 \<Rightarrow> byte list \<Rightarrow> 'n ModbusClient \<Rightarrow> (IoError + u16 list) \<times> 'n ModbusClient" where
  "decode_reply tid unitId fc quantity adu m =
     (case decodeReadResponse adu \<lparr>expectedTransactionId = tid, expectedUnitId = unitId,
             expectedFunctionCode = fc, expectedQuantity = quantity\<rparr> of
        Some (Inr payload) \<Rightarrow>
          (if registers payload = []
           then (Inl ServerException, m\<lparr>lastExceptionCode := Some (exceptionCode payload)\<rparr>)
           else (Inr (registers payload), m\<lparr>lastExceptionCode := None\<rparr>))
      | _ \<Rightarrow> (Inl DecodeFailed, m))"

text \<open>\<^verbatim>\<open>readImpl\<close> from the encoding of the request on. A header without a length field cannot occur when
  reads are exact.\<close>

definition exchange ::
  "'n transport \<Rightarrow> FunctionCode \<Rightarrow> byte \<Rightarrow> u16 \<Rightarrow> u16 \<Rightarrow> 'n ModbusClient \<Rightarrow> (IoError + u16 list) \<times> 'n ModbusClient" where
  "exchange tr fc unitId addr quantity m =
     (let tid = nextTid m;
          m = m\<lparr>nextTid := nextTid m + 1\<rparr>;
          request = encodeReadRequest tid unitId fc addr quantity;
          ((ec, bytesWritten), n) = t_write tr request (mc_net m);
          m = m\<lparr>mc_net := n\<rparr>
      in if ec = Pending then (Inl IoTimeout, mc_disconnect tr m)
         else if ec \<noteq> Completed \<or> bytesWritten \<noteq> length request then (Inl WriteFailed, mc_disconnect tr m)
         else case read_exactly tr kMbapHeaderSize m of
           (Inl e, m) \<Rightarrow> (Inl e, m)
         | (Inr header, m) \<Rightarrow>
             (case readBe16 header 4 of
                None \<Rightarrow> (Inl DecodeFailed, mc_disconnect tr m)
              | Some len \<Rightarrow>
                  if len = 0 \<or> unat len > 1 + kMaxPduSize then (Inl DecodeFailed, mc_disconnect tr m)
                  else case read_exactly tr (unat len - 1) m of
                    (Inl e, m) \<Rightarrow> (Inl e, m)
                  | (Inr body, m) \<Rightarrow> decode_reply tid unitId fc quantity (header @ body) m))"

definition readImpl ::
  "'n transport \<Rightarrow> FunctionCode \<Rightarrow> byte \<Rightarrow> u16 \<Rightarrow> u16 \<Rightarrow> 'n ModbusClient \<Rightarrow> (IoError + u16 list) \<times> 'n ModbusClient" where
  "readImpl tr fc unitId addr quantity m =
     (if quantity = 0 \<or> quantity > kMaxRegistersPerRead then (Inl IoInvalidQuantity, m)
      else case ensureConnected tr m of
        (Some e, m) \<Rightarrow> (Inl e, m)
      | (None, m) \<Rightarrow> exchange tr fc unitId addr quantity m)"

definition readHoldingRegisters where
  "readHoldingRegisters tr unitId addr quantity m = readImpl tr ReadHoldingRegisters unitId addr quantity m"

definition readInputRegisters where
  "readInputRegisters tr unitId addr quantity m = readImpl tr ReadInputRegisters unitId addr quantity m"

section \<open>Lemmas\<close>

lemma ensureConnected_props:
  "ensureConnected tr m = (r, m') \<Longrightarrow>
     nextTid m' = nextTid m \<and> lastExceptionCode m' = lastExceptionCode m \<and> (r = None \<longrightarrow> connected m') \<and>
     r \<in> {None, Some ConnectionFailed, Some IoTimeout}"
  by (auto simp: ensureConnected_def Let_def split: if_splits prod.splits completion.splits)

lemma read_exactly_props:
  "read_exactly tr k m = (r, m') \<Longrightarrow>
     nextTid m' = nextTid m \<and> lastExceptionCode m' = lastExceptionCode m \<and>
     (case r of Inl e \<Rightarrow> \<not> connected m' \<and> e \<in> {IoTimeout, Disconnected, ReadFailed}
      | Inr bs \<Rightarrow> connected m' = connected m \<and> (reads_exact tr \<longrightarrow> length bs = k))"
  by (auto simp: read_exactly_def Let_def mc_disconnect_def split: prod.splits completion.splits)
    (simp add: reads_exact_def, blast)

lemma decode_reply_props:
  assumes "decode_reply tid unitId fc quantity adu m = (r, m')" "1 \<le> unat quantity" "unat quantity \<le> 125"
  shows "nextTid m' = nextTid m \<and> connected m' = connected m \<and>
    (case r of Inl e \<Rightarrow> e \<in> {DecodeFailed, ServerException}
     | Inr rs \<Rightarrow> length rs = unat quantity \<and> lastExceptionCode m' = None \<and>
         adu = response_adu \<lparr>expectedTransactionId = tid, expectedUnitId = unitId,
                 expectedFunctionCode = fc, expectedQuantity = quantity\<rparr> rs)"
proof -
  let ?ctx = "\<lparr>expectedTransactionId = tid, expectedUnitId = unitId, expectedFunctionCode = fc, expectedQuantity = quantity\<rparr>"
  have q: "unat (expectedQuantity ?ctx) \<le> 125" using assms(3) by simp
  show ?thesis
  proof (cases "\<exists>p. decodeReadResponse adu ?ctx = Some (Inr p)")
    case True
    then obtain p where p: "decodeReadResponse adu ?ctx = Some (Inr p)" ..
    from p decode_exact_iff [OF q, of adu p] show ?thesis
      using assms by (auto simp: decode_reply_def split: if_splits)
  next
    case False
    then show ?thesis using assms(1)
      by (auto simp: decode_reply_def split: option.splits sum.splits)
  qed
qed

lemma decode_reply_err:
  "decode_reply tid unitId fc quantity adu m = (Inl e, m') \<Longrightarrow>
     connected m' = connected m \<and> e \<in> {DecodeFailed, ServerException} \<and>
     (e = ServerException \<longrightarrow> lastExceptionCode m' \<noteq> None)"
  by (auto simp: decode_reply_def split: option.splits sum.splits if_splits)

lemma quantity_ok: "\<not> (quantity = 0 \<or> quantity > kMaxRegistersPerRead) \<longleftrightarrow> 1 \<le> unat quantity \<and> unat quantity \<le> 125"
  by (auto simp: kMaxRegistersPerRead_def word_less_nat_alt unat_eq_zero Suc_le_eq unat_gt_0)

lemma read_exactly_InrD:
  "read_exactly tr k m = (Inr bs, m') \<Longrightarrow>
     t_read tr k (mc_net m) = ((Completed, bs), mc_net m') \<and> m' = m\<lparr>mc_net := mc_net m'\<rparr>"
  by (auto simp: read_exactly_def Let_def split: prod.splits completion.splits)

lemma exchange_cases:
  assumes "exchange tr fc unitId addr quantity m = (r, m')"
  obtains (broken) e where "\<not> connected m'" "r = Inl e"
    "e \<in> {IoTimeout, WriteFailed, ReadFailed, Disconnected, DecodeFailed}" "lastExceptionCode m' = lastExceptionCode m"
  | (reply) n1 n2 header body k where "t_read tr kMbapHeaderSize n1 = ((Completed, header), n2)"
      "t_read tr k n2 = ((Completed, body), mc_net m')"
      "decode_reply (nextTid m) unitId fc quantity (header @ body)
         (m\<lparr>nextTid := nextTid m + 1, mc_net := mc_net m'\<rparr>) = (r, m')"
proof -
  define req where "req = encodeReadRequest (nextTid m) unitId fc addr quantity"
  obtain ec bw n where w: "t_write tr req (mc_net m) = ((ec, bw), n)" by (metis surj_pair)
  define m2 where "m2 = m\<lparr>nextTid := nextTid m + 1, mc_net := n\<rparr>"
  show thesis
  proof (cases "ec = Completed \<and> bw = length req")
    case False
    then show thesis using assms w broken
      by (auto simp: exchange_def Let_def mc_disconnect_def req_def [symmetric] split: if_splits)
  next
    case True
    obtain h m3 where h: "read_exactly tr kMbapHeaderSize m2 = (h, m3)" by fastforce
    have ex: "exchange tr fc unitId addr quantity m = (case (h, m3) of
        (Inl e, m) \<Rightarrow> (Inl e, m)
      | (Inr header, m') \<Rightarrow>
          (case readBe16 header 4 of None \<Rightarrow> (Inl DecodeFailed, mc_disconnect tr m')
           | Some len \<Rightarrow>
               if len = 0 \<or> unat len > 1 + kMaxPduSize then (Inl DecodeFailed, mc_disconnect tr m')
               else case read_exactly tr (unat len - 1) m' of
                 (Inl e, m) \<Rightarrow> (Inl e, m)
               | (Inr body, m'') \<Rightarrow> decode_reply (nextTid m) unitId fc quantity (header @ body) m''))"
      using True w h by (simp add: exchange_def Let_def req_def m2_def)
    show thesis
    proof (cases h)
      case (Inl e)
      with assms ex show thesis using read_exactly_props [OF h] broken by (auto simp: m2_def)
    next
      case (Inr header)
      note h3 = read_exactly_InrD [OF h [unfolded Inr]]
      show thesis
      proof (cases "\<exists>len. readBe16 header 4 = Some len \<and> \<not> (len = 0 \<or> unat len > 1 + kMaxPduSize)")
        case False
        with assms ex Inr have "r = Inl DecodeFailed" "m' = mc_disconnect tr m3"
          by (auto split: option.splits if_splits)
        then show thesis using broken read_exactly_props [OF h] by (simp add: mc_disconnect_def m2_def)
      next
        case True
        then obtain len where l: "readBe16 header 4 = Some len" "\<not> (len = 0 \<or> unat len > 1 + kMaxPduSize)" by blast
        obtain b m4 where b: "read_exactly tr (unat len - 1) m3 = (b, m4)" by fastforce
        show thesis
        proof (cases b)
          case (Inl e)
          with assms ex Inr l b show thesis using read_exactly_props [OF b] read_exactly_props [OF h] broken
            by (auto simp: m2_def)
        next
          case B: (Inr body)
          note b4 = read_exactly_InrD [OF b [unfolded B]]
          have d: "decode_reply (nextTid m) unitId fc quantity (header @ body) m4 = (r, m')"
            using assms ex Inr l b B by simp
          then have "mc_net m' = mc_net m4"
            by (auto simp: decode_reply_def split: option.splits sum.splits if_splits)
          moreover have "m4 = m\<lparr>nextTid := nextTid m + 1, mc_net := mc_net m4\<rparr>"
            using b4 h3 unfolding m2_def by (metis ModbusClient.surjective ModbusClient.update_convs(1,2))
          ultimately show thesis using reply [of "mc_net m2" header "mc_net m3" "unat len - 1" body] h3 b4 d by simp
        qed
      qed
    qed
  qed
qed

section \<open>Properties\<close>

text \<open>
  A successful read is the answer to this request: it has exactly the requested number of
  registers, they are the registers of the response frame that was read from the socket, and that
  frame carries this request's transaction id, unit id and function code. The transaction id
  advances by one, the client stays connected and a stale exception code is cleared.
\<close>

theorem read_returns_requested:
  assumes "reads_exact tr" and "readImpl tr fc unitId addr quantity m = (Inr rs, m')"
  shows "length rs = unat quantity \<and> nextTid m' = nextTid m + 1 \<and> connected m' \<and> lastExceptionCode m' = None \<and>
    (\<exists>n1 n2 header body k. t_read tr kMbapHeaderSize n1 = ((Completed, header), n2) \<and>
       t_read tr k n2 = ((Completed, body), mc_net m') \<and>
       header @ body = response_adu \<lparr>expectedTransactionId = nextTid m, expectedUnitId = unitId,
                          expectedFunctionCode = fc, expectedQuantity = quantity\<rparr> rs)"
proof -
  obtain m1 where c: "ensureConnected tr m = (None, m1)" "exchange tr fc unitId addr quantity m1 = (Inr rs, m')"
    and q: "\<not> (quantity = 0 \<or> quantity > kMaxRegistersPerRead)"
    using assms(2) by (auto simp: readImpl_def split: if_splits prod.splits option.splits)
  note m1 = ensureConnected_props [OF c(1)]
  from c(2) show ?thesis
  proof (cases rule: exchange_cases)
    case (reply n1 n2 header body k)
    have n: "1 \<le> unat quantity" "unat quantity \<le> 125" using q quantity_ok by blast+
    note d = decode_reply_props [OF reply(3) n]
    then have "header @ body = response_adu \<lparr>expectedTransactionId = nextTid m, expectedUnitId = unitId,
                          expectedFunctionCode = fc, expectedQuantity = quantity\<rparr> rs" using m1 by simp
    with reply(1,2) d m1 show ?thesis by simp blast
  qed simp
qed

text \<open>
  Errors: an invalid quantity is refused without touching the client or the network; every
  other transport error (timeout, failed write or read, closed connection, failed connect) leaves
  the client disconnected, so that the next read reconnects; a frame that fails to decode or an
  exception answer keeps the connection, and the exception's code is recorded.
\<close>

theorem read_error_states:
  assumes "connected m \<longrightarrow> t_is_open tr (mc_net m)" and "readImpl tr fc unitId addr quantity m = (Inl e, m')"
  shows "(e = IoInvalidQuantity \<longrightarrow> m' = m) \<and>
    (e \<in> {IoTimeout, WriteFailed, ReadFailed, Disconnected, ConnectionFailed} \<longrightarrow> \<not> connected m') \<and>
    (e = ServerException \<longrightarrow> connected m' \<and> lastExceptionCode m' \<noteq> None)"
proof (cases "quantity = 0 \<or> quantity > kMaxRegistersPerRead")
  case True
  with assms(2) show ?thesis by (auto simp: readImpl_def)
next
  case False
  obtain c m1 where c: "ensureConnected tr m = (c, m1)" by fastforce
  show ?thesis
  proof (cases c)
    case (Some e')
    with c assms(1) have "\<not> connected m1" "e' \<in> {ConnectionFailed, IoTimeout}"
      by (auto simp: ensureConnected_def Let_def split: if_splits prod.splits completion.splits)
    with c Some False assms(2) show ?thesis by (auto simp: readImpl_def)
  next
    case None
    with c False assms(2) have x: "exchange tr fc unitId addr quantity m1 = (Inl e, m')" by (simp add: readImpl_def)
    have m1: "connected m1" using ensureConnected_props [OF c] None by simp
    from x show ?thesis
    proof (cases rule: exchange_cases)
      case (broken e')
      then show ?thesis by auto
    next
      case (reply n1 n2 header body k)
      show ?thesis using m1 decode_reply_err [OF reply(3)] by auto
    qed
  qed
qed

text \<open>A transport that connects, accepts every write and answers from a tape of bytes.\<close>

definition tape_transport :: "byte list transport" where
  "tape_transport = \<lparr>t_is_open = (\<lambda>_. True), t_close = (\<lambda>n. n), t_resolve = (\<lambda>n. (True, n)),
     t_connect = (\<lambda>n. (Completed, n)), t_write = (\<lambda>bs n. ((Completed, length bs), n)),
     t_read = (\<lambda>k n. if k \<le> length n then ((Completed, take k n), drop k n) else ((Eof, []), []))\<rparr>"

lemma tape_exact: "reads_exact tape_transport"
  by (auto simp: reads_exact_def tape_transport_def)

definition tape_answer :: "byte list" where
  "tape_answer = [0, 1, 0, 0, 0, 5, 9, 3, 2, 3, 0x52]"

lemma tape_read:
  "readImpl tape_transport ReadHoldingRegisters 9 40 1 (mc_new tape_answer) =
     (Inr [0x352], \<lparr>mc_net = [], nextTid = 2, connected = True, lastExceptionCode = None\<rparr>)"
  by (simp add: readImpl_def ensureConnected_def exchange_def read_exactly_def decode_reply_def decodeReadResponse_def
      tape_transport_def tape_answer_def mc_new_def modbus_consts readBe16_def Let_def)

lemma tape_closed: "fst (readImpl tape_transport ReadHoldingRegisters 9 40 1 (mc_new [])) = Inl Disconnected"
  by (simp add: readImpl_def ensureConnected_def exchange_def read_exactly_def
      tape_transport_def mc_new_def modbus_consts Let_def)

theorem read_returns_requested_witness:
  "reads_exact tape_transport \<and> (\<exists>rs m'. readImpl tape_transport ReadHoldingRegisters 9 40 1 (mc_new tape_answer) = (Inr rs, m') \<and>
     length rs = 1 \<and> connected m')"
  using read_returns_requested [OF tape_exact tape_read] tape_exact tape_read by auto

theorem read_error_states_witness:
  "\<not> connected (snd (readImpl tape_transport ReadHoldingRegisters 9 40 1 (mc_new [])))"
proof -
  obtain m' where r: "readImpl tape_transport ReadHoldingRegisters 9 40 1 (mc_new []) = (Inl Disconnected, m')"
    using tape_closed by (metis prod.collapse)
  have "connected (mc_new ([] :: byte list)) \<longrightarrow> t_is_open tape_transport (mc_net (mc_new []))" by (simp add: mc_new_def)
  from read_error_states [OF this r] r show ?thesis by simp
qed

end
