(* ===== verification/ModbusPollLoop.thy ===== *)
theory ModbusPollLoop
  imports ModbusClient SpscQueue
begin

text \<open>
  \<^verbatim>\<open>src/integration/modbus/ModbusPollLoop.{h,cpp}\<close>, \<^verbatim>\<open>ModbusIngestBridge.{h,cpp}\<close>,
  \<^verbatim>\<open>ModbusRegisterMap.h\<close> and the health report of \<^verbatim>\<open>ModbusBackend.cpp\<close>: one walk of the register map
  pushes samples into the SPSC queue, the drain pops them and the bridge turns them into model
  commands.

  The reader is the \<^verbatim>\<open>ModbusReader\<close> interface and an argument; binary32 arithmetic is the record
  \<open>float_ops\<close>, also an argument, so nothing is assumed about rounding. The queue is the model of
  \<open>SpscQueue\<close> at the capacity of the source, used through its \<open>fifo_channel\<close> interface. \<^verbatim>\<open>drainOnce\<close> is
  a loop that ends when the queue is empty; its fuel is the capacity, and the round-trip theorem
  shows that this is always enough.
\<close>

section \<open>Register map\<close>

datatype RegisterType = HoldingRegister | InputRegister

datatype FieldKind = EquipmentEnabled | EquipmentSupplyLevel | QualityPassRate

record 'f RegisterMapping =
  slaveId :: byte
  rm_type :: RegisterType
  rm_address :: u16
  field :: FieldKind
  entityId :: u32
  rm_scale :: 'f

type_synonym 'f ModbusRegisterMap = "'f RegisterMapping list"

definition map_add :: "'f ModbusRegisterMap \<Rightarrow> 'f RegisterMapping \<Rightarrow> 'f ModbusRegisterMap" where
  "map_add entries mapping = entries @ [mapping]"

section \<open>Ingest bridge\<close>

text \<open>What the bridge does with floats: \<^verbatim>\<open>static_cast<float>(raw) * scale\<close>, \<^verbatim>\<open>static_cast<int>\<close> and
  \<^verbatim>\<open>==\<close>.\<close>

record 'f float_ops =
  f_of_raw :: "u16 \<Rightarrow> 'f"
  f_mul :: "'f \<Rightarrow> 'f \<Rightarrow> 'f"
  f_to_int :: "'f \<Rightarrow> int"
  f_eq :: "'f \<Rightarrow> 'f \<Rightarrow> bool"

datatype 'f model_cmd =
    SetEquipmentEnabled u32 bool
  | SetEquipmentSupplyLevel u32 int
  | SetQualityPassRate u32 'f

definition kMaxTrackedEquipment :: nat where "kMaxTrackedEquipment = 16"
definition kMaxTrackedQuality :: nat where "kMaxTrackedQuality = 16"

record 'f ModbusIngestBridge =
  lastEnabled :: "bool option list"
  lastSupplyLevel :: "int option list"
  lastPassRate :: "'f option list"

definition bridge_new :: "'f ModbusIngestBridge" where
  "bridge_new = \<lparr>lastEnabled = replicate kMaxTrackedEquipment None,
     lastSupplyLevel = replicate kMaxTrackedEquipment None, lastPassRate = replicate kMaxTrackedQuality None\<rparr>"

definition onRegisterChanged ::
  "'f float_ops \<Rightarrow> 'f RegisterMapping \<Rightarrow> u16 \<Rightarrow> 'f ModbusIngestBridge \<Rightarrow> 'f ModbusIngestBridge \<times> 'f model_cmd list" where
  "onRegisterChanged fo mapping rawValue b =
     (let e = unat (entityId mapping) in
      case field mapping of
        EquipmentEnabled \<Rightarrow>
          (if e \<ge> kMaxTrackedEquipment then (b, [])
           else
             let enabled = (rawValue \<noteq> 0)
             in if lastEnabled b ! e = Some enabled then (b, [])
                else (b\<lparr>lastEnabled := (lastEnabled b)[e := Some enabled]\<rparr>,
                      [SetEquipmentEnabled (entityId mapping) enabled]))
      | EquipmentSupplyLevel \<Rightarrow>
          (let scaled = f_to_int fo (f_mul fo (f_of_raw fo rawValue) (rm_scale mapping))
           in if e < kMaxTrackedEquipment then
                (if lastSupplyLevel b ! e = Some scaled then (b, [])
                 else (b\<lparr>lastSupplyLevel := (lastSupplyLevel b)[e := Some scaled]\<rparr>,
                       [SetEquipmentSupplyLevel (entityId mapping) scaled]))
              else (b, [SetEquipmentSupplyLevel (entityId mapping) scaled]))
      | QualityPassRate \<Rightarrow>
          (let scaled = f_mul fo (f_of_raw fo rawValue) (rm_scale mapping)
           in if e < kMaxTrackedQuality then
                (if (case lastPassRate b ! e of None \<Rightarrow> False | Some v \<Rightarrow> f_eq fo v scaled) then (b, [])
                 else (b\<lparr>lastPassRate := (lastPassRate b)[e := Some scaled]\<rparr>,
                       [SetQualityPassRate (entityId mapping) scaled]))
              else (b, [SetQualityPassRate (entityId mapping) scaled])))"

section \<open>Poll loop\<close>

definition kQueueCapacity :: u64 where "kQueueCapacity = 256"

type_synonym 'f RegisterSample = "'f RegisterMapping \<times> u16"

record ('f, 'r) ModbusPollLoop =
  pl_queue :: "'f RegisterSample spsc"
  pl_reader :: 'r
  pl_bridge :: "'f ModbusIngestBridge"
  pl_commands :: "'f model_cmd list"
  successfulReads :: nat
  failedReads :: nat
  droppedSamples :: nat
  pl_running :: bool

type_synonym 'r reader = "RegisterType \<Rightarrow> byte \<Rightarrow> u16 \<Rightarrow> u16 \<Rightarrow> 'r \<Rightarrow> (IoError + u16 list) \<times> 'r"

definition poll_entry :: "'r reader \<Rightarrow> ('f, 'r) ModbusPollLoop \<Rightarrow> 'f RegisterMapping \<Rightarrow> ('f, 'r) ModbusPollLoop" where
  "poll_entry rd p entry =
     (let (result, r) = rd (rm_type entry) (slaveId entry) (rm_address entry) 1 (pl_reader p);
          p = p\<lparr>pl_reader := r\<rparr>
      in case result of
           Inl _ \<Rightarrow> p\<lparr>failedReads := failedReads p + 1\<rparr>
         | Inr [] \<Rightarrow> p\<lparr>failedReads := failedReads p + 1\<rparr>
         | Inr (v # _) \<Rightarrow>
             (let p = p\<lparr>successfulReads := successfulReads p + 1\<rparr>;
                  (stored, q) = spsc_push kQueueCapacity (pl_queue p) (entry, v);
                  p = p\<lparr>pl_queue := q\<rparr>
              in if stored then p else p\<lparr>droppedSamples := droppedSamples p + 1\<rparr>))"

definition pollOnce :: "'r reader \<Rightarrow> 'f ModbusRegisterMap \<Rightarrow> ('f, 'r) ModbusPollLoop \<Rightarrow> ('f, 'r) ModbusPollLoop" where
  "pollOnce rd entries p = foldl (poll_entry rd) p entries"

definition dispatch_sample :: "'f float_ops \<Rightarrow> 'f RegisterSample \<Rightarrow> ('f, 'r) ModbusPollLoop \<Rightarrow> ('f, 'r) ModbusPollLoop" where
  "dispatch_sample fo smp p =
     (let (b, cmds) = onRegisterChanged fo (fst smp) (snd smp) (pl_bridge p)
      in p\<lparr>pl_bridge := b, pl_commands := pl_commands p @ cmds\<rparr>)"

fun drain_loop :: "'f float_ops \<Rightarrow> nat \<Rightarrow> ('f, 'r) ModbusPollLoop \<Rightarrow> ('f, 'r) ModbusPollLoop option" where
  "drain_loop fo 0 p = None"
| "drain_loop fo (Suc n) p =
     (case spsc_pop kQueueCapacity (pl_queue p) of
        (None, q) \<Rightarrow> Some (p\<lparr>pl_queue := q\<rparr>)
      | (Some smp, q) \<Rightarrow> drain_loop fo n (dispatch_sample fo smp (p\<lparr>pl_queue := q\<rparr>)))"

definition drainOnce :: "'f float_ops \<Rightarrow> ('f, 'r) ModbusPollLoop \<Rightarrow> ('f, 'r) ModbusPollLoop option" where
  "drainOnce fo p = drain_loop fo (unat kQueueCapacity) p"

definition pl_start :: "('f, 'r) ModbusPollLoop \<Rightarrow> ('f, 'r) ModbusPollLoop" where
  "pl_start p = (if pl_running p then p else p\<lparr>pl_running := True\<rparr>)"

text \<open>\<^verbatim>\<open>stop\<close>, once both threads are joined.\<close>

definition pl_stop :: "'f float_ops \<Rightarrow> ('f, 'r) ModbusPollLoop \<Rightarrow> ('f, 'r) ModbusPollLoop option" where
  "pl_stop fo p = (if \<not> pl_running p then Some p else drainOnce fo (p\<lparr>pl_running := False\<rparr>))"

definition connectionState :: "'f ModbusRegisterMap \<Rightarrow> bool \<Rightarrow> ('f, 'r) ModbusPollLoop \<Rightarrow> BackendState" where
  "connectionState entries clientConnected p =
     (if \<not> pl_running p then BackendDisconnected
      else if entries = [] then BackendConnecting
      else if successfulReads p = 0 then BackendConnecting
      else if clientConnected then BackendConnected else BackendDegraded)"

section \<open>The queue between the threads\<close>

lemma queue_capacity: "valid_capacity kQueueCapacity"
  by (simp add: valid_capacity_def kQueueCapacity_def)

interpretation sampleq: fifo_channel "spsc_push kQueueCapacity :: 'f RegisterSample spsc \<Rightarrow> _"
    "spsc_pop kQueueCapacity" "contents kQueueCapacity" "spsc_inv kQueueCapacity" "unat kQueueCapacity - 1"
  by (rule spsc_fifo) (rule queue_capacity)

abbreviation queued :: "('f, 'r) ModbusPollLoop \<Rightarrow> 'f RegisterSample list" where
  "queued p \<equiv> contents kQueueCapacity (pl_queue p)"

abbreviation queue_ok :: "('f, 'r) ModbusPollLoop \<Rightarrow> bool" where
  "queue_ok p \<equiv> spsc_inv kQueueCapacity (pl_queue p)"

text \<open>What one walk reads: the samples of the entries whose read succeeded.\<close>

fun walk :: "'r reader \<Rightarrow> 'f ModbusRegisterMap \<Rightarrow> 'r \<Rightarrow> 'f RegisterSample list \<times> 'r" where
  "walk rd [] r = ([], r)"
| "walk rd (e # es) r =
     (case rd (rm_type e) (slaveId e) (rm_address e) 1 r of
        (Inr (v # _), r) \<Rightarrow> (let (ss, r) = walk rd es r in ((e, v) # ss, r))
      | (_, r) \<Rightarrow> walk rd es r)"

lemma walk_length: "length (fst (walk rd es r)) \<le> length es"
  by (induction rd es r rule: walk.induct) (auto simp: le_SucI split: prod.splits sum.splits list.splits)

lemma pollOnce_eq:
  "pollOnce rd es p =
     (let ss = fst (walk rd es (pl_reader p))
      in p\<lparr>pl_reader := snd (walk rd es (pl_reader p)), pl_queue := snd (sampleq.push_all (pl_queue p) ss),
           successfulReads := successfulReads p + length ss, failedReads := failedReads p + (length es - length ss),
           droppedSamples := droppedSamples p + fst (sampleq.push_all (pl_queue p) ss)\<rparr>)"
proof (induction es arbitrary: p)
  case Nil
  then show ?case by (simp add: pollOnce_def)
next
  case (Cons e es)
  obtain res r where r: "rd (rm_type e) (slaveId e) (rm_address e) 1 (pl_reader p) = (res, r)" by fastforce
  have step: "pollOnce rd (e # es) p = pollOnce rd es (poll_entry rd p e)" by (simp add: pollOnce_def)
  have le: "length (fst (walk rd es r)) \<le> length es" by (rule walk_length)
  show ?case
  proof (cases "\<exists>v vs. res = Inr (v # vs)")
    case True
    then obtain v vs where v: "res = Inr (v # vs)" by blast
    obtain st q where q: "spsc_push kQueueCapacity (pl_queue p) (e, v) = (st, q)" by fastforce
    show ?thesis unfolding step Cons.IH using r v q
      by (simp add: poll_entry_def Let_def split_beta)
  next
    case False
    then have "poll_entry rd p e = p\<lparr>pl_reader := r, failedReads := failedReads p + 1\<rparr>"
      "walk rd (e # es) (pl_reader p) = walk rd es r"
      using r by (auto simp: poll_entry_def Let_def split: sum.splits list.splits)
    then show ?thesis unfolding step Cons.IH using le by (simp add: Let_def Suc_diff_le)
  qed
qed

fun bridge_run :: "'f float_ops \<Rightarrow> 'f RegisterSample list \<Rightarrow> 'f ModbusIngestBridge \<times> 'f model_cmd list
    \<Rightarrow> 'f ModbusIngestBridge \<times> 'f model_cmd list" where
  "bridge_run fo [] bc = bc"
| "bridge_run fo ((m, v) # ss) (b, cs) =
     bridge_run fo ss (fst (onRegisterChanged fo m v b), cs @ snd (onRegisterChanged fo m v b))"

lemma drain_all:
  assumes "queue_ok p" "length (queued p) < n"
  shows "\<exists>q. contents kQueueCapacity q = [] \<and> spsc_inv kQueueCapacity q \<and>
    drain_loop fo n p = Some (p\<lparr>pl_queue := q, pl_bridge := fst (bridge_run fo (queued p) (pl_bridge p, pl_commands p)),
                               pl_commands := snd (bridge_run fo (queued p) (pl_bridge p, pl_commands p))\<rparr>)"
  using assms
proof (induction n arbitrary: p)
  case (Suc n)
  show ?case
  proof (cases "queued p")
    case Nil
    with sampleq.pop_empty [OF Suc.prems(1) Nil] Suc.prems(1) show ?thesis
      by (intro exI [of _ "pl_queue p"]) simp
  next
    case (Cons smp ss)
    obtain m v where smp: "smp = (m, v)" by (cases smp)
    obtain q where q: "spsc_pop kQueueCapacity (pl_queue p) = (Some smp, q)" "contents kQueueCapacity q = ss"
      using sampleq.pop_some [OF Suc.prems(1) Cons] by (cases "spsc_pop kQueueCapacity (pl_queue p)") auto
    have inv: "spsc_inv kQueueCapacity q" using sampleq.inv_pop [OF Suc.prems(1)] q by simp
    let ?p = "dispatch_sample fo smp (p\<lparr>pl_queue := q\<rparr>)"
    have p: "pl_queue ?p = q" by (simp add: dispatch_sample_def split_beta Let_def)
    have "length (queued ?p) < n" using Suc.prems(2) Cons q(2) p by simp
    from Suc.IH [OF _ this] p inv obtain q' where "contents kQueueCapacity q' = []" "spsc_inv kQueueCapacity q'"
      "drain_loop fo n ?p = Some (?p\<lparr>pl_queue := q', pl_bridge := fst (bridge_run fo ss (pl_bridge ?p, pl_commands ?p)),
         pl_commands := snd (bridge_run fo ss (pl_bridge ?p, pl_commands ?p))\<rparr>)" using q(2) by auto
    then show ?thesis using q Cons smp
      by (intro exI [of _ q']) (simp add: dispatch_sample_def split_beta Let_def)
  qed
qed simp

section \<open>Deduplication\<close>

lemma remdups_adj_snoc:
  "remdups_adj (xs @ [x]) = (if xs \<noteq> [] \<and> last xs = x then remdups_adj xs else remdups_adj xs @ [x])"
proof (induction xs rule: remdups_adj.induct)
  case (3 a b xs)
  then show ?case by (cases "a = b") auto
qed auto

definition enabled_seen :: "u32 \<Rightarrow> 'f RegisterSample list \<Rightarrow> bool list" where
  "enabled_seen e ss = [v \<noteq> 0. (m, v) \<leftarrow> ss, field m = EquipmentEnabled \<and> entityId m = e]"

definition enabled_set :: "u32 \<Rightarrow> 'f model_cmd list \<Rightarrow> bool list" where
  "enabled_set e cs = concat (map (\<lambda>c. case c of SetEquipmentEnabled e' v \<Rightarrow> if e' = e then [v] else [] | _ \<Rightarrow> []) cs)"

definition supply_seen :: "'f float_ops \<Rightarrow> u32 \<Rightarrow> 'f RegisterSample list \<Rightarrow> int list" where
  "supply_seen fo e ss =
     [f_to_int fo (f_mul fo (f_of_raw fo v) (rm_scale m)). (m, v) \<leftarrow> ss, field m = EquipmentSupplyLevel \<and> entityId m = e]"

definition supply_set :: "u32 \<Rightarrow> 'f model_cmd list \<Rightarrow> int list" where
  "supply_set e cs = concat (map (\<lambda>c. case c of SetEquipmentSupplyLevel e' v \<Rightarrow> if e' = e then [v] else [] | _ \<Rightarrow> []) cs)"

lemma bridge_run_snoc:
  "bridge_run fo (ss @ [(m, v)]) bc =
     (let (b, cs) = bridge_run fo ss bc
      in (fst (onRegisterChanged fo m v b), cs @ snd (onRegisterChanged fo m v b)))"
  by (induction fo ss bc rule: bridge_run.induct) (auto simp: Let_def split: prod.splits)

abbreviation last_opt :: "'a list \<Rightarrow> 'a option" where
  "last_opt xs \<equiv> (if xs = [] then None else Some (last xs))"

lemma bridge_dedup_inv:
  assumes "unat e < 16"
  shows "case bridge_run fo ss (bridge_new, []) of (b, cs) \<Rightarrow>
    length (lastEnabled b) = 16 \<and> length (lastSupplyLevel b) = 16 \<and>
    lastEnabled b ! unat e = last_opt (enabled_seen e ss) \<and> lastSupplyLevel b ! unat e = last_opt (supply_seen fo e ss) \<and>
    enabled_set e cs = remdups_adj (enabled_seen e ss) \<and> supply_set e cs = remdups_adj (supply_seen fo e ss)"
proof (induction ss rule: rev_induct)
  case Nil
  with assms show ?case
    by (simp add: bridge_new_def kMaxTrackedEquipment_def enabled_seen_def enabled_set_def supply_seen_def supply_set_def)
next
  case (snoc s ss)
  obtain m v where s: "s = (m, v)" by (cases s)
  obtain b cs where b: "bridge_run fo ss (bridge_new, []) = (b, cs)" by fastforce
  have ne: "entityId m \<noteq> e \<Longrightarrow> unat (entityId m) \<noteq> unat e" using word_unat_eq_iff by metis
  show ?case
    using snoc assms ne
    by (cases "field m"; cases "entityId m = e")
      (auto simp: s b bridge_run_snoc onRegisterChanged_def Let_def kMaxTrackedEquipment_def kMaxTrackedQuality_def
        enabled_seen_def enabled_set_def supply_seen_def supply_set_def remdups_adj_snoc split: option.splits)
qed

section \<open>Properties\<close>

text \<open>
  One walk of the register map followed by a drain delivers: the samples of the successful reads
  are queued in map order behind what was there, as many as fit in the 255 free places, the rest is
  counted as dropped; every entry is counted once as successful or failed; the drain terminates,
  leaves the queue empty and hands every queued sample to the bridge exactly once, oldest first.
\<close>

theorem poll_drain_round_trip:
  assumes "queue_ok p"
  shows "let ss = fst (walk rd es (pl_reader p)); p1 = pollOnce rd es p in
    queued p1 = queued p @ take (255 - length (queued p)) ss \<and>
    droppedSamples p1 = droppedSamples p + (length ss - (255 - length (queued p))) \<and>
    successfulReads p1 = successfulReads p + length ss \<and> failedReads p1 = failedReads p + (length es - length ss) \<and>
    (\<exists>p2. drainOnce fo p1 = Some p2 \<and> queued p2 = [] \<and> queue_ok p2 \<and>
       (pl_bridge p2, pl_commands p2) = bridge_run fo (queued p1) (pl_bridge p, pl_commands p))"
proof -
  let ?ss = "fst (walk rd es (pl_reader p))" and ?p1 = "pollOnce rd es p"
  have cap: "unat kQueueCapacity = 256" by (simp add: kQueueCapacity_def)
  note push = sampleq.push_all_contents [OF assms, of ?ss]
  have ok: "queue_ok ?p1" using push by (simp add: pollOnce_eq Let_def)
  have "length (queued ?p1) < 256" using sampleq.within_depth [OF ok] cap by simp
  from drain_all [OF ok this, of fo] obtain q where q: "contents kQueueCapacity q = []" "spsc_inv kQueueCapacity q"
    "drain_loop fo 256 ?p1 = Some (?p1\<lparr>pl_queue := q, pl_bridge := fst (bridge_run fo (queued ?p1) (pl_bridge ?p1, pl_commands ?p1)),
       pl_commands := snd (bridge_run fo (queued ?p1) (pl_bridge ?p1, pl_commands ?p1))\<rparr>)" by blast
  have "pl_bridge ?p1 = pl_bridge p" "pl_commands ?p1 = pl_commands p" by (simp_all add: pollOnce_eq Let_def)
  with q have "\<exists>p2. drainOnce fo ?p1 = Some p2 \<and> queued p2 = [] \<and> queue_ok p2 \<and>
       (pl_bridge p2, pl_commands p2) = bridge_run fo (queued ?p1) (pl_bridge p, pl_commands p)"
    by (simp add: drainOnce_def cap)
  then show ?thesis using push cap by (simp add: pollOnce_eq Let_def)
qed

definition demo_map :: "nat ModbusRegisterMap" where
  "demo_map = [\<lparr>slaveId = 1, rm_type = HoldingRegister, rm_address = 40, field = EquipmentEnabled, entityId = 2, rm_scale = 1\<rparr>,
               \<lparr>slaveId = 2, rm_type = InputRegister, rm_address = 41, field = EquipmentSupplyLevel, entityId = 2, rm_scale = 1\<rparr>]"

definition demo_poll :: "(nat, unit) ModbusPollLoop" where
  "demo_poll = \<lparr>pl_queue = spsc_new kQueueCapacity (hd demo_map, 0), pl_reader = (), pl_bridge = bridge_new, pl_commands = [],
     successfulReads = 0, failedReads = 0, droppedSamples = 0, pl_running = True\<rparr>"

definition demo_reader :: "unit reader" where
  "demo_reader t s a q u = (if s = 1 then (Inr [a], ()) else (Inl IoTimeout, ()))"

lemma demo_poll_ok: "queue_ok demo_poll"
  by (simp add: demo_poll_def spsc_inv_def spsc_new_def spsc_size_def kQueueCapacity_def)

theorem poll_drain_round_trip_witness:
  "queue_ok demo_poll \<and> successfulReads (pollOnce demo_reader demo_map demo_poll) = 1 \<and>
   failedReads (pollOnce demo_reader demo_map demo_poll) = 1"
  using poll_drain_round_trip [OF demo_poll_ok, of demo_reader demo_map] demo_poll_ok
  by (simp add: Let_def demo_map_def demo_reader_def) (simp add: demo_poll_def)

text \<open>
  The bridge forwards changes only and loses none: over any sequence of samples, the "enabled"
  commands the model receives for an equipment are the observed values with repetitions removed,
  and so are the supply level commands, in order. In particular the last command is the last value
  observed.
\<close>

theorem bridge_forwards_changes:
  assumes "unat e < kMaxTrackedEquipment"
  shows "let cs = snd (bridge_run fo ss (bridge_new, [])) in
    enabled_set e cs = remdups_adj (enabled_seen e ss) \<and> supply_set e cs = remdups_adj (supply_seen fo e ss)"
  using bridge_dedup_inv [of e ss fo] assms by (auto simp: kMaxTrackedEquipment_def Let_def split: prod.splits)

theorem bridge_forwards_changes_witness:
  "enabled_set 2 (snd (bridge_run \<lparr>f_of_raw = unat, f_mul = (*), f_to_int = int, f_eq = (=)\<rparr>
     [(hd demo_map, 0), (hd demo_map, 1), (hd demo_map, 7), (hd demo_map, 0)] (bridge_new, []))) = [False, True, False]"
  using bridge_forwards_changes [of 2 "\<lparr>f_of_raw = unat, f_mul = (*), f_to_int = int, f_eq = (=)\<rparr>"
     "[(hd demo_map, 0), (hd demo_map, 1), (hd demo_map, 7), (hd demo_map, 0)]"]
  by (simp add: kMaxTrackedEquipment_def enabled_seen_def demo_map_def Let_def)

end
