(* ===== verification/MqttPacket.thy ===== *)
theory MqttPacket
  imports Prelude
begin

text \<open>
  \<^verbatim>\<open>src/integration/MqttPacket.{h,cpp}\<close>: the MQTT 3.1.1 wire format.

  Every \<^verbatim>\<open>throw\<close> is a constructor of \<open>mqtt_error\<close> and readers return the value and the new cursor.
  \<open>UndefinedRange\<close> is not an exception: it marks the one place where the source would build a string
  from an iterator range whose end precedes its begin, which C++ leaves undefined. The theorems:
  the remaining-length codec round-trips on its whole domain, every built packet is well framed, a
  built PUBLISH parses back to its topic and payload, the acknowledgement parsers accept exactly
  their packets, and when PUBLISH parsing reaches the undefined range.
\<close>

section \<open>Constants\<close>

definition kContinuationBit :: byte where "kContinuationBit = 0x80"
definition kRemainingLengthValueMask :: byte where "kRemainingLengthValueMask = 0x7F"
definition kMaxRemainingLengthBytes :: nat where "kMaxRemainingLengthBytes = 4"
definition kRemainingLengthShift :: u32 where "kRemainingLengthShift = 128"
definition kProtocolName :: string where "kProtocolName = ''MQTT''"
definition kProtocolLevelMqtt311 :: byte where "kProtocolLevelMqtt311 = 0x04"
definition kConnectFlagCleanSession :: byte where "kConnectFlagCleanSession = 0x02"
definition kPublishFlagsQos0Transient :: byte where "kPublishFlagsQos0Transient = 0x00"
definition kEmptyRemainingLength :: byte where "kEmptyRemainingLength = 0x00"
definition kConnAckRemainingLength :: byte where "kConnAckRemainingLength = 0x02"
definition kConnAckReturnCodeOffset :: nat where "kConnAckReturnCodeOffset = 3"
definition kSubscribeFixedHeaderFlags :: byte where "kSubscribeFixedHeaderFlags = 0x02"
definition kUnsubscribeFixedHeaderFlags :: byte where "kUnsubscribeFixedHeaderFlags = 0x02"
definition kSubscribeRequestedQos0 :: byte where "kSubscribeRequestedQos0 = 0x00"
definition kSubAckSingleTopicRemainingLength :: byte where "kSubAckSingleTopicRemainingLength = 0x03"
definition kSubAckPacketSize :: nat where "kSubAckPacketSize = 5"
definition kUnsubAckRemainingLength :: byte where "kUnsubAckRemainingLength = 0x02"
definition kUnsubAckPacketSize :: nat where "kUnsubAckPacketSize = 4"
definition kPublishFlagsMask :: byte where "kPublishFlagsMask = 0x0F"
definition kPublishQosMask :: u32 where "kPublishQosMask = 0x03"
definition kFixedHeaderTypeMask :: byte where "kFixedHeaderTypeMask = 0xF0"
definition kMaxKeepAlive :: int where "kMaxKeepAlive = 65535"
definition kMaxRemainingLength :: u32 where "kMaxRemainingLength = 268435455"
definition kMaxStringLength :: nat where "kMaxStringLength = 0xFFFF"
definition kConnAckPacketSize :: nat where "kConnAckPacketSize = 4"

datatype PacketType = Connect | ConnAck | Publish | Subscribe | SubAck | Unsubscribe | UnsubAck
  | PingReq | PingResp | Disconnect

fun type_byte :: "PacketType \<Rightarrow> byte" where
  "type_byte Connect = 0x10"
| "type_byte ConnAck = 0x20"
| "type_byte Publish = 0x30"
| "type_byte Subscribe = 0x80"
| "type_byte SubAck = 0x90"
| "type_byte Unsubscribe = 0xA0"
| "type_byte UnsubAck = 0xB0"
| "type_byte PingReq = 0xC0"
| "type_byte PingResp = 0xD0"
| "type_byte Disconnect = 0xE0"

datatype mqtt_error = RemainingLengthTooLarge | StringTooLong | KeepAliveOutOfRange | TruncatedField
  | TruncatedString | TruncatedLength | EndlessLength | AckTruncated | BadHeader | BadRemainingLength
  | EmptyBuffer | QosUnsupported | BodyTruncated | UndefinedRange

section \<open>Primitive fields\<close>

definition appendUint16BigEndian :: "byte list \<Rightarrow> u16 \<Rightarrow> byte list" where
  "appendUint16BigEndian out v =
     (let promoted = (ucast v :: u32)
      in out @ [ucast (drop_bit 8 promoted AND 0xFF), ucast (promoted AND 0xFF)])"

definition readUint16BigEndian :: "byte list \<Rightarrow> nat \<Rightarrow> mqtt_error + u16 \<times> nat" where
  "readUint16BigEndian bytes cursor =
     (if cursor + 1 \<ge> length bytes then Inl TruncatedField
      else let high = (ucast (bytes ! cursor) :: u32); low = (ucast (bytes ! (cursor + 1)) :: u32)
           in Inr (ucast (push_bit 8 high OR low), cursor + 2))"

definition readString :: "byte list \<Rightarrow> nat \<Rightarrow> mqtt_error + string \<times> nat" where
  "readString bytes cursor =
     (case readUint16BigEndian bytes cursor of
        Inl e \<Rightarrow> Inl e
      | Inr (len, cursor) \<Rightarrow>
          if cursor + unat len > length bytes then Inl TruncatedString
          else Inr (map byte_char (take (unat len) (drop cursor bytes)), cursor + unat len))"

lemma drop_bit_7_less:
  fixes v :: u32
  assumes "0 < drop_bit 7 v"
  shows "unat (drop_bit 7 v) < unat v"
proof -
  have "unat (drop_bit 7 v) = unat v div 128" by (simp add: drop_bit_eq_div unat_div_distrib)
  moreover from this assms have "0 < unat v" by (auto simp: word_less_nat_alt intro: gr0I)
  ultimately show ?thesis by simp
qed

text \<open>The \<^verbatim>\<open>do ... while\<close> loop of \<^verbatim>\<open>encodeRemainingLength\<close>.\<close>

function encode_length_loop :: "u32 \<Rightarrow> byte list" where
  "encode_length_loop v =
     (let b = (ucast (v AND ucast kRemainingLengthValueMask) :: byte);
          v = drop_bit 7 v
      in if v > 0 then (b OR kContinuationBit) # encode_length_loop v else [b])"
  by pat_completeness auto
termination
  by (relation "measure unat") (auto simp: drop_bit_7_less)

declare encode_length_loop.simps [simp del]

definition encodeRemainingLength :: "u32 \<Rightarrow> mqtt_error + byte list" where
  "encodeRemainingLength v =
     (if v > kMaxRemainingLength then Inl RemainingLengthTooLarge else Inr (encode_length_loop v))"

text \<open>The \<^verbatim>\<open>for\<close> loop of \<^verbatim>\<open>decodeRemainingLength\<close>; the first argument counts the turns left.\<close>

fun decode_length_loop :: "nat \<Rightarrow> byte list \<Rightarrow> nat \<Rightarrow> u32 \<Rightarrow> u32 \<Rightarrow> mqtt_error + u32 \<times> nat" where
  "decode_length_loop 0 bytes cursor multiplier v = Inl EndlessLength"
| "decode_length_loop (Suc n) bytes cursor multiplier v =
     (if cursor \<ge> length bytes then Inl TruncatedLength
      else
        let b = bytes ! cursor;
            cursor = cursor + 1;
            v = v + ucast (b AND kRemainingLengthValueMask) * multiplier
        in if b AND kContinuationBit = 0 then Inr (v, cursor)
           else decode_length_loop n bytes cursor (multiplier * kRemainingLengthShift) v)"

definition decodeRemainingLength :: "byte list \<Rightarrow> nat \<Rightarrow> mqtt_error + u32 \<times> nat" where
  "decodeRemainingLength bytes cursor = decode_length_loop kMaxRemainingLengthBytes bytes cursor 1 0"

definition encodeString :: "string \<Rightarrow> mqtt_error + byte list" where
  "encodeString s =
     (if length s > kMaxStringLength then Inl StringTooLong
      else Inr (appendUint16BigEndian [] (of_nat (length s)) @ map char_byte s))"

section \<open>Builders\<close>

definition buildConnect :: "string \<Rightarrow> int \<Rightarrow> mqtt_error + byte list" where
  "buildConnect clientId keepAlive =
     (if keepAlive < 0 \<or> keepAlive > kMaxKeepAlive then Inl KeepAliveOutOfRange
      else case encodeString kProtocolName of
        Inl e \<Rightarrow> Inl e
      | Inr protocolName \<Rightarrow>
          (let var = appendUint16BigEndian (protocolName @ [kProtocolLevelMqtt311, kConnectFlagCleanSession])
                       (of_int keepAlive)
           in case encodeString clientId of
                Inl e \<Rightarrow> Inl e
              | Inr payload \<Rightarrow>
                  (case encodeRemainingLength (of_nat (length var + length payload)) of
                     Inl e \<Rightarrow> Inl e
                   | Inr remainingBytes \<Rightarrow> Inr ([type_byte Connect] @ remainingBytes @ var @ payload))))"

definition buildPublish :: "string \<Rightarrow> string \<Rightarrow> mqtt_error + byte list" where
  "buildPublish topic payload =
     (case encodeString topic of
        Inl e \<Rightarrow> Inl e
      | Inr topicBytes \<Rightarrow>
          (case encodeRemainingLength (of_nat (length topicBytes + length payload)) of
             Inl e \<Rightarrow> Inl e
           | Inr remainingBytes \<Rightarrow>
               Inr ([type_byte Publish OR kPublishFlagsQos0Transient] @ remainingBytes @ topicBytes @ map char_byte payload)))"

definition buildPingReq :: "byte list" where
  "buildPingReq = [type_byte PingReq, kEmptyRemainingLength]"

definition buildDisconnect :: "byte list" where
  "buildDisconnect = [type_byte Disconnect, kEmptyRemainingLength]"

definition buildSubscribe :: "u16 \<Rightarrow> string \<Rightarrow> mqtt_error + byte list" where
  "buildSubscribe packetId topic =
     (let var = appendUint16BigEndian [] packetId
      in case encodeString topic of
           Inl e \<Rightarrow> Inl e
         | Inr topicBytes \<Rightarrow>
             (let payload = topicBytes @ [kSubscribeRequestedQos0]
              in case encodeRemainingLength (of_nat (length var + length payload)) of
                   Inl e \<Rightarrow> Inl e
                 | Inr remainingBytes \<Rightarrow>
                     Inr ([type_byte Subscribe OR kSubscribeFixedHeaderFlags] @ remainingBytes @ var @ payload)))"

definition buildUnsubscribe :: "u16 \<Rightarrow> string \<Rightarrow> mqtt_error + byte list" where
  "buildUnsubscribe packetId topic =
     (let var = appendUint16BigEndian [] packetId
      in case encodeString topic of
           Inl e \<Rightarrow> Inl e
         | Inr topicBytes \<Rightarrow>
             (case encodeRemainingLength (of_nat (length var + length topicBytes)) of
                Inl e \<Rightarrow> Inl e
              | Inr remainingBytes \<Rightarrow>
                  Inr ([type_byte Unsubscribe OR kUnsubscribeFixedHeaderFlags] @ remainingBytes @ var @ topicBytes)))"

section \<open>Parsers\<close>

text \<open>The return codes stay bytes: the \<^verbatim>\<open>static_cast\<close> to the enum accepts any value.\<close>

definition parseConnAck :: "byte list \<Rightarrow> mqtt_error + byte" where
  "parseConnAck bytes =
     (if length bytes < kConnAckPacketSize then Inl AckTruncated
      else if bytes ! 0 \<noteq> type_byte ConnAck then Inl BadHeader
      else if bytes ! 1 \<noteq> kConnAckRemainingLength then Inl BadRemainingLength
      else Inr (bytes ! kConnAckReturnCodeOffset))"

record ParsedSubAck =
  sa_packetId :: u16
  sa_returnCode :: byte

definition parseSubAck :: "byte list \<Rightarrow> mqtt_error + ParsedSubAck" where
  "parseSubAck bytes =
     (if length bytes < kSubAckPacketSize then Inl AckTruncated
      else if bytes ! 0 \<noteq> type_byte SubAck then Inl BadHeader
      else if bytes ! 1 \<noteq> kSubAckSingleTopicRemainingLength then Inl BadRemainingLength
      else case readUint16BigEndian bytes 2 of
        Inl e \<Rightarrow> Inl e
      | Inr (packetId, cursor) \<Rightarrow> Inr \<lparr>sa_packetId = packetId, sa_returnCode = bytes ! cursor\<rparr>)"

definition parseUnsubAck :: "byte list \<Rightarrow> mqtt_error + u16" where
  "parseUnsubAck bytes =
     (if length bytes < kUnsubAckPacketSize then Inl AckTruncated
      else if bytes ! 0 \<noteq> type_byte UnsubAck then Inl BadHeader
      else if bytes ! 1 \<noteq> kUnsubAckRemainingLength then Inl BadRemainingLength
      else case readUint16BigEndian bytes 2 of Inl e \<Rightarrow> Inl e | Inr (packetId, cursor) \<Rightarrow> Inr packetId)"

record ParsedPublish =
  pp_topic :: string
  pp_payload :: string

definition parsePublish :: "byte list \<Rightarrow> mqtt_error + ParsedPublish" where
  "parsePublish bytes =
     (if bytes = [] then Inl EmptyBuffer
      else if bytes ! 0 AND kFixedHeaderTypeMask \<noteq> type_byte Publish then Inl BadHeader
      else
        let flagsNibble = (ucast (bytes ! 0) :: u32) AND ucast kPublishFlagsMask;
            qos = drop_bit 1 flagsNibble AND kPublishQosMask
        in if qos \<noteq> 0 then Inl QosUnsupported
           else case decodeRemainingLength bytes 1 of
             Inl e \<Rightarrow> Inl e
           | Inr (remaining, cursor) \<Rightarrow>
               (let bodyEnd = cursor + unat remaining
                in if bodyEnd > length bytes then Inl BodyTruncated
                   else case readString bytes cursor of
                     Inl e \<Rightarrow> Inl e
                   | Inr (topic, cursor) \<Rightarrow>
                       if cursor > bodyEnd then Inl UndefinedRange
                       else Inr \<lparr>pp_topic = topic, pp_payload = map byte_char (take (bodyEnd - cursor) (drop cursor bytes))\<rparr>))"

section \<open>The remaining-length codec\<close>

lemma low7: "(v AND ucast kRemainingLengthValueMask) = v AND 0x7F" for v :: u32
  by (simp add: kRemainingLengthValueMask_def)

lemma split_7: "(v AND 0x7F) + drop_bit 7 v * 128 = v" for v :: u32
proof -
  have "v AND 0x7F = take_bit 7 v" by (simp add: take_bit_eq_mask mask_eq_exp_minus_1)
  moreover have "drop_bit 7 v * 128 = push_bit 7 (drop_bit 7 v)" by (simp add: push_bit_eq_mult)
  moreover have "take_bit 7 v + push_bit 7 (drop_bit 7 v) = v"
    using bits_ident [of 7 v] by (simp add: add.commute)
  ultimately show ?thesis by simp
qed

lemma len_byte_value:
  "(ucast ((ucast (v AND 0x7F) :: byte) AND 0x7F) :: u32) = v AND 0x7F"
  "(ucast (((ucast (v AND 0x7F) :: byte) OR 0x80) AND 0x7F) :: u32) = v AND 0x7F" for v :: u32
proof -
  have m: "(0x7F :: byte) = mask 7" "(0x7F :: u32) = mask 7" by (simp_all add: mask_eq_exp_minus_1)
  have p: "(ucast ((ucast (v AND 0x7F) :: byte) AND 0x7F) :: u32) = v AND 0x7F"
    unfolding m by (rule bit_word_eqI) (auto simp: bit_simps)
  then show "(ucast ((ucast (v AND 0x7F) :: byte) AND 0x7F) :: u32) = v AND 0x7F" .
  have strip: "((x OR 0x80) AND 0x7F) = x AND 0x7F" for x :: byte by (simp add: bit.conj_disj_distrib2)
  show "(ucast (((ucast (v AND 0x7F) :: byte) OR 0x80) AND 0x7F) :: u32) = v AND 0x7F"
    unfolding strip by (rule p)
qed

lemma len_byte_flag:
  "(ucast (v AND 0x7F) :: byte) AND 0x80 = 0" "((ucast (v AND 0x7F) :: byte) OR 0x80) AND 0x80 \<noteq> 0" for v :: u32
proof -
  have m: "(0x7F :: u32) = mask 7" "(0x80 :: byte) = 2 ^ 7" by (simp_all add: mask_eq_exp_minus_1)
  have top: "x AND 2 ^ 7 = 0 \<longleftrightarrow> \<not> bit x 7" for x :: byte by (rule and_exp_eq_0_iff_not_bit)
  show "(ucast (v AND 0x7F) :: byte) AND 0x80 = 0" unfolding m top by (simp add: bit_simps)
  show "((ucast (v AND 0x7F) :: byte) OR 0x80) AND 0x80 \<noteq> 0" unfolding m top by (simp add: bit_simps)
qed

lemma decode_encoded:
  "unat v < 128 ^ n \<Longrightarrow> 0 < n \<Longrightarrow>
     decode_length_loop n (pre @ encode_length_loop v @ post) (length pre) mult acc =
       Inr (acc + v * mult, length pre + length (encode_length_loop v)) \<and> length (encode_length_loop v) \<le> n"
proof (induction n arbitrary: v pre mult acc)
  case (Suc n)
  let ?b = "ucast (v AND 0x7F) :: byte" and ?w = "drop_bit 7 v"
  have w: "unat ?w = unat v div 128" by (simp add: drop_bit_eq_div unat_div_distrib)
  show ?case
  proof (cases "?w > 0")
    case False
    then have z: "?w = 0" by (simp add: word_gt_0)
    then have e: "encode_length_loop v = [?b]" by (simp add: encode_length_loop.simps [of v] low7)
    have "v AND 0x7F = v" using split_7 [of v] z by simp
    then show ?thesis using len_byte_value(1) [of v] len_byte_flag(1) [of v]
      by (simp add: e nth_append kRemainingLengthValueMask_def kContinuationBit_def)
  next
    case True
    then have e: "encode_length_loop v = (?b OR 0x80) # encode_length_loop ?w"
      by (simp add: encode_length_loop.simps [of v] low7 kContinuationBit_def)
    have "unat ?w < 128 ^ n" using Suc.prems(1) w by (simp add: less_mult_imp_div_less mult.commute)
    moreover have "0 < n"
    proof (rule gr0I)
      assume "n = 0"
      with \<open>unat ?w < 128 ^ n\<close> True show False by (simp add: word_gt_0 unat_eq_zero)
    qed
    ultimately have IH: "decode_length_loop n ((pre @ [?b OR 0x80]) @ encode_length_loop ?w @ post) (length (pre @ [?b OR 0x80]))
        (mult * 128) (acc + (v AND 0x7F) * mult) =
        Inr (acc + (v AND 0x7F) * mult + ?w * (mult * 128), length (pre @ [?b OR 0x80]) + length (encode_length_loop ?w)) \<and>
        length (encode_length_loop ?w) \<le> n"
      by (rule Suc.IH)
    have "acc + (v AND 0x7F) * mult + ?w * (mult * 128) = acc + v * mult"
      using arg_cong [OF split_7 [of v], of "\<lambda>x. acc + x * mult"] by (simp add: algebra_simps)
    with IH len_byte_value(2) [of v] len_byte_flag(2) [of v] show ?thesis
      by (simp add: e nth_append kRemainingLengthValueMask_def kContinuationBit_def kRemainingLengthShift_def)
  qed
qed simp

lemma remaining_length_ok:
  assumes "v \<le> kMaxRemainingLength"
  shows "encodeRemainingLength v = Inr (encode_length_loop v) \<and> length (encode_length_loop v) \<le> 4 \<and>
    decodeRemainingLength (pre @ encode_length_loop v @ post) (length pre) =
      Inr (v, length pre + length (encode_length_loop v))"
proof -
  have "unat v < 128 ^ 4" using assms by (simp add: kMaxRemainingLength_def word_le_nat_alt)
  from decode_encoded [OF this, of pre post 1 0] assms show ?thesis
    by (simp add: encodeRemainingLength_def decodeRemainingLength_def kMaxRemainingLengthBytes_def)
qed

section \<open>Fields and packets\<close>

definition be :: "u16 \<Rightarrow> byte list" where
  "be w = [ucast (drop_bit 8 w), ucast w]"

lemma append_be: "appendUint16BigEndian out w = out @ be w"
proof -
  have "(ucast (drop_bit 8 (ucast w :: u32) AND 0xFF) :: byte) = ucast (drop_bit 8 w)"
    "(ucast ((ucast w :: u32) AND 0xFF) :: byte) = ucast w"
    unfolding ucast_and_FF by (rule bit_word_eqI, auto simp: bit_simps)+
  then show ?thesis by (simp add: appendUint16BigEndian_def be_def Let_def)
qed

lemma length_be [simp]: "length (be w) = 2"
  by (simp add: be_def)

lemma read_be: "readUint16BigEndian (pre @ be w @ post) (length pre) = Inr (w, length pre + 2)"
proof -
  have "(ucast (push_bit 8 (ucast (ucast (drop_bit 8 w) :: byte)) OR (ucast (ucast w :: byte)) :: u32) :: u16) = w"
    by (rule bit_word_eqI) (auto simp: bit_simps)
  then show ?thesis by (simp add: readUint16BigEndian_def be_def nth_append)
qed

definition str_bytes :: "string \<Rightarrow> byte list" where
  "str_bytes s = be (of_nat (length s)) @ map char_byte s"

lemma encodeString_eq: "encodeString s = (if length s > 65535 then Inl StringTooLong else Inr (str_bytes s))"
  by (simp add: encodeString_def append_be str_bytes_def kMaxStringLength_def)

lemma length_str_bytes [simp]: "length (str_bytes s) = 2 + length s"
  by (simp add: str_bytes_def)

lemma read_str_bytes:
  assumes "length s \<le> 65535"
  shows "readString (pre @ str_bytes s @ post) (length pre) = Inr (s, length pre + length (str_bytes s))"
proof -
  have u: "unat (of_nat (length s) :: u16) = length s" using assms by (subst unat_of_nat) simp
  have "map byte_char (map char_byte s) = s" by (induction s) (simp_all add: byte_char_byte)
  then show ?thesis
    using read_be [of pre "of_nat (length s)" "map char_byte s @ post"] u
    by (simp add: readString_def str_bytes_def)
qed

text \<open>A packet: header byte, remaining length of the body, body.\<close>

definition framed :: "byte \<Rightarrow> byte list \<Rightarrow> byte list" where
  "framed h body = h # encode_length_loop (of_nat (length body)) @ body"

definition body_fits :: "byte list \<Rightarrow> bool" where
  "body_fits body \<longleftrightarrow> (of_nat (length body) :: u32) \<le> kMaxRemainingLength"

lemma encode_body: "encodeRemainingLength (of_nat (length body)) =
    (if body_fits body then Inr (encode_length_loop (of_nat (length body))) else Inl RemainingLengthTooLarge)"
  by (auto simp: encodeRemainingLength_def body_fits_def)

lemma framed_decodes:
  assumes "length body < 2 ^ 32" "body_fits body"
  shows "decodeRemainingLength (framed h body) 1 =
      Inr (of_nat (length body), length (framed h body) - length body) \<and>
    unat (of_nat (length body) :: u32) = length body"
  using remaining_length_ok [of "of_nat (length body)" "[h]" body] assms
  by (simp add: framed_def body_fits_def unat_of_nat)

lemma publish_framed:
  "buildPublish topic payload =
     (if length topic > 65535 then Inl StringTooLong
      else let body = str_bytes topic @ map char_byte payload
           in if body_fits body then Inr (framed 0x30 body) else Inl RemainingLengthTooLarge)"
  using encode_body [of "str_bytes topic @ map char_byte payload"]
  by (simp add: buildPublish_def encodeString_eq framed_def kPublishFlagsQos0Transient_def Let_def)

lemma subscribe_framed:
  "buildSubscribe pid topic =
     (if length topic > 65535 then Inl StringTooLong
      else Inr (framed 0x82 (be pid @ str_bytes topic @ [0])))"
proof -
  have "body_fits (be pid @ str_bytes topic @ [0])" if "length topic \<le> 65535"
    using that by (simp add: body_fits_def word_le_nat_alt kMaxRemainingLength_def unat_of_nat del: of_nat_add of_nat_Suc)
  then show ?thesis using encode_body [of "be pid @ str_bytes topic @ [0]"]
    by (simp add: buildSubscribe_def encodeString_eq framed_def append_be kSubscribeFixedHeaderFlags_def
        kSubscribeRequestedQos0_def Let_def)
qed

lemma unsubscribe_framed:
  "buildUnsubscribe pid topic =
     (if length topic > 65535 then Inl StringTooLong else Inr (framed 0xA2 (be pid @ str_bytes topic)))"
proof -
  have "body_fits (be pid @ str_bytes topic)" if "length topic \<le> 65535"
    using that by (simp add: body_fits_def word_le_nat_alt kMaxRemainingLength_def unat_of_nat del: of_nat_add of_nat_Suc)
  then show ?thesis using encode_body [of "be pid @ str_bytes topic"]
    by (simp add: buildUnsubscribe_def encodeString_eq framed_def append_be kUnsubscribeFixedHeaderFlags_def Let_def)
qed

lemma connect_framed:
  "buildConnect cid ka =
     (if ka < 0 \<or> ka > 65535 then Inl KeepAliveOutOfRange else if length cid > 65535 then Inl StringTooLong
      else Inr (framed 0x10 (str_bytes ''MQTT'' @ [4, 2] @ be (of_int ka) @ str_bytes cid)))"
proof -
  let ?b = "str_bytes ''MQTT'' @ [4, 2] @ be (of_int ka) @ str_bytes cid"
  have "body_fits ?b" if "length cid \<le> 65535"
    using that by (simp add: body_fits_def word_le_nat_alt kMaxRemainingLength_def unat_of_nat del: of_nat_add of_nat_Suc)
  then show ?thesis using encode_body [of ?b]
    by (simp add: buildConnect_def encodeString_eq framed_def append_be kMaxKeepAlive_def kProtocolName_def
        kProtocolLevelMqtt311_def kConnectFlagCleanSession_def Let_def)
qed

section \<open>Properties\<close>

text \<open>
  The remaining-length codec round-trips: every value up to 268435455 is encoded in at most four
  bytes, and decoding them anywhere in a buffer gives the value back and moves the cursor past
  them; larger values are refused.
\<close>

theorem remaining_length_round_trip:
  shows "if v \<le> kMaxRemainingLength
    then (\<exists>bs. encodeRemainingLength v = Inr bs \<and> length bs \<le> 4 \<and>
            decodeRemainingLength (pre @ bs @ post) (length pre) = Inr (v, length pre + length bs))
    else encodeRemainingLength v = Inl RemainingLengthTooLarge"
  using remaining_length_ok [of v pre post] by (auto simp: encodeRemainingLength_def)

lemma parse_built_publish:
  assumes "buildPublish topic payload = Inr bs" and "length topic + length payload + 2 < 2 ^ 32"
  shows "parsePublish bs = Inr \<lparr>pp_topic = topic, pp_payload = payload\<rparr>"
proof -
  define body where "body = str_bytes topic @ map char_byte payload"
  have t: "length topic \<le> 65535" and fits: "body_fits body" and bs: "bs = framed 0x30 body"
    using assms(1) by (auto simp: publish_framed body_def Let_def split: if_splits)
  define l where "l = encode_length_loop (of_nat (length body) :: u32)"
  have small: "length body < 2 ^ 32" using assms(2) by (simp add: body_def)
  have bs': "bs = (0x30 # l) @ str_bytes topic @ map char_byte payload" by (simp add: bs framed_def l_def body_def)
  have d: "decodeRemainingLength bs 1 = Inr (of_nat (length body), length (0x30 # l))"
    "unat (of_nat (length body) :: u32) = length body"
    using framed_decodes [OF small fits, of "0x30"] by (simp_all add: bs framed_def l_def)
  have r: "readString bs (length (0x30 # l)) = Inr (topic, length (0x30 # l) + length (str_bytes topic))"
    unfolding bs' by (rule read_str_bytes [OF t])
  have p: "map byte_char (map char_byte payload) = payload" by (induction payload) (simp_all add: byte_char_byte)
  have "bs ! 0 = 0x30" "bs \<noteq> []" by (simp_all add: bs')
  then show ?thesis unfolding parsePublish_def Let_def
    using d r p by (simp add: kFixedHeaderTypeMask_def kPublishFlagsMask_def bs') (simp add: body_def)
qed

text \<open>
  A built PUBLISH is read back: for any topic and payload the builder accepts, parsing the packet
  it built returns that topic and that payload. (Packets below 4 GiB.)
\<close>

theorem publish_round_trip:
  assumes "buildPublish topic payload = Inr bs" and "length topic + length payload + 2 < 2 ^ 32"
  shows "parsePublish bs = Inr \<lparr>pp_topic = topic, pp_payload = payload\<rparr>"
  using assms by (rule parse_built_publish)

theorem publish_round_trip_witness:
  "\<exists>bs. buildPublish ''a/b'' ''42'' = Inr bs \<and> parsePublish bs = Inr \<lparr>pp_topic = ''a/b'', pp_payload = ''42''\<rparr>"
proof -
  have "body_fits (str_bytes ''a/b'' @ map char_byte ''42'')" by (simp add: body_fits_def kMaxRemainingLength_def)
  then obtain bs where "buildPublish ''a/b'' ''42'' = Inr bs" by (simp add: publish_framed Let_def)
  then show ?thesis using publish_round_trip [of "''a/b''" "''42''" bs] by auto
qed

text \<open>
  Every packet built is well framed: the first byte is the packet type with its mandatory flags,
  then comes the remaining length, and it decodes to exactly the number of bytes that follow.
\<close>

theorem built_packets_well_framed:
  assumes "(h, r) \<in> {(0x10, buildConnect cid ka), (0x82, buildSubscribe pid topic), (0xA2, buildUnsubscribe pid topic)}"
    and "r = Inr bs"
  shows "\<exists>body rest. bs = h # rest @ body \<and>
    decodeRemainingLength bs 1 = Inr (of_nat (length body), 1 + length rest) \<and> unat (of_nat (length body) :: u32) = length body"
proof -
  obtain body where b: "bs = framed h body" "length body \<le> 131080"
    using assms by (auto simp: connect_framed subscribe_framed unsubscribe_framed split: if_splits)
  then have "body_fits body" "length body < 2 ^ 32"
    by (auto simp: body_fits_def word_le_nat_alt kMaxRemainingLength_def unat_of_nat)
  with framed_decodes [of body h] b show ?thesis
    by (intro exI [of _ body] exI [of _ "encode_length_loop (of_nat (length body))"]) (simp add: framed_def)
qed

theorem built_packets_well_framed_witness:
  "\<exists>bs body rest. buildSubscribe 7 ''t'' = Inr bs \<and> bs = 0x82 # rest @ body \<and>
     decodeRemainingLength bs 1 = Inr (of_nat (length body), 1 + length rest)"
proof -
  obtain bs where b: "buildSubscribe 7 ''t'' = Inr bs" by (simp add: subscribe_framed)
  show ?thesis using built_packets_well_framed [of "0x82" "buildSubscribe 7 ''t''" "''c''" 0 7 "''t''" bs] b by auto
qed

lemma decode_unrolled:
  "decodeRemainingLength bytes c = decode_length_loop (Suc (Suc (Suc (Suc 0)))) bytes c 1 0"
  by (simp add: decodeRemainingLength_def kMaxRemainingLengthBytes_def numeral_eq_Suc)

lemma exact_packet_defined:
  assumes "decodeRemainingLength bytes 1 = Inr (v, c)" and "c + unat v = length bytes"
  shows "parsePublish bytes \<noteq> Inl UndefinedRange"
proof -
  have r: "readString bytes c = Inr (t, c') \<Longrightarrow> c' \<le> length bytes" for c t c'
    by (auto simp: readString_def split: sum.splits if_splits)
  have n: "readUint16BigEndian bytes c \<noteq> Inl UndefinedRange" for c
    by (simp add: readUint16BigEndian_def Let_def)
  have s: "readString bytes c \<noteq> Inl UndefinedRange" for c
    using n [of c] by (auto simp: readString_def split: sum.splits)
  show ?thesis using assms s by (auto simp: parsePublish_def Let_def not_less dest!: r split: sum.splits)
qed

text \<open>
  Parsing PUBLISH is safe on a buffer that is exactly one packet, but not on a longer one: if the
  body announced by the remaining length ends where the buffer ends, the parser returns a result
  or throws; on the buffer \<^verbatim>\<open>30 01 00 00\<close>, whose body is one byte but whose topic length field
  reaches beyond it, it would build the payload from an inverted iterator range.
\<close>

theorem publish_undefined_range:
  shows "(\<forall>v c. decodeRemainingLength bytes 1 = Inr (v, c) \<longrightarrow> c + unat v = length bytes \<longrightarrow>
      parsePublish bytes \<noteq> Inl UndefinedRange) \<and>
    parsePublish [0x30, 0x01, 0x00, 0x00] = Inl UndefinedRange"
proof -
  have "parsePublish [0x30, 0x01, 0x00, 0x00] = Inl UndefinedRange"
    by (simp add: parsePublish_def decode_unrolled
        kRemainingLengthValueMask_def kContinuationBit_def readString_def readUint16BigEndian_def
        kFixedHeaderTypeMask_def kPublishFlagsMask_def kPublishQosMask_def Let_def)
  then show ?thesis using exact_packet_defined by blast
qed

theorem publish_undefined_range_witness:
  "parsePublish [0x30, 0x03, 0x00, 0x01, 0x61] \<noteq> Inl UndefinedRange"
proof -
  have "decodeRemainingLength [0x30, 0x03, 0x00, 0x01, 0x61] 1 = Inr (3, 2)"
    by (simp add: decode_unrolled
        kRemainingLengthValueMask_def kContinuationBit_def)
  with publish_undefined_range [of "[0x30, 0x03, 0x00, 0x01, 0x61]"] show ?thesis by simp
qed

end
