(* ===== verification/NumberText.thy ===== *)
theory NumberText
  imports Prelude Complex_Main
begin

text \<open>
  The parts of the C++ library the sources use to read and print characters and numbers: \<^verbatim>\<open><cctype>\<close> on the
  C locale, \<^verbatim>\<open>std::format\<close> of fixed-point numbers, \<^verbatim>\<open>std::from_chars\<close> for \<^verbatim>\<open>int\<close>, \<^verbatim>\<open>strtof\<close> and
  \<^verbatim>\<open>std::stof\<close>. Reading is exact; the rounding to a \<^verbatim>\<open>float\<close> and its range are an argument. The sign of a
  zero is not modelled.

  The lemmas: what is printed is read back.
\<close>

section \<open>Characters\<close>

text \<open>\<^verbatim>\<open>std::tolower\<close>, \<^verbatim>\<open>std::isalpha\<close> and \<^verbatim>\<open>std::isalnum\<close> on the bytes of the C locale.\<close>

definition ch_code :: "char \<Rightarrow> nat" where "ch_code c = of_char c"

definition tolower :: "char \<Rightarrow> char" where
  "tolower c = (if 65 \<le> ch_code c \<and> ch_code c \<le> 90 then char_of (ch_code c + 32) else c)"

definition isalpha :: "char \<Rightarrow> bool" where
  "isalpha c = (65 \<le> ch_code c \<and> ch_code c \<le> 90 \<or> 97 \<le> ch_code c \<and> ch_code c \<le> 122)"

definition isalnum :: "char \<Rightarrow> bool" where
  "isalnum c = (isalpha c \<or> 48 \<le> ch_code c \<and> ch_code c \<le> 57)"

lemma tolower_idem [simp]: "tolower (tolower c) = tolower c"
  by (auto simp: tolower_def ch_code_def)

definition isspace :: "char \<Rightarrow> bool" where
  "isspace c = (ch_code c = 32 \<or> 9 \<le> ch_code c \<and> ch_code c \<le> 13)"

definition isdigit :: "char \<Rightarrow> bool" where
  "isdigit c = (48 \<le> ch_code c \<and> ch_code c \<le> 57)"

section \<open>Printing\<close>

text \<open>\<^verbatim>\<open>{:.Nf}\<close>: round to nearest, ties to even, on the absolute value.\<close>

definition round_even :: "real \<Rightarrow> nat" where
  "round_even x = (let n = nat \<lfloor>x\<rfloor>; r = x - of_nat n in
     if r < 1 / 2 then n else if r > 1 / 2 then Suc n else if even n then n else Suc n)"

definition fixed_str :: "nat \<Rightarrow> real \<Rightarrow> string" where
  "fixed_str p x =
     (let n = round_even (\<bar>x\<bar> * 10 ^ p); frac = nat_str (n mod 10 ^ p) in
      (if x < 0 then ''-'' else []) @ nat_str (n div 10 ^ p) @
      (if p = 0 then [] else ''.'' @ replicate (p - length frac) (CHR ''0'') @ frac))"

section \<open>Reading integers\<close>

definition digits_value :: "nat \<Rightarrow> (char \<Rightarrow> nat) \<Rightarrow> string \<Rightarrow> nat" where
  "digits_value b val ds = foldl (\<lambda>n c. n * b + val c) 0 ds"

definition dec_digit :: "char \<Rightarrow> nat" where
  "dec_digit c = ch_code c - 48"

datatype 'a from_chars_result = Parsed 'a string | InvalidArgument | ResultOutOfRange

text \<open>\<^verbatim>\<open>std::from_chars(first, last, int&)\<close>: an optional minus sign and decimal digits, no space and no plus
  sign; what follows the number is left over.\<close>

definition from_chars_int :: "string \<Rightarrow> int from_chars_result" where
  "from_chars_int s =
     (let neg = (s \<noteq> [] \<and> hd s = CHR ''-''); t = (if neg then tl s else s);
          ds = takeWhile isdigit t; n = int (digits_value 10 dec_digit ds); v = (if neg then - n else n) in
      if ds = [] then InvalidArgument
      else if - (2 ^ 31) \<le> v \<and> v < 2 ^ 31 then Parsed v (dropWhile isdigit t) else ResultOutOfRange)"

lemma digit_char:
  assumes "k < 10"
  shows "ch_code (char_of (48 + k :: nat)) = 48 + k" "isdigit (char_of (48 + k :: nat))" "dec_digit (char_of (48 + k :: nat)) = k"
  using assms by (simp_all add: ch_code_def isdigit_def dec_digit_def)

lemma digits_value_snoc: "digits_value b val (ds @ [c]) = digits_value b val ds * b + val c"
  by (simp add: digits_value_def)

lemma nat_str_digits: "list_all isdigit (nat_str n) \<and> nat_str n \<noteq> [] \<and> digits_value 10 dec_digit (nat_str n) = n"
proof (induction n rule: nat_str.induct)
  case (1 n)
  show ?case
  proof (cases "n < 10")
    case True
    then have "nat_str n = [char_of (48 + n)]" by (simp add: nat_str.simps)
    then show ?thesis using digit_char [OF True] by (simp add: digits_value_def)
  next
    case False
    have m: "n mod 10 < 10" by simp
    have "nat_str n = nat_str (n div 10) @ [char_of (48 + n mod 10)]" using False by (subst nat_str.simps) simp
    then show ?thesis using 1 [OF False] digit_char [OF m] by (simp add: digits_value_snoc)
  qed
qed

lemma nat_str_inject [simp]: "nat_str m = nat_str n \<longleftrightarrow> m = n"
  by (metis nat_str_digits)

text \<open>A text no digit begins.\<close>

definition no_digit :: "string \<Rightarrow> bool" where
  "no_digit rest = (rest = [] \<or> \<not> isdigit (hd rest))"

lemma takeWhile_digits:
  assumes "list_all isdigit ds" and "no_digit rest"
  shows "takeWhile isdigit (ds @ rest) = ds" "dropWhile isdigit (ds @ rest) = rest"
  using assms by (cases rest; auto simp: list_all_iff no_digit_def)+

lemma from_chars_int_str:
  assumes "- (2 ^ 31) \<le> i" and "i < 2 ^ 31" and "no_digit rest"
  shows "from_chars_int (int_str i @ rest) = Parsed i rest"
proof (cases "i < 0")
  case True
  then show ?thesis using assms nat_str_digits [of "nat (- i)"] takeWhile_digits [OF _ assms(3), of "nat_str (nat (- i))"]
    by (simp add: from_chars_int_def int_str_def Let_def)
next
  case False
  have "hd (nat_str (nat i)) \<noteq> CHR ''-''"
    using nat_str_digits [of "nat i"] by (cases "nat_str (nat i)") (auto simp: isdigit_def ch_code_def)
  then show ?thesis using False assms nat_str_digits [of "nat i"] takeWhile_digits [OF _ assms(3), of "nat_str (nat i)"]
    by (simp add: from_chars_int_def int_str_def Let_def)
qed

section \<open>Reading floating-point numbers\<close>

text \<open>A \<^verbatim>\<open>float\<close>: a finite value, an infinity (with \<^const>\<open>True\<close> the negative one) or a NaN.\<close>

datatype flt = Fin real | Inf bool | NaN

text \<open>The nearest \<^verbatim>\<open>float\<close> to an exact value and whether the conversion sets \<^verbatim>\<open>ERANGE\<close>: an argument.\<close>

type_synonym rounding = "real \<Rightarrow> flt \<times> bool"

definition ci_prefix :: "string \<Rightarrow> string \<Rightarrow> bool" where
  "ci_prefix w s = (map tolower (take (length w) s) = w)"

definition isxdigit :: "char \<Rightarrow> bool" where
  "isxdigit c = (isdigit c \<or> 97 \<le> ch_code (tolower c) \<and> ch_code (tolower c) \<le> 102)"

definition hex_digit :: "char \<Rightarrow> nat" where
  "hex_digit c = (if isdigit c then dec_digit c else ch_code (tolower c) - 87)"

text \<open>Digits with an optional point, at least one of them a digit.\<close>

definition mantissa :: "nat \<Rightarrow> (char \<Rightarrow> bool) \<Rightarrow> (char \<Rightarrow> nat) \<Rightarrow> string \<Rightarrow> (real \<times> string) option" where
  "mantissa b dig val s =
     (let ip = takeWhile dig s; r = dropWhile dig s;
          dot = (r \<noteq> [] \<and> hd r = CHR ''.'');
          fp = (if dot then takeWhile dig (tl r) else []);
          rest = (if dot then dropWhile dig (tl r) else r) in
      if ip @ fp = [] then None
      else Some (real (digits_value b val (ip @ fp)) / real b ^ length fp, rest))"

text \<open>The exponent: consumed only when a digit follows the marker and its sign.\<close>

definition exponent :: "char \<Rightarrow> string \<Rightarrow> int \<times> string" where
  "exponent marker s =
     (if s = [] \<or> tolower (hd s) \<noteq> marker then (0, s)
      else let t = tl s; sign = (t \<noteq> [] \<and> (hd t = CHR ''-'' \<or> hd t = CHR ''+''));
               u = (if sign then tl t else t); ds = takeWhile isdigit u; e = int (digits_value 10 dec_digit ds) in
        if ds = [] then (0, s) else (if sign \<and> hd t = CHR ''-'' then - e else e, dropWhile isdigit u))"

definition decimal :: "string \<Rightarrow> (real \<times> string) option" where
  "decimal s = map_option (\<lambda>(m, r). let (e, rest) = exponent CHR ''e'' r in (m * 10 powi e, rest)) (mantissa 10 isdigit dec_digit s)"

definition hexadecimal :: "string \<Rightarrow> (real \<times> string) option" where
  "hexadecimal s =
     (if ci_prefix ''0x'' s
      then map_option (\<lambda>(m, r). let (e, rest) = exponent CHR ''p'' r in (m * 2 powi e, rest)) (mantissa 16 isxdigit hex_digit (drop 2 s))
      else None)"

text \<open>What may follow \<^verbatim>\<open>nan\<close>: a parenthesised sequence of letters, digits and underscores.\<close>

definition nan_rest :: "string \<Rightarrow> string" where
  "nan_rest s =
     (if s \<noteq> [] \<and> hd s = CHR ''('' then
        let r = dropWhile (\<lambda>c. isalnum c \<or> c = CHR ''_'') (tl s) in if r \<noteq> [] \<and> hd r = CHR '')'' then tl r else s
      else s)"

text \<open>\<^verbatim>\<open>strtof\<close>: the value, whether \<^verbatim>\<open>errno\<close> is set to \<^verbatim>\<open>ERANGE\<close>, and the text from \<^verbatim>\<open>*endptr\<close> on;
  \<^const>\<open>None\<close> when there is no conversion (\<^verbatim>\<open>*endptr\<close> is the start of the text).\<close>

definition strtof :: "rounding \<Rightarrow> string \<Rightarrow> (flt \<times> bool \<times> string) option" where
  "strtof rnd s =
     (let t = dropWhile isspace s; neg = (t \<noteq> [] \<and> hd t = CHR ''-'');
          u = (if t \<noteq> [] \<and> (hd t = CHR ''-'' \<or> hd t = CHR ''+'') then tl t else t);
          number = (\<lambda>(x, r). let (v, e) = rnd (if neg then - x else x) in (v, e, r)) in
      if ci_prefix ''infinity'' u then Some (Inf neg, False, drop 8 u)
      else if ci_prefix ''inf'' u then Some (Inf neg, False, drop 3 u)
      else if ci_prefix ''nan'' u then Some (NaN, False, nan_rest (drop 3 u))
      else case hexadecimal u of Some y \<Rightarrow> Some (number y) | None \<Rightarrow> map_option number (decimal u))"

text \<open>\<^verbatim>\<open>std::stof\<close> throws when there is no conversion or on \<^verbatim>\<open>ERANGE\<close>, and ignores what is left over.\<close>

definition stof :: "rounding \<Rightarrow> string \<Rightarrow> flt option" where
  "stof rnd s = (case strtof rnd s of Some (v, e, r) \<Rightarrow> if e then None else Some v | None \<Rightarrow> None)"

subsection \<open>What is printed with decimals is read back\<close>

lemma digit_not:
  assumes "isdigit c"
  shows "tolower c = c" "\<not> isspace c" "c \<noteq> CHR ''-''" "c \<noteq> CHR ''+''" "c \<noteq> CHR ''i''" "c \<noteq> CHR ''n''" "c \<noteq> CHR ''.''"
  using assms by (auto simp: isdigit_def tolower_def isspace_def ch_code_def)

lemma nat_str_Cons: "\<exists>c cs. nat_str n = c # cs \<and> isdigit c"
  using nat_str_digits [of n] by (cases "nat_str n") auto

lemma nat_str_length: "n < 10 ^ p \<Longrightarrow> 0 < p \<Longrightarrow> length (nat_str n) \<le> p"
proof (induction n arbitrary: p rule: nat_str.induct)
  case (1 n)
  show ?case
  proof (cases "n < 10")
    case True
    then show ?thesis using 1(3) by (simp add: nat_str.simps)
  next
    case False
    then have "p \<noteq> 1" using 1(2) by (intro notI) simp
    then obtain q where q: "p = Suc q" "0 < q" using 1(3) by (cases p) auto
    then have "n div 10 < 10 ^ q" using 1(2) by (simp add: less_mult_imp_div_less mult.commute)
    then have "length (nat_str (n div 10)) \<le> q" using 1(1) [OF False] q by simp
    then show ?thesis using False q by (subst nat_str.simps) simp
  qed
qed

lemma digits_value_append: "digits_value b val (xs @ ys) = digits_value b val xs * b ^ length ys + digits_value b val ys"
  by (induction ys rule: rev_induct) (simp_all add: digits_value_def flip: append_assoc, simp add: algebra_simps)

lemma digits_value_zeros: "digits_value 10 dec_digit (replicate k (CHR ''0'') @ ys) = digits_value 10 dec_digit ys"
proof -
  have "digits_value 10 dec_digit (replicate k (CHR ''0'')) = 0"
    by (induction k) (simp_all add: digits_value_def dec_digit_def ch_code_def)
  then show ?thesis by (simp add: digits_value_append)
qed

definition printed :: "nat \<Rightarrow> real \<Rightarrow> real" where
  "printed p x = (let y = real (round_even (\<bar>x\<bar> * 10 ^ p)) / 10 ^ p in if x < 0 then - y else y)"

definition ends_number :: "string \<Rightarrow> bool" where
  "ends_number rest = (rest = [] \<or> \<not> isdigit (hd rest) \<and> tolower (hd rest) \<noteq> CHR ''e'')"

definition fixed_body :: "nat \<Rightarrow> nat \<Rightarrow> string" where
  "fixed_body p n = nat_str (n div 10 ^ p) @ ''.'' @ replicate (p - length (nat_str (n mod 10 ^ p))) (CHR ''0'') @ nat_str (n mod 10 ^ p)"

lemma fixed_str_body: "0 < p \<Longrightarrow> fixed_str p x = (if x < 0 then ''-'' else []) @ fixed_body p (round_even (\<bar>x\<bar> * 10 ^ p))"
  by (simp add: fixed_str_def fixed_body_def Let_def)

lemma decimal_fixed_body:
  assumes "0 < p" and "ends_number rest"
  shows "decimal (fixed_body p n @ rest) = Some (real n / 10 ^ p, rest)"
proof -
  define a where "a = nat_str (n div 10 ^ p)"
  define f where "f = replicate (p - length (nat_str (n mod 10 ^ p))) (CHR ''0'') @ nat_str (n mod 10 ^ p)"
  have a: "list_all isdigit a" "a \<noteq> []" "digits_value 10 dec_digit a = n div 10 ^ p"
    using nat_str_digits by (simp_all add: a_def)
  have "length (nat_str (n mod 10 ^ p)) \<le> p" using nat_str_length [of "n mod 10 ^ p" p] assms(1) by simp
  then have f: "list_all isdigit f" "length f = p" "digits_value 10 dec_digit f = n mod 10 ^ p"
    using nat_str_digits [of "n mod 10 ^ p"]
    by (simp_all add: f_def digits_value_zeros) (simp add: list_all_iff isdigit_def ch_code_def)
  have dot: "no_digit (''.'' @ f @ rest)" by (simp add: no_digit_def isdigit_def ch_code_def)
  have nd: "no_digit rest" using assms(2) by (auto simp: no_digit_def ends_number_def)
  have "digits_value 10 dec_digit (a @ f) = n" using a f by (simp add: digits_value_append div_mult_mod_eq)
  then have "mantissa 10 isdigit dec_digit (a @ ''.'' @ f @ rest) = Some (real n / 10 ^ p, rest)"
    using takeWhile_digits [OF a(1) dot] takeWhile_digits [OF f(1) nd] a(2) f(2) by (simp add: mantissa_def Let_def)
  moreover have "exponent CHR ''e'' rest = (0, rest)" using assms(2) by (auto simp: exponent_def ends_number_def)
  ultimately show ?thesis by (simp add: decimal_def fixed_body_def a_def f_def)
qed

lemma fixed_body_start:
  obtains c d r where "fixed_body p n @ rest = c # d # r" "isdigit c" "d = CHR ''.'' \<or> isdigit d"
proof -
  obtain c cs where a: "nat_str (n div 10 ^ p) = c # cs" "isdigit c" using nat_str_Cons by blast
  show ?thesis
  proof (cases cs)
    case Nil
    then show ?thesis using a by (intro that [of c "CHR ''.''"]) (simp_all add: fixed_body_def)
  next
    case (Cons d ds)
    then show ?thesis using a nat_str_digits [of "n div 10 ^ p"] by (intro that [of c d]) (simp_all add: fixed_body_def)
  qed
qed

lemma strtof_fixed_str:
  assumes "0 < p" and "ends_number rest"
  shows "strtof rnd (fixed_str p x @ rest) = Some (fst (rnd (printed p x)), snd (rnd (printed p x)), rest)"
proof -
  let ?n = "round_even (\<bar>x\<bar> * 10 ^ p)"
  let ?b = "fixed_body p ?n @ rest"
  obtain c d r where b: "?b = c # d # r" and c: "isdigit c" and d: "d = CHR ''.'' \<or> isdigit d" by (rule fixed_body_start)
  have cd: "tolower c = c" "\<not> isspace c" "c \<noteq> CHR ''-''" "c \<noteq> CHR ''+''" "c \<noteq> CHR ''i''" "c \<noteq> CHR ''n''"
    using digit_not [OF c] by auto
  have dx: "tolower d \<noteq> CHR ''x''" using d by (auto simp: isdigit_def tolower_def ch_code_def)
  have "\<not> ci_prefix ''infinity'' ?b" "\<not> ci_prefix ''inf'' ?b" "\<not> ci_prefix ''nan'' ?b" "hexadecimal ?b = None"
    using cd dx by (simp_all add: b ci_prefix_def hexadecimal_def)
  note kinds = this [unfolded b] and dec = decimal_fixed_body [OF assms, of ?n, unfolded b]
  have m: "\<not> isspace CHR ''-''" by (simp add: isspace_def ch_code_def)
  show ?thesis
  proof (cases "x < 0")
    case True
    then have "fixed_str p x @ rest = CHR ''-'' # c # d # r" using fixed_str_body [OF assms(1), of x] b by simp
    then show ?thesis using True cd kinds dec m by (simp add: strtof_def printed_def Let_def case_prod_beta)
  next
    case False
    then have "fixed_str p x @ rest = c # d # r" using fixed_str_body [OF assms(1), of x] b by simp
    then show ?thesis using False cd kinds dec by (simp add: strtof_def printed_def Let_def case_prod_beta)
  qed
qed

lemma stof_fixed_str:
  assumes "0 < p"
  shows "stof rnd (fixed_str p x) = (if snd (rnd (printed p x)) then None else Some (fst (rnd (printed p x))))"
  using strtof_fixed_str [OF assms, of "[]" rnd x] by (simp add: stof_def ends_number_def)

text \<open>A value close to a printed one prints the same digits: printing is stable under rounding to a \<^verbatim>\<open>float\<close>.\<close>

lemma round_even_near:
  assumes "\<bar>y - real n\<bar> < 1 / 2"
  shows "round_even y = n"
proof (cases "real n \<le> y")
  case True
  then have "\<lfloor>y\<rfloor> = int n" using assms by (intro floor_unique) auto
  then show ?thesis using True assms by (simp add: round_even_def Let_def)
next
  case False
  then have f: "\<lfloor>y\<rfloor> = int n - 1" using assms by (intro floor_unique) auto
  show ?thesis
  proof (cases n)
    case 0
    then show ?thesis using False assms f by (simp add: round_even_def Let_def)
  next
    case (Suc k)
    then show ?thesis using False assms f by (simp add: round_even_def Let_def)
  qed
qed

lemma fixed_str_stable:
  assumes "0 < p" and "\<bar>y - printed p x\<bar> * 10 ^ p < 1 / 2" and "y < 0 \<longleftrightarrow> x < 0"
  shows "fixed_str p y = fixed_str p x"
proof -
  let ?n = "round_even (\<bar>x\<bar> * 10 ^ p)"
  have q: "\<bar>printed p x\<bar> * 10 ^ p = real ?n" by (simp add: printed_def Let_def)
  have "\<bar>\<bar>y\<bar> - \<bar>printed p x\<bar>\<bar> \<le> \<bar>y - printed p x\<bar>" by simp
  then have "\<bar>\<bar>y\<bar> - \<bar>printed p x\<bar>\<bar> * 10 ^ p \<le> \<bar>y - printed p x\<bar> * 10 ^ p" by (rule mult_right_mono) simp
  moreover have "\<bar>\<bar>y\<bar> * 10 ^ p - real ?n\<bar> = \<bar>\<bar>y\<bar> - \<bar>printed p x\<bar>\<bar> * 10 ^ p"
    unfolding q [symmetric] by (simp add: abs_mult flip: left_diff_distrib)
  ultimately have "round_even (\<bar>y\<bar> * 10 ^ p) = ?n" using assms(2) by (intro round_even_near) linarith
  then show ?thesis using assms(1,3) by (simp add: fixed_str_body)
qed

lemma round_even_close:
  assumes "0 \<le> y"
  shows "\<bar>real (round_even y) - y\<bar> \<le> 1 / 2"
proof -
  define n where "n = nat \<lfloor>y\<rfloor>"
  have "real n \<le> y" "y < real n + 1" using assms by (simp_all add: n_def)
  then show ?thesis by (auto simp: round_even_def Let_def simp flip: n_def)
qed

text \<open>\<^verbatim>\<open>std::from_chars\<close> for \<^verbatim>\<open>std::uint32_t\<close>: no sign.\<close>

definition from_chars_u32 :: "string \<Rightarrow> u32 from_chars_result" where
  "from_chars_u32 s =
     (let ds = takeWhile isdigit s; n = digits_value 10 dec_digit ds in
      if ds = [] then InvalidArgument else if n < 2 ^ 32 then Parsed (of_nat n) (dropWhile isdigit s) else ResultOutOfRange)"

lemma from_chars_u32_str:
  assumes "no_digit rest"
  shows "from_chars_u32 (nat_str (unat w) @ rest) = Parsed w rest"
proof -
  have "unat w < 2 ^ 32" using unsigned_less [of w] by simp
  then show ?thesis using nat_str_digits [of "unat w"] takeWhile_digits [OF _ assms, of "nat_str (unat w)"]
    by (simp add: from_chars_u32_def Let_def)
qed

end
