(* ===== verification/UserRepository.thy ===== *)
theory UserRepository
  imports NumberText
begin

text \<open>
  The data the authentication layer shares: roles and their permissions (\<^verbatim>\<open>auth/Role.h\<close>), users
  (\<^verbatim>\<open>auth/User.h\<close>), the session (\<^verbatim>\<open>auth/Session.h\<close>), audit rows (\<^verbatim>\<open>auth/AuditEvent.h\<close>), and the two
  abstract classes the services are written against: the password hasher, a parameter that may throw,
  and the user repository, a record of its virtual methods over a storage state of any type.

  The locale \<^verbatim>\<open>user_store\<close> is the contract of \<^verbatim>\<open>auth/UserRepository.h\<close>: what every method does to the
  rows, whether or not the storage engine fails, and what a call on a healthy engine returns.
\<close>

section \<open>Roles\<close>

text \<open>
  An enumeration over \<^verbatim>\<open>std::uint8_t\<close> holds any of the 256 codes: the storage layer casts a database
  integer to it.
\<close>

datatype Role = Role (role_code: byte)

definition Operator :: Role where "Operator = Role 0"
definition Maintenance :: Role where "Maintenance = Role 1"
definition Admin :: Role where "Admin = Role 2"

lemmas role_defs = Operator_def Maintenance_def Admin_def

instantiation Role :: linorder
begin

definition less_eq_Role :: "Role \<Rightarrow> Role \<Rightarrow> bool" where
  "less_eq_Role r s = (role_code r \<le> role_code s)"

definition less_Role :: "Role \<Rightarrow> Role \<Rightarrow> bool" where
  "less_Role r s = (role_code r < role_code s)"

instance
  by standard (auto simp: less_eq_Role_def less_Role_def Role.expand)

end

definition roleName :: "Role \<Rightarrow> string" where
  "roleName r = (if r = Operator then ''OPERATOR'' else if r = Maintenance then ''MAINTENANCE''
     else if r = Admin then ''ADMIN'' else ''UNKNOWN'')"

definition parseRole :: "string \<Rightarrow> Role" where
  "parseRole s = (if s = ''ADMIN'' then Admin else if s = ''MAINTENANCE'' then Maintenance else Operator)"

definition canStartStop :: "Role \<Rightarrow> bool" where "canStartStop r = (r \<ge> Operator)"
definition canCalibrate :: "Role \<Rightarrow> bool" where "canCalibrate r = (r \<ge> Maintenance)"
definition canResetSystem :: "Role \<Rightarrow> bool" where "canResetSystem r = (r \<ge> Maintenance)"
definition canInjectFault :: "Role \<Rightarrow> bool" where "canInjectFault r = (r \<ge> Maintenance)"
definition canEditProducts :: "Role \<Rightarrow> bool" where "canEditProducts r = (r \<ge> Maintenance)"
definition canManageUsers :: "Role \<Rightarrow> bool" where "canManageUsers r = (r \<ge> Admin)"
definition canViewAuditLog :: "Role \<Rightarrow> bool" where "canViewAuditLog r = (r \<ge> Admin)"
definition canDismissAlerts :: "Role \<Rightarrow> bool" where "canDismissAlerts r = (r \<ge> Operator)"

lemmas permission_defs = canStartStop_def canCalibrate_def canResetSystem_def canInjectFault_def
  canEditProducts_def canManageUsers_def canViewAuditLog_def canDismissAlerts_def

section \<open>Users, sessions, audit rows\<close>

record User =
  userId :: int
  username :: string
  passwordHash :: string
  role :: Role
  enabled :: bool
  displayName :: string
  avatarMime :: string
  createdAt :: string
  updatedAt :: string

definition new_user :: User where
  "new_user = \<lparr>userId = -1, username = [], passwordHash = [], role = Operator, enabled = True,
     displayName = [], avatarMime = [], createdAt = [], updatedAt = []\<rparr>"

record Avatar =
  av_bytes :: "byte list"
  av_mime :: string

definition kMaxAvatarBytes :: nat where "kMaxAvatarBytes = 256 * 1024"

text \<open>The session keeps the signed-in user and counts the emissions of \<^verbatim>\<open>signalChanged\<close>.\<close>

record Session =
  current :: "User option"
  changes :: nat

definition setUser :: "Session \<Rightarrow> User \<Rightarrow> Session" where
  "setUser s u = s\<lparr>current := Some u, changes := Suc (changes s)\<rparr>"

definition session_clear :: "Session \<Rightarrow> Session" where
  "session_clear s = s\<lparr>current := None, changes := Suc (changes s)\<rparr>"

definition currentUser :: "Session \<Rightarrow> User option" where
  "currentUser s = current s"

definition isAuthenticated :: "Session \<Rightarrow> bool" where
  "isAuthenticated s = (current s \<noteq> None)"

definition currentUsername :: "Session \<Rightarrow> string" where
  "currentUsername s = (case current s of Some u \<Rightarrow> username u | None \<Rightarrow> ''unknown'')"

lemma session_simps [simp]:
  "currentUser (setUser s u) = Some u" "currentUser (session_clear s) = None"
  "isAuthenticated s \<longleftrightarrow> currentUser s \<noteq> None"
  by (auto simp: currentUser_def setUser_def session_clear_def isAuthenticated_def)

record AuditEvent =
  ae_timestamp :: string
  ae_username :: string
  ae_role :: string
  ae_category :: string
  ae_action :: string
  ae_details :: string
  ae_result :: string

definition kAuth :: string where "kAuth = ''AUTH''"
definition kUser :: string where "kUser = ''USER''"
definition kSuccess :: string where "kSuccess = ''SUCCESS''"
definition kFailure :: string where "kFailure = ''FAILURE''"

lemma outcomes_differ [simp]: "kSuccess \<noteq> kFailure" "kFailure \<noteq> kSuccess"
  by (auto simp: kSuccess_def kFailure_def)

section \<open>User names as text\<close>

definition canonicalUsername :: "string \<Rightarrow> string" where
  "canonicalUsername raw = map tolower raw"

lemma canonicalUsername_idem [simp]: "canonicalUsername (canonicalUsername s) = canonicalUsername s"
  by (simp add: canonicalUsername_def)

text \<open>A string read back through a C string pointer ends at its first zero byte.\<close>

definition c_str :: "string \<Rightarrow> string" where
  "c_str s = takeWhile (\<lambda>c. c \<noteq> CHR 0x00) s"

definition nul_free :: "string \<Rightarrow> bool" where
  "nul_free s = list_all (\<lambda>c. c \<noteq> CHR 0x00) s"

lemma c_str_nul_free [simp]: "nul_free s \<Longrightarrow> c_str s = s" "nul_free (c_str s)" "c_str (c_str s) = c_str s"
  by (auto simp: c_str_def nul_free_def list_all_iff takeWhile_eq_all_conv dest: set_takeWhileD)

lemma tolower_nul [simp]: "tolower c = CHR 0x00 \<longleftrightarrow> c = CHR 0x00"
proof (cases "65 \<le> ch_code c \<and> ch_code c \<le> 90")
  case True
  then have "ch_code (tolower c) \<noteq> 0" "ch_code c \<noteq> 0" by (simp_all add: tolower_def ch_code_def)
  then show ?thesis by (auto simp: ch_code_def)
qed (auto simp: tolower_def)

lemma nul_free_canonical [simp]: "nul_free (canonicalUsername s) = nul_free s"
  by (simp add: nul_free_def canonicalUsername_def list_all_iff)

section \<open>The password hasher\<close>

text \<open>
  \<^verbatim>\<open>hash\<close> and \<^verbatim>\<open>verify\<close> of the abstract class; None is a thrown exception. The hasher is an argument of
  every operation, so two operations may use two functions (the salt differs from call to call).
\<close>

record PasswordHasher =
  pw_hash :: "string \<Rightarrow> string option"
  pw_verify :: "string \<Rightarrow> string \<Rightarrow> bool option"

section \<open>The repository interface\<close>

record 's UserRepository =
  repo_findByUsername :: "'s \<Rightarrow> string \<Rightarrow> User option \<times> 's"
  repo_findById :: "'s \<Rightarrow> int \<Rightarrow> User option \<times> 's"
  repo_listAll :: "'s \<Rightarrow> User list \<times> 's"
  repo_create :: "'s \<Rightarrow> User \<Rightarrow> User option \<times> 's"
  repo_update :: "'s \<Rightarrow> User \<Rightarrow> bool \<times> 's"
  repo_remove :: "'s \<Rightarrow> int \<Rightarrow> bool \<times> 's"
  repo_setAvatar :: "'s \<Rightarrow> int \<Rightarrow> byte list \<Rightarrow> string \<Rightarrow> bool \<times> 's"
  repo_clearAvatar :: "'s \<Rightarrow> int \<Rightarrow> bool \<times> 's"
  repo_getAvatar :: "'s \<Rightarrow> int \<Rightarrow> Avatar option \<times> 's"
  repo_count :: "'s \<Rightarrow> nat \<times> 's"

subsection \<open>What the methods do to the rows\<close>

definition same_name :: "string \<Rightarrow> User \<Rightarrow> bool" where
  "same_name n u = (canonicalUsername (username u) = canonicalUsername n)"

definition has_id :: "int \<Rightarrow> User \<Rightarrow> bool" where
  "has_id i u = (userId u = i)"

definition edited :: "User \<Rightarrow> string \<Rightarrow> User \<Rightarrow> User" where
  "edited u t x = (if userId x = userId u
     then x\<lparr>passwordHash := c_str (passwordHash u), role := role u, enabled := enabled u,
            displayName := c_str (displayName u), updatedAt := t\<rparr> else x)"

definition pictured :: "int \<Rightarrow> string \<Rightarrow> string \<Rightarrow> User \<Rightarrow> User" where
  "pictured i mime t x = (if userId x = i then x\<lparr>avatarMime := mime, updatedAt := t\<rparr> else x)"

text \<open>The row a created user reads back as: text columns end at a zero byte, no avatar yet.\<close>

definition stored :: "User \<Rightarrow> User" where
  "stored u = u\<lparr>passwordHash := c_str (passwordHash u), displayName := c_str (displayName u),
     createdAt := c_str (createdAt u), updatedAt := c_str (updatedAt u), avatarMime := []\<rparr>"

definition same_account :: "User \<Rightarrow> User \<Rightarrow> bool" where
  "same_account u v = (username v = username u \<and> passwordHash v = passwordHash u \<and> role v = role u \<and>
     enabled v = enabled u \<and> displayName v = displayName u)"

definition rows_wf :: "User list \<Rightarrow> bool" where
  "rows_wf us = (distinct (map userId us) \<and> distinct (map (\<lambda>u. canonicalUsername (username u)) us))"

lemmas row_defs = same_name_def has_id_def edited_def pictured_def stored_def same_account_def

lemma row_edits [simp]:
  "userId (edited u t x) = userId x" "username (edited u t x) = username x"
  "userId (pictured i m t x) = userId x" "username (pictured i m t x) = username x"
  "role (pictured i m t x) = role x" "enabled (pictured i m t x) = enabled x"
  "passwordHash (pictured i m t x) = passwordHash x"
  "userId (stored u) = userId u" "username (stored u) = username u"
  "role (stored u) = role u" "enabled (stored u) = enabled u"
  "passwordHash (stored u) = c_str (passwordHash u)"
  by (auto simp: row_defs)

lemma rows_wf_maps [simp]:
  "rows_wf (map (edited u t) us) = rows_wf us" "rows_wf (map (pictured i m t) us) = rows_wf us"
  by (simp_all add: rows_wf_def comp_def)

lemma rows_wf_filter: "rows_wf us \<Longrightarrow> rows_wf (filter P us)"
  by (simp add: rows_wf_def distinct_map_filter)

lemma rows_wf_append:
  "rows_wf (us @ [u]) \<longleftrightarrow> rows_wf us \<and> find (has_id (userId u)) us = None \<and> find (same_name (username u)) us = None"
  unfolding rows_wf_def find_None_iff has_id_def same_name_def by (simp add: image_iff) metis

lemma rows_wf_unique_name:
  assumes "rows_wf us" and "x \<in> set us" and "y \<in> set us" and "same_name (username x) y"
  shows "x = y"
  using assms by (auto simp: rows_wf_def same_name_def distinct_map dest: inj_onD)

lemma rows_wf_unique_id:
  assumes "rows_wf us" and "x \<in> set us" and "y \<in> set us" and "userId x = userId y"
  shows "x = y"
  using assms by (auto simp: rows_wf_def distinct_map dest: inj_onD)

lemma find_Some_mem: "find P xs = Some x \<Longrightarrow> x \<in> set xs \<and> P x"
  by (auto simp: find_Some_iff)

lemma find_name_of_member: "rows_wf us \<Longrightarrow> x \<in> set us \<Longrightarrow> same_name n x \<Longrightarrow> find (same_name n) us = Some x"
proof (cases "find (same_name n) us")
  case (Some y)
  assume "rows_wf us" "x \<in> set us" "same_name n x"
  with Some rows_wf_unique_name [of us x y] show ?thesis
    by (auto dest: find_Some_mem simp: same_name_def)
qed (auto simp: find_None_iff)

lemma find_id_of_member: "rows_wf us \<Longrightarrow> x \<in> set us \<Longrightarrow> find (has_id (userId x)) us = Some x"
proof (cases "find (has_id (userId x)) us")
  case (Some y)
  assume "rows_wf us" "x \<in> set us"
  with Some rows_wf_unique_id [of us x y] show ?thesis
    by (auto dest: find_Some_mem simp: has_id_def)
qed (auto simp: find_None_iff has_id_def)

subsection \<open>The contract\<close>

text \<open>
  \<^verbatim>\<open>users s\<close> are the rows as the read methods report them, \<^verbatim>\<open>ok\<close> is the representation invariant, and
  \<^verbatim>\<open>live k s\<close> says that from \<^verbatim>\<open>s\<close> on the engine does not fail and has room for \<^verbatim>\<open>k\<close> more inserts. A call
  that fails changes no row; a read on a live store is exact.
\<close>

locale user_store =
  fixes R :: "'s UserRepository"
    and users :: "'s \<Rightarrow> User list"
    and ok :: "'s \<Rightarrow> bool"
    and live :: "nat \<Rightarrow> 's \<Rightarrow> bool"
  assumes wf: "ok s \<Longrightarrow> rows_wf (users s)"
    and live_mono: "live (Suc k) s \<Longrightarrow> live k s"
    and find_name: "ok s \<Longrightarrow> repo_findByUsername R s n = (res, s') \<Longrightarrow>
      ok s' \<and> users s' = users s \<and> (\<forall>k. live k s \<longrightarrow> live k s') \<and>
      (res = find (same_name n) (users s) \<or> res = None \<and> (\<forall>k. \<not> live k s))"
    and find_id: "ok s \<Longrightarrow> repo_findById R s i = (res, s') \<Longrightarrow>
      ok s' \<and> users s' = users s \<and> (\<forall>k. live k s \<longrightarrow> live k s') \<and>
      (res = find (has_id i) (users s) \<or> res = None \<and> (\<forall>k. \<not> live k s))"
    and list_all: "ok s \<Longrightarrow> repo_listAll R s = (xs, s') \<Longrightarrow>
      ok s' \<and> users s' = users s \<and> (\<forall>k. live k s \<longrightarrow> live k s') \<and>
      (\<exists>m. xs = take m (users s)) \<and> (\<forall>k. live k s \<longrightarrow> xs = users s)"
    and create: "ok s \<Longrightarrow> nul_free (username u) \<Longrightarrow> repo_create R s u = (res, s') \<Longrightarrow>
      ok s' \<and> (\<forall>k. live (Suc k) s \<longrightarrow> live k s') \<and>
      (case res of None \<Rightarrow> users s' = users s \<and> (\<forall>k. live (Suc k) s \<longrightarrow> find (same_name (username u)) (users s) \<noteq> None)
       | Some v \<Rightarrow> find (same_name (username u)) (users s) = None \<and> same_account u v \<and> users s' = users s @ [stored v])"
    and update: "ok s \<Longrightarrow> repo_update R s u = (b, s') \<Longrightarrow>
      ok s' \<and> (\<forall>k. live k s \<longrightarrow> live k s' \<and> b = (find (has_id (userId u)) (users s) \<noteq> None)) \<and>
      (if b then find (has_id (userId u)) (users s) \<noteq> None \<and> (\<exists>t. users s' = map (edited u t) (users s))
       else users s' = users s)"
    and remove: "ok s \<Longrightarrow> repo_remove R s i = (b, s') \<Longrightarrow>
      ok s' \<and> (\<forall>k. live k s \<longrightarrow> live k s' \<and> b = (find (has_id i) (users s) \<noteq> None)) \<and>
      (if b then users s' = filter (\<lambda>x. \<not> has_id i x) (users s) else users s' = users s)"
    and set_avatar: "ok s \<Longrightarrow> repo_setAvatar R s i bytes mime = (b, s') \<Longrightarrow>
      ok s' \<and> (\<forall>k. live k s \<longrightarrow> live k s') \<and>
      (if b then bytes \<noteq> [] \<and> length bytes \<le> kMaxAvatarBytes \<and> (\<exists>t. users s' = map (pictured i mime t) (users s))
       else users s' = users s)"
    and clear_avatar: "ok s \<Longrightarrow> repo_clearAvatar R s i = (b, s') \<Longrightarrow>
      ok s' \<and> (\<forall>k. live k s \<longrightarrow> live k s') \<and>
      (if b then (\<exists>t. users s' = map (pictured i [] t) (users s)) else users s' = users s)"
    and get_avatar: "ok s \<Longrightarrow> repo_getAvatar R s i = (a, s') \<Longrightarrow>
      ok s' \<and> users s' = users s \<and> (\<forall>k. live k s \<longrightarrow> live k s')"
    and count: "ok s \<Longrightarrow> repo_count R s = (c, s') \<Longrightarrow>
      ok s' \<and> users s' = users s \<and> (\<forall>k. live k s \<longrightarrow> live k s') \<and>
      (c = length (users s) \<or> c = 0 \<and> (\<forall>k. \<not> live k s))"

end
