(* ===== verification/SqliteUserRepository.thy ===== *)
theory SqliteUserRepository
  imports UserRepository
begin

text \<open>
  \<^verbatim>\<open>auth/SqliteUserRepository.cpp\<close>: the user table, its migration ladder and every method of the
  repository. The database is the schema version, the columns of \<^verbatim>\<open>users\<close>, its rows and the AUTOINCREMENT
  mark; each SQL text of the source is a function on it. SQLite itself is a parameter that may refuse any
  call (statement \<^verbatim>\<open>n\<close> fails to prepare, or its step fails) and supplies the wall clock; a failed
  statement changes nothing, as its transactions promise. The log messages are not modelled.

  The theorems: the repository keeps the contract \<^verbatim>\<open>user_store\<close> through every failure (user names stay
  unique up to case, ids stay unique), the migration ladder reaches the current schema from every schema
  it can leave when no statement fails, and what an interrupted ladder leaves behind.
\<close>

section \<open>The database\<close>

record users_row =
  r_id :: int
  r_username :: string
  r_password_hash :: string
  r_role :: int
  r_enabled :: int
  r_created_at :: string
  r_display_name :: "string option"
  r_avatar_mime :: "string option"
  r_avatar_blob :: "byte list option"
  r_updated_at :: "string option"

record users_db =
  user_version :: int
  columns :: "string list"
  db_rows :: "users_row list"
  seq :: int

record sqlite_env =
  open_ok :: "nat \<Rightarrow> bool"
  prepare_ok :: "nat \<Rightarrow> bool"
  step_ok :: "nat \<Rightarrow> bool"
  rows_before_error :: "nat \<Rightarrow> nat"
  clock :: "nat \<Rightarrow> string"

text \<open>\<^verbatim>\<open>db_\<close> is None while the handle is null; \<^verbatim>\<open>stmts\<close> numbers the calls into SQLite.\<close>

record SqliteUserRepository =
  db :: "users_db option"
  stmts :: nat

definition kCurrentSchemaVersion :: int where "kCurrentSchemaVersion = 2"

definition kCreateTableSql :: "string list" where
  "kCreateTableSql = [''id'', ''username'', ''password_hash'', ''role'', ''enabled'', ''created_at'']"

definition kSelectColumns :: "string list" where
  "kSelectColumns = [''id'', ''username'', ''password_hash'', ''role'', ''enabled'', ''created_at'',
     ''display_name'', ''avatar_mime'', ''updated_at'']"

definition kInsertColumns :: "string list" where
  "kInsertColumns = [''username'', ''password_hash'', ''role'', ''enabled'', ''created_at'', ''display_name'', ''updated_at'']"

definition kUpdateColumns :: "string list" where
  "kUpdateColumns = [''password_hash'', ''role'', ''enabled'', ''display_name'', ''updated_at'', ''id'']"

definition kDeleteColumns :: "string list" where "kDeleteColumns = [''id'']"

definition kAvatarColumns :: "string list" where
  "kAvatarColumns = [''avatar_blob'', ''avatar_mime'', ''updated_at'', ''id'']"

definition kGetAvatarColumns :: "string list" where
  "kGetAvatarColumns = [''avatar_blob'', ''avatar_mime'', ''id'']"

lemmas column_defs = kCreateTableSql_def kSelectColumns_def kInsertColumns_def kUpdateColumns_def
  kDeleteColumns_def kAvatarColumns_def kGetAvatarColumns_def

definition kMimePng :: string where "kMimePng = ''image/png''"
definition kMimeJpeg :: string where "kMimeJpeg = ''image/jpeg''"

definition isAllowedAvatarMime :: "string \<Rightarrow> bool" where
  "isAllowedAvatarMime mime = (mime = kMimePng \<or> mime = kMimeJpeg)"

section \<open>Statements\<close>

definition next_stmt :: "SqliteUserRepository \<Rightarrow> SqliteUserRepository" where
  "next_stmt r = r\<lparr>stmts := Suc (stmts r)\<rparr>"

text \<open>A statement is prepared when SQLite does not fail and the table has the columns it names.\<close>

definition prepared :: "sqlite_env \<Rightarrow> SqliteUserRepository \<Rightarrow> users_db \<Rightarrow> string list \<Rightarrow> bool" where
  "prepared env r d cols = (prepare_ok env (stmts r) \<and> columns d \<noteq> [] \<and> list_all (\<lambda>c. c \<in> set (columns d)) cols)"

definition columnTextOrEmpty :: "string option \<Rightarrow> string" where
  "columnTextOrEmpty p = (case p of Some s \<Rightarrow> c_str s | None \<Rightarrow> [])"

definition extractUser :: "users_row \<Rightarrow> User" where
  "extractUser x = \<lparr>userId = r_id x, username = columnTextOrEmpty (Some (r_username x)),
     passwordHash = columnTextOrEmpty (Some (r_password_hash x)), role = Role (word_of_int (r_role x)),
     enabled = (r_enabled x \<noteq> 0), displayName = columnTextOrEmpty (r_display_name x),
     avatarMime = columnTextOrEmpty (r_avatar_mime x), createdAt = columnTextOrEmpty (Some (r_created_at x)),
     updatedAt = columnTextOrEmpty (r_updated_at x)\<rparr>"

definition nocase :: "string \<Rightarrow> string \<Rightarrow> bool" where
  "nocase a b = (map tolower a = map tolower b)"

text \<open>\<^verbatim>\<open>sqlite3_bind_null\<close> for an empty optional text.\<close>

definition bind_text_or_null :: "string \<Rightarrow> string option" where
  "bind_text_or_null s = (if s = [] then None else Some s)"

text \<open>\<^verbatim>\<open>PRAGMA user_version\<close>; the statement may fail, then the version counts as 0.\<close>

definition readSchemaVersion :: "sqlite_env \<Rightarrow> SqliteUserRepository \<Rightarrow> int \<times> SqliteUserRepository" where
  "readSchemaVersion env r = (case db r of
     None \<Rightarrow> (0, next_stmt r)
   | Some d \<Rightarrow> (if prepare_ok env (stmts r) \<and> step_ok env (stmts r) then user_version d else 0, next_stmt r))"

datatype exec_sql = AddColumn string | SetUserVersion int | CreateTable

text \<open>One \<^verbatim>\<open>sqlite3_exec\<close>: \<^verbatim>\<open>ADD COLUMN\<close> of a column that exists is an error.\<close>

definition exec_db :: "exec_sql \<Rightarrow> users_db \<Rightarrow> users_db option" where
  "exec_db sql d = (case sql of
     AddColumn c \<Rightarrow> if columns d = [] \<or> c \<in> set (columns d) then None else Some (d\<lparr>columns := columns d @ [c]\<rparr>)
   | SetUserVersion v \<Rightarrow> Some (d\<lparr>user_version := v\<rparr>)
   | CreateTable \<Rightarrow> Some (if columns d = [] then d\<lparr>columns := kCreateTableSql\<rparr> else d))"

definition execSimple :: "sqlite_env \<Rightarrow> SqliteUserRepository \<Rightarrow> exec_sql \<Rightarrow> bool \<times> SqliteUserRepository" where
  "execSimple env r sql = (case db r of
     None \<Rightarrow> (False, next_stmt r)
   | Some d \<Rightarrow> (if prepare_ok env (stmts r) \<and> step_ok env (stmts r)
       then (case exec_db sql d of None \<Rightarrow> (False, next_stmt r) | Some d' \<Rightarrow> (True, next_stmt r\<lparr>db := Some d'\<rparr>))
       else (False, next_stmt r)))"

fun exec_all :: "sqlite_env \<Rightarrow> SqliteUserRepository \<Rightarrow> exec_sql list \<Rightarrow> bool \<times> SqliteUserRepository" where
  "exec_all env r [] = (True, r)"
| "exec_all env r (sql # sqls) = (case execSimple env r sql of
     (True, r') \<Rightarrow> exec_all env r' sqls | (False, r') \<Rightarrow> (False, r'))"

section \<open>Initialisation and migration\<close>

definition kMigrationV2 :: "exec_sql list" where
  "kMigrationV2 = [AddColumn ''display_name'', AddColumn ''avatar_mime'', AddColumn ''avatar_blob'',
     AddColumn ''updated_at'', SetUserVersion 2]"

text \<open>
  The ladder: the version is read again after every rung. It may not end when reads of the version keep
  failing while the writes succeed, so not returning is the value None.
\<close>

partial_function (option) migrate_loop :: "sqlite_env \<Rightarrow> int \<Rightarrow> SqliteUserRepository \<Rightarrow> (bool \<times> SqliteUserRepository) option" where
  "migrate_loop env version r =
     (if version < kCurrentSchemaVersion then
        (if version = 0 then
           (case execSimple env r (SetUserVersion 1) of (done, r1) \<Rightarrow>
              if \<not> done then Some (False, r1)
              else (case readSchemaVersion env r1 of (v, r2) \<Rightarrow> migrate_loop env v r2))
         else if version = 1 then
           (case exec_all env r kMigrationV2 of (done, r1) \<Rightarrow>
              if \<not> done then Some (False, r1)
              else (case readSchemaVersion env r1 of (v, r2) \<Rightarrow> migrate_loop env v r2))
         else Some (False, r))
      else Some (True, r))"

definition applyMigrations :: "sqlite_env \<Rightarrow> SqliteUserRepository \<Rightarrow> (bool \<times> SqliteUserRepository) option" where
  "applyMigrations env r = (case readSchemaVersion env r of (version, r1) \<Rightarrow>
     if version \<ge> kCurrentSchemaVersion then Some (True, r1) else migrate_loop env version r1)"

text \<open>\<^verbatim>\<open>initialize\<close> opens the file whose content is \<^verbatim>\<open>d\<close>.\<close>

definition sur_initialize :: "sqlite_env \<Rightarrow> SqliteUserRepository \<Rightarrow> users_db \<Rightarrow> (bool \<times> SqliteUserRepository) option" where
  "sur_initialize env r d =
     (if \<not> open_ok env (stmts r) then Some (False, (next_stmt r)\<lparr>db := None\<rparr>)
      else (case execSimple env ((next_stmt r)\<lparr>db := Some d\<rparr>) CreateTable of (created, r1) \<Rightarrow>
        if \<not> created then Some (False, r1)
        else applyMigrations env r1))"

section \<open>The methods\<close>

definition findByUsername :: "sqlite_env \<Rightarrow> SqliteUserRepository \<Rightarrow> string \<Rightarrow> User option \<times> SqliteUserRepository" where
  "findByUsername env r name = (case db r of None \<Rightarrow> (None, r)
   | Some d \<Rightarrow> (if \<not> prepared env r d kSelectColumns then (None, next_stmt r)
       else (if step_ok env (stmts r)
             then map_option extractUser (find (\<lambda>x. nocase (r_username x) name) (db_rows d))
             else None, next_stmt r)))"

definition findById :: "sqlite_env \<Rightarrow> SqliteUserRepository \<Rightarrow> int \<Rightarrow> User option \<times> SqliteUserRepository" where
  "findById env r i = (case db r of None \<Rightarrow> (None, r)
   | Some d \<Rightarrow> (if \<not> prepared env r d kSelectColumns then (None, next_stmt r)
       else (if step_ok env (stmts r)
             then map_option extractUser (find (\<lambda>x. r_id x = i) (db_rows d))
             else None, next_stmt r)))"

definition listAll :: "sqlite_env \<Rightarrow> SqliteUserRepository \<Rightarrow> User list \<times> SqliteUserRepository" where
  "listAll env r = (case db r of None \<Rightarrow> ([], r)
   | Some d \<Rightarrow> (if \<not> prepared env r d kSelectColumns then ([], next_stmt r)
       else (let found = map extractUser (sort_key r_id (db_rows d)) in
             if step_ok env (stmts r) then found else take (rows_before_error env (stmts r)) found, next_stmt r)))"

text \<open>The largest row id SQLite hands out.\<close>

definition max_rowid :: int where "max_rowid = 2 ^ 63 - 1"

definition sur_create :: "sqlite_env \<Rightarrow> SqliteUserRepository \<Rightarrow> User \<Rightarrow> User option \<times> SqliteUserRepository" where
  "sur_create env r user = (case db r of None \<Rightarrow> (None, r)
   | Some d \<Rightarrow> (if \<not> prepared env r d kInsertColumns then (None, next_stmt r)
       else (let created = (if createdAt user = [] then clock env (stmts r) else createdAt user);
                 updated = (if updatedAt user = [] then created else updatedAt user);
                 row = \<lparr>r_id = seq d + 1, r_username = username user, r_password_hash = passwordHash user,
                        r_role = uint (role_code (role user)), r_enabled = (if enabled user then 1 else 0),
                        r_created_at = created, r_display_name = bind_text_or_null (displayName user),
                        r_avatar_mime = None, r_avatar_blob = None, r_updated_at = Some updated\<rparr> in
             if \<not> step_ok env (stmts r) \<or> seq d \<ge> max_rowid \<or>
                list_ex (\<lambda>x. nocase (r_username x) (username user)) (db_rows d)
             then (None, next_stmt r)
             else (Some (user\<lparr>userId := seq d + 1, createdAt := created, updatedAt := updated\<rparr>),
                   (next_stmt r)\<lparr>db := Some (d\<lparr>db_rows := db_rows d @ [row], seq := seq d + 1\<rparr>)\<rparr>))))"

text \<open>The shared end of the UPDATE and DELETE methods: \<^verbatim>\<open>step == SQLITE_DONE && changed > 0\<close>.\<close>

definition run_change :: "sqlite_env \<Rightarrow> SqliteUserRepository \<Rightarrow> users_db \<Rightarrow> int \<Rightarrow> (users_row list \<Rightarrow> users_row list)
    \<Rightarrow> bool \<times> SqliteUserRepository" where
  "run_change env r d i f = (if step_ok env (stmts r)
     then (list_ex (\<lambda>x. r_id x = i) (db_rows d), (next_stmt r)\<lparr>db := Some (d\<lparr>db_rows := f (db_rows d)\<rparr>)\<rparr>)
     else (False, next_stmt r))"

definition sur_update :: "sqlite_env \<Rightarrow> SqliteUserRepository \<Rightarrow> User \<Rightarrow> bool \<times> SqliteUserRepository" where
  "sur_update env r user = (case db r of None \<Rightarrow> (False, r)
   | Some d \<Rightarrow> (if \<not> prepared env r d kUpdateColumns then (False, next_stmt r)
       else run_change env r d (userId user) (map (\<lambda>x. if r_id x = userId user
              then x\<lparr>r_password_hash := passwordHash user, r_role := uint (role_code (role user)),
                     r_enabled := (if enabled user then 1 else 0),
                     r_display_name := bind_text_or_null (displayName user),
                     r_updated_at := Some (clock env (stmts r))\<rparr> else x))))"

definition sur_remove :: "sqlite_env \<Rightarrow> SqliteUserRepository \<Rightarrow> int \<Rightarrow> bool \<times> SqliteUserRepository" where
  "sur_remove env r i = (case db r of None \<Rightarrow> (False, r)
   | Some d \<Rightarrow> (if \<not> prepared env r d kDeleteColumns then (False, next_stmt r)
       else run_change env r d i (filter (\<lambda>x. r_id x \<noteq> i))))"

definition setAvatar :: "sqlite_env \<Rightarrow> SqliteUserRepository \<Rightarrow> int \<Rightarrow> byte list \<Rightarrow> string \<Rightarrow> bool \<times> SqliteUserRepository" where
  "setAvatar env r i bytes mime = (if bytes = [] \<or> length bytes > kMaxAvatarBytes then (False, r)
     else if \<not> isAllowedAvatarMime mime then (False, r)
     else (case db r of None \<Rightarrow> (False, r)
     | Some d \<Rightarrow> (if \<not> prepared env r d kAvatarColumns then (False, next_stmt r)
       else run_change env r d i (map (\<lambda>x. if r_id x = i
              then x\<lparr>r_avatar_blob := Some bytes, r_avatar_mime := Some mime,
                     r_updated_at := Some (clock env (stmts r))\<rparr> else x)))))"

definition clearAvatar :: "sqlite_env \<Rightarrow> SqliteUserRepository \<Rightarrow> int \<Rightarrow> bool \<times> SqliteUserRepository" where
  "clearAvatar env r i = (case db r of None \<Rightarrow> (False, r)
   | Some d \<Rightarrow> (if \<not> prepared env r d kAvatarColumns then (False, next_stmt r)
       else run_change env r d i (map (\<lambda>x. if r_id x = i
              then x\<lparr>r_avatar_blob := None, r_avatar_mime := None,
                     r_updated_at := Some (clock env (stmts r))\<rparr> else x))))"

definition getAvatar :: "sqlite_env \<Rightarrow> SqliteUserRepository \<Rightarrow> int \<Rightarrow> Avatar option \<times> SqliteUserRepository" where
  "getAvatar env r i = (case db r of None \<Rightarrow> (None, r)
   | Some d \<Rightarrow> (if \<not> prepared env r d kGetAvatarColumns then (None, next_stmt r)
       else (if \<not> step_ok env (stmts r) then None
             else (case find (\<lambda>x. r_id x = i) (db_rows d) of
                Some x \<Rightarrow> (case (r_avatar_blob x, r_avatar_mime x) of
                    (Some bytes, Some mime) \<Rightarrow> Some \<lparr>av_bytes = bytes, av_mime = c_str mime\<rparr> | _ \<Rightarrow> None)
              | None \<Rightarrow> None), next_stmt r)))"

definition sur_count :: "sqlite_env \<Rightarrow> SqliteUserRepository \<Rightarrow> nat \<times> SqliteUserRepository" where
  "sur_count env r = (case db r of None \<Rightarrow> (0, r)
   | Some d \<Rightarrow> (if \<not> prepared env r d [] then (0, next_stmt r)
       else (if step_ok env (stmts r) then length (db_rows d) else 0, next_stmt r)))"

definition sqlite_repository :: "sqlite_env \<Rightarrow> SqliteUserRepository UserRepository" where
  "sqlite_repository env = \<lparr>repo_findByUsername = findByUsername env, repo_findById = findById env,
     repo_listAll = listAll env, repo_create = sur_create env, repo_update = sur_update env,
     repo_remove = sur_remove env, repo_setAvatar = setAvatar env, repo_clearAvatar = clearAvatar env,
     repo_getAvatar = getAvatar env, repo_count = sur_count env\<rparr>"

section \<open>The contract holds\<close>

definition sur_users :: "SqliteUserRepository \<Rightarrow> User list" where
  "sur_users r = (case db r of None \<Rightarrow> [] | Some d \<Rightarrow> map extractUser (db_rows d))"

definition table_ok :: "users_db \<Rightarrow> bool" where
  "table_ok d = (sorted_wrt (<) (map r_id (db_rows d)) \<and> list_all (\<lambda>x. r_id x \<le> seq d) (db_rows d) \<and>
     distinct (map (\<lambda>x. map tolower (r_username x)) (db_rows d)) \<and> list_all (\<lambda>x. nul_free (r_username x)) (db_rows d))"

definition sur_ok :: "SqliteUserRepository \<Rightarrow> bool" where
  "sur_ok r = (case db r of None \<Rightarrow> True | Some d \<Rightarrow> table_ok d)"

definition healthy_from :: "sqlite_env \<Rightarrow> nat \<Rightarrow> bool" where
  "healthy_from env n = (\<forall>m\<ge>n. open_ok env m \<and> prepare_ok env m \<and> step_ok env m)"

definition kAllColumns :: "string list" where
  "kAllColumns = kCreateTableSql @ [''display_name'', ''avatar_mime'', ''avatar_blob'', ''updated_at'']"

definition sur_live :: "sqlite_env \<Rightarrow> nat \<Rightarrow> SqliteUserRepository \<Rightarrow> bool" where
  "sur_live env k r = (case db r of None \<Rightarrow> False
     | Some d \<Rightarrow> set kAllColumns \<subseteq> set (columns d) \<and> healthy_from env (stmts r) \<and> seq d + int k \<le> max_rowid)"

lemma next_stmt_simps [simp]: "db (next_stmt r) = db r" "stmts (next_stmt r) = Suc (stmts r)"
  by (simp_all add: next_stmt_def)

lemma healthy_now: "healthy_from env n \<Longrightarrow> prepare_ok env n \<and> step_ok env n \<and> open_ok env n"
  by (simp add: healthy_from_def)

lemma healthy_Suc: "healthy_from env n \<Longrightarrow> healthy_from env (Suc n)"
  by (simp add: healthy_from_def)

lemma find_extract: "find P (map f xs) = map_option f (find (\<lambda>x. P (f x)) xs)"
  by (induction xs) auto

lemma find_cong_list: "(\<And>x. x \<in> set xs \<Longrightarrow> P x = Q x) \<Longrightarrow> find P xs = find Q xs"
  by (induction xs) auto

lemma columnText_simps [simp]:
  "columnTextOrEmpty (Some s) = c_str s" "columnTextOrEmpty None = []"
  "columnTextOrEmpty (bind_text_or_null s) = c_str s"
  by (auto simp: columnTextOrEmpty_def bind_text_or_null_def c_str_def)

lemma extract_simps [simp]: "userId (extractUser x) = r_id x" "username (extractUser x) = c_str (r_username x)"
  by (simp_all add: extractUser_def)

lemma find_name_rows:
  "table_ok d \<Longrightarrow> find (same_name n) (map extractUser (db_rows d)) = map_option extractUser (find (\<lambda>x. nocase (r_username x) n) (db_rows d))"
  unfolding find_extract
  by (rule arg_cong [where f = "map_option extractUser"], rule find_cong_list)
    (simp add: table_ok_def same_name_def nocase_def canonicalUsername_def list_all_iff)

lemma find_id_rows:
  "find (has_id i) (map extractUser (db_rows d)) = map_option extractUser (find (\<lambda>x. r_id x = i) (db_rows d))"
  by (simp add: find_extract has_id_def)

lemma find_Some_list_ex: "find P xs \<noteq> None \<longleftrightarrow> list_ex P xs"
  by (induction xs) auto

lemma table_rows_wf: "table_ok d \<Longrightarrow> rows_wf (map extractUser (db_rows d))"
proof -
  assume t: "table_ok d"
  then have e: "map (\<lambda>u. canonicalUsername (username u)) (map extractUser (db_rows d)) = map (\<lambda>x. map tolower (r_username x)) (db_rows d)"
    by (simp add: table_ok_def canonicalUsername_def list_all_iff)
  show ?thesis unfolding rows_wf_def e using t
    by (simp add: table_ok_def comp_def strict_sorted_iff)
qed

lemma sort_rows: "table_ok d \<Longrightarrow> sort_key r_id (db_rows d) = db_rows d"
  by (simp add: table_ok_def sort_key_id_if_sorted strict_sorted_imp_sorted)

lemma live_prepared:
  "sur_live env k r \<Longrightarrow> db r = Some d \<Longrightarrow> set cols \<subseteq> set kAllColumns \<Longrightarrow> prepared env r d cols \<and> step_ok env (stmts r)"
proof -
  assume l: "sur_live env k r" "db r = Some d" and c: "set cols \<subseteq> set kAllColumns"
  have "kAllColumns \<noteq> []" by (simp add: kAllColumns_def)
  with l have "columns d \<noteq> []" by (auto simp: sur_live_def)
  moreover have "healthy_from env (stmts r)" "set cols \<subseteq> set (columns d)" using l c by (auto simp: sur_live_def)
  ultimately show ?thesis by (auto simp: prepared_def list_all_iff dest: healthy_now)
qed

lemma live_change [simp]:
  "sur_live env k r \<Longrightarrow> db r = Some d \<Longrightarrow> sur_live env k ((next_stmt r)\<lparr>db := Some (d\<lparr>db_rows := xs\<rparr>)\<rparr>)"
  by (auto simp: sur_live_def intro: healthy_Suc)

lemma live_same [simp]: "sur_live env k r \<Longrightarrow> db r = Some d \<Longrightarrow> sur_live env k ((next_stmt r)\<lparr>db := Some d\<rparr>)"
  by (auto simp: sur_live_def intro: healthy_Suc)

lemma live_insert:
  "sur_live env (Suc k) r \<Longrightarrow> db r = Some d \<Longrightarrow>
   sur_live env k ((next_stmt r)\<lparr>db := Some (d\<lparr>db_rows := xs, seq := seq d + 1\<rparr>)\<rparr>)"
  by (auto simp: sur_live_def intro: healthy_Suc)

lemma live_read [simp]: "sur_live env k r \<Longrightarrow> sur_live env k (next_stmt r)"
  by (auto simp: sur_live_def intro: healthy_Suc split: option.splits)

lemma view_next [simp]: "sur_users (next_stmt r) = sur_users r" "sur_ok (next_stmt r) = sur_ok r"
  by (simp_all add: sur_users_def sur_ok_def)

lemma columns_subset:
  "set kSelectColumns \<subseteq> set kAllColumns" "set kInsertColumns \<subseteq> set kAllColumns" "set kUpdateColumns \<subseteq> set kAllColumns"
  "set kDeleteColumns \<subseteq> set kAllColumns" "set kAvatarColumns \<subseteq> set kAllColumns" "set kGetAvatarColumns \<subseteq> set kAllColumns"
  "set ([] :: string list) \<subseteq> set kAllColumns"
  by (simp_all add: column_defs kAllColumns_def)

lemmas live_prepareds = columns_subset [THEN live_prepared [rotated 2], rotated]

lemma findByUsername_law:
  assumes "sur_ok r" and "findByUsername env r n = (res, r')"
  shows "sur_ok r' \<and> sur_users r' = sur_users r \<and> (\<forall>k. sur_live env k r \<longrightarrow> sur_live env k r') \<and>
    (res = find (same_name n) (sur_users r) \<or> res = None \<and> (\<forall>k. \<not> sur_live env k r))"
proof (cases "db r")
  case (Some d)
  then have "table_ok d" using assms(1) by (simp add: sur_ok_def)
  then show ?thesis using assms Some
    by (auto simp: findByUsername_def sur_users_def find_name_rows split: if_splits dest: live_prepareds)
qed (use assms in \<open>auto simp: findByUsername_def sur_users_def\<close>)

lemma findById_law:
  assumes "sur_ok r" and "findById env r i = (res, r')"
  shows "sur_ok r' \<and> sur_users r' = sur_users r \<and> (\<forall>k. sur_live env k r \<longrightarrow> sur_live env k r') \<and>
    (res = find (has_id i) (sur_users r) \<or> res = None \<and> (\<forall>k. \<not> sur_live env k r))"
proof (cases "db r")
  case (Some d)
  then show ?thesis using assms
    by (auto simp: findById_def sur_users_def find_id_rows split: if_splits dest: live_prepareds)
qed (use assms in \<open>auto simp: findById_def sur_users_def\<close>)

lemma listAll_law:
  assumes "sur_ok r" and "listAll env r = (xs, r')"
  shows "sur_ok r' \<and> sur_users r' = sur_users r \<and> (\<forall>k. sur_live env k r \<longrightarrow> sur_live env k r') \<and>
    (\<exists>m. xs = take m (sur_users r)) \<and> (\<forall>k. sur_live env k r \<longrightarrow> xs = sur_users r)"
proof (cases "db r")
  case (Some d)
  then have "sort_key r_id (db_rows d) = db_rows d" using assms(1) by (simp add: sur_ok_def sort_rows)
  moreover have "\<exists>m. map extractUser (db_rows d) = take m (map extractUser (db_rows d))"
    by (rule exI [of _ "length (db_rows d)"]) simp
  ultimately show ?thesis using assms Some
    by (auto simp: listAll_def sur_users_def Let_def split: if_splits dest: live_prepareds)
qed (use assms in \<open>auto simp: listAll_def sur_users_def\<close>)

lemma getAvatar_law:
  assumes "sur_ok r" and "getAvatar env r i = (a, r')"
  shows "sur_ok r' \<and> sur_users r' = sur_users r \<and> (\<forall>k. sur_live env k r \<longrightarrow> sur_live env k r')"
  using assms by (auto simp: getAvatar_def split: option.splits if_splits)

lemma sur_count_law:
  assumes "sur_ok r" and "sur_count env r = (c, r')"
  shows "sur_ok r' \<and> sur_users r' = sur_users r \<and> (\<forall>k. sur_live env k r \<longrightarrow> sur_live env k r') \<and>
    (c = length (sur_users r) \<or> c = 0 \<and> (\<forall>k. \<not> sur_live env k r))"
  using assms
  by (cases "db r") (auto simp: sur_count_def sur_users_def split: if_splits dest: live_prepareds)

lemma run_change_law:
  assumes "run_change env r d i f = (b, r')" and "db r = Some d" and "sur_ok r"
    and "table_ok (d\<lparr>db_rows := f (db_rows d)\<rparr>)"
    and "map extractUser (f (db_rows d)) = g (map extractUser (db_rows d))"
    and "find (has_id i) (map extractUser (db_rows d)) = None \<Longrightarrow> f (db_rows d) = db_rows d"
  shows "sur_ok r' \<and> (\<forall>k. sur_live env k r \<longrightarrow> sur_live env k r') \<and>
    (if b then find (has_id i) (sur_users r) \<noteq> None \<and> sur_users r' = g (sur_users r) else sur_users r' = sur_users r) \<and>
    (step_ok env (stmts r) \<longrightarrow> b = (find (has_id i) (sur_users r) \<noteq> None))"
  using assms
  by (auto simp: run_change_def sur_ok_def sur_users_def find_id_rows find_None_iff list_ex_iff
      split: if_splits)

lemma table_ok_map:
  "table_ok d \<Longrightarrow> (\<And>x. r_id (h x) = r_id x \<and> r_username (h x) = r_username x) \<Longrightarrow> table_ok (d\<lparr>db_rows := map h (db_rows d)\<rparr>)"
  by (simp add: table_ok_def comp_def list_all_iff)

lemma sur_update_law:
  assumes ok: "sur_ok r" and u: "sur_update env r u = (b, r')"
  shows "sur_ok r' \<and> (\<forall>k. sur_live env k r \<longrightarrow> sur_live env k r' \<and> b = (find (has_id (userId u)) (sur_users r) \<noteq> None)) \<and>
    (if b then find (has_id (userId u)) (sur_users r) \<noteq> None \<and> (\<exists>t. sur_users r' = map (edited u t) (sur_users r))
     else sur_users r' = sur_users r)"
proof (cases "db r")
  case (Some d)
  then have t: "table_ok d" using ok by (simp add: sur_ok_def)
  define f where "f x = (if r_id x = userId u
              then x\<lparr>r_password_hash := passwordHash u, r_role := uint (role_code (role u)),
                     r_enabled := (if enabled u then 1 else 0),
                     r_display_name := bind_text_or_null (displayName u),
                     r_updated_at := Some (clock env (stmts r))\<rparr> else x)" for x :: users_row
  have tab: "table_ok (d\<lparr>db_rows := map f (db_rows d)\<rparr>)"
    by (rule table_ok_map [OF t]) (simp add: f_def)
  have view: "map extractUser (map f (db_rows d)) = map (edited u (c_str (clock env (stmts r)))) (map extractUser (db_rows d))"
    by (simp add: f_def extractUser_def edited_def)
  have none: "find (has_id (userId u)) (map extractUser (db_rows d)) = None \<Longrightarrow> map f (db_rows d) = db_rows d"
    by (auto simp: f_def find_id_rows find_None_iff intro: map_idI)
  show ?thesis
  proof (cases "prepared env r d kUpdateColumns")
    case True
    with u Some have "run_change env r d (userId u) (map f) = (b, r')" by (simp add: sur_update_def f_def [abs_def])
    from run_change_law [OF this Some ok tab, of "map (edited u (c_str (clock env (stmts r))))", OF view none] show ?thesis
      using Some by (auto dest: live_prepareds split: if_splits)
  qed (use u Some ok in \<open>auto simp: sur_update_def dest: live_prepareds\<close>)
qed (use assms in \<open>auto simp: sur_update_def sur_users_def sur_live_def\<close>)

lemma sur_remove_law:
  assumes ok: "sur_ok r" and u: "sur_remove env r i = (b, r')"
  shows "sur_ok r' \<and> (\<forall>k. sur_live env k r \<longrightarrow> sur_live env k r' \<and> b = (find (has_id i) (sur_users r) \<noteq> None)) \<and>
    (if b then sur_users r' = filter (\<lambda>x. \<not> has_id i x) (sur_users r) else sur_users r' = sur_users r)"
proof (cases "db r")
  case (Some d)
  define f where "f = filter (\<lambda>x :: users_row. r_id x \<noteq> i)"
  have tab: "table_ok (d\<lparr>db_rows := f (db_rows d)\<rparr>)" using ok Some
    by (auto simp: sur_ok_def table_ok_def f_def list_all_iff sorted_wrt_map sorted_wrt_filter distinct_map_filter)
  have view: "map extractUser (f (db_rows d)) = filter (\<lambda>x. \<not> has_id i x) (map extractUser (db_rows d))"
    by (simp add: f_def filter_map comp_def has_id_def)
  have none: "find (has_id i) (map extractUser (db_rows d)) = None \<Longrightarrow> f (db_rows d) = db_rows d"
    by (auto simp: f_def find_id_rows find_None_iff filter_id_conv)
  show ?thesis
  proof (cases "prepared env r d kDeleteColumns")
    case True
    with u Some have "run_change env r d i f = (b, r')" by (simp add: sur_remove_def f_def)
    from run_change_law [OF this Some ok tab, of "filter (\<lambda>x. \<not> has_id i x)", OF view none] show ?thesis
      using Some by (auto dest: live_prepareds split: if_splits)
  qed (use u Some ok in \<open>auto simp: sur_remove_def dest: live_prepareds\<close>)
qed (use assms in \<open>auto simp: sur_remove_def sur_users_def sur_live_def\<close>)

text \<open>Both avatar updates write the two avatar columns and the time stamp of the row.\<close>

definition set_avatar_cols :: "int \<Rightarrow> byte list option \<Rightarrow> string option \<Rightarrow> string \<Rightarrow> users_row \<Rightarrow> users_row" where
  "set_avatar_cols i blob mime t x = (if r_id x = i
     then x\<lparr>r_avatar_blob := blob, r_avatar_mime := mime, r_updated_at := Some t\<rparr> else x)"

lemma avatar_change_law:
  assumes c: "run_change env r d i (map (set_avatar_cols i blob mime t)) = (b, r')" and d: "db r = Some d" and ok: "sur_ok r"
  shows "sur_ok r' \<and> (\<forall>k. sur_live env k r \<longrightarrow> sur_live env k r') \<and>
    (if b then (\<exists>t. sur_users r' = map (pictured i (columnTextOrEmpty mime) t) (sur_users r)) else sur_users r' = sur_users r)"
proof -
  have tab: "table_ok (d\<lparr>db_rows := map (set_avatar_cols i blob mime t) (db_rows d)\<rparr>)"
    using ok d by (intro table_ok_map) (auto simp: set_avatar_cols_def sur_ok_def)
  have view: "map extractUser (map (set_avatar_cols i blob mime t) (db_rows d)) =
      map (pictured i (columnTextOrEmpty mime) (c_str t)) (map extractUser (db_rows d))"
    by (simp add: set_avatar_cols_def extractUser_def pictured_def)
  have none: "find (has_id i) (map extractUser (db_rows d)) = None \<Longrightarrow> map (set_avatar_cols i blob mime t) (db_rows d) = db_rows d"
    by (auto simp: set_avatar_cols_def find_id_rows find_None_iff intro: map_idI)
  from run_change_law [OF c d ok tab, of "map (pictured i (columnTextOrEmpty mime) (c_str t))", OF view none]
  show ?thesis by (auto split: if_splits)
qed

lemma mime_text [simp]: "isAllowedAvatarMime mime \<Longrightarrow> c_str mime = mime"
  by (auto simp: isAllowedAvatarMime_def kMimePng_def kMimeJpeg_def c_str_def)

lemma setAvatar_law:
  assumes ok: "sur_ok r" and a: "setAvatar env r i bytes mime = (b, r')"
  shows "sur_ok r' \<and> (\<forall>k. sur_live env k r \<longrightarrow> sur_live env k r') \<and>
    (if b then bytes \<noteq> [] \<and> length bytes \<le> kMaxAvatarBytes \<and> (\<exists>t. sur_users r' = map (pictured i mime t) (sur_users r))
     else sur_users r' = sur_users r)"
proof (cases "bytes = [] \<or> length bytes > kMaxAvatarBytes \<or> \<not> isAllowedAvatarMime mime \<or> db r = None")
  case False
  then obtain d where d: "db r = Some d" and m: "c_str mime = mime" by auto
  show ?thesis
  proof (cases "prepared env r d kAvatarColumns")
    case True
    with a d False have "run_change env r d i (map (set_avatar_cols i (Some bytes) (Some mime) (clock env (stmts r)))) = (b, r')"
      by (simp add: setAvatar_def set_avatar_cols_def [abs_def])
    from avatar_change_law [OF this d ok] m False show ?thesis by (simp split: if_splits)
  qed (use a d ok False in \<open>auto simp: setAvatar_def\<close>)
qed (use a ok in \<open>auto simp: setAvatar_def split: if_splits option.splits\<close>)

lemma clearAvatar_law:
  assumes ok: "sur_ok r" and a: "clearAvatar env r i = (b, r')"
  shows "sur_ok r' \<and> (\<forall>k. sur_live env k r \<longrightarrow> sur_live env k r') \<and>
    (if b then (\<exists>t. sur_users r' = map (pictured i [] t) (sur_users r)) else sur_users r' = sur_users r)"
proof (cases "db r")
  case (Some d)
  show ?thesis
  proof (cases "prepared env r d kAvatarColumns")
    case True
    with a Some have "run_change env r d i (map (set_avatar_cols i None None (clock env (stmts r)))) = (b, r')"
      by (simp add: clearAvatar_def set_avatar_cols_def [abs_def])
    from avatar_change_law [OF this Some ok] show ?thesis by (auto split: if_splits)
  qed (use a Some ok in \<open>auto simp: clearAvatar_def\<close>)
qed (use a ok in \<open>auto simp: clearAvatar_def\<close>)

lemma sur_create_law:
  assumes ok: "sur_ok r" and nf: "nul_free (username u)" and c: "sur_create env r u = (res, r')"
  shows "sur_ok r' \<and> (\<forall>k. sur_live env (Suc k) r \<longrightarrow> sur_live env k r') \<and>
    (case res of None \<Rightarrow> sur_users r' = sur_users r \<and>
         (\<forall>k. sur_live env (Suc k) r \<longrightarrow> find (same_name (username u)) (sur_users r) \<noteq> None)
     | Some v \<Rightarrow> find (same_name (username u)) (sur_users r) = None \<and> same_account u v \<and> sur_users r' = sur_users r @ [stored v])"
proof (cases "db r")
  case (Some d)
  then have t: "table_ok d" using ok by (simp add: sur_ok_def)
  define created where "created = (if createdAt u = [] then clock env (stmts r) else createdAt u)"
  define updated where "updated = (if updatedAt u = [] then created else updatedAt u)"
  define row where "row = \<lparr>r_id = seq d + 1, r_username = username u, r_password_hash = passwordHash u,
      r_role = uint (role_code (role u)), r_enabled = (if enabled u then 1 else 0),
      r_created_at = created, r_display_name = bind_text_or_null (displayName u),
      r_avatar_mime = None, r_avatar_blob = None, r_updated_at = Some updated\<rparr>"
  define v where "v = u\<lparr>userId := seq d + 1, createdAt := created, updatedAt := updated\<rparr>"
  have dup: "list_ex (\<lambda>x. nocase (r_username x) (username u)) (db_rows d) \<longleftrightarrow> find (same_name (username u)) (sur_users r) \<noteq> None"
    using Some t by (simp add: sur_users_def find_name_rows flip: find_Some_list_ex)
  have live: "sur_live env (Suc k) r \<Longrightarrow> prepared env r d kInsertColumns \<and> step_ok env (stmts r) \<and> seq d < max_rowid \<and> sur_live env k (next_stmt r)" for k
    using Some live_prepareds(2) [of r d env "Suc k"] by (auto simp: sur_live_def intro: healthy_Suc)
  have view: "extractUser row = stored v" using nf
    by (simp add: row_def v_def extractUser_def stored_def)
  show ?thesis
  proof (cases "prepared env r d kInsertColumns \<and> step_ok env (stmts r) \<and> seq d < max_rowid \<and>
      \<not> list_ex (\<lambda>x. nocase (r_username x) (username u)) (db_rows d)")
    case True
    then have e: "res = Some v" "r' = (next_stmt r)\<lparr>db := Some (d\<lparr>db_rows := db_rows d @ [row], seq := seq d + 1\<rparr>)\<rparr>"
      using c Some by (auto simp: sur_create_def Let_def row_def v_def created_def updated_def)
    have "table_ok (d\<lparr>db_rows := db_rows d @ [row], seq := seq d + 1\<rparr>)"
      using t True nf by (fastforce simp: table_ok_def row_def sorted_wrt_append list_all_iff list_ex_iff nocase_def)
    then have "sur_ok r'" by (simp add: e sur_ok_def)
    then show ?thesis using True dup Some view
      by (auto simp: e sur_users_def same_account_def v_def intro: live_insert)
  next
    case False
    then have "res = None" "r' = next_stmt r"
      using c Some by (auto simp: sur_create_def Let_def not_less split: if_splits)
    then show ?thesis using ok live False dup by auto
  qed
qed (use assms in \<open>auto simp: sur_create_def sur_live_def\<close>)

lemma sur_live_mono: "sur_live env (Suc k) r \<Longrightarrow> sur_live env k r"
  by (auto simp: sur_live_def split: option.splits)

lemma sur_wf: "sur_ok r \<Longrightarrow> rows_wf (sur_users r)"
proof (cases "db r")
  case (Some d)
  assume "sur_ok r"
  with Some table_rows_wf [of d] show ?thesis by (simp add: sur_ok_def sur_users_def)
qed (simp add: sur_users_def rows_wf_def)

lemmas sur_laws = sur_wf sur_live_mono findByUsername_law findById_law listAll_law sur_create_law sur_update_law
  sur_remove_law setAvatar_law clearAvatar_law getAvatar_law sur_count_law

interpretation sur: user_store "sqlite_repository env" sur_users sur_ok "sur_live env" for env
  by (unfold_locales, unfold sqlite_repository_def UserRepository.simps, (rule sur_laws; assumption)+)

section \<open>Any sequence of calls\<close>

datatype repo_call = CFindByUsername string | CFindById int | CListAll | CCreate User | CUpdate User | CRemove int
  | CSetAvatar int "byte list" string | CClearAvatar int | CGetAvatar int | CCount

fun repo_do :: "sqlite_env \<Rightarrow> SqliteUserRepository \<Rightarrow> repo_call \<Rightarrow> SqliteUserRepository" where
  "repo_do env r (CFindByUsername n) = snd (findByUsername env r n)"
| "repo_do env r (CFindById i) = snd (findById env r i)"
| "repo_do env r CListAll = snd (listAll env r)"
| "repo_do env r (CCreate u) = snd (sur_create env r u)"
| "repo_do env r (CUpdate u) = snd (sur_update env r u)"
| "repo_do env r (CRemove i) = snd (sur_remove env r i)"
| "repo_do env r (CSetAvatar i bytes mime) = snd (setAvatar env r i bytes mime)"
| "repo_do env r (CClearAvatar i) = snd (clearAvatar env r i)"
| "repo_do env r (CGetAvatar i) = snd (getAvatar env r i)"
| "repo_do env r CCount = snd (sur_count env r)"

fun plain_names :: "repo_call \<Rightarrow> bool" where
  "plain_names (CCreate u) = nul_free (username u)"
| "plain_names _ = True"

lemma repo_do_ok: "sur_ok r \<Longrightarrow> plain_names c \<Longrightarrow> sur_ok (repo_do env r c)"
proof (cases c)
  case (CCreate u)
  then show "sur_ok r \<Longrightarrow> plain_names c \<Longrightarrow> ?thesis"
    using sur_create_law [of r u env] by (cases "sur_create env r u") auto
qed (use findByUsername_law [of r env] findById_law [of r env] listAll_law [of r env] sur_update_law [of r env]
    sur_remove_law [of r env] setAvatar_law [of r env] clearAvatar_law [of r env] getAvatar_law [of r env]
    sur_count_law [of r env] in \<open>(metis repo_do.simps prod.collapse)+\<close>)

interpretation repo_calls: guarded_machine "repo_do env" plain_names sur_ok for env
  by unfold_locales (rule repo_do_ok)

text \<open>The environment of a healthy engine, for the concrete inputs below.\<close>

definition healthy_env :: sqlite_env where
  "healthy_env = \<lparr>open_ok = \<lambda>_. True, prepare_ok = \<lambda>_. True, step_ok = \<lambda>_. True, rows_before_error = \<lambda>_. 0,
     clock = \<lambda>_. ''2026-01-01T00:00:00Z''\<rparr>"

definition empty_v2 :: users_db where
  "empty_v2 = \<lparr>user_version = 2, columns = kAllColumns, db_rows = [], seq = 0\<rparr>"

definition opened :: "users_db \<Rightarrow> SqliteUserRepository" where
  "opened d = \<lparr>db = Some d, stmts = 0\<rparr>"

lemma healthy_env_simps [simp]:
  "healthy_from healthy_env n" "prepare_ok healthy_env n" "step_ok healthy_env n" "open_ok healthy_env n"
  by (simp_all add: healthy_from_def healthy_env_def)

lemma opened_empty [simp]: "sur_ok (opened empty_v2)" "sur_users (opened empty_v2) = []" "int k \<le> max_rowid \<Longrightarrow> sur_live healthy_env k (opened empty_v2)"
  by (simp_all add: sur_ok_def opened_def empty_v2_def table_ok_def sur_users_def sur_live_def)



lemma created_findable:
  assumes ok: "sur_ok r" and nf: "nul_free (username u)" and c: "sur_create env r u = (Some v, r1)"
    and l: "sur_live env 0 r1" and n: "canonicalUsername name = canonicalUsername (username u)"
  shows "fst (findByUsername env r1 name) = Some (stored v) \<and> fst (findById env r1 (userId v)) = Some (stored v)"
proof -
  from sur_create_law [OF ok nf c] have ok1: "sur_ok r1" and us: "sur_users r1 = sur_users r @ [stored v]"
    and acc: "same_account u v" by auto
  have m: "stored v \<in> set (sur_users r1)" by (simp add: us)
  obtain a s where a: "findByUsername env r1 name = (a, s)" by fastforce
  obtain b s' where b: "findById env r1 (userId v) = (b, s')" by fastforce
  have "find (same_name name) (sur_users r1) = Some (stored v)"
    using find_name_of_member [OF sur_wf [OF ok1] m, of name] acc n by (simp add: same_name_def same_account_def)
  moreover have "find (has_id (userId v)) (sur_users r1) = Some (stored v)"
    using find_id_of_member [OF sur_wf [OF ok1] m] by simp
  ultimately show ?thesis using findByUsername_law [OF ok1 a] findById_law [OF ok1 b] l a b by auto
qed

text \<open>
  Insert and lookup: after a successful create, a working engine finds the new account under every
  spelling of its name and under its id, with the role, the enabled flag and the password hash it was
  created with (up to a zero byte in the hash).
\<close>

theorem create_then_find:
  assumes "sur_ok r" and "nul_free (username u)" and "sur_create env r u = (Some v, r1)"
    and "sur_live env 0 r1" and "canonicalUsername name = canonicalUsername (username u)"
  shows "\<exists>w. fst (findByUsername env r1 name) = Some w \<and> fst (findById env r1 (userId v)) = Some w \<and>
    username w = username u \<and> role w = role u \<and> enabled w = enabled u \<and> passwordHash w = c_str (passwordHash u)"
  using created_findable [OF assms] sur_create_law [OF assms(1-3)] by (auto simp: same_account_def)

theorem create_then_find_witness:
  "\<exists>v r1 w. sur_create healthy_env (opened empty_v2) (new_user\<lparr>username := ''ann'', role := Admin\<rparr>) = (Some v, r1) \<and>
     fst (findByUsername healthy_env r1 ''ANN'') = Some w \<and> role w = Admin"
proof -
  let ?u = "new_user\<lparr>username := ''ann'', role := Admin\<rparr>"
  obtain res r1 where c: "sur_create healthy_env (opened empty_v2) ?u = (res, r1)" by fastforce
  have nf: "nul_free (username ?u)" by (simp add: nul_free_def)
  have l: "sur_live healthy_env (Suc 0) (opened empty_v2)" by (simp add: max_rowid_def)
  from sur_create_law [OF opened_empty(1) nf c] l obtain v where v: "res = Some v" and l1: "sur_live healthy_env 0 r1"
    by (cases res) (auto simp: opened_empty(2))
  have "canonicalUsername ''ANN'' = canonicalUsername (username ?u)"
    by (simp add: canonicalUsername_def) code_simp
  from create_then_find [OF opened_empty(1) nf c [unfolded v] l1 this] show ?thesis using c v by auto
qed

section \<open>Migration\<close>

lemma execSimple_columns:
  assumes "execSimple env r sql = (b, r1)" and "db r = Some d" and "c \<in> set (columns d)"
  shows "\<exists>d1. db r1 = Some d1 \<and> c \<in> set (columns d1) \<and> user_version d1 \<in> {user_version d} \<union> {v. sql = SetUserVersion v}"
  using assms by (cases sql) (auto simp: execSimple_def exec_db_def split: if_splits)

lemma execSimple_set_version:
  "execSimple env r (SetUserVersion v) = (True, r1) \<Longrightarrow> db r = Some d \<Longrightarrow> \<exists>d1. db r1 = Some d1 \<and> columns d1 = columns d \<and> user_version d1 = v"
  by (auto simp: execSimple_def exec_db_def split: if_splits)

lemma readSchemaVersion_low:
  "readSchemaVersion env r = (v, r1) \<Longrightarrow> db r = Some d \<Longrightarrow> db r1 = Some d \<and> (v = user_version d \<or> v = 0)"
  by (auto simp: readSchemaVersion_def split: if_splits)

lemma second_rung_refused:
  assumes "db r = Some d" and "''display_name'' \<in> set (columns d)"
  shows "exec_all env r kMigrationV2 = (False, next_stmt r)"
  using assms by (simp add: kMigrationV2_def execSimple_def exec_db_def)

definition half_migrated :: "SqliteUserRepository \<Rightarrow> bool" where
  "half_migrated r = (case db r of None \<Rightarrow> False
     | Some d \<Rightarrow> ''display_name'' \<in> set (columns d) \<and> user_version d < kCurrentSchemaVersion)"

lemma half_migratedD:
  "half_migrated r \<Longrightarrow> \<exists>d. db r = Some d \<and> ''display_name'' \<in> set (columns d) \<and> user_version d < kCurrentSchemaVersion"
  by (auto simp: half_migrated_def split: option.splits)

lemma first_rung_half_migrated:
  assumes "half_migrated r" and e: "execSimple env r (SetUserVersion 1) = (b, r1)"
  shows "half_migrated r1"
proof -
  from assms(1) obtain d where "db r = Some d" "''display_name'' \<in> set (columns d)" "user_version d < kCurrentSchemaVersion"
    by (auto dest!: half_migratedD)
  with execSimple_columns [OF e] show ?thesis by (fastforce simp: half_migrated_def kCurrentSchemaVersion_def)
qed

lemma read_half_migrated:
  assumes "half_migrated r" and "readSchemaVersion env r = (w, r1)"
  shows "half_migrated r1 \<and> w < kCurrentSchemaVersion"
  using assms(1) readSchemaVersion_low [OF assms(2)]
  by (auto simp: half_migrated_def kCurrentSchemaVersion_def split: option.splits)

lemma migrate_loop_stuck:
  assumes "migrate_loop env v r = Some y" and "v < kCurrentSchemaVersion" and "half_migrated r"
  shows "\<not> fst y \<and> half_migrated (snd y)"
proof -
  have "v < kCurrentSchemaVersion \<longrightarrow> half_migrated r \<longrightarrow> \<not> fst y \<and> half_migrated (snd y)"
  proof (rule migrate_loop.raw_induct [OF _ assms(1)], intro impI, goal_cases)
    case (1 loop env v r y)
    from 1(4) obtain d where d: "db r = Some d" "''display_name'' \<in> set (columns d)" by (auto dest!: half_migratedD)
    note rung2 = second_rung_refused [OF d, of env]
    obtain b r1 where e: "execSimple env r (SetUserVersion 1) = (b, r1)" by fastforce
    obtain w r2 where w: "readSchemaVersion env r1 = (w, r2)" by fastforce
    have h1: "half_migrated r1" by (rule first_rung_half_migrated [OF 1(4) e])
    have h2: "half_migrated r2 \<and> w < kCurrentSchemaVersion" by (rule read_half_migrated [OF h1 w])
    have hn: "half_migrated (next_stmt r)" using 1(4) by (simp add: half_migrated_def)
    show ?case
    proof (cases "v = 0 \<and> b")
      case True
      then have "loop env w r2 = Some y" using 1(2,3) e w by simp
      with 1(1) h2 show ?thesis by blast
    next
      case False
      with 1(2,3,4) h1 hn show ?thesis by (auto simp: rung2 e split: if_splits)
    qed
  qed
  then show ?thesis using assms by blast
qed

text \<open>The files the released versions of the program leave behind, the fresh file first.\<close>

definition released :: "users_db \<Rightarrow> bool" where
  "released d = (columns d = [] \<and> user_version d = 0 \<or>
     columns d = kCreateTableSql \<and> user_version d \<in> {0, 1} \<or> columns d = kAllColumns \<and> user_version d = 2)"

lemma execSimple_healthy:
  "healthy_from env (stmts r) \<Longrightarrow> db r = Some d \<Longrightarrow> exec_db sql d = Some d' \<Longrightarrow>
   execSimple env r sql = (True, (next_stmt r)\<lparr>db := Some d'\<rparr>)"
  using healthy_now [of env "stmts r"] by (simp add: execSimple_def)

lemma read_healthy: "healthy_from env (stmts r) \<Longrightarrow> db r = Some d \<Longrightarrow> readSchemaVersion env r = (user_version d, next_stmt r)"
  using healthy_now [of env "stmts r"] by (simp add: readSchemaVersion_def)

lemma exec_all_healthy:
  assumes "healthy_from env (stmts r)" and "db r = Some d"
    and "foldl (\<lambda>d sql. Option.bind d (exec_db sql)) (Some d) sqls = Some d'"
  shows "exec_all env r sqls = (True, r\<lparr>db := Some d', stmts := stmts r + length sqls\<rparr>)"
  using assms
proof (induction sqls arbitrary: r d)
  case (Cons sql sqls)
  have none: "foldl (\<lambda>d sql. Option.bind d (exec_db sql)) None sqls = None" for sqls by (induction sqls) auto
  from Cons.prems(3) none obtain d1 where d1: "exec_db sql d = Some d1"
    "foldl (\<lambda>d sql. Option.bind d (exec_db sql)) (Some d1) sqls = Some d'"
    by (cases "exec_db sql d") auto
  have "exec_all env ((next_stmt r)\<lparr>db := Some d1\<rparr>) sqls = (True, r\<lparr>db := Some d', stmts := stmts r + length (sql # sqls)\<rparr>)"
    using Cons.IH [of "(next_stmt r)\<lparr>db := Some d1\<rparr>" d1] Cons.prems(1) d1(2) by (simp add: healthy_Suc next_stmt_def)
  then show ?case using execSimple_healthy [OF Cons.prems(1,2) d1(1)] by simp
qed auto

lemma columns_nonempty: "kAllColumns \<noteq> []" "kCreateTableSql \<noteq> []"
  by (simp_all add: kAllColumns_def kCreateTableSql_def)

lemma healthy_add: "healthy_from env n \<Longrightarrow> healthy_from env (n + k)"
  by (simp add: healthy_from_def)

lemma rung2_healthy:
  assumes h: "healthy_from env (stmts r)" and d: "db r = Some d" "columns d = kCreateTableSql"
  shows "\<exists>r1. migrate_loop env 1 r = Some (True, r1) \<and> db r1 = Some (d\<lparr>columns := kAllColumns, user_version := 2\<rparr>) \<and>
    healthy_from env (stmts r1)"
proof -
  let ?d = "d\<lparr>columns := kAllColumns, user_version := 2\<rparr>"
  have "foldl (\<lambda>d sql. Option.bind d (exec_db sql)) (Some d) kMigrationV2 = Some ?d"
    using d(2) by (simp add: kMigrationV2_def exec_db_def kCreateTableSql_def kAllColumns_def)
  from exec_all_healthy [OF h d(1) this] obtain r1 where
    r1: "exec_all env r kMigrationV2 = (True, r1)" "db r1 = Some ?d" "healthy_from env (stmts r1)"
    using healthy_add [OF h, of "length kMigrationV2"] by simp
  have "migrate_loop env 1 r = migrate_loop env 2 (next_stmt r1)"
    using r1 read_healthy [OF r1(3,2)] by (subst migrate_loop.simps) (simp add: kCurrentSchemaVersion_def)
  also have "\<dots> = Some (True, next_stmt r1)" by (subst migrate_loop.simps) (simp add: kCurrentSchemaVersion_def)
  finally show ?thesis using r1 by (auto intro: healthy_Suc)
qed

lemma rung1_healthy:
  assumes h: "healthy_from env (stmts r)" and d: "db r = Some d" "columns d = kCreateTableSql"
  shows "\<exists>r1. migrate_loop env 0 r = Some (True, r1) \<and> db r1 = Some (d\<lparr>columns := kAllColumns, user_version := 2\<rparr>) \<and>
    healthy_from env (stmts r1)"
proof -
  let ?r = "(next_stmt r)\<lparr>db := Some (d\<lparr>user_version := 1\<rparr>)\<rparr>"
  have e: "execSimple env r (SetUserVersion 1) = (True, ?r)"
    by (rule execSimple_healthy [OF h d(1)]) (simp add: exec_db_def)
  have "readSchemaVersion env ?r = (1, next_stmt ?r)"
    using read_healthy [of env ?r] healthy_Suc [OF h] by simp
  then have "migrate_loop env 0 r = migrate_loop env 1 (next_stmt ?r)"
    using e by (subst migrate_loop.simps) (simp add: kCurrentSchemaVersion_def)
  then show ?thesis using rung2_healthy [of env "next_stmt ?r" "d\<lparr>user_version := 1\<rparr>"] h d
    by (auto intro: healthy_Suc)
qed

text \<open>
  On a working engine \<^verbatim>\<open>initialize\<close> returns, succeeds on the file of every released version and leaves the
  current schema: all columns, version 2, every row kept and every statement of the repository usable.
\<close>

theorem initialize_reaches_current_schema:
  assumes "healthy_from env (stmts r)" and "released d" and "seq d + int k \<le> max_rowid"
  shows "\<exists>r1 d1. sur_initialize env r d = Some (True, r1) \<and> db r1 = Some d1 \<and> columns d1 = kAllColumns \<and>
    user_version d1 = kCurrentSchemaVersion \<and> db_rows d1 = db_rows d \<and> sur_live env k r1"
proof -
  define d0 where "d0 = (if columns d = [] then d\<lparr>columns := kCreateTableSql\<rparr> else d)"
  define r0 where "r0 = (next_stmt ((next_stmt r)\<lparr>db := Some d\<rparr>))\<lparr>db := Some d0\<rparr>"
  have h0: "healthy_from env (stmts (next_stmt r0))" "healthy_from env (stmts r0)" and db0: "db (next_stmt r0) = Some d0"
    using assms(1) by (auto simp: r0_def intro: healthy_Suc)
  have "execSimple env ((next_stmt r)\<lparr>db := Some d\<rparr>) CreateTable = (True, r0)" unfolding r0_def
    by (rule execSimple_healthy) (use assms(1) in \<open>auto simp: exec_db_def d0_def intro: healthy_Suc\<close>)
  then have i: "sur_initialize env r d = applyMigrations env r0"
    using healthy_now [OF assms(1)] by (simp add: sur_initialize_def)
  have rd: "readSchemaVersion env r0 = (user_version d0, next_stmt r0)"
    by (rule read_healthy [OF h0(2)]) (simp add: r0_def)
  consider "columns d0 = kCreateTableSql" "user_version d0 = 0" | "columns d0 = kCreateTableSql" "user_version d0 = 1"
    | "columns d0 = kAllColumns" "user_version d0 = 2"
    using assms(2) by (auto simp: released_def d0_def columns_nonempty)
  then have "\<exists>r1. applyMigrations env r0 = Some (True, r1) \<and> db r1 = Some (d0\<lparr>columns := kAllColumns, user_version := 2\<rparr>) \<and>
      healthy_from env (stmts r1)"
  proof cases
    case 1
    with rung1_healthy [OF h0(1) db0] rd show ?thesis by (simp add: applyMigrations_def kCurrentSchemaVersion_def)
  next
    case 2
    with rung2_healthy [OF h0(1) db0] rd show ?thesis by (simp add: applyMigrations_def kCurrentSchemaVersion_def)
  next
    case 3
    then have "d0\<lparr>columns := kAllColumns, user_version := 2\<rparr> = d0" by simp
    with 3 rd h0 db0 show ?thesis by (simp add: applyMigrations_def kCurrentSchemaVersion_def)
  qed
  moreover have "db_rows d0 = db_rows d" "seq d0 = seq d" by (auto simp: d0_def)
  ultimately show ?thesis using i assms(3) by (auto simp: sur_live_def kCurrentSchemaVersion_def)
qed

definition fresh_file :: users_db where
  "fresh_file = \<lparr>user_version = 0, columns = [], db_rows = [], seq = 0\<rparr>"

theorem initialize_reaches_current_schema_witness:
  "\<exists>r1 d1. sur_initialize healthy_env \<lparr>db = None, stmts = 0\<rparr> fresh_file = Some (True, r1) \<and> db r1 = Some d1 \<and>
     user_version d1 = 2"
  using initialize_reaches_current_schema [of healthy_env "\<lparr>db = None, stmts = 0\<rparr>" fresh_file 0]
  by (auto simp: released_def fresh_file_def max_rowid_def kCurrentSchemaVersion_def)

lemma half_migrated_create:
  "half_migrated r \<Longrightarrow> execSimple env r CreateTable = (b, r1) \<Longrightarrow> half_migrated r1"
  by (cases "db r") (auto simp: half_migrated_def execSimple_def exec_db_def split: if_splits)

text \<open>
  C11. The ladder is not restartable: its second rung is five statements outside a transaction, so an
  interruption between them leaves a file with the first new column and version 1. No later call of
  \<^verbatim>\<open>initialize\<close>, on any engine, succeeds on such a file, and each leaves it in that condition.
\<close>

theorem interrupted_migration_is_permanent:
  assumes "''display_name'' \<in> set (columns d)" and "user_version d < kCurrentSchemaVersion"
    and "sur_initialize env r d = Some (b, r1)"
  shows "\<not> b \<and> (case db r1 of None \<Rightarrow> True
    | Some d1 \<Rightarrow> ''display_name'' \<in> set (columns d1) \<and> user_version d1 < kCurrentSchemaVersion)"
proof (cases "open_ok env (stmts r)")
  case True
  let ?r = "(next_stmt r)\<lparr>db := Some d\<rparr>"
  obtain c r2 where e: "execSimple env ?r CreateTable = (c, r2)" by fastforce
  have h2: "half_migrated r2" by (rule half_migrated_create [OF _ e]) (use assms in \<open>simp add: half_migrated_def\<close>)
  obtain v r3 where v: "readSchemaVersion env r2 = (v, r3)" by fastforce
  have h3: "half_migrated r3 \<and> v < kCurrentSchemaVersion" by (rule read_half_migrated [OF h2 v])
  have "\<not> b \<and> half_migrated r1"
  proof (cases c)
    case True
    with assms(3) \<open>open_ok env (stmts r)\<close> e v h3 have "migrate_loop env v r3 = Some (b, r1)"
      by (simp add: sur_initialize_def applyMigrations_def)
    with migrate_loop_stuck [of env v r3 "(b, r1)"] h3 show ?thesis by simp
  qed (use assms(3) \<open>open_ok env (stmts r)\<close> e h2 in \<open>simp add: sur_initialize_def\<close>)
  then show ?thesis by (auto simp: half_migrated_def split: option.splits)
qed (use assms(3) in \<open>auto simp: sur_initialize_def\<close>)

definition half_file :: users_db where
  "half_file = \<lparr>user_version = 1, columns = kCreateTableSql @ [''display_name''], db_rows = [], seq = 0\<rparr>"

text \<open>The engine that loses power in the second rung produces such a file from a version 1 file.\<close>

definition power_loss_env :: "nat \<Rightarrow> sqlite_env" where
  "power_loss_env k = healthy_env\<lparr>step_ok := \<lambda>n. n < k\<rparr>"

lemma half_file_arises:
  "sur_initialize (power_loss_env 4) \<lparr>db = None, stmts = 0\<rparr> (half_file\<lparr>columns := kCreateTableSql\<rparr>) =
     Some (False, \<lparr>db = Some half_file, stmts = 5\<rparr>)"
  by (simp add: sur_initialize_def power_loss_env_def healthy_env_def execSimple_def exec_db_def half_file_def next_stmt_def
      columns_nonempty applyMigrations_def readSchemaVersion_def kCurrentSchemaVersion_def migrate_loop.simps [of _ 1]
      kMigrationV2_def) (simp add: kCreateTableSql_def)

lemma half_file_runs:
  "sur_initialize healthy_env \<lparr>db = None, stmts = 0\<rparr> half_file = Some (False, \<lparr>db = Some half_file, stmts = 4\<rparr>)"
  by (simp add: sur_initialize_def healthy_env_def execSimple_def exec_db_def half_file_def next_stmt_def
      columns_nonempty applyMigrations_def readSchemaVersion_def kCurrentSchemaVersion_def migrate_loop.simps [of _ 1]
      kMigrationV2_def)

theorem interrupted_migration_is_permanent_witness:
  "sur_initialize (power_loss_env 4) \<lparr>db = None, stmts = 0\<rparr> (half_file\<lparr>columns := kCreateTableSql\<rparr>) =
     Some (False, \<lparr>db = Some half_file, stmts = 5\<rparr>) \<and>
   (\<exists>b r1. sur_initialize healthy_env \<lparr>db = None, stmts = 0\<rparr> half_file = Some (b, r1) \<and> \<not> b)"
proof -
  have "''display_name'' \<in> set (columns half_file)" "user_version half_file < kCurrentSchemaVersion"
    by (simp_all add: half_file_def kCurrentSchemaVersion_def)
  from interrupted_migration_is_permanent [OF this half_file_runs] half_file_arises half_file_runs show ?thesis by blast
qed

end
