(* ===== verification/AuthService.thy ===== *)
theory AuthService
  imports SqliteUserRepository
begin

text \<open>
  \<^verbatim>\<open>auth/AuthService.cpp\<close>: login, logout and the first-boot seeding of the default accounts, over any
  repository and any password hasher. The audit sink is optional; its rows are a list, newest last. Log
  messages are not modelled.

  The theorems, on the SQLite repository: the exact decision of a login and its effect on the session, one
  audit row per attempt, the seeded accounts can sign in and are seeded once, and the role names degrade
  safely.
\<close>

datatype LoginResult = Success | InvalidCredentials | AccountDisabled | LockedOut | HasherFailure

record 's AuthService =
  as_users :: 's
  as_session :: Session
  as_audit :: "AuditEvent list option"

definition makeAuthEvent :: "string \<Rightarrow> Role \<Rightarrow> string \<Rightarrow> string \<Rightarrow> string \<Rightarrow> AuditEvent" where
  "makeAuthEvent name r action details outcome =
     \<lparr>ae_timestamp = [], ae_username = name, ae_role = roleName r, ae_category = kAuth, ae_action = action,
      ae_details = details, ae_result = outcome\<rparr>"

text \<open>\<^verbatim>\<open>if (audit_ != nullptr) audit_->record(e)\<close>\<close>

definition audited :: "'s AuthService \<Rightarrow> AuditEvent \<Rightarrow> 's AuthService" where
  "audited svc e = svc\<lparr>as_audit := map_option (\<lambda>rows. rows @ [e]) (as_audit svc)\<rparr>"

definition login :: "'s UserRepository \<Rightarrow> PasswordHasher \<Rightarrow> 's AuthService \<Rightarrow> string \<Rightarrow> string \<Rightarrow> LoginResult \<times> 's AuthService" where
  "login R H svc name password =
     (let canon = canonicalUsername name in
      case repo_findByUsername R (as_users svc) canon of (userOpt, st) \<Rightarrow>
      let svc = svc\<lparr>as_users := st\<rparr> in
      case userOpt of
        None \<Rightarrow> (InvalidCredentials, audited svc (makeAuthEvent canon Operator ''LOGIN'' ''unknown user'' kFailure))
      | Some user \<Rightarrow>
          if \<not> enabled user
          then (AccountDisabled, audited svc (makeAuthEvent canon (role user) ''LOGIN'' ''account disabled'' kFailure))
          else (case pw_verify H password (passwordHash user) of
              None \<Rightarrow> (HasherFailure, audited svc (makeAuthEvent canon (role user) ''LOGIN'' ''hasher exception'' kFailure))
            | Some verified \<Rightarrow>
                if \<not> verified
                then (InvalidCredentials, audited svc (makeAuthEvent canon (role user) ''LOGIN'' ''bad password'' kFailure))
                else (Success, audited (svc\<lparr>as_session := setUser (as_session svc) user\<rparr>)
                        (makeAuthEvent canon (role user) ''LOGIN'' [] kSuccess))))"

definition logout :: "'s AuthService \<Rightarrow> 's AuthService" where
  "logout svc =
     (let user = (case currentUser (as_session svc) of Some u \<Rightarrow> u | None \<Rightarrow> new_user);
          svc = audited svc (makeAuthEvent (username user) (role user) ''LOGOUT'' [] kSuccess) in
      svc\<lparr>as_session := session_clear (as_session svc)\<rparr>)"

record SeedEntry =
  se_username :: string
  se_password :: string
  se_role :: Role

definition kSeed :: "SeedEntry list" where
  "kSeed = [\<lparr>se_username = ''operator'', se_password = ''operator'', se_role = Operator\<rparr>,
     \<lparr>se_username = ''maintenance'', se_password = ''maintenance'', se_role = Maintenance\<rparr>,
     \<lparr>se_username = ''admin'', se_password = ''admin'', se_role = Admin\<rparr>]"

definition seed_user :: "SeedEntry \<Rightarrow> string \<Rightarrow> User" where
  "seed_user s h = new_user\<lparr>username := se_username s, role := se_role s, enabled := True, passwordHash := h\<rparr>"

fun seed_loop :: "'s UserRepository \<Rightarrow> PasswordHasher \<Rightarrow> 's \<Rightarrow> SeedEntry list \<Rightarrow> nat \<Rightarrow> nat \<times> 's" where
  "seed_loop R H st [] created = (created, st)"
| "seed_loop R H st (s # ss) created = (case pw_hash H (se_password s) of
     None \<Rightarrow> seed_loop R H st ss created
   | Some h \<Rightarrow> (case repo_create R st (seed_user s h) of (res, st') \<Rightarrow>
       seed_loop R H st' ss (if res \<noteq> None then created + 1 else created)))"

definition seedDefaultUsersIfEmpty :: "'s UserRepository \<Rightarrow> PasswordHasher \<Rightarrow> 's AuthService \<Rightarrow> nat \<times> 's AuthService" where
  "seedDefaultUsersIfEmpty R H svc = (case repo_count R (as_users svc) of (n, st) \<Rightarrow>
     if n > 0 then (0, svc\<lparr>as_users := st\<rparr>)
     else (case seed_loop R H st kSeed 0 of (created, st') \<Rightarrow> (created, svc\<lparr>as_users := st'\<rparr>)))"

section \<open>Login\<close>

text \<open>What a login decides, given the account the name selects.\<close>

definition verdict :: "PasswordHasher \<Rightarrow> string \<Rightarrow> User option \<Rightarrow> LoginResult" where
  "verdict H password found = (case found of None \<Rightarrow> InvalidCredentials
     | Some u \<Rightarrow> if \<not> enabled u then AccountDisabled
         else (case pw_verify H password (passwordHash u) of None \<Rightarrow> HasherFailure
           | Some True \<Rightarrow> Success | Some False \<Rightarrow> InvalidCredentials))"

lemma audited_simps [simp]:
  "as_users (audited svc e) = as_users svc" "as_session (audited svc e) = as_session svc"
  "as_audit (audited svc e) = map_option (\<lambda>rows. rows @ [e]) (as_audit svc)"
  by (simp_all add: audited_def)

lemma makeAuthEvent_simps [simp]:
  "ae_username (makeAuthEvent n r a d out) = n" "ae_role (makeAuthEvent n r a d out) = roleName r"
  "ae_action (makeAuthEvent n r a d out) = a" "ae_result (makeAuthEvent n r a d out) = out"
  by (simp_all add: makeAuthEvent_def)

lemma login_shape:
  assumes "login R H svc name password = (res, svc')"
    and "repo_findByUsername R (as_users svc) (canonicalUsername name) = (found, st)"
  shows "res = verdict H password found \<and> as_users svc' = st \<and>
    as_session svc' = (if res = Success then setUser (as_session svc) (the found) else as_session svc) \<and>
    (\<exists>e. as_audit svc' = map_option (\<lambda>rows. rows @ [e]) (as_audit svc) \<and> ae_username e = canonicalUsername name \<and>
       ae_action e = ''LOGIN'' \<and> ae_result e = (if res = Success then kSuccess else kFailure) \<and>
       ae_role e = roleName (case found of Some u \<Rightarrow> role u | None \<Rightarrow> Operator)) \<and>
    (res = Success \<longrightarrow> found \<noteq> None)"
  using assms by (auto simp: login_def verdict_def Let_def split: option.splits if_splits bool.splits)

lemma same_name_canonical [simp]: "same_name (canonicalUsername n) = same_name n"
  by (simp add: same_name_def fun_eq_iff)

context user_store
begin

lemma login_decision:
  assumes "ok (as_users svc)" and l: "login R H svc name password = (res, svc')"
  shows "ok (as_users svc') \<and> users (as_users svc') = users (as_users svc) \<and>
    (\<forall>k. live k (as_users svc) \<longrightarrow> live k (as_users svc') \<and> res = verdict H password (find (same_name name) (users (as_users svc)))) \<and>
    (if res = Success then (\<exists>u. find (same_name name) (users (as_users svc)) = Some u \<and> enabled u \<and>
         pw_verify H password (passwordHash u) = Some True \<and> as_session svc' = setUser (as_session svc) u)
     else as_session svc' = as_session svc)"
proof -
  obtain found st where f: "repo_findByUsername R (as_users svc) (canonicalUsername name) = (found, st)" by fastforce
  note sh = login_shape [OF l f] and fn = find_name [OF assms(1) f, simplified]
  have v: "verdict H password found = Success \<Longrightarrow> \<exists>u. found = Some u \<and> enabled u \<and> pw_verify H password (passwordHash u) = Some True"
    by (auto simp: verdict_def split: option.splits if_splits bool.splits)
  show ?thesis using sh fn v by auto
qed

end

section \<open>Seeding\<close>

definition works_for :: "PasswordHasher \<Rightarrow> string \<Rightarrow> bool" where
  "works_for H p = (case pw_hash H p of None \<Rightarrow> False | Some h \<Rightarrow> nul_free h \<and> pw_verify H p h = Some True)"

definition seeded_from :: "PasswordHasher \<Rightarrow> SeedEntry \<Rightarrow> User \<Rightarrow> bool" where
  "seeded_from H s v = (username v = se_username s \<and> role v = se_role s \<and> enabled v \<and>
     pw_verify H (se_password s) (passwordHash v) = Some True)"

context user_store
begin

lemma live_add: "live (k + j) s \<Longrightarrow> live k s"
  by (induction j) (auto intro: live_mono)

lemma seed_loop_creates:
  assumes "ok st" and "live (length ss) st"
    and "\<And>s. s \<in> set ss \<Longrightarrow> works_for H (se_password s) \<and> nul_free (se_username s) \<and> find (same_name (se_username s)) (users st) = None"
    and "distinct (map (\<lambda>s. canonicalUsername (se_username s)) ss)"
  shows "\<exists>vs st'. seed_loop R H st ss c = (c + length ss, st') \<and> ok st' \<and> live 0 st' \<and>
    users st' = users st @ vs \<and> list_all2 (seeded_from H) ss vs"
  using assms
proof (induction ss arbitrary: st c)
  case (Cons s ss)
  have s: "works_for H (se_password s)" "nul_free (se_username s)" "find (same_name (se_username s)) (users st) = None"
    using Cons.prems(3) by auto
  then obtain h where h: "pw_hash H (se_password s) = Some h" "nul_free h" "pw_verify H (se_password s) h = Some True"
    by (auto simp: works_for_def split: option.splits)
  obtain res st1 where c: "repo_create R st (seed_user s h) = (res, st1)" by fastforce
  have nf: "nul_free (username (seed_user s h))" using s(2) by (simp add: seed_user_def)
  note law = create [OF Cons.prems(1) nf c]
  have "res \<noteq> None" using law Cons.prems(2) s(3) by (auto simp: seed_user_def split: option.splits)
  then obtain v where v: "res = Some v" by auto
  with law Cons.prems(2) have st1: "ok st1" "live (length ss) st1" "users st1 = users st @ [stored v]" "same_account (seed_user s h) v"
    by auto
  have sf: "seeded_from H s (stored v)" using st1(4) h by (simp add: seeded_from_def same_account_def seed_user_def)
  have "find (same_name (se_username x)) (users st1) = None" if "x \<in> set ss" for x
  proof -
    have "find (same_name (se_username x)) (users st) = None" using Cons.prems(3) that by simp
    moreover have "\<not> same_name (se_username x) (stored v)"
      using Cons.prems(4) that sf by (auto simp: same_name_def seeded_from_def image_iff)
    ultimately show ?thesis by (auto simp: st1(3) find_None_iff)
  qed
  then have "\<exists>vs st'. seed_loop R H st1 ss (c + 1) = (c + 1 + length ss, st') \<and> ok st' \<and> live 0 st' \<and>
      users st' = users st1 @ vs \<and> list_all2 (seeded_from H) ss vs"
    using Cons.IH [of st1 "c + 1"] Cons.prems(3,4) st1 by simp
  then show ?case using c h(1) v st1(3) sf by fastforce
qed auto

lemma seeded_login:
  assumes "ok (as_users svc)" and "live 0 (as_users svc)" and "v \<in> set (users (as_users svc))" and "seeded_from H s v"
    and "login R H svc (se_username s) (se_password s) = (res, svc')"
  shows "res = Success \<and> currentUser (as_session svc') = Some v"
proof -
  have "find (same_name (se_username s)) (users (as_users svc)) = Some v"
    using find_name_of_member [OF wf [OF assms(1)] assms(3)] assms(4) by (simp add: same_name_def seeded_from_def)
  with login_decision [OF assms(1,5)] assms(2,4) show ?thesis by (auto simp: verdict_def seeded_from_def split: if_splits)
qed

lemma seed_empty:
  assumes "ok (as_users svc)" and "live (length kSeed) (as_users svc)" and "users (as_users svc) = []"
    and "\<And>s. s \<in> set kSeed \<Longrightarrow> works_for H (se_password s)"
    and "seedDefaultUsersIfEmpty R H svc = (n, svc1)"
  shows "n = length kSeed \<and> ok (as_users svc1) \<and> live 0 (as_users svc1) \<and>
    list_all2 (seeded_from H) kSeed (users (as_users svc1))"
proof -
  obtain c st where c: "repo_count R (as_users svc) = (c, st)" by fastforce
  from count [OF assms(1) c] assms(2,3) have st: "ok st" "live (length kSeed) st" "users st = []" "c = 0" by auto
  have "\<And>s. s \<in> set kSeed \<Longrightarrow> nul_free (se_username s)" "distinct (map (\<lambda>s. canonicalUsername (se_username s)) kSeed)"
    by (auto simp: kSeed_def nul_free_def canonicalUsername_def)
  with seed_loop_creates [OF st(1,2), of H 0] assms(4) st(3)
  obtain vs st' where "seed_loop R H st kSeed 0 = (length kSeed, st')" "ok st'" "live 0 st'" "users st' = vs"
    "list_all2 (seeded_from H) kSeed vs" by auto
  then show ?thesis using assms(5) c st(4) by (auto simp: seedDefaultUsersIfEmpty_def)
qed

lemma seed_nonempty:
  assumes "ok (as_users svc)" and "live 0 (as_users svc)" and "users (as_users svc) \<noteq> []"
    and "seedDefaultUsersIfEmpty R H svc = (n, svc1)"
  shows "n = 0 \<and> users (as_users svc1) = users (as_users svc)"
proof -
  obtain c st where c: "repo_count R (as_users svc) = (c, st)" by fastforce
  from count [OF assms(1) c] assms(2-4) c show ?thesis by (auto simp: seedDefaultUsersIfEmpty_def)
qed

end

section \<open>Properties\<close>

definition signed_out :: "users_db \<Rightarrow> SqliteUserRepository AuthService" where
  "signed_out d = \<lparr>as_users = opened d, as_session = \<lparr>current = None, changes = 0\<rparr>, as_audit = Some []\<rparr>"

text \<open>A hasher that keeps the plaintext, and the stores of the concrete inputs below.\<close>

definition plain_hasher :: PasswordHasher where
  "plain_hasher = \<lparr>pw_hash = Some, pw_verify = \<lambda>p h. Some (p = h)\<rparr>"

lemma signed_out_simps [simp]:
  "as_users (signed_out d) = opened d" "as_session (signed_out d) = \<lparr>current = None, changes = 0\<rparr>" "as_audit (signed_out d) = Some []"
  by (simp_all add: signed_out_def)

text \<open>
  C12. Login is exact. Whatever the engine does, a login succeeds only for an enabled stored account whose
  name matches up to case and whose hash the password verifies, and then the session holds that account;
  every other outcome leaves the session alone, and no login changes a stored row. On a working engine the
  outcome is a function of the stored account: a disabled account answers AccountDisabled for every
  password, and an unknown name answers like a wrong password.
\<close>

theorem login_exact:
  assumes "sur_ok (as_users svc)" and "login (sqlite_repository env) H svc name password = (res, svc')"
  shows "sur_users (as_users svc') = sur_users (as_users svc) \<and>
    (if res = Success then (\<exists>u\<in>set (sur_users (as_users svc)). same_name name u \<and> enabled u \<and>
         pw_verify H password (passwordHash u) = Some True \<and> currentUser (as_session svc') = Some u)
     else as_session svc' = as_session svc) \<and>
    (sur_live env 0 (as_users svc) \<longrightarrow>
       res = (case find (same_name name) (sur_users (as_users svc)) of
          None \<Rightarrow> InvalidCredentials
        | Some u \<Rightarrow> if \<not> enabled u then AccountDisabled
            else if pw_verify H password (passwordHash u) = Some True then Success
            else if pw_verify H password (passwordHash u) = Some False then InvalidCredentials else HasherFailure))"
proof -
  have v: "verdict H password found = (case found of None \<Rightarrow> InvalidCredentials
        | Some u \<Rightarrow> if \<not> enabled u then AccountDisabled
            else if pw_verify H password (passwordHash u) = Some True then Success
            else if pw_verify H password (passwordHash u) = Some False then InvalidCredentials else HasherFailure)" for found
    by (auto simp: verdict_def split: option.splits bool.splits)
  from sur.login_decision [OF assms] find_Some_mem show ?thesis by (fastforce simp: v [symmetric] split: if_splits)
qed

theorem login_exact_witness:
  "\<exists>svc'. login (sqlite_repository healthy_env) plain_hasher (signed_out empty_v2) ''bob'' ''pw'' = (InvalidCredentials, svc') \<and>
     sur_users (as_users svc') = []"
proof -
  obtain res svc' where l: "login (sqlite_repository healthy_env) plain_hasher (signed_out empty_v2) ''bob'' ''pw'' = (res, svc')"
    by fastforce
  have "sur_live healthy_env 0 (opened empty_v2)" by (simp add: max_rowid_def)
  with login_exact [OF _ l] show ?thesis using l by (simp split: if_splits)
qed

text \<open>
  Every login attempt, successful or not, adds exactly one row to the audit trail: for the canonical
  name, with outcome SUCCESS exactly when the login succeeded; a logout adds one too, attributed to the
  user who was signed in, before the session is cleared.
\<close>

theorem authentication_audited_once:
  assumes "as_audit svc = Some rows" and "login R H svc name password = (res, svc')"
  shows "(\<exists>e. as_audit svc' = Some (rows @ [e]) \<and> ae_username e = canonicalUsername name \<and> ae_action e = ''LOGIN'' \<and>
      (ae_result e = kSuccess \<longleftrightarrow> res = Success)) \<and>
    (\<exists>e. as_audit (logout svc) = Some (rows @ [e]) \<and> ae_action e = ''LOGOUT'' \<and>
      (case currentUser (as_session svc) of None \<Rightarrow> True | Some u \<Rightarrow> ae_username e = username u \<and> ae_role e = roleName (role u))) \<and>
    currentUser (as_session (logout svc)) = None"
proof -
  obtain found st where f: "repo_findByUsername R (as_users svc) (canonicalUsername name) = (found, st)" by fastforce
  show ?thesis using login_shape [OF assms(2) f] assms(1) by (auto simp: logout_def Let_def split: option.splits)
qed

theorem authentication_audited_once_witness:
  "\<exists>res svc' e. login (sqlite_repository healthy_env) plain_hasher (signed_out empty_v2) ''Bob'' ''pw'' = (res, svc') \<and>
     as_audit svc' = Some [e] \<and> ae_username e = canonicalUsername ''Bob''"
proof -
  obtain res svc' where l: "login (sqlite_repository healthy_env) plain_hasher (signed_out empty_v2) ''Bob'' ''pw'' = (res, svc')"
    by fastforce
  from authentication_audited_once [OF _ l, of "[]"] l show ?thesis by auto
qed

text \<open>
  First boot: on an empty, working store and with a hasher that verifies what it hashed, seeding creates
  the three default accounts, each of which can then sign in with its password and gets its role; a second
  seeding creates nothing.
\<close>

theorem seeded_accounts_sign_in:
  assumes "sur_ok (as_users svc)" and "sur_live env 3 (as_users svc)" and "sur_users (as_users svc) = []"
    and "list_all (\<lambda>s. works_for H (se_password s)) kSeed"
    and seed: "seedDefaultUsersIfEmpty (sqlite_repository env) H svc = (n, svc1)"
  shows "n = 3 \<and>
    (\<forall>s\<in>set kSeed. \<exists>svc2 u. login (sqlite_repository env) H svc1 (se_username s) (se_password s) = (Success, svc2) \<and>
       currentUser (as_session svc2) = Some u \<and> role u = se_role s) \<and>
    fst (seedDefaultUsersIfEmpty (sqlite_repository env) H svc1) = 0"
proof -
  have three: "length kSeed = 3" by (simp add: kSeed_def)
  have "n = length kSeed \<and> sur_ok (as_users svc1) \<and> sur_live env 0 (as_users svc1) \<and>
      list_all2 (seeded_from H) kSeed (sur_users (as_users svc1))"
    by (rule sur.seed_empty [OF assms(1) _ assms(3) _ seed]) (use assms(2,4) three in \<open>simp_all add: list_all_iff\<close>)
  then have n: "n = length kSeed" and ok1: "sur_ok (as_users svc1)" "sur_live env 0 (as_users svc1)"
    and us: "list_all2 (seeded_from H) kSeed (sur_users (as_users svc1))" by auto
  have "\<exists>svc2 u. login (sqlite_repository env) H svc1 (se_username s) (se_password s) = (Success, svc2) \<and>
       currentUser (as_session svc2) = Some u \<and> role u = se_role s" if "s \<in> set kSeed" for s
  proof -
    from us that obtain v where v: "v \<in> set (sur_users (as_users svc1))" "seeded_from H s v"
      by (metis in_set_conv_nth list_all2_conv_all_nth)
    obtain res svc2 where l: "login (sqlite_repository env) H svc1 (se_username s) (se_password s) = (res, svc2)" by fastforce
    from sur.seeded_login [OF ok1 v l] l v show ?thesis by (auto simp: seeded_from_def)
  qed
  moreover have "sur_users (as_users svc1) \<noteq> []" using us by (auto simp: kSeed_def)
  then have "fst (seedDefaultUsersIfEmpty (sqlite_repository env) H svc1) = 0"
    using sur.seed_nonempty [OF ok1] by (metis prod.collapse)
  ultimately show ?thesis using n three by simp
qed

theorem seeded_accounts_sign_in_witness:
  "\<exists>svc1 svc2 u. seedDefaultUsersIfEmpty (sqlite_repository healthy_env) plain_hasher (signed_out empty_v2) = (3, svc1) \<and>
     login (sqlite_repository healthy_env) plain_hasher svc1 ''admin'' ''admin'' = (Success, svc2) \<and>
     currentUser (as_session svc2) = Some u \<and> role u = Admin"
proof -
  obtain n svc1 where s: "seedDefaultUsersIfEmpty (sqlite_repository healthy_env) plain_hasher (signed_out empty_v2) = (n, svc1)"
    by fastforce
  have "list_all (\<lambda>s. works_for plain_hasher (se_password s)) kSeed"
    by (simp add: kSeed_def works_for_def plain_hasher_def nul_free_def)
  from seeded_accounts_sign_in [OF _ _ _ this s] s show ?thesis by (auto simp: max_rowid_def kSeed_def)
qed

text \<open>
  Roles: every permission is monotone in the role, and the stored name of a role parses back to that
  role or, for a code outside the enumeration, to the least privileged one.
\<close>

theorem roles_degrade_safely:
  assumes "r \<le> s" and "can \<in> {canStartStop, canCalibrate, canResetSystem, canInjectFault, canEditProducts,
    canManageUsers, canViewAuditLog, canDismissAlerts}" and "can r"
  shows "can s \<and> parseRole (roleName r) = (if r \<le> Admin then r else Operator) \<and> parseRole (roleName r) \<le> r"
proof -
  have "can s" using assms by (auto simp: permission_defs intro: order_trans)
  moreover have "r \<le> Admin \<longleftrightarrow> r \<in> {Operator, Maintenance, Admin}"
  proof -
    have "role_code r \<le> 2 \<longleftrightarrow> role_code r = 0 \<or> role_code r = 1 \<or> role_code r = 2" by (simp add: word_le_nat_alt) unat_arith
    then show ?thesis by (cases r) (simp add: less_eq_Role_def role_defs)
  qed
  then have "parseRole (roleName r) = (if r \<le> Admin then r else Operator)"
    by (auto simp: parseRole_def roleName_def role_defs)
  moreover have "Operator \<le> r" by (simp add: less_eq_Role_def role_defs)
  ultimately show ?thesis by simp
qed

theorem roles_degrade_safely_witness:
  "canCalibrate Admin \<and> parseRole (roleName Maintenance) = Maintenance"
  using roles_degrade_safely [of Maintenance Admin canCalibrate]
  by (simp add: less_eq_Role_def role_defs canCalibrate_def)

end
