(* ===== verification/UsersPresenter.thy ===== *)
theory UsersPresenter
  imports SqliteUserRepository
begin

text \<open>
  \<^verbatim>\<open>presenter/UsersPresenter.cpp\<close>: the user-management facade, which adds policy, access control and the
  audit trail to the repository. Every operation is modelled with its audit rows, over any repository and
  hasher; the audit sink is the list of rows handed to it.

  The inductive predicate \<^verbatim>\<open>change\<close> is the abstract specification: what a signed-in user may do to the
  account table, by role. Every operation refines it (\<^verbatim>\<open>effect\<close>), through every storage failure, and the
  theorems follow from the specification: no privilege escalation, no lock-out of the signed-in account,
  a complete audit trail. The last theorem shows the one way an administrator still locks the program.
\<close>

section \<open>The presenter\<close>

datatype UsersStatus = Ok | Forbidden | DuplicateUsername | NotFound | ValidationFailed | SelfMutationRefused
  | WrongPassword | HasherFailure | StorageFailure

record 's UsersPresenter =
  up_users :: 's
  up_session :: Session
  up_audit :: "AuditEvent list"

definition kActionCreate :: string where "kActionCreate = ''CREATE''"
definition kActionUpdate :: string where "kActionUpdate = ''UPDATE''"
definition kActionDelete :: string where "kActionDelete = ''DELETE''"
definition kActionResetPassword :: string where "kActionResetPassword = ''RESET_PASSWORD''"
definition kActionChangePassword :: string where "kActionChangePassword = ''CHANGE_PASSWORD''"
definition kActionChangeAvatar :: string where "kActionChangeAvatar = ''CHANGE_AVATAR''"
definition kActionClearAvatar :: string where "kActionClearAvatar = ''CLEAR_AVATAR''"

definition kMinPasswordLen :: nat where "kMinPasswordLen = 8"
definition kMinUsernameLen :: nat where "kMinUsernameLen = 3"
definition kMaxUsernameLen :: nat where "kMaxUsernameLen = 32"
definition kMaxDisplayLen :: nat where "kMaxDisplayLen = 128"

definition isAllowedUsernameChar :: "char \<Rightarrow> bool" where
  "isAllowedUsernameChar c = (isalnum c \<or> c = CHR ''_'' \<or> c = CHR ''-'' \<or> c = CHR ''.'')"

definition isValidUsername :: "string \<Rightarrow> bool" where
  "isValidUsername s = (if length s < kMinUsernameLen \<or> length s > kMaxUsernameLen then False
     else if \<not> isalpha (hd s) then False else list_all isAllowedUsernameChar s)"

definition isValidPassword :: "string \<Rightarrow> bool" where
  "isValidPassword s = (length s \<ge> kMinPasswordLen)"

definition isValidDisplayName :: "string \<Rightarrow> bool" where
  "isValidDisplayName s = (length s \<le> kMaxDisplayLen)"

definition makeEvent :: "Session \<Rightarrow> string \<Rightarrow> string \<Rightarrow> bool \<Rightarrow> AuditEvent" where
  "makeEvent session action details success =
     \<lparr>ae_timestamp = [],
      ae_username = (case currentUser session of Some u \<Rightarrow> username u | None \<Rightarrow> ''unknown''),
      ae_role = (case currentUser session of Some u \<Rightarrow> roleName (role u) | None \<Rightarrow> ''UNKNOWN''),
      ae_category = kUser, ae_action = action, ae_details = details,
      ae_result = (if success then kSuccess else kFailure)\<rparr>"

text \<open>\<^verbatim>\<open>audit_.record(makeEvent(session_, action, details, success)); return status;\<close>\<close>

definition conclude :: "'s UsersPresenter \<Rightarrow> string \<Rightarrow> string \<Rightarrow> bool \<Rightarrow> UsersStatus \<Rightarrow> UsersStatus \<times> 's UsersPresenter" where
  "conclude p action details success status =
     (status, p\<lparr>up_audit := up_audit p @ [makeEvent (up_session p) action details success]\<rparr>)"

definition may_manage :: "User option \<Rightarrow> bool" where
  "may_manage me = (case me of None \<Rightarrow> False | Some u \<Rightarrow> canManageUsers (role u))"

definition list_users :: "'s UserRepository \<Rightarrow> 's UsersPresenter \<Rightarrow> User list \<times> 's UsersPresenter" where
  "list_users R p = (if \<not> may_manage (currentUser (up_session p)) then ([], p)
     else (case repo_listAll R (up_users p) of (us, st) \<Rightarrow> (us, p\<lparr>up_users := st\<rparr>)))"

definition up_getAvatar :: "'s UserRepository \<Rightarrow> 's UsersPresenter \<Rightarrow> int \<Rightarrow> Avatar option \<times> 's UsersPresenter" where
  "up_getAvatar R p i = (if \<not> isAuthenticated (up_session p) then (None, p)
     else (case repo_getAvatar R (up_users p) i of (a, st) \<Rightarrow> (a, p\<lparr>up_users := st\<rparr>)))"

definition up_create :: "'s UserRepository \<Rightarrow> PasswordHasher \<Rightarrow> 's UsersPresenter \<Rightarrow> string \<Rightarrow> string \<Rightarrow> Role \<Rightarrow> string
    \<Rightarrow> UsersStatus \<times> 's UsersPresenter" where
  "up_create R H p name password r display =
     (if \<not> may_manage (currentUser (up_session p))
      then conclude p kActionCreate (''attempted create username='' @ name) False Forbidden
      else if \<not> isValidUsername name \<or> \<not> isValidPassword password \<or> \<not> isValidDisplayName display
      then conclude p kActionCreate (''invalid input username='' @ name) False ValidationFailed
      else (let canon = canonicalUsername name in
        case pw_hash H password of
          None \<Rightarrow> conclude p kActionCreate (''hasher failure username='' @ canon) False HasherFailure
        | Some h \<Rightarrow>
            (case repo_create R (up_users p) (new_user\<lparr>username := canon, role := r, enabled := True, displayName := display, passwordHash := h\<rparr>) of
               (created, st) \<Rightarrow> let p = p\<lparr>up_users := st\<rparr> in
               case created of
                 None \<Rightarrow> conclude p kActionCreate (''duplicate username='' @ canon) False DuplicateUsername
               | Some c \<Rightarrow> conclude p kActionCreate
                   (''id='' @ int_str (userId c) @ '' username='' @ username c @ '' role='' @ roleName (role c)) True Ok)))"

text \<open>Re-read the own row and cache it in the session.\<close>

definition refresh_session :: "'s UserRepository \<Rightarrow> 's UsersPresenter \<Rightarrow> int \<Rightarrow> 's UsersPresenter" where
  "refresh_session R p i = (case repo_findById R (up_users p) i of (refreshed, st) \<Rightarrow>
     let p = p\<lparr>up_users := st\<rparr> in
     case refreshed of None \<Rightarrow> p | Some u \<Rightarrow> p\<lparr>up_session := setUser (up_session p) u\<rparr>)"

definition up_update :: "'s UserRepository \<Rightarrow> 's UsersPresenter \<Rightarrow> int \<Rightarrow> Role \<Rightarrow> string \<Rightarrow> bool
    \<Rightarrow> UsersStatus \<times> 's UsersPresenter" where
  "up_update R p i r display enable = (case currentUser (up_session p) of
     None \<Rightarrow> conclude p kActionUpdate (''attempted update id='' @ int_str i) False Forbidden
   | Some me \<Rightarrow>
      if \<not> canManageUsers (role me)
      then conclude p kActionUpdate (''attempted update id='' @ int_str i) False Forbidden
      else if \<not> isValidDisplayName display
      then conclude p kActionUpdate (''invalid input id='' @ int_str i) False ValidationFailed
      else (case repo_findById R (up_users p) i of (found, st) \<Rightarrow>
        let p = p\<lparr>up_users := st\<rparr> in
        case found of
          None \<Rightarrow> conclude p kActionUpdate (''not found id='' @ int_str i) False NotFound
        | Some target \<Rightarrow>
            if userId target = userId me \<and> \<not> enable
            then conclude p kActionUpdate (''self-disable refused id='' @ int_str i) False SelfMutationRefused
            else (let target = target\<lparr>role := r, displayName := display, enabled := enable\<rparr> in
              case repo_update R (up_users p) target of (done, st) \<Rightarrow>
              let p = p\<lparr>up_users := st\<rparr> in
              if \<not> done then conclude p kActionUpdate (''storage failure id='' @ int_str i) False StorageFailure
              else (let p = (if userId target = userId me then refresh_session R p (userId target) else p) in
                conclude p kActionUpdate
                  (''id='' @ int_str (userId target) @ '' username='' @ username target @ '' role='' @ roleName (role target)
                   @ '' enabled='' @ bool_str (enabled target)) True Ok))))"

definition up_remove :: "'s UserRepository \<Rightarrow> 's UsersPresenter \<Rightarrow> int \<Rightarrow> UsersStatus \<times> 's UsersPresenter" where
  "up_remove R p i = (case currentUser (up_session p) of
     None \<Rightarrow> conclude p kActionDelete (''attempted delete id='' @ int_str i) False Forbidden
   | Some me \<Rightarrow>
      if \<not> canManageUsers (role me)
      then conclude p kActionDelete (''attempted delete id='' @ int_str i) False Forbidden
      else if userId me = i
      then conclude p kActionDelete (''self-delete refused id='' @ int_str i) False SelfMutationRefused
      else (case repo_findById R (up_users p) i of (found, st) \<Rightarrow>
        let p = p\<lparr>up_users := st\<rparr> in
        case found of
          None \<Rightarrow> conclude p kActionDelete (''not found id='' @ int_str i) False NotFound
        | Some target \<Rightarrow>
            (case repo_remove R (up_users p) i of (done, st) \<Rightarrow>
              let p = p\<lparr>up_users := st\<rparr> in
              if \<not> done then conclude p kActionDelete (''storage failure id='' @ int_str i) False StorageFailure
              else conclude p kActionDelete
                  (''id='' @ int_str (userId target) @ '' username='' @ username target @ '' role='' @ roleName (role target)) True Ok)))"

definition resetPassword :: "'s UserRepository \<Rightarrow> PasswordHasher \<Rightarrow> 's UsersPresenter \<Rightarrow> int \<Rightarrow> string
    \<Rightarrow> UsersStatus \<times> 's UsersPresenter" where
  "resetPassword R H p i newPassword =
     (if \<not> may_manage (currentUser (up_session p))
      then conclude p kActionResetPassword (''attempted reset id='' @ int_str i) False Forbidden
      else if \<not> isValidPassword newPassword
      then conclude p kActionResetPassword (''invalid input id='' @ int_str i) False ValidationFailed
      else (case repo_findById R (up_users p) i of (found, st) \<Rightarrow>
        let p = p\<lparr>up_users := st\<rparr> in
        case found of
          None \<Rightarrow> conclude p kActionResetPassword (''not found id='' @ int_str i) False NotFound
        | Some target \<Rightarrow>
            (case pw_hash H newPassword of
               None \<Rightarrow> conclude p kActionResetPassword (''hasher failure id='' @ int_str i) False HasherFailure
             | Some h \<Rightarrow>
                (case repo_update R (up_users p) (target\<lparr>passwordHash := h\<rparr>) of (done, st) \<Rightarrow>
                  let p = p\<lparr>up_users := st\<rparr> in
                  if \<not> done then conclude p kActionResetPassword (''storage failure id='' @ int_str i) False StorageFailure
                  else conclude p kActionResetPassword
                      (''id='' @ int_str (userId target) @ '' username='' @ username target) True Ok))))"

definition changeOwnPassword :: "'s UserRepository \<Rightarrow> PasswordHasher \<Rightarrow> 's UsersPresenter \<Rightarrow> string \<Rightarrow> string
    \<Rightarrow> UsersStatus \<times> 's UsersPresenter" where
  "changeOwnPassword R H p oldPassword newPassword = (case currentUser (up_session p) of
     None \<Rightarrow> (Forbidden, p)
   | Some me \<Rightarrow>
      if \<not> isValidPassword newPassword
      then conclude p kActionChangePassword (''invalid input id='' @ int_str (userId me)) False ValidationFailed
      else (case repo_findById R (up_users p) (userId me) of (found, st) \<Rightarrow>
        let p = p\<lparr>up_users := st\<rparr> in
        case found of
          None \<Rightarrow> conclude p kActionChangePassword (''self vanished id='' @ int_str (userId me)) False NotFound
        | Some stored_user \<Rightarrow>
            (case pw_verify H oldPassword (passwordHash stored_user) of
               None \<Rightarrow> conclude p kActionChangePassword (''hasher failure id='' @ int_str (userId me)) False HasherFailure
             | Some oldOk \<Rightarrow>
                if \<not> oldOk
                then conclude p kActionChangePassword (''wrong old password id='' @ int_str (userId me)) False WrongPassword
                else (case pw_hash H newPassword of
                   None \<Rightarrow> conclude p kActionChangePassword (''hasher failure id='' @ int_str (userId me)) False HasherFailure
                 | Some h \<Rightarrow>
                    (case repo_update R (up_users p) (stored_user\<lparr>passwordHash := h\<rparr>) of (done, st) \<Rightarrow>
                      let p = p\<lparr>up_users := st\<rparr> in
                      if \<not> done
                      then conclude p kActionChangePassword (''storage failure id='' @ int_str (userId me)) False StorageFailure
                      else conclude p kActionChangePassword
                          (''id='' @ int_str (userId me) @ '' username='' @ username me) True Ok)))))"

definition setOwnAvatar :: "'s UserRepository \<Rightarrow> 's UsersPresenter \<Rightarrow> byte list \<Rightarrow> string \<Rightarrow> UsersStatus \<times> 's UsersPresenter" where
  "setOwnAvatar R p bytes mime = (case currentUser (up_session p) of
     None \<Rightarrow> (Forbidden, p)
   | Some me \<Rightarrow>
      (case repo_setAvatar R (up_users p) (userId me) bytes mime of (done, st) \<Rightarrow>
        let p = p\<lparr>up_users := st\<rparr> in
        if \<not> done
        then conclude p kActionChangeAvatar
               (''rejected id='' @ int_str (userId me) @ '' mime='' @ mime @ '' bytes='' @ nat_str (length bytes)) False ValidationFailed
        else conclude (refresh_session R p (userId me)) kActionChangeAvatar
               (''id='' @ int_str (userId me) @ '' mime='' @ mime @ '' bytes='' @ nat_str (length bytes)) True Ok))"

definition clearOwnAvatar :: "'s UserRepository \<Rightarrow> 's UsersPresenter \<Rightarrow> UsersStatus \<times> 's UsersPresenter" where
  "clearOwnAvatar R p = (case currentUser (up_session p) of
     None \<Rightarrow> (Forbidden, p)
   | Some me \<Rightarrow>
      (case repo_clearAvatar R (up_users p) (userId me) of (done, st) \<Rightarrow>
        let p = p\<lparr>up_users := st\<rparr> in
        if \<not> done then conclude p kActionClearAvatar (''storage failure id='' @ int_str (userId me)) False StorageFailure
        else conclude (refresh_session R p (userId me)) kActionClearAvatar
               (''id='' @ int_str (userId me) @ '' username='' @ username me) True Ok))"

fun statusMessage :: "UsersStatus \<Rightarrow> string" where
  "statusMessage Ok = ''OK''"
| "statusMessage Forbidden = ''Permission denied''"
| "statusMessage DuplicateUsername = ''Username already exists''"
| "statusMessage NotFound = ''User not found''"
| "statusMessage ValidationFailed = ''Invalid input''"
| "statusMessage SelfMutationRefused = ''Cannot perform this on your own account''"
| "statusMessage WrongPassword = ''Current password is incorrect''"
| "statusMessage HasherFailure = ''Password hashing failed''"
| "statusMessage StorageFailure = ''Storage layer refused the change''"

section \<open>What a user may do to the accounts\<close>

text \<open>
  \<^verbatim>\<open>change a m us us'\<close>: a signed-in user with id \<^verbatim>\<open>m\<close>, an administrator when \<^verbatim>\<open>a\<close> holds, may turn the table
  \<^verbatim>\<open>us\<close> into \<^verbatim>\<open>us'\<close>.
\<close>

inductive change :: "bool \<Rightarrow> int \<Rightarrow> User list \<Rightarrow> User list \<Rightarrow> bool" for a m us where
  keep: "change a m us us"
| add_account: "a \<Longrightarrow> find (same_name (username v)) us = None \<Longrightarrow> change a m us (us @ [v])"
| drop_account: "a \<Longrightarrow> i \<noteq> m \<Longrightarrow> change a m us (filter (\<lambda>x. \<not> has_id i x) us)"
| edit_account: "a \<Longrightarrow> userId u \<noteq> m \<or> enabled u \<Longrightarrow> change a m us (map (edited u t) us)"
| new_password: "a \<or> userId x = m \<Longrightarrow> find (has_id (userId x)) us = Some x \<Longrightarrow>
    change a m us (map (edited (x\<lparr>passwordHash := h\<rparr>) t) us)"
| own_picture: "change a m us (map (pictured m mime t) us)"

inductive_cases change_cases: "change a m us us'"

lemma edited_password:
  assumes "rows_wf us" and "find (has_id (userId x)) us = Some x" and "y \<in> set us"
  shows "role (edited (x\<lparr>passwordHash := h\<rparr>) t y) = role y \<and> enabled (edited (x\<lparr>passwordHash := h\<rparr>) t y) = enabled y"
proof (cases "userId y = userId x")
  case True
  then have "y = x" using assms find_Some_mem [OF assms(2)] by (auto intro: rows_wf_unique_id)
  then show ?thesis by (simp add: edited_def)
qed (simp add: edited_def)

lemma change_keeps_own:
  assumes "change a m us us'" and wf: "rows_wf us" and x: "x \<in> set us" "userId x = m" "enabled x"
  shows "\<exists>y\<in>set us'. userId y = m \<and> enabled y \<and> username y = username x"
  using assms(1)
proof cases
  case (edit_account u t)
  then have "enabled (edited u t x)" using x by (auto simp: edited_def)
  then show ?thesis using edit_account x by (intro bexI [of _ "edited u t x"]) auto
next
  case (new_password z h t)
  then show ?thesis using edited_password [OF wf new_password(3) x(1)] x by (intro bexI [of _ "edited (z\<lparr>passwordHash := h\<rparr>) t x"]) auto
next
  case (own_picture mime t)
  then show ?thesis using x by (intro bexI [of _ "pictured m mime t x"]) auto
qed (use x in \<open>auto simp: has_id_def\<close>)

definition privileges :: "User list \<Rightarrow> (int \<times> string \<times> Role \<times> bool) list" where
  "privileges us = map (\<lambda>u. (userId u, username u, role u, enabled u)) us"

lemma change_by_non_admin:
  assumes "change False m us us'" and wf: "rows_wf us"
  shows "privileges us' = privileges us \<and> filter (\<lambda>u. userId u \<noteq> m) us' = filter (\<lambda>u. userId u \<noteq> m) us"
  using assms(1)
proof cases
  case (new_password x h t)
  then have "privileges us' = privileges us"
    using edited_password [OF wf new_password(3)] by (simp add: privileges_def)
  moreover have "filter (\<lambda>u. userId u \<noteq> m) (map (edited (x\<lparr>passwordHash := h\<rparr>) t) us) = filter (\<lambda>u. userId u \<noteq> m) us"
    using new_password(2) by (induction us) (auto simp: edited_def)
  ultimately show ?thesis using new_password by simp
next
  case (own_picture mime t)
  moreover have "filter (\<lambda>u. userId u \<noteq> m) (map (pictured m mime t) us) = filter (\<lambda>u. userId u \<noteq> m) us"
    by (induction us) (auto simp: pictured_def)
  ultimately show ?thesis by (simp add: privileges_def)
qed auto

section \<open>Every operation stays within it\<close>

text \<open>
  \<^verbatim>\<open>effect\<close> of an operation that ended with a status: the table made a permitted change, the session is
  the old one or a fresh copy of the same account, exactly one audit row tells the outcome, and a failed
  operation changed nothing. Without a session nothing happens.
\<close>

definition effect :: "('s \<Rightarrow> User list) \<Rightarrow> ('s \<Rightarrow> bool) \<Rightarrow> 's UsersPresenter \<Rightarrow> string \<Rightarrow> UsersStatus \<times> 's UsersPresenter \<Rightarrow> bool" where
  "effect users ok p act res = (case res of (st, p') \<Rightarrow> ok (up_users p') \<and>
     (case currentUser (up_session p) of
        None \<Rightarrow> st = Forbidden \<and> users (up_users p') = users (up_users p) \<and> up_session p' = up_session p
      | Some me \<Rightarrow> change (canManageUsers (role me)) (userId me) (users (up_users p)) (users (up_users p')) \<and>
          (up_session p' = up_session p \<or>
            (\<exists>w\<in>set (users (up_users p')). userId w = userId me \<and> up_session p' = setUser (up_session p) w)) \<and>
          (\<exists>e. up_audit p' = up_audit p @ [e] \<and> ae_category e = kUser \<and> ae_action e = act \<and>
             ae_result e = (if st = Ok then kSuccess else kFailure)) \<and>
          (st = Ok \<or> users (up_users p') = users (up_users p) \<and> up_session p' = up_session p)))"

lemma makeEvent_simps [simp]:
  "ae_category (makeEvent s a d b) = kUser" "ae_action (makeEvent s a d b) = a"
  "ae_result (makeEvent s a d b) = (if b then kSuccess else kFailure)"
  by (simp_all add: makeEvent_def)

lemma effect_fail:
  assumes "ok (up_users p1)" and "users (up_users p1) = users (up_users p)" and "up_session p1 = up_session p"
    and "up_audit p1 = up_audit p" and "st \<noteq> Ok" and "currentUser (up_session p) = None \<Longrightarrow> st = Forbidden"
  shows "effect users ok p act (conclude p1 act d False st)"
  using assms by (auto simp: effect_def conclude_def keep split: option.splits)

lemma effect_done:
  assumes "ok (up_users p1)" and "currentUser (up_session p) = Some me"
    and "change (canManageUsers (role me)) (userId me) (users (up_users p)) (users (up_users p1))"
    and "up_audit p1 = up_audit p"
    and "up_session p1 = up_session p \<or>
      (\<exists>w\<in>set (users (up_users p1)). userId w = userId me \<and> up_session p1 = setUser (up_session p) w)"
  shows "effect users ok p act (conclude p1 act d True Ok)"
  using assms by (auto simp: effect_def conclude_def)

lemma may_manage_Some: "may_manage me \<longleftrightarrow> (\<exists>u. me = Some u \<and> canManageUsers (role u))"
  by (auto simp: may_manage_def split: option.splits)

lemma allowed_char_nul: "isAllowedUsernameChar c \<Longrightarrow> c \<noteq> CHR 0x00"
  by (auto simp: isAllowedUsernameChar_def isalnum_def isalpha_def ch_code_def)

lemma valid_username_plain: "isValidUsername s \<Longrightarrow> nul_free (canonicalUsername s)"
  using allowed_char_nul by (auto simp: isValidUsername_def nul_free_def canonicalUsername_def list_all_iff split: if_splits)

context user_store
begin

lemma find_id_same: "ok s \<Longrightarrow> repo_findById R s i = (res, s') \<Longrightarrow> ok s' \<and> users s' = users s"
  using find_id by blast

lemma find_id_hit:
  "ok s \<Longrightarrow> repo_findById R s i = (Some u, s') \<Longrightarrow> find (has_id i) (users s) = Some u \<and> u \<in> set (users s) \<and> userId u = i"
  using find_id [of s i "Some u" s'] find_Some_mem [of "has_id i" "users s" u] by (auto simp: has_id_def)

lemma refresh_facts:
  assumes "ok (up_users p)"
  shows "ok (up_users (refresh_session R p i)) \<and> users (up_users (refresh_session R p i)) = users (up_users p) \<and>
    up_audit (refresh_session R p i) = up_audit p \<and>
    (up_session (refresh_session R p i) = up_session p \<or>
      (\<exists>w\<in>set (users (up_users p)). userId w = i \<and> up_session (refresh_session R p i) = setUser (up_session p) w))"
proof -
  obtain found st where f: "repo_findById R (up_users p) i = (found, st)" by fastforce
  note same = find_id_same [OF assms f]
  show ?thesis
  proof (cases found)
    case (Some w)
    then show ?thesis using find_id_hit [OF assms f [unfolded Some]] same by (auto simp: refresh_session_def f Let_def)
  qed (use same in \<open>auto simp: refresh_session_def f Let_def\<close>)
qed

lemma up_create_effect: "ok (up_users p) \<Longrightarrow> effect users ok p kActionCreate (up_create R H p n pw r d)"
proof (cases "may_manage (currentUser (up_session p)) \<and> isValidUsername n \<and> isValidPassword pw \<and> isValidDisplayName d \<and> pw_hash H pw \<noteq> None")
  case True
  assume o: "ok (up_users p)"
  from True obtain me h where me: "currentUser (up_session p) = Some me" "canManageUsers (role me)" and h: "pw_hash H pw = Some h"
    by (auto simp: may_manage_Some)
  let ?u = "new_user\<lparr>username := canonicalUsername n, role := r, enabled := True, displayName := d, passwordHash := h\<rparr>"
  obtain res st where c: "repo_create R (up_users p) ?u = (res, st)" by fastforce
  have nf: "nul_free (username ?u)" using True valid_username_plain by simp
  note law = create [OF o nf c]
  show ?thesis
  proof (cases res)
    case None
    then show ?thesis using True me h c law by (auto simp: up_create_def Let_def may_manage_Some intro: effect_fail)
  next
    case (Some v)
    have "effect users ok p kActionCreate (conclude (p\<lparr>up_users := st\<rparr>) kActionCreate x True Ok)" for x
      by (rule effect_done) (use law Some me in \<open>auto simp: same_account_def intro!: add_account\<close>)
    then show ?thesis using True me h c Some by (auto simp: up_create_def Let_def may_manage_Some)
  qed
qed (auto simp: up_create_def Let_def may_manage_Some intro: effect_fail split: option.splits)

end

context user_store
begin

text \<open>An update of a row that was just read, whatever the storage answers.\<close>

lemma update_after_find:
  assumes "ok s" and "repo_findById R s i = (Some x, s1)" and "repo_update R s1 u = (b, s2)"
  shows "ok s2 \<and> (if b then (\<exists>t. users s2 = map (edited u t) (users s)) else users s2 = users s)"
  using find_id_same [OF assms(1,2)] update [of s1 u b s2] assms(3) by (auto split: if_splits)

lemma up_update_effect:
  assumes o: "ok (up_users p)"
  shows "effect users ok p kActionUpdate (up_update R p i r d en)"
proof (cases "\<exists>me. currentUser (up_session p) = Some me \<and> canManageUsers (role me) \<and> isValidDisplayName d")
  case True
  then obtain me where me: "currentUser (up_session p) = Some me" "canManageUsers (role me)" "isValidDisplayName d" by blast
  obtain found s1 where f: "repo_findById R (up_users p) i = (found, s1)" by fastforce
  note same = find_id_same [OF o f]
  show ?thesis
  proof (cases found)
    case (Some x)
    let ?u = "x\<lparr>role := r, displayName := d, enabled := en\<rparr>"
    obtain b s2 where u: "repo_update R s1 ?u = (b, s2)" by fastforce
    note upd = update_after_find [OF o f [unfolded Some] u]
    define p2 where "p2 = (if userId x = userId me then refresh_session R (p\<lparr>up_users := s2\<rparr>) (userId x) else p\<lparr>up_users := s2\<rparr>)"
    have p2: "ok (up_users p2) \<and> users (up_users p2) = users s2 \<and> up_audit p2 = up_audit p \<and>
        (up_session p2 = up_session p \<or> (\<exists>w\<in>set (users s2). userId w = userId me \<and> up_session p2 = setUser (up_session p) w))"
      using refresh_facts [of "p\<lparr>up_users := s2\<rparr>" "userId x"] upd by (auto simp: p2_def)
    have "effect users ok p kActionUpdate (conclude p2 kActionUpdate y True Ok)" if b: "b" and en: "userId x \<noteq> userId me \<or> en" for y
    proof -
      obtain t where "users s2 = map (edited ?u t) (users (up_users p))" using upd b by auto
      moreover have "change True (userId me) (users (up_users p)) (map (edited ?u t) (users (up_users p)))"
        by (rule edit_account) (use en in simp_all)
      ultimately show ?thesis by (intro effect_done [OF _ me(1)]) (use p2 me in auto)
    qed
    moreover have "effect users ok p kActionUpdate (conclude (p\<lparr>up_users := s2\<rparr>) kActionUpdate y False StorageFailure)" if "\<not> b" for y
      by (rule effect_fail) (use upd that me in auto)
    moreover have "effect users ok p kActionUpdate (conclude (p\<lparr>up_users := s1\<rparr>) kActionUpdate y False SelfMutationRefused)" for y
      by (rule effect_fail) (use same me in auto)
    ultimately show ?thesis using me f Some u by (auto simp: up_update_def Let_def p2_def)
  qed (use me f same in \<open>auto simp: up_update_def Let_def intro!: effect_fail\<close>)
qed (auto simp: up_update_def o intro!: effect_fail split: option.splits)

lemma up_remove_effect:
  assumes o: "ok (up_users p)"
  shows "effect users ok p kActionDelete (up_remove R p i)"
proof (cases "\<exists>me. currentUser (up_session p) = Some me \<and> canManageUsers (role me) \<and> userId me \<noteq> i")
  case True
  then obtain me where me: "currentUser (up_session p) = Some me" "canManageUsers (role me)" "userId me \<noteq> i" by blast
  obtain found s1 where f: "repo_findById R (up_users p) i = (found, s1)" by fastforce
  obtain b s2 where u: "repo_remove R s1 i = (b, s2)" by fastforce
  note same = find_id_same [OF o f] and rem = remove [OF conjunct1 [OF find_id_same [OF o f]] u]
  have "effect users ok p kActionDelete (conclude (p\<lparr>up_users := s2\<rparr>) kActionDelete y True Ok)" if "b" for y
    by (rule effect_done) (use me same rem that in \<open>auto intro!: drop_account\<close>)
  then show ?thesis using me f u same rem
    by (cases found; cases b) (auto simp: up_remove_def Let_def intro!: effect_fail)
qed (auto simp: up_remove_def o intro!: effect_fail split: option.splits)

lemma password_effect:
  assumes "ok (up_users p)" and "currentUser (up_session p) = Some me" and "canManageUsers (role me) \<or> i = userId me"
    and f: "repo_findById R (up_users p) i = (Some x, s1)" and "repo_update R s1 (x\<lparr>passwordHash := h\<rparr>) = (True, s2)"
  shows "effect users ok p act (conclude (p\<lparr>up_users := s2\<rparr>) act y True Ok)"
proof -
  note hit = find_id_hit [OF assms(1) f]
  from update_after_find [OF assms(1) f assms(5)] obtain t where s2: "ok s2" "users s2 = map (edited (x\<lparr>passwordHash := h\<rparr>) t) (users (up_users p))"
    by auto
  have "change (canManageUsers (role me)) (userId me) (users (up_users p)) (map (edited (x\<lparr>passwordHash := h\<rparr>) t) (users (up_users p)))"
    by (rule new_password) (use assms(3) hit in auto)
  then show ?thesis by (intro effect_done [OF _ assms(2)]) (use s2 in auto)
qed

lemma resetPassword_effect:
  assumes o: "ok (up_users p)"
  shows "effect users ok p kActionResetPassword (resetPassword R H p i pw)"
proof (cases "may_manage (currentUser (up_session p)) \<and> isValidPassword pw")
  case True
  then obtain me where me: "currentUser (up_session p) = Some me" "canManageUsers (role me)" by (auto simp: may_manage_Some)
  obtain found s1 where f: "repo_findById R (up_users p) i = (found, s1)" by fastforce
  note same = find_id_same [OF o f]
  show ?thesis
  proof (cases "found \<noteq> None \<and> pw_hash H pw \<noteq> None")
    case hashed: True
    then obtain x h where x: "found = Some x" "pw_hash H pw = Some h" by auto
    obtain b s2 where u: "repo_update R s1 (x\<lparr>passwordHash := h\<rparr>) = (b, s2)" by fastforce
    note upd = update_after_find [OF o f [unfolded x] u]
    show ?thesis using True me f x u upd password_effect [OF o me(1) _ f [unfolded x], of h s2]
      by (cases b) (auto simp: resetPassword_def Let_def may_manage_Some intro!: effect_fail)
  qed (use True me f same in \<open>auto simp: resetPassword_def Let_def may_manage_Some intro!: effect_fail split: option.splits\<close>)
qed (auto simp: resetPassword_def may_manage_Some o intro!: effect_fail)

lemma changeOwnPassword_effect:
  assumes o: "ok (up_users p)"
  shows "effect users ok p kActionChangePassword (changeOwnPassword R H p old new)"
proof (cases "currentUser (up_session p)")
  case (Some me)
  obtain found s1 where f: "repo_findById R (up_users p) (userId me) = (found, s1)" by fastforce
  note same = find_id_same [OF o f]
  show ?thesis
  proof (cases "isValidPassword new \<and> found \<noteq> None \<and> pw_hash H new \<noteq> None")
    case True
    then obtain x h where x: "found = Some x" "pw_hash H new = Some h" by auto
    obtain b s2 where u: "repo_update R s1 (x\<lparr>passwordHash := h\<rparr>) = (b, s2)" by fastforce
    note upd = update_after_find [OF o f [unfolded x] u]
    show ?thesis using True Some f x u upd same password_effect [OF o Some _ f [unfolded x], of h s2]
      by (cases b) (auto simp: changeOwnPassword_def Let_def intro!: effect_fail split: option.splits)
  qed (use Some f same o in \<open>auto simp: changeOwnPassword_def Let_def intro!: effect_fail split: option.splits\<close>)
qed (simp add: changeOwnPassword_def effect_def o)

lemma picture_effect:
  assumes "currentUser (up_session p) = Some me" and "ok s" and "users s = map (pictured (userId me) mime t) (users (up_users p))"
  shows "effect users ok p act (conclude (refresh_session R (p\<lparr>up_users := s\<rparr>) (userId me)) act y True Ok)"
  by (rule effect_done [OF _ assms(1)])
    (use refresh_facts [of "p\<lparr>up_users := s\<rparr>" "userId me"] assms own_picture in auto)

lemma setOwnAvatar_effect:
  assumes o: "ok (up_users p)"
  shows "effect users ok p kActionChangeAvatar (setOwnAvatar R p bytes mime)"
proof (cases "currentUser (up_session p)")
  case (Some me)
  obtain b s where a: "repo_setAvatar R (up_users p) (userId me) bytes mime = (b, s)" by fastforce
  show ?thesis using set_avatar [OF o a] Some a
    by (cases b) (auto simp: setOwnAvatar_def Let_def intro!: effect_fail picture_effect)
qed (simp add: setOwnAvatar_def effect_def o)

lemma clearOwnAvatar_effect:
  assumes o: "ok (up_users p)"
  shows "effect users ok p kActionClearAvatar (clearOwnAvatar R p)"
proof (cases "currentUser (up_session p)")
  case (Some me)
  obtain b s where a: "repo_clearAvatar R (up_users p) (userId me) = (b, s)" by fastforce
  show ?thesis using clear_avatar [OF o a] Some a
    by (cases b) (auto simp: clearOwnAvatar_def Let_def intro!: effect_fail picture_effect)
qed (simp add: clearOwnAvatar_def effect_def o)

end

section \<open>Calls on the SQLite repository\<close>

datatype up_call = UCreate PasswordHasher string string Role string | UUpdate int Role string bool | URemove int
  | UResetPassword PasswordHasher int string | UChangeOwnPassword PasswordHasher string string
  | USetOwnAvatar "byte list" string | UClearOwnAvatar

fun up_do :: "sqlite_env \<Rightarrow> SqliteUserRepository UsersPresenter \<Rightarrow> up_call \<Rightarrow> UsersStatus \<times> SqliteUserRepository UsersPresenter" where
  "up_do env p (UCreate H n pw r d) = up_create (sqlite_repository env) H p n pw r d"
| "up_do env p (UUpdate i r d en) = up_update (sqlite_repository env) p i r d en"
| "up_do env p (URemove i) = up_remove (sqlite_repository env) p i"
| "up_do env p (UResetPassword H i pw) = resetPassword (sqlite_repository env) H p i pw"
| "up_do env p (UChangeOwnPassword H old new) = changeOwnPassword (sqlite_repository env) H p old new"
| "up_do env p (USetOwnAvatar bytes mime) = setOwnAvatar (sqlite_repository env) p bytes mime"
| "up_do env p UClearOwnAvatar = clearOwnAvatar (sqlite_repository env) p"

fun action_of :: "up_call \<Rightarrow> string" where
  "action_of (UCreate _ _ _ _ _) = kActionCreate"
| "action_of (UUpdate _ _ _ _) = kActionUpdate"
| "action_of (URemove _) = kActionDelete"
| "action_of (UResetPassword _ _ _) = kActionResetPassword"
| "action_of (UChangeOwnPassword _ _ _) = kActionChangePassword"
| "action_of (USetOwnAvatar _ _) = kActionChangeAvatar"
| "action_of UClearOwnAvatar = kActionClearAvatar"

abbreviation accounts :: "SqliteUserRepository UsersPresenter \<Rightarrow> User list" where
  "accounts p \<equiv> sur_users (up_users p)"

abbreviation actor :: "SqliteUserRepository UsersPresenter \<Rightarrow> User option" where
  "actor p \<equiv> currentUser (up_session p)"

lemma up_do_effect: "sur_ok (up_users p) \<Longrightarrow> effect sur_users sur_ok p (action_of c) (up_do env p c)"
  by (cases c) (simp_all add: sur.up_create_effect sur.up_update_effect sur.up_remove_effect sur.resetPassword_effect
      sur.changeOwnPassword_effect sur.setOwnAvatar_effect sur.clearOwnAvatar_effect)

lemma up_do_facts:
  assumes "sur_ok (up_users p)" and "actor p = Some me" and "up_do env p c = (st, p')"
  shows "sur_ok (up_users p')" and "change (canManageUsers (role me)) (userId me) (accounts p) (accounts p')"
    and "up_session p' = up_session p \<or> (\<exists>w\<in>set (accounts p'). userId w = userId me \<and> actor p' = Some w)"
    and "\<exists>e. up_audit p' = up_audit p @ [e] \<and> ae_category e = kUser \<and> ae_action e = action_of c \<and>
       ae_result e = (if st = Ok then kSuccess else kFailure)"
    and "st = Ok \<or> accounts p' = accounts p \<and> up_session p' = up_session p"
  using up_do_effect [OF assms(1), of c env] assms(2,3) by (auto simp: effect_def)

lemma up_do_no_session:
  "sur_ok (up_users p) \<Longrightarrow> actor p = None \<Longrightarrow> up_do env p c = (st, p') \<Longrightarrow>
   sur_ok (up_users p') \<and> st = Forbidden \<and> accounts p' = accounts p \<and> up_session p' = up_session p"
  using up_do_effect [of p c env] by (simp add: effect_def)

definition signed_in :: "int \<Rightarrow> string \<Rightarrow> SqliteUserRepository UsersPresenter \<Rightarrow> bool" where
  "signed_in m n p = (sur_ok (up_users p) \<and> (\<exists>me. actor p = Some me \<and> userId me = m) \<and>
     (\<exists>x\<in>set (accounts p). userId x = m \<and> enabled x \<and> username x = n))"

lemma signed_in_step: "signed_in m n p \<Longrightarrow> signed_in m n (snd (up_do env p c))"
proof -
  assume s: "signed_in m n p"
  then obtain me x where me: "actor p = Some me" "userId me = m" and x: "x \<in> set (accounts p)" "userId x = m" "enabled x" "username x = n"
    and o: "sur_ok (up_users p)" by (auto simp: signed_in_def)
  obtain st p' where d: "up_do env p c = (st, p')" by fastforce
  note facts = up_do_facts [OF o me(1) d]
  from change_keeps_own [OF facts(2) sur_wf [OF o] x(1)] me x show ?thesis
    using facts(1,3) d by (auto simp: signed_in_def)
qed

interpretation signed_in_calls: invariant_machine "\<lambda>p c. snd (up_do env p c)" "signed_in m n" for env m n
  by unfold_locales (rule signed_in_step)

definition no_manager :: "SqliteUserRepository UsersPresenter \<Rightarrow> bool" where
  "no_manager p = (sur_ok (up_users p) \<and> list_all (\<lambda>x. \<not> canManageUsers (role x)) (accounts p) \<and> \<not> may_manage (actor p))"

lemma privileges_roles: "privileges us = privileges vs \<Longrightarrow> role ` set us = role ` set vs"
proof -
  assume "privileges us = privileges vs"
  then have "map (\<lambda>(_, _, r, _). r) (privileges us) = map (\<lambda>(_, _, r, _). r) (privileges vs)" by simp
  then have "map role us = map role vs" by (simp add: privileges_def comp_def)
  then show ?thesis by (metis list.set_map)
qed

lemma no_manager_step: "no_manager p \<Longrightarrow> no_manager (snd (up_do env p c))"
proof -
  assume n: "no_manager p"
  obtain st p' where d: "up_do env p c = (st, p')" by fastforce
  have o: "sur_ok (up_users p)" using n by (simp add: no_manager_def)
  show ?thesis
  proof (cases "actor p")
    case None
    then show ?thesis using up_do_no_session [OF o None d] n d by (simp add: no_manager_def)
  next
    case (Some me)
    note facts = up_do_facts [OF o Some d]
    have "privileges (accounts p') = privileges (accounts p)"
      using change_by_non_admin [OF _ sur_wf [OF o]] facts(2) n Some by (simp add: no_manager_def may_manage_def)
    from privileges_roles [OF this] have r: "list_all (\<lambda>x. \<not> canManageUsers (role x)) (accounts p')"
      using n by (auto simp: no_manager_def list_all_iff) (metis (no_types) image_iff)
    then show ?thesis using facts(1,3) n d by (auto simp: no_manager_def may_manage_Some list_all_iff)
  qed
qed

interpretation locked_calls: invariant_machine "\<lambda>p c. snd (up_do env p c)" no_manager for env
  by unfold_locales (rule no_manager_step)

section \<open>Properties\<close>

definition demo_row :: "int \<Rightarrow> string \<Rightarrow> Role \<Rightarrow> users_row" where
  "demo_row i n r = \<lparr>r_id = i, r_username = n, r_password_hash = ''h'', r_role = uint (role_code r), r_enabled = 1,
     r_created_at = ''t'', r_display_name = None, r_avatar_mime = None, r_avatar_blob = None, r_updated_at = None\<rparr>"

definition demo_db :: users_db where
  "demo_db = \<lparr>user_version = 2, columns = kAllColumns,
     db_rows = [demo_row 1 ''admin'' Admin, demo_row 2 ''op'' Operator], seq = 2\<rparr>"

text \<open>The demo table with one of its accounts signed in.\<close>

definition demo :: "nat \<Rightarrow> SqliteUserRepository UsersPresenter" where
  "demo k = \<lparr>up_users = opened demo_db, up_session = \<lparr>current = Some (extractUser (db_rows demo_db ! k)), changes = 0\<rparr>, up_audit = []\<rparr>"

lemma demo_simps [simp]:
  "sur_ok (up_users (demo k))" "accounts (demo k) = [extractUser (demo_row 1 ''admin'' Admin), extractUser (demo_row 2 ''op'' Operator)]"
  "actor (demo 0) = Some (extractUser (demo_row 1 ''admin'' Admin))" "actor (demo 1) = Some (extractUser (demo_row 2 ''op'' Operator))"
  "up_audit (demo k) = []" "sur_live healthy_env 0 (up_users (demo k))"
  by (simp_all add: demo_def opened_def demo_db_def sur_ok_def table_ok_def sur_users_def demo_row_def nul_free_def currentUser_def
      sur_live_def max_rowid_def tolower_def ch_code_def)

lemma demo_row_simps [simp]:
  "role (extractUser (demo_row i n r)) = r" "enabled (extractUser (demo_row i n r))" "r_id (demo_row i n r) = i"
  by (simp_all add: extractUser_def demo_row_def)

text \<open>
  C13. The policy is refined: whatever call a signed-in user makes and whatever the storage engine does, the
  account table changes only as \<^verbatim>\<open>change\<close> allows that user, a call that does not answer Ok changes neither
  table nor session, and the session stays with the same account.
\<close>

theorem calls_refine_account_policy:
  assumes "sur_ok (up_users p)" and "actor p = Some me" and "up_do env p c = (st, p')"
  shows "change (canManageUsers (role me)) (userId me) (accounts p) (accounts p') \<and>
    (st = Ok \<or> accounts p' = accounts p \<and> up_session p' = up_session p) \<and>
    (\<exists>me'. actor p' = Some me' \<and> userId me' = userId me)"
  using up_do_facts [OF assms] assms(2) by auto

theorem calls_refine_account_policy_witness:
  "\<exists>st p'. up_do healthy_env (demo 0) (URemove 2) = (st, p') \<and>
     change True 1 (accounts (demo 0)) (accounts p')"
proof -
  obtain st p' where d: "up_do healthy_env (demo 0) (URemove 2) = (st, p')" by fastforce
  have "canManageUsers Admin" by (simp add: canManageUsers_def)
  with calls_refine_account_policy [OF demo_simps(1,3) d] d show ?thesis by auto
qed

text \<open>
  C14. No privilege escalation: a call by a user without the administrator role leaves every account's id,
  name, role and enabled flag as they were, and every row of another user untouched; without a session no
  row changes at all.
\<close>

theorem no_privilege_escalation:
  assumes "sur_ok (up_users p)" and "\<not> may_manage (actor p)" and "up_do env p c = (st, p')"
  shows "privileges (accounts p') = privileges (accounts p) \<and>
    (case actor p of None \<Rightarrow> accounts p' = accounts p
     | Some me \<Rightarrow> filter (\<lambda>u. userId u \<noteq> userId me) (accounts p') = filter (\<lambda>u. userId u \<noteq> userId me) (accounts p))"
proof (cases "actor p")
  case None
  then show ?thesis using up_do_no_session [OF assms(1) None assms(3)] by simp
next
  case (Some me)
  then have "change False (userId me) (accounts p) (accounts p')"
    using up_do_facts(2) [OF assms(1) Some assms(3)] assms(2) by (simp add: may_manage_def)
  from change_by_non_admin [OF this sur_wf [OF assms(1)]] Some show ?thesis by simp
qed

theorem no_privilege_escalation_witness:
  "\<exists>st p'. up_do healthy_env (demo 1) (UUpdate 2 Admin [] True) = (st, p') \<and> privileges (accounts p') = privileges (accounts (demo 1))"
proof -
  obtain st p' where d: "up_do healthy_env (demo 1) (UUpdate 2 Admin [] True) = (st, p')" by fastforce
  have "\<not> may_manage (actor (demo 1))"
    by (simp only: demo_simps) (simp add: may_manage_def canManageUsers_def less_eq_Role_def role_defs)
  from no_privilege_escalation [OF demo_simps(1) this d] d show ?thesis by blast
qed

text \<open>
  C15. The signed-in account survives: through any sequence of calls, on an engine that may fail at any point,
  the account the session belongs to is neither deleted nor disabled nor renamed, and the session stays its.
\<close>

theorem signed_in_account_survives:
  assumes "sur_ok (up_users p)" and "actor p = Some me" and "x \<in> set (accounts p)" and "userId x = userId me" and "enabled x"
  shows "\<exists>me' y. actor (foldl (\<lambda>p c. snd (up_do env p c)) p cs) = Some me' \<and> userId me' = userId me \<and>
    y \<in> set (accounts (foldl (\<lambda>p c. snd (up_do env p c)) p cs)) \<and> userId y = userId me \<and> enabled y \<and> username y = username x"
proof -
  have "signed_in (userId me) (username x) p" using assms by (auto simp: signed_in_def)
  from signed_in_calls.all_ops.inv_run [OF this, of cs env] show ?thesis by (auto simp: signed_in_def)
qed

theorem signed_in_account_survives_witness:
  "\<exists>y. y \<in> set (accounts (foldl (\<lambda>p c. snd (up_do healthy_env p c)) (demo 0) [URemove 1, UUpdate 1 Admin [] False])) \<and>
     userId y = 1 \<and> enabled y"
  using signed_in_account_survives [OF demo_simps(1,3), of "extractUser (demo_row 1 ''admin'' Admin)" "healthy_env"
      "[URemove 1, UUpdate 1 Admin [] False]"] by auto

text \<open>
  The audit trail is complete: every call of a signed-in user, allowed or refused, successful or not, adds
  exactly one USER row with the verb of the call, and its outcome is SUCCESS exactly when the call answers Ok.
\<close>

theorem user_calls_audited_once:
  assumes "sur_ok (up_users p)" and "actor p = Some me" and "up_do env p c = (st, p')"
  shows "\<exists>e. up_audit p' = up_audit p @ [e] \<and> ae_category e = kUser \<and> ae_action e = action_of c \<and>
    (ae_result e = kSuccess \<longleftrightarrow> st = Ok)"
  using up_do_facts(4) [OF assms] by auto

theorem user_calls_audited_once_witness:
  "\<exists>st p' e. up_do healthy_env (demo 1) (URemove 1) = (st, p') \<and> up_audit p' = [e] \<and> ae_action e = ''DELETE''"
proof -
  obtain st p' where d: "up_do healthy_env (demo 1) (URemove 1) = (st, p')" by fastforce
  from user_calls_audited_once [OF demo_simps(1,4) d] d show ?thesis by (auto simp: kActionDelete_def)
qed

context user_store
begin

text \<open>On a live store an administrator's edit of the own row succeeds and the session takes the new row.\<close>

lemma update_self_live:
  assumes o: "ok (up_users p)" and l: "live k (up_users p)" and me: "currentUser (up_session p) = Some me" "canManageUsers (role me)"
    and x: "x \<in> set (users (up_users p))" "userId x = userId me" and d: "isValidDisplayName d"
  shows "\<exists>p' t. up_update R p (userId me) r d True = (Ok, p') \<and> ok (up_users p') \<and>
    users (up_users p') = map (edited (x\<lparr>role := r, displayName := d, enabled := True\<rparr>) t) (users (up_users p)) \<and>
    currentUser (up_session p') = Some (edited (x\<lparr>role := r, displayName := d, enabled := True\<rparr>) t x)"
proof -
  let ?u = "x\<lparr>role := r, displayName := d, enabled := True\<rparr>"
  obtain res s1 where f: "repo_findById R (up_users p) (userId me) = (res, s1)" by fastforce
  have own: "find (has_id (userId me)) (users (up_users p)) = Some x" using find_id_of_member [OF wf [OF o] x(1)] x(2) by simp
  note f1 = find_id [OF o f]
  have s1: "ok s1" "live k s1" "users s1 = users (up_users p)" "res = Some x" using f1 l own by auto
  obtain b s2 where u: "repo_update R s1 ?u = (b, s2)" by fastforce
  note u1 = update [OF s1(1) u]
  have b: "b" using u1 s1 own x(2) by auto
  with u1 s1 have "\<exists>t. users s2 = map (edited ?u t) (users (up_users p))" by simp
  then obtain t where "users s2 = map (edited ?u t) (users (up_users p))" ..
  with u1 s1 have s2: "ok s2" "live k s2" "users s2 = map (edited ?u t) (users (up_users p))" by blast+
  obtain res2 s3 where g: "repo_findById R s2 (userId me) = (res2, s3)" by fastforce
  have m2: "edited ?u t x \<in> set (users s2)" using x(1) s2(3) by simp
  have "find (has_id (userId me)) (users s2) = Some (edited ?u t x)"
    using find_id_of_member [OF wf [OF s2(1)] m2] x(2) by simp
  with find_id [OF s2(1) g] s2 have s3: "ok s3" "users s3 = users s2" "res2 = Some (edited ?u t x)" by auto
  have "up_update R p (userId me) r d True = conclude (p\<lparr>up_users := s3, up_session := setUser (up_session p) (edited ?u t x)\<rparr>) kActionUpdate
      (''id='' @ int_str (userId x) @ '' username='' @ username x @ '' role='' @ roleName r @ '' enabled='' @ bool_str True) True Ok"
    using me d f s1(4) u b g s3(3) x(2) by (simp add: up_update_def Let_def refresh_session_def)
  then show ?thesis using s3 s2(3) by (auto simp: conclude_def)
qed

end

text \<open>
  Self-demotion is not refused: the only administrator may give the own account the operator role.
  The call answers Ok, and from then on, through every sequence of calls, no account can manage users.
\<close>

theorem self_demotion_locks_out:
  assumes "sur_ok (up_users p)" and "sur_live env 0 (up_users p)" and "actor p = Some me" and "canManageUsers (role me)"
    and "x \<in> set (accounts p)" and "userId x = userId me" and "isValidDisplayName d"
    and "\<And>y. y \<in> set (accounts p) \<Longrightarrow> canManageUsers (role y) \<Longrightarrow> userId y = userId me"
  shows "\<exists>p'. up_do env p (UUpdate (userId me) Operator d True) = (Ok, p') \<and>
    (\<forall>cs. \<forall>y\<in>set (accounts (foldl (\<lambda>p c. snd (up_do env p c)) p' cs)). \<not> canManageUsers (role y))"
proof -
  let ?u = "x\<lparr>role := Operator, displayName := d, enabled := True\<rparr>"
  from sur.update_self_live [OF assms(1-7)] obtain p' t where
    p': "up_do env p (UUpdate (userId me) Operator d True) = (Ok, p')" "sur_ok (up_users p')"
      "accounts p' = map (edited ?u t) (accounts p)" "actor p' = Some (edited ?u t x)"
    by fastforce
  have op: "\<not> canManageUsers Operator" by (simp add: canManageUsers_def less_eq_Role_def role_defs)
  then have "no_manager p'" using p' assms(6,8) by (auto simp: no_manager_def list_all_iff may_manage_def edited_def)
  from locked_calls.all_ops.inv_run [OF this, of _ env] have "no_manager (foldl (\<lambda>p c. snd (up_do env p c)) p' cs)" for cs by simp
  then show ?thesis using p'(1) by (auto simp: no_manager_def list_all_iff)
qed

theorem self_demotion_locks_out_witness:
  "\<exists>p'. up_do healthy_env (demo 0) (UUpdate 1 Operator [] True) = (Ok, p') \<and>
     (\<forall>cs. \<forall>y\<in>set (accounts (foldl (\<lambda>p c. snd (up_do healthy_env p c)) p' cs)). \<not> canManageUsers (role y))"
proof -
  have "canManageUsers Admin" "\<not> canManageUsers Operator" by (simp_all add: canManageUsers_def less_eq_Role_def role_defs)
  then have "\<And>y. y \<in> set (accounts (demo 0)) \<Longrightarrow> canManageUsers (role y) \<Longrightarrow> userId y = userId (extractUser (demo_row 1 ''admin'' Admin))"
    by auto
  from self_demotion_locks_out [OF demo_simps(1,6,3) _ _ _ _ this, of "extractUser (demo_row 1 ''admin'' Admin)" "[]"]
  show ?thesis using \<open>canManageUsers Admin\<close> by (auto simp: isValidDisplayName_def)
qed

context user_store
begin

lemma changeOwnPassword_Ok:
  assumes o: "ok (up_users p)" and me: "currentUser (up_session p) = Some me"
    and c: "changeOwnPassword R H p old new = (Ok, p')"
  shows "\<exists>x h t. find (has_id (userId me)) (users (up_users p)) = Some x \<and> kMinPasswordLen \<le> length new \<and>
    pw_verify H old (passwordHash x) = Some True \<and> pw_hash H new = Some h \<and> ok (up_users p') \<and>
    users (up_users p') = map (edited (x\<lparr>passwordHash := h\<rparr>) t) (users (up_users p)) \<and>
    (\<forall>k. live k (up_users p) \<longrightarrow> live k (up_users p'))"
proof -
  obtain found s1 where f: "repo_findById R (up_users p) (userId me) = (found, s1)" by fastforce
  from c me f obtain x h b s2 where x: "found = Some x" "isValidPassword new" "pw_verify H old (passwordHash x) = Some True"
      "pw_hash H new = Some h" and u: "repo_update R s1 (x\<lparr>passwordHash := h\<rparr>) = (True, s2)" and p': "up_users p' = s2"
    by (fastforce simp: changeOwnPassword_def conclude_def Let_def split: if_splits option.splits prod.splits)
  note f1 = find_id [OF o f] and f2 = find_id_hit [OF o f [unfolded x(1)]]
  have "\<exists>t. users s2 = map (edited (x\<lparr>passwordHash := h\<rparr>) t) (users (up_users p))"
    using update_after_find [OF o f [unfolded x(1)] u] by simp
  moreover have "ok s2" "\<forall>k. live k (up_users p) \<longrightarrow> live k s2" using update [OF _ u] f1 by auto
  ultimately show ?thesis using x f2 p' by (auto simp: isValidPassword_def)
qed

end

context user_store
begin

lemma changeOwnPassword_live:
  assumes o: "ok (up_users p)" and l: "live k (up_users p)" and me: "currentUser (up_session p) = Some me"
    and x: "x \<in> set (users (up_users p))" "userId x = userId me"
    and "kMinPasswordLen \<le> length new" and "pw_verify H old (passwordHash x) = Some True" and "pw_hash H new = Some h"
  shows "\<exists>p'. changeOwnPassword R H p old new = (Ok, p')"
proof -
  obtain res s1 where f: "repo_findById R (up_users p) (userId me) = (res, s1)" by fastforce
  have own: "find (has_id (userId me)) (users (up_users p)) = Some x" using find_id_of_member [OF wf [OF o] x(1)] x(2) by simp
  have s1: "ok s1" "live k s1" "users s1 = users (up_users p)" "res = Some x" using find_id [OF o f] l own by auto
  obtain b s2 where u: "repo_update R s1 (x\<lparr>passwordHash := h\<rparr>) = (b, s2)" by fastforce
  have "b" using update [OF s1(1) u] s1 own x(2) by auto
  then show ?thesis using assms(6-8) me f s1(4) u
    by (simp add: changeOwnPassword_def isValidPassword_def Let_def conclude_def)
qed

end

end
