(* ===== verification/ThroughputMeter.thy ===== *)
theory ThroughputMeter
  imports Prelude Complex_Main
begin

text \<open>
  \<^verbatim>\<open>model/ThroughputMeter.h\<close>: the trailing-window production rate. Time points are integers in
  nanoseconds, as \<^verbatim>\<open>steady_clock\<close> counts them; the rate is a real number, so the rounding of
  \<^verbatim>\<open>double\<close> is not modelled.

  The theorem: on a monotone clock the rate is the one the class comment documents, computed over exactly
  the completions inside the window, however often it was queried before.
\<close>

record ThroughputMeter =
  window :: int
  completions :: "int list"

definition ns_per_s :: int where "ns_per_s = 1000000000"

definition kDefaultWindow :: int where "kDefaultWindow = 120 * ns_per_s"

definition kSecondsPerHour :: real where "kSecondsPerHour = 3600"

definition meter_new :: ThroughputMeter where
  "meter_new = \<lparr>window = kDefaultWindow, completions = []\<rparr>"

definition recordCompletion :: "ThroughputMeter \<Rightarrow> int \<Rightarrow> ThroughputMeter" where
  "recordCompletion m now = m\<lparr>completions := completions m @ [now]\<rparr>"

definition evictOlderThan :: "ThroughputMeter \<Rightarrow> int \<Rightarrow> ThroughputMeter" where
  "evictOlderThan m cutoff = m\<lparr>completions := dropWhile (\<lambda>t. t < cutoff) (completions m)\<rparr>"

definition unitsPerHour :: "ThroughputMeter \<Rightarrow> int \<Rightarrow> real \<times> ThroughputMeter" where
  "unitsPerHour m now =
     (let m = evictOlderThan m (now - window m); cs = completions m in
      if length cs < 2 then (0, m)
      else (let seconds = real_of_int (last cs - hd cs) / real_of_int ns_per_s in
        if seconds \<le> 0 then (0, m)
        else (real (length cs - 1) * kSecondsPerHour / seconds, m)))"

definition meter_clear :: "ThroughputMeter \<Rightarrow> ThroughputMeter" where
  "meter_clear m = m\<lparr>completions := []\<rparr>"

section \<open>The documented rate\<close>

definition in_window :: "ThroughputMeter \<Rightarrow> int \<Rightarrow> int list \<Rightarrow> int list" where
  "in_window m now ts = filter (\<lambda>t. now - window m \<le> t) ts"

definition documented_rate :: "int list \<Rightarrow> real" where
  "documented_rate ts = (if length ts < 2 \<or> last ts \<le> hd ts then 0
     else real (length ts - 1) * 3600 / (real_of_int (last ts - hd ts) / 10 ^ 9))"

lemma dropWhile_sorted: "sorted ts \<Longrightarrow> dropWhile (\<lambda>t. t < c) ts = filter (\<lambda>t. c \<le> t) (ts :: int list)"
proof (induction ts)
  case (Cons t ts)
  show ?case
  proof (cases "t < c")
    case False
    then have "filter (\<lambda>t. c \<le> t) ts = ts" using Cons.prems by (auto simp: filter_id_conv)
    then show ?thesis using False by simp
  qed (use Cons in simp)
qed simp

lemma unitsPerHour_documented:
  assumes "sorted (completions m)"
  shows "unitsPerHour m now = (documented_rate (in_window m now (completions m)), m\<lparr>completions := in_window m now (completions m)\<rparr>)"
proof -
  let ?ts = "in_window m now (completions m)"
  have "evictOlderThan m (now - window m) = m\<lparr>completions := ?ts\<rparr>"
    using dropWhile_sorted [OF assms] by (simp add: evictOlderThan_def in_window_def)
  moreover have "real_of_int (last ?ts - hd ?ts) / real_of_int ns_per_s \<le> 0 \<longleftrightarrow> last ?ts \<le> hd ?ts"
    by (simp add: ns_per_s_def divide_le_0_iff)
  ultimately show ?thesis
    by (simp add: unitsPerHour_def Let_def documented_rate_def kSecondsPerHour_def ns_per_s_def)
qed

lemma documented_rate_nonneg: "0 \<le> documented_rate ts"
  by (simp add: documented_rate_def)

text \<open>A history of the meter: completions and queries, each at its time.\<close>

datatype meter_op = MComplete int | MQuery int

fun op_time :: "meter_op \<Rightarrow> int" where
  "op_time (MComplete t) = t"
| "op_time (MQuery t) = t"

fun meter_do :: "ThroughputMeter \<Rightarrow> meter_op \<Rightarrow> ThroughputMeter" where
  "meter_do m (MComplete t) = recordCompletion m t"
| "meter_do m (MQuery t) = snd (unitsPerHour m t)"

definition completed_at :: "meter_op list \<Rightarrow> int list" where
  "completed_at ops = concat (map (\<lambda>op. case op of MComplete t \<Rightarrow> [t] | MQuery _ \<Rightarrow> []) ops)"

lemma completed_at_snoc [simp]:
  "completed_at [] = []" "completed_at (ops @ [MComplete t]) = completed_at ops @ [t]" "completed_at (ops @ [MQuery t]) = completed_at ops"
  by (simp_all add: completed_at_def)

lemma completed_at_times: "set (completed_at ops) \<subseteq> op_time ` set ops"
  by (auto simp: completed_at_def image_iff split: meter_op.splits) force

lemma completed_at_sorted: "sorted (map op_time ops) \<Longrightarrow> sorted (completed_at ops)"
proof (induction ops rule: rev_induct)
  case (snoc op ops)
  then show ?case using completed_at_times [of ops] by (cases op) (auto simp: sorted_append)
qed simp

lemma meter_history:
  assumes "sorted (map op_time ops)" and "\<And>op. op \<in> set ops \<Longrightarrow> op_time op \<le> now"
  shows "\<exists>c \<le> now - kDefaultWindow. foldl meter_do meter_new ops =
    \<lparr>window = kDefaultWindow, completions = filter (\<lambda>t. c \<le> t) (completed_at ops)\<rparr>"
  using assms
proof (induction ops arbitrary: now rule: rev_induct)
  case Nil
  then show ?case by (auto simp: meter_new_def)
next
  case (snoc op ops)
  have s: "sorted (map op_time ops)" "\<And>x. x \<in> set ops \<Longrightarrow> op_time x \<le> op_time op" "op_time op \<le> now"
    using snoc.prems by (auto simp: sorted_append)
  from snoc.IH [OF s(1,2)] obtain c where c: "c \<le> op_time op - kDefaultWindow"
    "foldl meter_do meter_new ops = \<lparr>window = kDefaultWindow, completions = filter (\<lambda>t. c \<le> t) (completed_at ops)\<rparr>" by auto
  show ?case
  proof (cases op)
    case (MComplete t)
    have "c \<le> t" using c(1) MComplete by (simp add: kDefaultWindow_def ns_per_s_def)
    then show ?thesis using c MComplete s(3) by (intro exI [of _ c]) (simp add: recordCompletion_def)
  next
    case (MQuery t)
    have "sorted (filter (\<lambda>t. c \<le> t) (completed_at ops))" using completed_at_sorted [OF s(1)] by (simp add: sorted_filter [of "\<lambda>x. x", simplified])
    then show ?thesis using c MQuery s(3) unitsPerHour_documented [of "foldl meter_do meter_new ops" t]
      by (intro exI [of _ "t - kDefaultWindow"]) (auto simp: in_window_def intro!: filter_cong)
  qed
qed

text \<open>
  The production rate: after any history of completions and queries on a monotone clock, a query returns
  exactly the documented rate of the completions of the last two minutes, so earlier queries and evictions
  change nothing, and a line that stalls for two minutes reads zero.
\<close>

theorem rate_is_documented:
  assumes "sorted (map op_time ops)" and "\<And>op. op \<in> set ops \<Longrightarrow> op_time op \<le> now"
  shows "fst (unitsPerHour (foldl meter_do meter_new ops) now) =
      documented_rate (filter (\<lambda>t. now - kDefaultWindow \<le> t) (completed_at ops)) \<and>
    (if list_all (\<lambda>t. t < now - kDefaultWindow) (completed_at ops)
     then fst (unitsPerHour (foldl meter_do meter_new ops) now) = 0
     else 0 \<le> fst (unitsPerHour (foldl meter_do meter_new ops) now))"
proof -
  from meter_history [OF assms] obtain c where c: "c \<le> now - kDefaultWindow"
    "foldl meter_do meter_new ops = \<lparr>window = kDefaultWindow, completions = filter (\<lambda>t. c \<le> t) (completed_at ops)\<rparr>" by auto
  have "sorted (filter (\<lambda>t. c \<le> t) (completed_at ops))"
    using completed_at_sorted [OF assms(1)] by (simp add: sorted_filter [of "\<lambda>x. x", simplified])
  with unitsPerHour_documented [of "foldl meter_do meter_new ops" now] c
  have r: "fst (unitsPerHour (foldl meter_do meter_new ops) now) =
      documented_rate (filter (\<lambda>t. now - kDefaultWindow \<le> t) (completed_at ops))"
    by (auto simp: in_window_def intro!: arg_cong [where f = documented_rate] filter_cong)
  moreover have "documented_rate (filter (\<lambda>t. now - kDefaultWindow \<le> t) (completed_at ops)) = 0"
    if "list_all (\<lambda>t. t < now - kDefaultWindow) (completed_at ops)"
  proof -
    have "filter (\<lambda>t. now - kDefaultWindow \<le> t) (completed_at ops) = []"
      using that by (auto simp: list_all_iff filter_empty_conv)
    then show ?thesis by (simp add: documented_rate_def)
  qed
  ultimately show ?thesis using documented_rate_nonneg by auto
qed

theorem rate_is_documented_witness:
  "fst (unitsPerHour (foldl meter_do meter_new [MComplete 0, MQuery 5, MComplete (36 * 10 ^ 9)]) (36 * 10 ^ 9)) = 100"
proof -
  let ?ops = "[MComplete 0, MQuery 5, MComplete (36 * 10 ^ 9)]"
  have "\<And>op. op \<in> set ?ops \<Longrightarrow> op_time op \<le> 36 * 10 ^ 9" by auto
  from rate_is_documented [of ?ops "36 * 10 ^ 9", OF _ this] show ?thesis
    by (simp add: completed_at_def documented_rate_def kDefaultWindow_def ns_per_s_def)
qed

end
