(* ===== verification/SimulatedModel.thy ===== *)
theory SimulatedModel
  imports SystemStateMachine ThroughputMeter NumberText
begin

text \<open>
  \<^verbatim>\<open>model/SimulatedModel.h\<close> and the data of \<^verbatim>\<open>model/ProductionTypes.h\<close>, \<^verbatim>\<open>Product.h\<close>, \<^verbatim>\<open>Recipe.h\<close>: the
  production line behind the dashboard. The three \<^verbatim>\<open>std::map\<close>s are ordered association lists on 32-bit
  keys, with \<^verbatim>\<open>operator[]\<close> inserting its default; every operation returns the new model and the observer
  calls it makes, in order, each with the snapshot it is given. Percentages are real numbers (a NaN reading is not modelled); where the
  code computes with \<^verbatim>\<open>float\<close> the rounding is an argument. The random draws of a tick and the clock are
  arguments too; the \<^verbatim>\<open>int\<close> counters are unbounded here. Log messages are not modelled.

  The theorems: the value ranges of every field hold through any commands, an external reading stays in
  charge of its checkpoint, the OEE figures are percentages under any monotone rounding, and two places
  where the model does what its comments exclude.
\<close>

section \<open>Data\<close>

definition kDefaultPassRateTarget :: real where "kDefaultPassRateTarget = 95"

record EquipmentStatus =
  equipmentId :: u32
  eq_status :: int
  supplyLevel :: int
  eq_message :: string

record ActuatorStatus =
  actuatorId :: u32
  act_status :: int
  posX :: int
  posY :: int
  autoMode :: bool
  atHome :: bool

record QualityCheckpoint =
  checkpointId :: u32
  qc_name :: string
  qc_status :: int
  unitsInspected :: int
  defectsFound :: int
  passRate :: real
  lastDefect :: string
  passRateTarget :: real

record WorkUnit =
  workUnitId :: string
  productId :: string
  wu_description :: string
  completedOperations :: int
  totalOperations :: int
  throughputUnitsPerHour :: real

definition default_equipment :: EquipmentStatus where
  "default_equipment = \<lparr>equipmentId = 0, eq_status = 0, supplyLevel = 0, eq_message = []\<rparr>"

definition default_actuator :: ActuatorStatus where
  "default_actuator = \<lparr>actuatorId = 0, act_status = 0, posX = 0, posY = 0, autoMode = True, atHome = True\<rparr>"

definition default_checkpoint :: QualityCheckpoint where
  "default_checkpoint = \<lparr>checkpointId = 0, qc_name = [], qc_status = 0, unitsInspected = 0, defectsFound = 0,
     passRate = 100, lastDefect = [], passRateTarget = kDefaultPassRateTarget\<rparr>"

definition default_work_unit :: WorkUnit where
  "default_work_unit = \<lparr>workUnitId = [], productId = [], wu_description = [], completedOperations = 0,
     totalOperations = 5, throughputUnitsPerHour = 0\<rparr>"

definition kPerformanceTargetUph :: real where "kPerformanceTargetUph = 100"

record OeeMetrics =
  availabilityPct :: real
  performancePct :: real
  qualityPct :: real
  oeePct :: real

record Product =
  prod_id :: int
  productCode :: string
  prod_name :: string
  prod_status :: string
  stock :: int
  qualityRate :: flt
  createdAt :: string
  updatedAt :: string
  deletedAt :: string

record CheckpointTarget =
  checkpointName :: string
  ct_passRateTarget :: real

record Recipe =
  rc_totalOperations :: int
  checkpointTargets :: "CheckpointTarget list"

section \<open>The model\<close>

definition kEquipmentCount :: u32 where "kEquipmentCount = 4"
definition kQualityRateMin :: real where "kQualityRateMin = 85"
definition kQualityRateMax :: real where "kQualityRateMax = 100"
definition kSupplyLevelMin :: int where "kSupplyLevelMin = 0"
definition kSupplyLevelMax :: int where "kSupplyLevelMax = 100"
definition kEquipmentStatusProcessing :: int where "kEquipmentStatusProcessing = 2"
definition kEquipmentStatusOnline :: int where "kEquipmentStatusOnline = 1"
definition kEquipmentStatusOffline :: int where "kEquipmentStatusOffline = 0"
definition kWorkUnitSeqBase :: u64 where "kWorkUnitSeqBase = 2024000000"

record 'cb SimulatedModel =
  equipmentStatuses :: "(u32, EquipmentStatus) omap"
  actuatorStatuses :: "(u32, ActuatorStatus) omap"
  qualityCheckpoints :: "(u32, QualityCheckpoint) omap"
  externalPassRateOverrides :: "u32 list"
  currentWorkUnit :: WorkUnit
  stateMachine :: "unit ssm"
  throughputMeter :: ThroughputMeter
  workUnitSequence :: u64
  equipmentCallbacks :: "'cb list"
  actuatorCallbacks :: "'cb list"
  qualityCallbacks :: "'cb list"
  workUnitCallbacks :: "'cb list"
  stateCallbacks :: "'cb list"

datatype 'cb notice = EquipmentNote 'cb EquipmentStatus | ActuatorNote 'cb ActuatorStatus
  | QualityNote 'cb QualityCheckpoint | WorkUnitNote 'cb WorkUnit | StateNote 'cb SystemState

text \<open>The constructor registers the one observer of the state machine, \<^verbatim>\<open>notifyStateChange\<close>.\<close>

definition sim_new :: "'cb SimulatedModel" where
  "sim_new = \<lparr>equipmentStatuses = [], actuatorStatuses = [], qualityCheckpoints = [], externalPassRateOverrides = [],
     currentWorkUnit = default_work_unit, stateMachine = ssm_onStateChanged () ssm_new, throughputMeter = meter_new,
     workUnitSequence = kWorkUnitSeqBase, equipmentCallbacks = [], actuatorCallbacks = [], qualityCallbacks = [],
     workUnitCallbacks = [], stateCallbacks = []\<rparr>"

definition sim_onEquipmentStatusChanged :: "'cb \<Rightarrow> 'cb SimulatedModel \<Rightarrow> 'cb SimulatedModel" where
  "sim_onEquipmentStatusChanged cb s = s\<lparr>equipmentCallbacks := equipmentCallbacks s @ [cb]\<rparr>"

definition sim_onActuatorStatusChanged :: "'cb \<Rightarrow> 'cb SimulatedModel \<Rightarrow> 'cb SimulatedModel" where
  "sim_onActuatorStatusChanged cb s = s\<lparr>actuatorCallbacks := actuatorCallbacks s @ [cb]\<rparr>"

definition sim_onQualityCheckpointChanged :: "'cb \<Rightarrow> 'cb SimulatedModel \<Rightarrow> 'cb SimulatedModel" where
  "sim_onQualityCheckpointChanged cb s = s\<lparr>qualityCallbacks := qualityCallbacks s @ [cb]\<rparr>"

definition sim_onWorkUnitChanged :: "'cb \<Rightarrow> 'cb SimulatedModel \<Rightarrow> 'cb SimulatedModel" where
  "sim_onWorkUnitChanged cb s = s\<lparr>workUnitCallbacks := workUnitCallbacks s @ [cb]\<rparr>"

definition sim_onSystemStateChanged :: "'cb \<Rightarrow> 'cb SimulatedModel \<Rightarrow> 'cb SimulatedModel" where
  "sim_onSystemStateChanged cb s = s\<lparr>stateCallbacks := stateCallbacks s @ [cb]\<rparr>"

definition clearCallbacks :: "'cb SimulatedModel \<Rightarrow> 'cb SimulatedModel" where
  "clearCallbacks s = s\<lparr>equipmentCallbacks := [], actuatorCallbacks := [], qualityCallbacks := [],
     workUnitCallbacks := [], stateCallbacks := []\<rparr>"

subsection \<open>Notification\<close>

definition notifyEquipmentChange :: "u32 \<Rightarrow> 'cb SimulatedModel \<Rightarrow> 'cb notice list" where
  "notifyEquipmentChange i s = (case map_of (equipmentStatuses s) i of None \<Rightarrow> []
     | Some es \<Rightarrow> map (\<lambda>cb. EquipmentNote cb es) (equipmentCallbacks s))"

definition notifyActuatorChange :: "u32 \<Rightarrow> 'cb SimulatedModel \<Rightarrow> 'cb notice list" where
  "notifyActuatorChange i s = (case map_of (actuatorStatuses s) i of None \<Rightarrow> []
     | Some a \<Rightarrow> map (\<lambda>cb. ActuatorNote cb a) (actuatorCallbacks s))"

text \<open>\<^verbatim>\<open>operator[]\<close> inserts the default checkpoint for an unknown id.\<close>

definition notifyQualityChange :: "u32 \<Rightarrow> 'cb SimulatedModel \<Rightarrow> 'cb SimulatedModel \<times> 'cb notice list" where
  "notifyQualityChange i s =
     (let cp = omap_get default_checkpoint (qualityCheckpoints s) i in
      (s\<lparr>qualityCheckpoints := omap_put i cp (qualityCheckpoints s)\<rparr>, map (\<lambda>cb. QualityNote cb cp) (qualityCallbacks s)))"

definition notifyWorkUnitChange :: "'cb SimulatedModel \<Rightarrow> 'cb notice list" where
  "notifyWorkUnitChange s = map (\<lambda>cb. WorkUnitNote cb (currentWorkUnit s)) (workUnitCallbacks s)"

definition notifyStateChange :: "'cb SimulatedModel \<Rightarrow> 'cb notice list" where
  "notifyStateChange s = map (\<lambda>cb. StateNote cb (sm (stateMachine s))) (stateCallbacks s)"

text \<open>\<^verbatim>\<open>for (const auto& [id, cp] : qualityCheckpoints_) notifyQualityChange(id);\<close>\<close>

fun notify_quality_ids :: "u32 list \<Rightarrow> 'cb SimulatedModel \<Rightarrow> 'cb SimulatedModel \<times> 'cb notice list" where
  "notify_quality_ids [] s = (s, [])"
| "notify_quality_ids (i # ids) s = (case notifyQualityChange i s of (s1, ns1) \<Rightarrow>
     case notify_quality_ids ids s1 of (s2, ns2) \<Rightarrow> (s2, ns1 @ ns2))"

text \<open>A command to the state machine: each call of its observer runs \<^verbatim>\<open>notifyStateChange\<close>.\<close>

definition dispatch_state :: "(unit ssm \<Rightarrow> unit ssm \<times> unit calls) \<Rightarrow> 'cb SimulatedModel \<Rightarrow> 'cb SimulatedModel \<times> 'cb notice list" where
  "dispatch_state cmd s = (case cmd (stateMachine s) of (m, calls) \<Rightarrow>
     let s = s\<lparr>stateMachine := m\<rparr> in (s, concat (map (\<lambda>_. notifyStateChange s) calls)))"

subsection \<open>Commands\<close>

definition kBLineId :: u32 where "kBLineId = 1"

definition set_equipment :: "u32 \<Rightarrow> (EquipmentStatus \<Rightarrow> EquipmentStatus) \<Rightarrow> 'cb SimulatedModel \<Rightarrow> 'cb SimulatedModel" where
  "set_equipment i f s = s\<lparr>equipmentStatuses :=
     omap_put i (f (omap_get default_equipment (equipmentStatuses s) i)) (equipmentStatuses s)\<rparr>"

definition simulateProductionCycle :: "'cb SimulatedModel \<Rightarrow> 'cb SimulatedModel \<times> 'cb notice list" where
  "simulateProductionCycle s =
     (if completedOperations (currentWorkUnit s) < totalOperations (currentWorkUnit s)
      then (let s1 = s\<lparr>currentWorkUnit := (currentWorkUnit s)\<lparr>completedOperations := completedOperations (currentWorkUnit s) + 1\<rparr>\<rparr>;
                s2 = set_equipment kBLineId (\<lambda>e. e\<lparr>eq_status := kEquipmentStatusProcessing\<rparr>) s1 in
            (s2, notifyWorkUnitChange s1 @ notifyEquipmentChange kBLineId s2))
      else (s, []))"

definition startProduction :: "'cb SimulatedModel \<Rightarrow> 'cb SimulatedModel \<times> 'cb notice list" where
  "startProduction s = (case dispatch_state ssm_start s of (s1, ns1) \<Rightarrow>
     case simulateProductionCycle s1 of (s2, ns2) \<Rightarrow> (s2, ns1 @ ns2))"

definition stopProduction :: "'cb SimulatedModel \<Rightarrow> 'cb SimulatedModel \<times> 'cb notice list" where
  "stopProduction s = dispatch_state ssm_stop s"

definition resetSystem :: "'cb SimulatedModel \<Rightarrow> 'cb SimulatedModel \<times> 'cb notice list" where
  "resetSystem s = (case dispatch_state ssm_reset s of (s1, ns1) \<Rightarrow>
     let s2 = s1\<lparr>currentWorkUnit := (currentWorkUnit s1)\<lparr>completedOperations := 0, throughputUnitsPerHour := 0\<rparr>,
                 throughputMeter := meter_clear (throughputMeter s1)\<rparr> in
     (s2, ns1 @ notifyWorkUnitChange s2))"

definition startCalibration :: "'cb SimulatedModel \<Rightarrow> 'cb SimulatedModel \<times> 'cb notice list" where
  "startCalibration s = dispatch_state ssm_calibrate s"

definition triggerFault :: "string \<Rightarrow> 'cb SimulatedModel \<Rightarrow> 'cb SimulatedModel \<times> 'cb notice list" where
  "triggerFault reason s = dispatch_state (ssm_fault reason) s"

definition setEquipmentEnabled :: "u32 \<Rightarrow> bool \<Rightarrow> 'cb SimulatedModel \<Rightarrow> 'cb SimulatedModel \<times> 'cb notice list" where
  "setEquipmentEnabled i en s = (if i \<ge> kEquipmentCount then (s, [])
     else (let s1 = set_equipment i (\<lambda>e. e\<lparr>eq_status := (if en then kEquipmentStatusOnline else kEquipmentStatusOffline)\<rparr>) s in
           (s1, notifyEquipmentChange i s1)))"

definition setEquipmentSupplyLevel :: "u32 \<Rightarrow> int \<Rightarrow> 'cb SimulatedModel \<Rightarrow> 'cb SimulatedModel \<times> 'cb notice list" where
  "setEquipmentSupplyLevel i level s = (if i \<ge> kEquipmentCount then (s, [])
     else (let s1 = set_equipment i (\<lambda>e. e\<lparr>supplyLevel := std_clamp level kSupplyLevelMin kSupplyLevelMax\<rparr>) s in
           (s1, notifyEquipmentChange i s1)))"

definition setQualityPassRate :: "u32 \<Rightarrow> real \<Rightarrow> 'cb SimulatedModel \<Rightarrow> 'cb SimulatedModel \<times> 'cb notice list" where
  "setQualityPassRate i rate s = (case map_of (qualityCheckpoints s) i of
     None \<Rightarrow> (s, [])
   | Some cp \<Rightarrow> notifyQualityChange i (s\<lparr>
       qualityCheckpoints := omap_put i (cp\<lparr>passRate := std_clamp rate kQualityRateMin kQualityRateMax\<rparr>) (qualityCheckpoints s),
       externalPassRateOverrides := List.insert i (externalPassRateOverrides s)\<rparr>))"

text \<open>\<^verbatim>\<open>"WU-" + std::to_string(workUnitSequence_)\<close>, and the first target with the name of the checkpoint.\<close>

definition apply_targets :: "CheckpointTarget list \<Rightarrow> QualityCheckpoint \<Rightarrow> QualityCheckpoint" where
  "apply_targets targets cp =
     (let cp = cp\<lparr>unitsInspected := 0, defectsFound := 0\<rparr> in
      case find (\<lambda>t. checkpointName t = qc_name cp) targets of
        None \<Rightarrow> cp | Some t \<Rightarrow> cp\<lparr>passRateTarget := ct_passRateTarget t\<rparr>)"

definition loadProduct :: "Product \<Rightarrow> Recipe \<Rightarrow> 'cb SimulatedModel \<Rightarrow> 'cb SimulatedModel \<times> 'cb notice list" where
  "loadProduct p r s =
     (let n = workUnitSequence s + 1;
          wid = ''WU-'' @ nat_str (unat n);
          s1 = s\<lparr>workUnitSequence := n,
                 currentWorkUnit := (currentWorkUnit s)\<lparr>workUnitId := wid, productId := productCode p,
                   wu_description := ''Batch '' @ wid @ '' | '' @ prod_name p, totalOperations := rc_totalOperations r,
                   completedOperations := 0, throughputUnitsPerHour := 0\<rparr>,
                 throughputMeter := meter_clear (throughputMeter s),
                 qualityCheckpoints := map (\<lambda>(i, cp). (i, apply_targets (checkpointTargets r) cp)) (qualityCheckpoints s)\<rparr> in
      case notify_quality_ids (map fst (qualityCheckpoints s1)) s1 of (s2, ns) \<Rightarrow> (s2, notifyWorkUnitChange s1 @ ns))"

subsection \<open>Queries\<close>

definition getState :: "'cb SimulatedModel \<Rightarrow> SystemState" where
  "getState s = sm (stateMachine s)"

definition sim_lastFaultReason :: "'cb SimulatedModel \<Rightarrow> string" where
  "sim_lastFaultReason s = lastFaultReason (stateMachine s)"

text \<open>\<^verbatim>\<open>at\<close> throws for an unknown id.\<close>

definition getQualityCheckpoint :: "u32 \<Rightarrow> 'cb SimulatedModel \<Rightarrow> QualityCheckpoint option" where
  "getQualityCheckpoint i s = map_of (qualityCheckpoints s) i"

definition getQualityCheckpoints :: "'cb SimulatedModel \<Rightarrow> QualityCheckpoint list" where
  "getQualityCheckpoints s = map snd (qualityCheckpoints s)"

definition getWorkUnit :: "'cb SimulatedModel \<Rightarrow> WorkUnit" where
  "getWorkUnit s = currentWorkUnit s"

text \<open>\<^verbatim>\<open>rf\<close> and \<^verbatim>\<open>rd\<close> round to \<^verbatim>\<open>float\<close> and \<^verbatim>\<open>double\<close>.\<close>

definition available :: "EquipmentStatus \<Rightarrow> bool" where
  "available e = (eq_status e = kEquipmentStatusOnline \<or> eq_status e = kEquipmentStatusProcessing)"

definition oeeSnapshot :: "(real \<Rightarrow> real) \<Rightarrow> (real \<Rightarrow> real) \<Rightarrow> 'cb SimulatedModel \<Rightarrow> OeeMetrics" where
  "oeeSnapshot rf rd s =
     (let n = length (equipmentStatuses s);
          a = (if equipmentStatuses s = [] then 0
               else rf (rf (rf (real (length (filter (\<lambda>(_, e). available e) (equipmentStatuses s)))) * 100) / rf (real n)));
          throughput = throughputUnitsPerHour (currentWorkUnit s);
          ratio = (if throughput > 0 then rd (throughput / kPerformanceTargetUph) else 0);
          p = rf (rd (min ratio 1 * 100));
          q = (if qualityCheckpoints s = [] then 0
               else rf (foldl (\<lambda>sum (_, cp). rf (sum + passRate cp)) 0 (qualityCheckpoints s) / rf (real (length (qualityCheckpoints s))))) in
      \<lparr>availabilityPct = a, performancePct = p, qualityPct = q,
       oeePct = rf (rf (rf (rf (a / 100) * rf (p / 100)) * rf (q / 100)) * 100)\<rparr>)"

subsection \<open>The tick\<close>

text \<open>
  \<^verbatim>\<open>draws i\<close> are the two random draws for checkpoint \<^verbatim>\<open>i\<close>: the drift of its pass rate and the units
  inspected since the last tick.
\<close>

definition tick_checkpoint :: "(real \<Rightarrow> real) \<Rightarrow> (u32 \<Rightarrow> real \<times> int) \<Rightarrow> u32 list \<Rightarrow> u32 \<Rightarrow> QualityCheckpoint \<Rightarrow> QualityCheckpoint" where
  "tick_checkpoint rf draws overrides i cp =
     (let cp = (if i \<in> set overrides then cp
                else cp\<lparr>passRate := std_clamp (rf (passRate cp + fst (draws i))) kQualityRateMin kQualityRateMax\<rparr>) in
      cp\<lparr>unitsInspected := unitsInspected cp + snd (draws i)\<rparr>)"

definition tickSimulation :: "(real \<Rightarrow> real) \<Rightarrow> (u32 \<Rightarrow> real \<times> int) \<Rightarrow> int \<Rightarrow> 'cb SimulatedModel \<Rightarrow> 'cb SimulatedModel \<times> 'cb notice list" where
  "tickSimulation rf draws now s =
     (let wu = currentWorkUnit s;
          more = (completedOperations wu < totalOperations wu);
          wu1 = wu\<lparr>completedOperations := (if more then completedOperations wu + 1 else 0)\<rparr>;
          m1 = (if more then throughputMeter s else recordCompletion (throughputMeter s) now) in
      case unitsPerHour m1 now of (rate, m2) \<Rightarrow>
      let s1 = s\<lparr>qualityCheckpoints := map (\<lambda>(i, cp). (i, tick_checkpoint rf draws (externalPassRateOverrides s) i cp)) (qualityCheckpoints s),
                 currentWorkUnit := wu1\<lparr>throughputUnitsPerHour := rate\<rparr>, throughputMeter := m2\<rparr> in
      case notify_quality_ids (map fst (qualityCheckpoints s1)) s1 of (s2, ns) \<Rightarrow> (s2, ns @ notifyWorkUnitChange s2))"

definition republishAll :: "'cb SimulatedModel \<Rightarrow> 'cb SimulatedModel \<times> 'cb notice list" where
  "republishAll s =
     (case notify_quality_ids (map fst (qualityCheckpoints s)) s of (s1, ns) \<Rightarrow>
      (s1, concat (map (\<lambda>i. notifyEquipmentChange i s) (map fst (equipmentStatuses s)))
         @ concat (map (\<lambda>i. notifyActuatorChange i s) (map fst (actuatorStatuses s)))
         @ ns @ notifyWorkUnitChange s1 @ notifyStateChange s1))"

subsection \<open>Demo data\<close>

definition demo_equipment :: "(u32 \<times> EquipmentStatus) list" where
  "demo_equipment =
     [(0, \<lparr>equipmentId = 0, eq_status = 2, supplyLevel = 85, eq_message = ''85K tablets/hr''\<rparr>),
      (1, \<lparr>equipmentId = 1, eq_status = 1, supplyLevel = 95, eq_message = ''Film coating''\<rparr>),
      (2, \<lparr>equipmentId = 2, eq_status = 0, supplyLevel = 0, eq_message = ''Standby''\<rparr>)]"

definition demo_actuators :: "(u32 \<times> ActuatorStatus) list" where
  "demo_actuators =
     [(0, \<lparr>actuatorId = 0, act_status = 1, posX = 150, posY = 200, autoMode = True, atHome = False\<rparr>),
      (1, \<lparr>actuatorId = 1, act_status = 0, posX = 0, posY = 0, autoMode = True, atHome = True\<rparr>)]"

definition demo_checkpoint :: "u32 \<Rightarrow> string \<Rightarrow> int \<Rightarrow> int \<Rightarrow> real \<Rightarrow> string \<Rightarrow> QualityCheckpoint" where
  "demo_checkpoint i name st defects rate defect = \<lparr>checkpointId = i, qc_name = name, qc_status = st, unitsInspected = 645,
     defectsFound = defects, passRate = rate, lastDefect = defect, passRateTarget = kDefaultPassRateTarget\<rparr>"

definition demo_quality :: "(u32 \<times> QualityCheckpoint) list" where
  "demo_quality =
     [(0, demo_checkpoint 0 ''Weight Check'' 0 12 (981 / 10) ''Underweight''),
      (1, demo_checkpoint 1 ''Hardness Test'' 0 28 (957 / 10) ''Soft tablet (65N)''),
      (2, demo_checkpoint 2 ''Final Inspection'' 1 45 93 ''Coating uneven'')]"

definition demo_work_unit :: WorkUnit where
  "demo_work_unit = \<lparr>workUnitId = ''WU-2024-001234'', productId = ''TAB-200'', wu_description = ''Batch WU-2024-001234 | TAB-200'',
     completedOperations = 3, totalOperations = 5, throughputUnitsPerHour = 0\<rparr>"

definition put_all :: "('k::linorder \<times> 'v) list \<Rightarrow> ('k, 'v) omap \<Rightarrow> ('k, 'v) omap" where
  "put_all kvs m = fold (\<lambda>(k, v). omap_put k v) kvs m"

definition initializeDemoData :: "'cb SimulatedModel \<Rightarrow> 'cb SimulatedModel \<times> 'cb notice list" where
  "initializeDemoData s =
     (let s1 = s\<lparr>equipmentStatuses := put_all demo_equipment (equipmentStatuses s),
                 actuatorStatuses := put_all demo_actuators (actuatorStatuses s),
                 qualityCheckpoints := put_all demo_quality (qualityCheckpoints s),
                 currentWorkUnit := demo_work_unit\<rparr> in
      case dispatch_state ssm_reset s1 of (s2, ns2) \<Rightarrow>
      case republishAll s2 of (s3, ns3) \<Rightarrow> (s3, ns2 @ ns3))"

section \<open>Every command\<close>

datatype 'cb sim_op = SStart | SStop | SReset | SCalibrate | SFault string | SEnable u32 bool | SSupply u32 int
  | SPassRate u32 real | SLoad Product Recipe | STick "u32 \<Rightarrow> real \<times> int" int | SInit | SRepublish
  | SSubscribe "'cb SimulatedModel \<Rightarrow> 'cb SimulatedModel"

fun sim_exec :: "(real \<Rightarrow> real) \<Rightarrow> 'cb SimulatedModel \<Rightarrow> 'cb sim_op \<Rightarrow> 'cb SimulatedModel \<times> 'cb notice list" where
  "sim_exec rf s SStart = startProduction s"
| "sim_exec rf s SStop = stopProduction s"
| "sim_exec rf s SReset = resetSystem s"
| "sim_exec rf s SCalibrate = startCalibration s"
| "sim_exec rf s (SFault r) = triggerFault r s"
| "sim_exec rf s (SEnable i en) = setEquipmentEnabled i en s"
| "sim_exec rf s (SSupply i l) = setEquipmentSupplyLevel i l s"
| "sim_exec rf s (SPassRate i r) = setQualityPassRate i r s"
| "sim_exec rf s (SLoad p r) = loadProduct p r s"
| "sim_exec rf s (STick draws now) = tickSimulation rf draws now s"
| "sim_exec rf s SInit = initializeDemoData s"
| "sim_exec rf s SRepublish = republishAll s"
| "sim_exec rf s (SSubscribe f) = (f s, [])"

text \<open>The subscriptions: one of the five registrations or \<^verbatim>\<open>clearCallbacks\<close>.\<close>

definition subscriptions :: "('cb SimulatedModel \<Rightarrow> 'cb SimulatedModel) set" where
  "subscriptions = range sim_onEquipmentStatusChanged \<union> range sim_onActuatorStatusChanged \<union>
     range sim_onQualityCheckpointChanged \<union> range sim_onWorkUnitChanged \<union> range sim_onSystemStateChanged \<union> {clearCallbacks}"

fun known_op :: "'cb sim_op \<Rightarrow> bool" where
  "known_op (SSubscribe f) = (f \<in> subscriptions)"
| "known_op _ = True"

section \<open>Value ranges\<close>

definition line_ok :: "u32 \<times> EquipmentStatus \<Rightarrow> bool" where
  "line_ok = (\<lambda>(i, e). i < kEquipmentCount \<and> eq_status e \<in> {0, 1, 2} \<and> 0 \<le> supplyLevel e \<and> supplyLevel e \<le> 100)"

definition checkpoint_ok :: "u32 \<times> QualityCheckpoint \<Rightarrow> bool" where
  "checkpoint_ok = (\<lambda>(i, cp). checkpointId cp = i \<and> 85 \<le> passRate cp \<and> passRate cp \<le> 100)"

definition work_ok :: "WorkUnit \<Rightarrow> bool" where
  "work_ok wu = (0 \<le> completedOperations wu \<and> completedOperations wu \<le> max 0 (totalOperations wu) \<and> 0 \<le> throughputUnitsPerHour wu)"

definition sim_inv :: "'cb SimulatedModel \<Rightarrow> bool" where
  "sim_inv s = (omap_wf (equipmentStatuses s) \<and> omap_wf (qualityCheckpoints s) \<and>
     list_all line_ok (equipmentStatuses s) \<and> list_all checkpoint_ok (qualityCheckpoints s) \<and>
     work_ok (currentWorkUnit s) \<and> ssm_inv (stateMachine s) \<and> observers (stateMachine s) = [()])"

lemma omap_put_same: "omap_wf m \<Longrightarrow> map_of m k = Some v \<Longrightarrow> omap_put k v m = m"
proof (induction m)
  case (Cons p m)
  obtain a b where p: "p = (a, b)" by (cases p)
  show ?case
  proof (cases "k = a")
    case False
    with Cons.prems have k: "map_of m k = Some v" by (simp add: p)
    then have "k \<in> fst ` set m" by (metis domI dom_map_of_conv_image_fst)
    with Cons.prems(1) have "a < k" by (auto simp: p)
    then show ?thesis using Cons.IH Cons.prems(1) k False by (auto simp: p)
  qed (use Cons.prems in \<open>simp add: p\<close>)
qed simp

lemma set_omap_put: "omap_wf m \<Longrightarrow> p \<in> set (omap_put k v m) \<Longrightarrow> p = (k, v) \<or> p \<in> set m"
  by (induction k v m rule: omap_put.induct) (auto split: if_splits)

lemma omap_put_all: "omap_wf m \<Longrightarrow> list_all P m \<Longrightarrow> P (k, v) \<Longrightarrow> list_all P (omap_put k v m)"
  by (auto simp: list_all_iff dest: set_omap_put)

lemma omap_get_in: "map_of m k = Some v \<Longrightarrow> omap_get d m k = v"
  by (simp add: omap_get_def)

lemma omap_get_cases: "omap_get d m k = d \<or> (k, omap_get d m k) \<in> set m"
  by (auto simp: omap_get_def split: option.splits dest: map_of_SomeD)

lemma quality_ids_known:
  assumes "omap_wf (qualityCheckpoints s)" and "set ids \<subseteq> fst ` set (qualityCheckpoints s)"
  shows "notify_quality_ids ids s =
    (s, concat (map (\<lambda>i. map (\<lambda>cb. QualityNote cb (the (map_of (qualityCheckpoints s) i))) (qualityCallbacks s)) ids))"
  using assms(2)
proof (induction ids)
  case (Cons i ids)
  then obtain v where v: "map_of (qualityCheckpoints s) i = Some v"
    by (metis insert_subset list.simps(15) map_of_eq_None_iff not_None_eq)
  have "notifyQualityChange i s = (s, map (\<lambda>cb. QualityNote cb v) (qualityCallbacks s))"
    using v assms(1) by (simp add: notifyQualityChange_def omap_get_in omap_put_same)
  then show ?case using Cons v by simp
qed simp

lemma ssm_dispatch_inv:
  assumes "ssm_inv m"
  shows "ssm_inv (fst (ssm_start m))" "ssm_inv (fst (ssm_stop m))" "ssm_inv (fst (ssm_reset m))"
    "ssm_inv (fst (ssm_calibrate m))" "ssm_inv (fst (ssm_fault r m))"
    "observers (fst (ssm_start m)) = observers m" "observers (fst (ssm_stop m)) = observers m"
    "observers (fst (ssm_reset m)) = observers m" "observers (fst (ssm_calibrate m)) = observers m"
    "observers (fst (ssm_fault r m)) = observers m"
  using assms by (auto simp: ssm_defs ssm_inv_def)

subsection \<open>Every command keeps them\<close>

lemma dispatch_state_fst:
  "fst (dispatch_state cmd s) = s\<lparr>stateMachine := fst (cmd (stateMachine s))\<rparr>"
  by (simp add: dispatch_state_def Let_def split: prod.split)

lemma sim_inv_machine:
  "sim_inv s \<Longrightarrow> ssm_inv m \<Longrightarrow> observers m = [()] \<Longrightarrow> sim_inv (s\<lparr>stateMachine := m\<rparr>)"
  by (simp add: sim_inv_def)

lemma dispatch_state_inv [inv_intros]:
  assumes "sim_inv s"
  shows "sim_inv (fst (dispatch_state ssm_start s))" "sim_inv (fst (dispatch_state ssm_stop s))"
    "sim_inv (fst (dispatch_state ssm_reset s))" "sim_inv (fst (dispatch_state ssm_calibrate s))"
    "sim_inv (fst (dispatch_state (ssm_fault r) s))"
  using assms ssm_dispatch_inv [of "stateMachine s"] sim_inv_machine [OF assms]
  by (auto simp: dispatch_state_fst sim_inv_def)

lemma set_equipment_inv:
  assumes "sim_inv s" and "i < kEquipmentCount" and "\<And>e. line_ok (i, e) \<Longrightarrow> line_ok (i, f e)"
  shows "sim_inv (set_equipment i f s)"
proof -
  have "line_ok (i, default_equipment)" using assms(2) by (simp add: line_ok_def default_equipment_def)
  then have "line_ok (i, omap_get default_equipment (equipmentStatuses s) i)"
    using assms(1) omap_get_cases [of default_equipment "equipmentStatuses s" i] by (auto simp: sim_inv_def list_all_iff)
  then show ?thesis using assms by (auto simp: sim_inv_def set_equipment_def intro: omap_put_all)
qed

lemma clamp_ok: "85 \<le> std_clamp r kQualityRateMin kQualityRateMax" "std_clamp r kQualityRateMin kQualityRateMax \<le> 100"
  using std_clamp_bounds [of kQualityRateMin kQualityRateMax r] by (simp_all add: kQualityRateMin_def kQualityRateMax_def)

lemma simulateProductionCycle_inv [inv_intros]: "sim_inv s \<Longrightarrow> sim_inv (fst (simulateProductionCycle s))"
proof -
  assume s: "sim_inv s"
  show ?thesis
  proof (cases "completedOperations (currentWorkUnit s) < totalOperations (currentWorkUnit s)")
    case True
    have "sim_inv (s\<lparr>currentWorkUnit := (currentWorkUnit s)\<lparr>completedOperations := completedOperations (currentWorkUnit s) + 1\<rparr>\<rparr>)"
      using s True by (simp add: sim_inv_def work_ok_def)
    then have "sim_inv (set_equipment kBLineId (\<lambda>e. e\<lparr>eq_status := kEquipmentStatusProcessing\<rparr>)
        (s\<lparr>currentWorkUnit := (currentWorkUnit s)\<lparr>completedOperations := completedOperations (currentWorkUnit s) + 1\<rparr>\<rparr>))"
      by (rule set_equipment_inv) (simp_all add: kBLineId_def kEquipmentCount_def line_ok_def kEquipmentStatusProcessing_def)
    then show ?thesis using True by (simp add: simulateProductionCycle_def Let_def)
  qed (use s in \<open>simp add: simulateProductionCycle_def\<close>)
qed

lemma startProduction_inv [inv_intros]: "sim_inv s \<Longrightarrow> sim_inv (fst (startProduction s))"
  using simulateProductionCycle_inv [of "fst (dispatch_state ssm_start s)"] dispatch_state_inv(1) [of s]
  by (simp add: startProduction_def case_prod_beta)

lemma resetSystem_inv [inv_intros]: "sim_inv s \<Longrightarrow> sim_inv (fst (resetSystem s))"
  using dispatch_state_inv(3) [of s] by (simp add: resetSystem_def Let_def sim_inv_def work_ok_def case_prod_beta)

lemma setEquipmentEnabled_inv [inv_intros]: "sim_inv s \<Longrightarrow> sim_inv (fst (setEquipmentEnabled i en s))"
  by (auto simp: setEquipmentEnabled_def Let_def not_le line_ok_def kEquipmentStatusOnline_def kEquipmentStatusOffline_def
      intro: set_equipment_inv)

lemma setEquipmentSupplyLevel_inv [inv_intros]: "sim_inv s \<Longrightarrow> sim_inv (fst (setEquipmentSupplyLevel i l s))"
  using std_clamp_bounds [of kSupplyLevelMin kSupplyLevelMax l]
  by (auto simp: setEquipmentSupplyLevel_def Let_def not_le line_ok_def kSupplyLevelMin_def kSupplyLevelMax_def
      intro: set_equipment_inv)

lemma quality_inv:
  "sim_inv s \<Longrightarrow> omap_wf q \<Longrightarrow> list_all checkpoint_ok q \<Longrightarrow> sim_inv (s\<lparr>qualityCheckpoints := q\<rparr>)"
  by (simp add: sim_inv_def)

lemma notifyQualityChange_known:
  "omap_wf (qualityCheckpoints s) \<Longrightarrow> map_of (qualityCheckpoints s) i = Some cp \<Longrightarrow>
   notifyQualityChange i s = (s, map (\<lambda>cb. QualityNote cb cp) (qualityCallbacks s))"
  by (simp add: notifyQualityChange_def omap_get_in omap_put_same)

lemma setQualityPassRate_known:
  assumes "sim_inv s" and "map_of (qualityCheckpoints s) i = Some cp"
  shows "fst (setQualityPassRate i r s) = s\<lparr>
       qualityCheckpoints := omap_put i (cp\<lparr>passRate := std_clamp r kQualityRateMin kQualityRateMax\<rparr>) (qualityCheckpoints s),
       externalPassRateOverrides := List.insert i (externalPassRateOverrides s)\<rparr>"
proof -
  have "omap_wf (omap_put i (cp\<lparr>passRate := std_clamp r kQualityRateMin kQualityRateMax\<rparr>) (qualityCheckpoints s))"
    using assms(1) by (auto simp: sim_inv_def)
  then show ?thesis using assms(2) by (simp add: setQualityPassRate_def notifyQualityChange_known)
qed

lemma setQualityPassRate_inv [inv_intros]: "sim_inv s \<Longrightarrow> sim_inv (fst (setQualityPassRate i r s))"
proof (cases "map_of (qualityCheckpoints s) i")
  case (Some cp)
  assume s: "sim_inv s"
  have "checkpoint_ok (i, cp)" using s map_of_SomeD [OF Some] by (auto simp: sim_inv_def list_all_iff)
  then have "checkpoint_ok (i, cp\<lparr>passRate := std_clamp r kQualityRateMin kQualityRateMax\<rparr>)"
    using clamp_ok by (simp add: checkpoint_ok_def)
  then show ?thesis unfolding setQualityPassRate_known [OF s Some]
    using s by (auto simp: sim_inv_def intro: omap_put_all)
qed (simp add: setQualityPassRate_def)

text \<open>The bodies of the loops over the checkpoints keep the keys.\<close>

lemma map_checkpoints_inv:
  assumes "sim_inv s" and "\<And>i cp. checkpoint_ok (i, cp) \<Longrightarrow> checkpoint_ok (i, f i cp)"
  shows "omap_wf (map (\<lambda>(i, cp). (i, f i cp)) (qualityCheckpoints s)) \<and>
    list_all checkpoint_ok (map (\<lambda>(i, cp). (i, f i cp)) (qualityCheckpoints s))"
proof -
  have e: "map fst (map (\<lambda>(i, cp). (i, f i cp)) (qualityCheckpoints s)) = map fst (qualityCheckpoints s)" by auto
  show ?thesis unfolding e using assms by (auto simp: sim_inv_def list_all_iff)
qed

lemma tick_checkpoint_ok: "checkpoint_ok (i, cp) \<Longrightarrow> checkpoint_ok (i, tick_checkpoint rf draws ov i cp)"
  using clamp_ok by (simp add: checkpoint_ok_def tick_checkpoint_def Let_def)

lemma apply_targets_ok: "checkpoint_ok (i, cp) \<Longrightarrow> checkpoint_ok (i, apply_targets ts cp)"
  by (simp add: checkpoint_ok_def apply_targets_def Let_def split: option.splits)

lemma rate_nonneg: "0 \<le> fst (unitsPerHour m now)"
proof -
  let ?cs = "completions (evictOlderThan m (now - window m))"
  have "0 \<le> real (length ?cs - 1) * kSecondsPerHour / (real_of_int (last ?cs - hd ?cs) / real_of_int ns_per_s)"
    if "0 < real_of_int (last ?cs - hd ?cs) / real_of_int ns_per_s"
    by (rule divide_nonneg_pos) (use that in \<open>simp_all add: kSecondsPerHour_def\<close>)
  then show ?thesis by (auto simp only: unitsPerHour_def Let_def fst_conv not_le order_refl split: if_split)
qed

lemma quality_ids_all: "sim_inv s \<Longrightarrow> fst (notify_quality_ids (map fst (qualityCheckpoints s)) s) = s"
  using quality_ids_known [of s "map fst (qualityCheckpoints s)"] by (simp add: sim_inv_def)

lemma tickSimulation_model:
  assumes "sim_inv s" and "tickSimulation rf draws now s = (s', ns)"
  shows "sim_inv s' \<and> equipmentStatuses s' = equipmentStatuses s \<and> stateMachine s' = stateMachine s \<and>
    externalPassRateOverrides s' = externalPassRateOverrides s \<and>
    qualityCheckpoints s' = map (\<lambda>(i, cp). (i, tick_checkpoint rf draws (externalPassRateOverrides s) i cp)) (qualityCheckpoints s) \<and>
    ns = snd (notify_quality_ids (map fst (qualityCheckpoints s')) s') @ notifyWorkUnitChange s'"
proof -
  let ?wu = "currentWorkUnit s"
  let ?more = "completedOperations ?wu < totalOperations ?wu"
  let ?m = "if ?more then throughputMeter s else recordCompletion (throughputMeter s) now"
  let ?q = "map (\<lambda>(i, cp). (i, tick_checkpoint rf draws (externalPassRateOverrides s) i cp)) (qualityCheckpoints s)"
  let ?wu1 = "?wu\<lparr>completedOperations := (if ?more then completedOperations ?wu + 1 else 0), throughputUnitsPerHour := fst (unitsPerHour ?m now)\<rparr>"
  define s1 where "s1 = s\<lparr>qualityCheckpoints := ?q, currentWorkUnit := ?wu1, throughputMeter := snd (unitsPerHour ?m now)\<rparr>"
  have "omap_wf ?q \<and> list_all checkpoint_ok ?q" by (rule map_checkpoints_inv [OF assms(1) tick_checkpoint_ok])
  moreover have "work_ok ?wu1" using assms(1) rate_nonneg [of ?m now] by (auto simp: work_ok_def sim_inv_def)
  ultimately have inv: "sim_inv s1" using assms(1) by (simp add: sim_inv_def s1_def)
  have "s' = fst (notify_quality_ids (map fst (qualityCheckpoints s1)) s1)"
    "ns = snd (notify_quality_ids (map fst (qualityCheckpoints s1)) s1) @ notifyWorkUnitChange (fst (notify_quality_ids (map fst (qualityCheckpoints s1)) s1))"
    using assms(2) unfolding tickSimulation_def s1_def by (auto simp: Let_def case_prod_beta split: if_splits)
  then show ?thesis using inv quality_ids_all [OF inv] by (simp add: s1_def)
qed

lemma loadProduct_model:
  assumes "sim_inv s" and "loadProduct p r s = (s', ns)"
  shows "sim_inv s' \<and> equipmentStatuses s' = equipmentStatuses s \<and> stateMachine s' = stateMachine s \<and>
    externalPassRateOverrides s' = externalPassRateOverrides s \<and>
    qualityCheckpoints s' = map (\<lambda>(i, cp). (i, apply_targets (checkpointTargets r) cp)) (qualityCheckpoints s) \<and>
    ns = notifyWorkUnitChange s' @ snd (notify_quality_ids (map fst (qualityCheckpoints s')) s')"
proof -
  let ?q = "map (\<lambda>(i, cp). (i, apply_targets (checkpointTargets r) cp)) (qualityCheckpoints s)"
  let ?wid = "''WU-'' @ nat_str (unat (workUnitSequence s + 1))"
  define s1 where "s1 = s\<lparr>workUnitSequence := workUnitSequence s + 1,
      currentWorkUnit := (currentWorkUnit s)\<lparr>workUnitId := ?wid, productId := productCode p,
        wu_description := ''Batch '' @ ?wid @ '' | '' @ prod_name p, totalOperations := rc_totalOperations r,
        completedOperations := 0, throughputUnitsPerHour := 0\<rparr>,
      throughputMeter := meter_clear (throughputMeter s), qualityCheckpoints := ?q\<rparr>"
  have "omap_wf ?q \<and> list_all checkpoint_ok ?q" by (rule map_checkpoints_inv [OF assms(1) apply_targets_ok])
  then have inv: "sim_inv s1" using assms(1) by (simp add: sim_inv_def s1_def work_ok_def)
  have "s' = fst (notify_quality_ids (map fst (qualityCheckpoints s1)) s1)"
    "ns = notifyWorkUnitChange s1 @ snd (notify_quality_ids (map fst (qualityCheckpoints s1)) s1)"
    using assms(2) unfolding loadProduct_def s1_def by (auto simp: Let_def case_prod_beta)
  then show ?thesis using inv quality_ids_all [OF inv] by (simp add: s1_def)
qed

lemma republishAll_model: "sim_inv s \<Longrightarrow> fst (republishAll s) = s"
  using quality_ids_all by (simp add: republishAll_def case_prod_beta)

lemma put_all_inv: "omap_wf m \<Longrightarrow> list_all P m \<Longrightarrow> list_all P kvs \<Longrightarrow> omap_wf (put_all kvs m) \<and> list_all P (put_all kvs m)"
  unfolding put_all_def by (induction kvs arbitrary: m) (auto simp: omap_put_all omap_wf_put)

lemma seeded_inv:
  assumes "sim_inv s"
  shows "sim_inv (s\<lparr>equipmentStatuses := put_all demo_equipment (equipmentStatuses s), actuatorStatuses := put_all demo_actuators (actuatorStatuses s),
      qualityCheckpoints := put_all demo_quality (qualityCheckpoints s), currentWorkUnit := demo_work_unit\<rparr>)"
proof -
  have "list_all line_ok demo_equipment" by (simp add: demo_equipment_def line_ok_def kEquipmentCount_def)
  moreover have "list_all checkpoint_ok demo_quality" by (simp add: demo_quality_def checkpoint_ok_def demo_checkpoint_def)
  ultimately show ?thesis using assms put_all_inv [of "equipmentStatuses s" line_ok demo_equipment]
      put_all_inv [of "qualityCheckpoints s" checkpoint_ok demo_quality]
    by (simp add: sim_inv_def work_ok_def demo_work_unit_def)
qed

lemma initializeDemoData_inv [inv_intros]: "sim_inv s \<Longrightarrow> sim_inv (fst (initializeDemoData s))"
  using republishAll_model [OF dispatch_state_inv(3) [OF seeded_inv], of s] dispatch_state_inv(3) [OF seeded_inv, of s]
  by (simp add: initializeDemoData_def Let_def case_prod_beta)

lemma subscription_inv: "f \<in> subscriptions \<Longrightarrow> sim_inv s \<Longrightarrow> sim_inv (f s)"
  by (auto simp: subscriptions_def sim_inv_def sim_onEquipmentStatusChanged_def sim_onActuatorStatusChanged_def
      sim_onQualityCheckpointChanged_def sim_onWorkUnitChanged_def sim_onSystemStateChanged_def clearCallbacks_def)

lemma sim_exec_inv: "sim_inv s \<Longrightarrow> known_op c \<Longrightarrow> sim_inv (fst (sim_exec rf s c))"
proof (cases c)
  case (SLoad p r)
  then show "sim_inv s \<Longrightarrow> ?thesis" using loadProduct_model [of s p r] by (cases "loadProduct p r s") auto
next
  case (STick draws now)
  then show "sim_inv s \<Longrightarrow> ?thesis" using tickSimulation_model [of s rf draws now] by (cases "tickSimulation rf draws now s") auto
qed (simp_all add: inv_intros subscription_inv republishAll_model stopProduction_def startCalibration_def triggerFault_def)

interpretation sim_machine: guarded_machine "\<lambda>s c. fst (sim_exec rf s c)" known_op sim_inv for rf
  by unfold_locales (rule sim_exec_inv)

section \<open>Properties\<close>

lemma sim_new_inv: "sim_inv sim_new"
  by (simp add: sim_inv_def sim_new_def work_ok_def default_work_unit_def ssm_inv_def ssm_onStateChanged_def ssm_new_def)

text \<open>The model after \<^verbatim>\<open>initializeDemoData\<close>.\<close>

definition demo_model :: "'cb SimulatedModel" where
  "demo_model = fst (initializeDemoData sim_new)"

lemma demo_model_inv: "sim_inv demo_model"
  unfolding demo_model_def by (rule initializeDemoData_inv [OF sim_new_inv])

lemma demo_model_simps:
  fixes d :: "'cb SimulatedModel"
  defines "d \<equiv> demo_model"
  shows "equipmentStatuses d = demo_equipment" "qualityCheckpoints d = demo_quality"
    "currentWorkUnit d = demo_work_unit" "getState d = IDLE"
proof -
  let ?s = "sim_new\<lparr>equipmentStatuses := put_all demo_equipment [], actuatorStatuses := put_all demo_actuators [],
      qualityCheckpoints := put_all demo_quality [], currentWorkUnit := demo_work_unit\<rparr>"
  have puts: "put_all demo_equipment [] = demo_equipment" "put_all demo_quality [] = demo_quality"
    by (simp_all add: put_all_def demo_equipment_def demo_quality_def)
  have "sim_inv ?s" using sim_new_inv
    by (simp add: sim_inv_def puts work_ok_def demo_work_unit_def)
      (auto simp: demo_equipment_def demo_quality_def line_ok_def checkpoint_ok_def demo_checkpoint_def kEquipmentCount_def)
  from republishAll_model [OF dispatch_state_inv(3) [OF this]] have "d = fst (dispatch_state ssm_reset ?s)"
    by (simp add: d_def demo_model_def initializeDemoData_def Let_def case_prod_beta) (simp add: sim_new_def)
  then show "equipmentStatuses d = demo_equipment" "qualityCheckpoints d = demo_quality"
    "currentWorkUnit d = demo_work_unit" "getState d = IDLE"
    by (simp_all add: dispatch_state_fst puts getState_def ssm_defs)
qed



definition owned :: "u32 \<Rightarrow> real \<Rightarrow> 'cb SimulatedModel \<Rightarrow> bool" where
  "owned i v s = (sim_inv s \<and> i \<in> set (externalPassRateOverrides s) \<and>
     (\<exists>cp. map_of (qualityCheckpoints s) i = Some cp \<and> passRate cp = v))"

fun leaves_reading :: "u32 \<Rightarrow> 'cb sim_op \<Rightarrow> bool" where
  "leaves_reading i (SPassRate j r) = (j \<noteq> i)"
| "leaves_reading i SInit = False"
| "leaves_reading i (SSubscribe f) = (f \<in> subscriptions)"
| "leaves_reading i _ = True"

lemma map_of_map_key: "map_of (map (\<lambda>(k, v). (k, f k v)) m) k = map_option (f k) (map_of m k)"
  by (induction m) auto

lemma apply_targets_rate [simp]: "passRate (apply_targets ts cp) = passRate cp"
  by (simp add: apply_targets_def Let_def split: option.splits)

lemma owned_frame:
  "owned i v s \<Longrightarrow> sim_inv s' \<Longrightarrow> qualityCheckpoints s' = qualityCheckpoints s \<Longrightarrow>
   externalPassRateOverrides s' = externalPassRateOverrides s \<Longrightarrow> owned i v s'"
  by (simp add: owned_def)

lemma quality_frame [frame_simps]:
  "qualityCheckpoints (fst (startProduction s)) = qualityCheckpoints s"
  "qualityCheckpoints (fst (stopProduction s)) = qualityCheckpoints s"
  "qualityCheckpoints (fst (resetSystem s)) = qualityCheckpoints s"
  "qualityCheckpoints (fst (startCalibration s)) = qualityCheckpoints s"
  "qualityCheckpoints (fst (triggerFault r s)) = qualityCheckpoints s"
  "qualityCheckpoints (fst (setEquipmentEnabled j en s)) = qualityCheckpoints s"
  "qualityCheckpoints (fst (setEquipmentSupplyLevel j l s)) = qualityCheckpoints s"
  "externalPassRateOverrides (fst (startProduction s)) = externalPassRateOverrides s"
  "externalPassRateOverrides (fst (stopProduction s)) = externalPassRateOverrides s"
  "externalPassRateOverrides (fst (resetSystem s)) = externalPassRateOverrides s"
  "externalPassRateOverrides (fst (startCalibration s)) = externalPassRateOverrides s"
  "externalPassRateOverrides (fst (triggerFault r s)) = externalPassRateOverrides s"
  "externalPassRateOverrides (fst (setEquipmentEnabled j en s)) = externalPassRateOverrides s"
  "externalPassRateOverrides (fst (setEquipmentSupplyLevel j l s)) = externalPassRateOverrides s"
  by (simp_all add: startProduction_def stopProduction_def resetSystem_def startCalibration_def triggerFault_def
      setEquipmentEnabled_def setEquipmentSupplyLevel_def simulateProductionCycle_def set_equipment_def dispatch_state_fst
      Let_def case_prod_beta)

lemma owned_step:
  assumes o: "owned i v s" and c: "leaves_reading i c"
  shows "owned i v (fst (sim_exec rf s c))"
proof -
  have s: "sim_inv s" using o by (simp add: owned_def)
  have k: "known_op c" using c by (cases c) auto
  note inv = sim_exec_inv [OF s k, of rf]
  show ?thesis
  proof (cases c)
    case (SPassRate j r)
    then have "j \<noteq> i" using c by simp
    then show ?thesis using o inv SPassRate setQualityPassRate_known [OF s, of j]
      by (cases "map_of (qualityCheckpoints s) j") (auto simp: owned_def setQualityPassRate_def)
  next
    case (SLoad p r)
    obtain s' ns where l: "loadProduct p r s = (s', ns)" by fastforce
    from loadProduct_model [OF s l] o inv SLoad l show ?thesis
      by (auto simp: owned_def map_of_map_key)
  next
    case (STick draws now)
    obtain s' ns where l: "tickSimulation rf draws now s = (s', ns)" by fastforce
    from tickSimulation_model [OF s l] o inv STick l show ?thesis
      by (auto simp: owned_def map_of_map_key tick_checkpoint_def Let_def)
  next
    case (SSubscribe f)
    then show ?thesis using c o inv by (auto simp: owned_def subscriptions_def sim_onEquipmentStatusChanged_def sim_onActuatorStatusChanged_def
      sim_onQualityCheckpointChanged_def sim_onWorkUnitChanged_def sim_onSystemStateChanged_def clearCallbacks_def)
  next
    case SRepublish
    then show ?thesis using o s by (simp add: republishAll_model)
  qed (use o inv c in \<open>auto intro: owned_frame simp: frame_simps\<close>)
qed

interpretation reading: guarded_machine "\<lambda>s c. fst (sim_exec rf s c)" "leaves_reading i" "owned i v" for rf i v
  by unfold_locales (rule owned_step)

text \<open>
  C18. An external reading stays in charge: once a bridge has set the pass rate of a known checkpoint, no
  tick, command or reading of another checkpoint changes it. The value kept is the reading clamped to
  85..100, whatever lower value was reported.
\<close>

theorem external_reading_sticks:
  assumes "sim_inv s" and "map_of (qualityCheckpoints s) i = Some cp" and "list_all (leaves_reading i) cs"
  shows "\<exists>cp'. map_of (qualityCheckpoints (foldl (\<lambda>s c. fst (sim_exec rf s c)) (fst (setQualityPassRate i r s)) cs)) i = Some cp' \<and>
    passRate cp' = (if r < 85 then 85 else if 100 < r then 100 else r)"
proof -
  let ?v = "std_clamp r kQualityRateMin kQualityRateMax"
  have "owned i ?v (fst (setQualityPassRate i r s))"
    using setQualityPassRate_inv [OF assms(1), of i r] setQualityPassRate_known [OF assms(1,2), of r] by (simp add: owned_def)
  from reading.inv_run [OF this, of cs rf] assms(3)
  show ?thesis by (simp add: owned_def list_all_iff std_clamp_def kQualityRateMin_def kQualityRateMax_def)
qed

theorem external_reading_sticks_witness:
  "\<exists>cp'. map_of (qualityCheckpoints (foldl (\<lambda>s c. fst (sim_exec (\<lambda>x. x) s c))
      (fst (setQualityPassRate 1 40 (demo_model :: nat SimulatedModel))) [STick (\<lambda>_. (1, 2)) 7, SStart])) 1 = Some cp' \<and>
    passRate cp' = 85"
proof -
  obtain cp where "map_of (qualityCheckpoints (demo_model :: nat SimulatedModel)) 1 = Some cp"
    by (simp add: demo_model_simps demo_quality_def)
  from external_reading_sticks [OF demo_model_inv this, of "[STick (\<lambda>_. (1, 2)) 7, SStart]" "\<lambda>x. x" 40] show ?thesis by simp
qed

subsection \<open>OEE\<close>

text \<open>What IEEE rounding promises: it is monotone and exact on the integers a \<^verbatim>\<open>float\<close> holds.\<close>

definition rounding :: "(real \<Rightarrow> real) \<Rightarrow> bool" where
  "rounding r = (mono r \<and> (\<forall>k::int. \<bar>k\<bar> \<le> 2 ^ 24 \<longrightarrow> r (of_int k) = of_int k))"

lemma rounding_int: "rounding r \<Longrightarrow> n \<le> 2 ^ 24 \<Longrightarrow> r (real n) = real n"
proof -
  assume r: "rounding r" and n: "n \<le> 2 ^ 24"
  have "\<bar>int n\<bar> \<le> 2 ^ 24" using n by simp
  then have "r (of_int (int n)) = of_int (int n)" using r unfolding rounding_def by blast
  then show ?thesis by simp
qed

lemma rounding_between:
  assumes "rounding r" and "0 \<le> x" and "x \<le> real n" and "n \<le> 2 ^ 24"
  shows "0 \<le> r x \<and> r x \<le> real n"
proof -
  have m: "mono r" using assms(1) by (simp add: rounding_def)
  have "r 0 \<le> r x" "r x \<le> r (real n)" using monoD [OF m assms(2)] monoD [OF m assms(3)] by auto
  then show ?thesis using rounding_int [OF assms(1,4)] rounding_int [OF assms(1), of 0] by simp
qed

lemma rounding_nonneg: "rounding r \<Longrightarrow> 0 \<le> x \<Longrightarrow> 0 \<le> r x"
proof -
  assume r: "rounding r" and x: "0 \<le> x"
  have "mono r" using r by (simp add: rounding_def)
  from monoD [OF this x] show ?thesis using rounding_int [OF r, of 0] by simp
qed

lemma sum_rounded:
  assumes "rounding rf" and "list_all (\<lambda>(_, cp). 0 \<le> passRate cp \<and> passRate cp \<le> 100) m" and "length m + k \<le> 1000"
    and "0 \<le> acc" and "acc \<le> real (100 * k)"
  shows "0 \<le> foldl (\<lambda>sum (_, cp). rf (sum + passRate cp)) acc m \<and>
    foldl (\<lambda>sum (_, cp). rf (sum + passRate cp)) acc m \<le> real (100 * (length m + k))"
  using assms(2-5)
proof (induction m arbitrary: acc k)
  case (Cons p m)
  obtain i cp where p: "p = (i, cp)" by (cases p)
  have "0 \<le> rf (acc + passRate cp) \<and> rf (acc + passRate cp) \<le> real (100 * Suc k)"
    by (rule rounding_between [OF assms(1)]) (use Cons.prems p in auto)
  then show ?case using Cons.IH [of "Suc k" "rf (acc + passRate cp)"] Cons.prems p by simp
qed simp

lemma quotient_rounded:
  assumes "rounding rf" and "0 \<le> x" and "x \<le> real (100 * n)" and "0 < n" and "n \<le> 1000"
  shows "0 \<le> rf (x / rf (real n)) \<and> rf (x / rf (real n)) \<le> 100"
proof -
  have "rf (real n) = real n" using rounding_int [OF assms(1), of n] assms(5) by simp
  moreover have "0 \<le> x / real n" "x / real n \<le> real 100" using assms by (auto simp: field_simps)
  ultimately show ?thesis using rounding_between [OF assms(1), of "x / real n" 100] by simp
qed

lemma product_rounded:
  assumes "rounding rf" and "0 \<le> a" "a \<le> 100" and "0 \<le> p" "p \<le> 100" and "0 \<le> q" "q \<le> 100"
  shows "0 \<le> rf (rf (rf (rf (a / 100) * rf (p / 100)) * rf (q / 100)) * 100) \<and>
    rf (rf (rf (rf (a / 100) * rf (p / 100)) * rf (q / 100)) * 100) \<le> 100"
proof -
  have unit: "0 \<le> x \<Longrightarrow> x \<le> 1 \<Longrightarrow> 0 \<le> rf x \<and> rf x \<le> 1" for x
    using rounding_between [OF assms(1), of x 1] by simp
  have part: "0 \<le> x \<Longrightarrow> x \<le> 100 \<Longrightarrow> 0 \<le> rf (x / 100) \<and> rf (x / 100) \<le> 1" for x by (rule unit) auto
  have "0 \<le> rf (rf (a / 100) * rf (p / 100)) \<and> rf (rf (a / 100) * rf (p / 100)) \<le> 1"
    using part [of a] part [of p] assms by (intro unit) (auto intro: mult_le_one)
  then have "0 \<le> rf (rf (rf (a / 100) * rf (p / 100)) * rf (q / 100)) \<and> rf (rf (rf (a / 100) * rf (p / 100)) * rf (q / 100)) \<le> 1"
    using part [of q] assms by (intro unit) (auto intro: mult_le_one)
  then show ?thesis using rounding_between [OF assms(1), of _ 100] by simp
qed

lemma oee_fields:
  "availabilityPct (oeeSnapshot rf rd s) = (if equipmentStatuses s = [] then 0
     else rf (rf (rf (real (length (filter (\<lambda>(_, e). available e) (equipmentStatuses s)))) * 100) / rf (real (length (equipmentStatuses s)))))"
  "performancePct (oeeSnapshot rf rd s) = rf (rd (min (if 0 < throughputUnitsPerHour (currentWorkUnit s)
     then rd (throughputUnitsPerHour (currentWorkUnit s) / kPerformanceTargetUph) else 0) 1 * 100))"
  "qualityPct (oeeSnapshot rf rd s) = (if qualityCheckpoints s = [] then 0
     else rf (foldl (\<lambda>sum (_, cp). rf (sum + passRate cp)) 0 (qualityCheckpoints s) / rf (real (length (qualityCheckpoints s)))))"
  "oeePct (oeeSnapshot rf rd s) = rf (rf (rf (rf (availabilityPct (oeeSnapshot rf rd s) / 100) * rf (performancePct (oeeSnapshot rf rd s) / 100)) *
     rf (qualityPct (oeeSnapshot rf rd s) / 100)) * 100)"
  unfolding oeeSnapshot_def Let_def by simp_all

lemma availability_bounds:
  assumes "rounding rf" and "length (equipmentStatuses s) \<le> 1000"
  shows "0 \<le> availabilityPct (oeeSnapshot rf rd s) \<and> availabilityPct (oeeSnapshot rf rd s) \<le> 100"
proof -
  define c n where "c = length (filter (\<lambda>(_, e). available e) (equipmentStatuses s))" and "n = length (equipmentStatuses s)"
  have c: "c \<le> n" "n \<le> 1000" unfolding c_def n_def using assms(2) by simp_all
  then have "rf (real c) = real c" "rf (real (100 * c)) = real (100 * c)"
    using rounding_int [OF assms(1), of c] rounding_int [OF assms(1), of "100 * c"] by simp_all
  then have "rf (rf (real c) * 100) = real (100 * c)" by (simp add: mult.commute)
  then show ?thesis using quotient_rounded [OF assms(1), of "real (100 * c)" n] c
    unfolding oee_fields c_def [symmetric] n_def [symmetric] by (simp add: n_def)
qed

lemma performance_bounds:
  assumes "rounding rf" and "rounding rd"
  shows "0 \<le> performancePct (oeeSnapshot rf rd s) \<and> performancePct (oeeSnapshot rf rd s) \<le> 100"
proof -
  define t where "t = throughputUnitsPerHour (currentWorkUnit s)"
  define r where "r = (if 0 < t then rd (t / kPerformanceTargetUph) else 0)"
  have "0 \<le> r" using rounding_nonneg [OF assms(2), of "t / kPerformanceTargetUph"] by (simp add: r_def kPerformanceTargetUph_def)
  then have "0 \<le> rd (min r 1 * 100) \<and> rd (min r 1 * 100) \<le> real 100" by (intro rounding_between [OF assms(2)]) auto
  then have "0 \<le> rf (rd (min r 1 * 100)) \<and> rf (rd (min r 1 * 100)) \<le> real 100" by (intro rounding_between [OF assms(1)]) auto
  then show ?thesis unfolding oee_fields r_def t_def by simp
qed

lemma quality_bounds:
  assumes "sim_inv s" and "rounding rf" and "length (qualityCheckpoints s) \<le> 1000"
  shows "0 \<le> qualityPct (oeeSnapshot rf rd s) \<and> qualityPct (oeeSnapshot rf rd s) \<le> 100"
proof -
  define q where "q = foldl (\<lambda>sum (_, cp). rf (sum + passRate cp)) 0 (qualityCheckpoints s)"
  have "list_all (\<lambda>(_, cp). 0 \<le> passRate cp \<and> passRate cp \<le> 100) (qualityCheckpoints s)"
    using assms(1) by (fastforce simp: sim_inv_def checkpoint_ok_def list_all_iff)
  then have "0 \<le> q \<and> q \<le> real (100 * length (qualityCheckpoints s))"
    using sum_rounded [OF assms(2), of "qualityCheckpoints s" 0 0] assms(3) by (simp add: q_def)
  then show ?thesis using quotient_rounded [OF assms(2), of q "length (qualityCheckpoints s)"] assms(3)
    unfolding oee_fields q_def [symmetric] by simp
qed

text \<open>
  The OEE card shows percentages: with any rounding that is monotone and exact on small integers, as the
  IEEE formats are, all four figures of the snapshot lie between 0 and 100.
\<close>

theorem oee_is_percentage:
  assumes "sim_inv s" and "rounding rf" and "rounding rd"
    and "length (equipmentStatuses s) \<le> 1000" and "length (qualityCheckpoints s) \<le> 1000"
    and "m = oeeSnapshot rf rd s"
  shows "0 \<le> availabilityPct m \<and> availabilityPct m \<le> 100 \<and> 0 \<le> performancePct m \<and> performancePct m \<le> 100 \<and>
    0 \<le> qualityPct m \<and> qualityPct m \<le> 100 \<and> 0 \<le> oeePct m \<and> oeePct m \<le> 100"
proof -
  note bounds = availability_bounds [OF assms(2,4), of rd] performance_bounds [OF assms(2,3), of s] quality_bounds [OF assms(1,2,5), of rd]
  have "0 \<le> oeePct m \<and> oeePct m \<le> 100" unfolding assms(6) oee_fields(4)
    by (rule product_rounded [OF assms(2)]) (use bounds in auto)
  then show ?thesis using bounds assms(6) by simp
qed

theorem oee_is_percentage_witness:
  "oeePct (oeeSnapshot (\<lambda>x. x) (\<lambda>x. x) (demo_model :: nat SimulatedModel)) \<le> 100"
proof -
  have r: "rounding (\<lambda>x. x)" by (simp add: rounding_def mono_def)
  have "length (equipmentStatuses (demo_model :: nat SimulatedModel)) \<le> 1000" "length (qualityCheckpoints (demo_model :: nat SimulatedModel)) \<le> 1000"
    by (simp_all add: demo_model_simps demo_equipment_def demo_quality_def)
  from oee_is_percentage [OF demo_model_inv r r this refl] show ?thesis by blast
qed

subsection \<open>Two departures\<close>

text \<open>
  A Start in the safe state moves the line: with the machine locked in ERROR, \<^verbatim>\<open>startProduction\<close> leaves it in
  ERROR and notifies no state change, but still completes an operation of the work unit and sets line 1 to
  Processing, and tells the observers so.
\<close>

theorem start_moves_locked_line:
  assumes "sim_inv s" and "getState s = ERROR"
    and "completedOperations (currentWorkUnit s) < totalOperations (currentWorkUnit s)"
    and "startProduction s = (s', ns)"
  shows "getState s' = ERROR \<and> completedOperations (currentWorkUnit s') = completedOperations (currentWorkUnit s) + 1 \<and>
    (\<exists>e. map_of (equipmentStatuses s') kBLineId = Some e \<and> eq_status e = kEquipmentStatusProcessing \<and>
       ns = map (\<lambda>cb. WorkUnitNote cb (currentWorkUnit s')) (workUnitCallbacks s) @ map (\<lambda>cb. EquipmentNote cb e) (equipmentCallbacks s))"
proof -
  have "dispatch_state ssm_start s = (s, [])"
    using assms(1,2) by (simp add: dispatch_state_def ssm_defs getState_def sim_inv_def ssm_inv_def)
  then show ?thesis using assms(2-4)
    by (auto simp: startProduction_def simulateProductionCycle_def Let_def set_equipment_def notifyWorkUnitChange_def
        notifyEquipmentChange_def getState_def)
qed

theorem start_moves_locked_line_witness:
  "\<exists>s' ns. startProduction (fst (triggerFault ''E'' (demo_model :: nat SimulatedModel))) = (s', ns) \<and> getState s' = ERROR \<and>
     completedOperations (currentWorkUnit s') = 4"
proof -
  let ?s = "fst (triggerFault ''E'' (demo_model :: nat SimulatedModel))"
  obtain s' ns where st: "startProduction ?s = (s', ns)" by fastforce
  have "sim_inv ?s" using dispatch_state_inv(5) [OF demo_model_inv] by (simp add: triggerFault_def)
  moreover have "getState ?s = ERROR" "currentWorkUnit ?s = demo_work_unit"
    by (auto simp: triggerFault_def dispatch_state_fst getState_def ssm_defs demo_model_simps)
  ultimately show ?thesis using start_moves_locked_line [OF _ _ _ st] st by (simp add: demo_work_unit_def)
qed

text \<open>
  A fourth line is accepted: the demo line has three, but id 3 passes the range check. Enabling it creates
  a row whose own id field is 0, so every observer is told that line 0 changed.
\<close>

theorem fourth_line_reports_as_first:
  assumes "map_of (equipmentStatuses s) 3 = None" and "setEquipmentEnabled 3 en s = (s', ns)"
  shows "map_of (equipmentStatuses s') 3 \<noteq> None \<and>
    ns = map (\<lambda>cb. EquipmentNote cb \<lparr>equipmentId = 0, eq_status = (if en then 1 else 0), supplyLevel = 0, eq_message = []\<rparr>) (equipmentCallbacks s)"
  using assms by (auto simp: setEquipmentEnabled_def kEquipmentCount_def set_equipment_def Let_def notifyEquipmentChange_def
      omap_get_def default_equipment_def kEquipmentStatusOnline_def kEquipmentStatusOffline_def)

theorem fourth_line_reports_as_first_witness:
  "\<exists>s' ns. setEquipmentEnabled 3 True (demo_model :: nat SimulatedModel) = (s', ns) \<and> map_of (equipmentStatuses s') 3 \<noteq> None"
proof -
  obtain s' ns where e: "setEquipmentEnabled 3 True (demo_model :: nat SimulatedModel) = (s', ns)" by fastforce
  have "map_of (equipmentStatuses (demo_model :: nat SimulatedModel)) 3 = None" by (simp add: demo_model_simps demo_equipment_def)
  from fourth_line_reports_as_first [OF this e] e show ?thesis by blast
qed

end
