(* ===== verification/LineFeed.thy ===== *)
theory LineFeed
  imports SimulatedModel
begin

text \<open>
  What the subscribers of the production model are told: the interface the dashboard presenter and the
  bridge to a second station rely on. Three feeds are read off the observer calls of a command: the
  system state, the supply level of a line and the pass rate of a checkpoint. Each is an interpretation
  of \<open>observed_store\<close>: what is told is the value after the command, and no change goes untold.
\<close>

section \<open>What a subscriber is told\<close>

fun tells_state :: "'cb \<Rightarrow> 'cb notice \<Rightarrow> (unit \<times> SystemState) option" where
  "tells_state d (StateNote d' st) = (if d' = d then Some ((), st) else None)"
| "tells_state d _ = None"

fun tells_supply :: "'cb \<Rightarrow> 'cb notice \<Rightarrow> (u32 \<times> int) option" where
  "tells_supply d (EquipmentNote d' e) = (if d' = d then Some (equipmentId e, supplyLevel e) else None)"
| "tells_supply d _ = None"

fun tells_rate :: "'cb \<Rightarrow> 'cb notice \<Rightarrow> (u32 \<times> real) option" where
  "tells_rate d (QualityNote d' cp) = (if d' = d then Some (checkpointId cp, passRate cp) else None)"
| "tells_rate d _ = None"

definition state_value :: "'cb SimulatedModel \<Rightarrow> unit \<Rightarrow> SystemState option" where
  "state_value s _ = Some (getState s)"

definition supply_value :: "'cb SimulatedModel \<Rightarrow> u32 \<Rightarrow> int option" where
  "supply_value s i = map_option supplyLevel (map_of (equipmentStatuses s) i)"

definition rate_value :: "'cb SimulatedModel \<Rightarrow> u32 \<Rightarrow> real option" where
  "rate_value s i = map_option passRate (map_of (qualityCheckpoints s) i)"

lemmas value_defs = state_value_def supply_value_def rate_value_def

section \<open>The notices of every command\<close>

lemma ssm_calls:
  assumes "ssm_inv m" and "observers m = [()]"
    and "cmd \<in> {ssm_start, ssm_stop, ssm_reset, ssm_calibrate, ssm_fault r}"
  shows "snd (cmd m) = (if sm (fst (cmd m)) = sm m then [] else [((), sm (fst (cmd m)))])"
  using assms by (auto simp: ssm_defs ssm_inv_def split: if_splits)

lemma dispatch_notes:
  assumes "sim_inv s" and "cmd \<in> {ssm_start, ssm_stop, ssm_reset, ssm_calibrate, ssm_fault r}"
  shows "snd (dispatch_state cmd s) = (if getState (fst (dispatch_state cmd s)) = getState s then []
    else map (\<lambda>cb. StateNote cb (getState (fst (dispatch_state cmd s)))) (stateCallbacks s))"
proof -
  have "snd (cmd (stateMachine s)) = (if sm (fst (cmd (stateMachine s))) = sm (stateMachine s) then []
      else [((), sm (fst (cmd (stateMachine s))))])"
    using assms by (intro ssm_calls [where r = r]) (auto simp: sim_inv_def)
  then show ?thesis by (auto simp: dispatch_state_def Let_def getState_def notifyStateChange_def case_prod_beta)
qed

lemma quality_notes:
  assumes "sim_inv s"
  shows "set (snd (notify_quality_ids (map fst (qualityCheckpoints s)) s)) =
    {QualityNote cb cp |cb cp. cb \<in> set (qualityCallbacks s) \<and> cp \<in> snd ` set (qualityCheckpoints s)}"
proof -
  have w: "omap_wf (qualityCheckpoints s)" using assms by (simp add: sim_inv_def)
  then have "distinct (map fst (qualityCheckpoints s))" by (simp add: strict_sorted_iff)
  then have rows: "(\<lambda>i. the (map_of (qualityCheckpoints s) i)) ` fst ` set (qualityCheckpoints s) = snd ` set (qualityCheckpoints s)"
    unfolding image_image by (intro image_cong) auto
  have "set (snd (notify_quality_ids (map fst (qualityCheckpoints s)) s)) =
      (\<Union>i \<in> fst ` set (qualityCheckpoints s). (\<lambda>cb. QualityNote cb (the (map_of (qualityCheckpoints s) i))) ` set (qualityCallbacks s))"
    using quality_ids_known [OF w, of "map fst (qualityCheckpoints s)"] by simp
  also have "\<dots> = (\<Union>cp \<in> snd ` set (qualityCheckpoints s). (\<lambda>cb. QualityNote cb cp) ` set (qualityCallbacks s))"
    unfolding rows [symmetric] by simp
  finally show ?thesis by auto
qed
text \<open>A note of one kind comes from the function that makes notes of that kind.\<close>

lemma note_kinds [simp]:
  "StateNote cb st \<notin> set (notifyEquipmentChange i s)" "StateNote cb st \<notin> set (notifyActuatorChange i s)"
  "StateNote cb st \<notin> set (notifyWorkUnitChange s)"
  "EquipmentNote cb e \<notin> set (notifyActuatorChange i s)" "EquipmentNote cb e \<notin> set (notifyWorkUnitChange s)"
  "EquipmentNote cb e \<notin> set (notifyStateChange s)"
  "QualityNote cb cp \<notin> set (notifyEquipmentChange i s)" "QualityNote cb cp \<notin> set (notifyActuatorChange i s)"
  "QualityNote cb cp \<notin> set (notifyWorkUnitChange s)" "QualityNote cb cp \<notin> set (notifyStateChange s)"
  by (auto simp: notifyEquipmentChange_def notifyActuatorChange_def notifyWorkUnitChange_def notifyStateChange_def
      split: option.splits)

lemma quality_loop_kinds [simp]:
  "StateNote cb st \<notin> set (snd (notify_quality_ids ids s))" "EquipmentNote cb e \<notin> set (snd (notify_quality_ids ids s))"
  by (induction ids arbitrary: s) (auto simp: notifyQualityChange_def Let_def case_prod_beta)

lemma dispatch_kinds [simp]:
  "EquipmentNote cb e \<notin> set (snd (dispatch_state cmd s))" "QualityNote cb cp \<notin> set (snd (dispatch_state cmd s))"
  by (auto simp: dispatch_state_def Let_def notifyStateChange_def case_prod_beta)

lemma pass_rate_kinds [simp]:
  "StateNote cb st \<notin> set (snd (setQualityPassRate i r s))" "EquipmentNote cb e \<notin> set (snd (setQualityPassRate i r s))"
  by (auto simp: setQualityPassRate_def notifyQualityChange_def Let_def split: option.splits)

text \<open>No command but a subscription changes who is subscribed.\<close>

definition same_subscribers :: "'cb SimulatedModel \<Rightarrow> 'cb SimulatedModel \<Rightarrow> bool" where
  "same_subscribers s s' = (equipmentCallbacks s' = equipmentCallbacks s \<and> qualityCallbacks s' = qualityCallbacks s \<and>
     stateCallbacks s' = stateCallbacks s)"

fun is_subscription :: "'cb sim_op \<Rightarrow> bool" where
  "is_subscription (SSubscribe _) = True"
| "is_subscription _ = False"

lemma quality_loop_subscribers: "same_subscribers s (fst (notify_quality_ids ids s))"
  by (induction ids arbitrary: s) (simp_all add: same_subscribers_def notifyQualityChange_def Let_def case_prod_beta)

lemma same_subscribersI:
  "same_subscribers s' s'' \<Longrightarrow> equipmentCallbacks s' = equipmentCallbacks s \<Longrightarrow> qualityCallbacks s' = qualityCallbacks s \<Longrightarrow>
   stateCallbacks s' = stateCallbacks s \<Longrightarrow> same_subscribers s s''"
  by (simp add: same_subscribers_def)

lemma exec_subscribers: "\<not> is_subscription c \<Longrightarrow> same_subscribers s (fst (sim_exec rf s c))"
proof (cases c)
  case (SLoad p r)
  then show ?thesis by (simp add: loadProduct_def Let_def case_prod_beta)
      (rule same_subscribersI [OF quality_loop_subscribers]; simp)
next
  case (STick draws now)
  then show ?thesis by (simp add: tickSimulation_def Let_def case_prod_beta)
      (intro conjI impI; rule same_subscribersI [OF quality_loop_subscribers]; simp)
next
  case SInit
  then show ?thesis by (simp add: initializeDemoData_def republishAll_def Let_def case_prod_beta dispatch_state_fst)
      (rule same_subscribersI [OF quality_loop_subscribers]; simp)
next
  case SRepublish
  then show ?thesis using quality_loop_subscribers by (simp add: republishAll_def case_prod_beta)
qed (auto simp: same_subscribers_def dispatch_state_fst startProduction_def stopProduction_def resetSystem_def startCalibration_def
    triggerFault_def simulateProductionCycle_def setEquipmentEnabled_def setEquipmentSupplyLevel_def set_equipment_def Let_def
    case_prod_beta setQualityPassRate_def notifyQualityChange_def split: option.splits)

section \<open>The three feeds\<close>

subsection \<open>The system state\<close>

lemma cycle_state [simp]:
  "getState (fst (simulateProductionCycle s)) = getState s" "StateNote cb st \<notin> set (snd (simulateProductionCycle s))"
  by (auto simp: simulateProductionCycle_def getState_def set_equipment_def Let_def)

lemma republish_state:
  "sim_inv s \<Longrightarrow> StateNote cb st \<in> set (snd (republishAll s)) \<longleftrightarrow> cb \<in> set (stateCallbacks s) \<and> st = getState s"
  using quality_ids_all [of s] by (auto simp: republishAll_def case_prod_beta notifyStateChange_def getState_def)

definition tells_all :: "'cb sim_op \<Rightarrow> bool" where
  "tells_all c = (case c of SInit \<Rightarrow> True | SRepublish \<Rightarrow> True | _ \<Rightarrow> False)"

text \<open>A state note is made exactly for a subscriber, with the state after the command, when it changed or on a republish.\<close>

lemma state_note_iff:
  assumes "sim_inv s" and "\<not> is_subscription c"
  shows "StateNote cb st \<in> set (snd (sim_exec rf s c)) \<longleftrightarrow> cb \<in> set (stateCallbacks s) \<and> st = getState (fst (sim_exec rf s c)) \<and>
    (getState (fst (sim_exec rf s c)) \<noteq> getState s \<or> tells_all c)"
proof (cases c)
  case SStart
  then show ?thesis using dispatch_notes [OF assms(1), of ssm_start] by (auto simp: startProduction_def case_prod_beta tells_all_def)
next
  case SStop
  then show ?thesis using dispatch_notes [OF assms(1), of ssm_stop] by (auto simp: stopProduction_def tells_all_def)
next
  case SReset
  then show ?thesis using dispatch_notes [OF assms(1), of ssm_reset]
    by (auto simp: resetSystem_def case_prod_beta Let_def getState_def tells_all_def)
next
  case SCalibrate
  then show ?thesis using dispatch_notes [OF assms(1), of ssm_calibrate] by (auto simp: startCalibration_def tells_all_def)
next
  case (SFault r)
  then show ?thesis using dispatch_notes [OF assms(1), of "ssm_fault r" r] by (auto simp: triggerFault_def tells_all_def)
next
  case (SLoad p r)
  then show ?thesis using loadProduct_model [OF assms(1) surjective_pairing, of p r]
    by (auto simp: getState_def tells_all_def)
next
  case (STick draws now)
  then show ?thesis using tickSimulation_model [OF assms(1) surjective_pairing, of rf draws now]
    by (auto simp: getState_def tells_all_def)
next
  case SRepublish
  then show ?thesis using republish_state [OF assms(1)] republishAll_model [OF assms(1)] by (simp add: tells_all_def)
next
  case (SPassRate i r)
  then show ?thesis by (auto simp: setQualityPassRate_def notifyQualityChange_def getState_def Let_def tells_all_def split: option.splits)
next
  case SInit
  define s1 where "s1 = s\<lparr>equipmentStatuses := put_all demo_equipment (equipmentStatuses s), actuatorStatuses := put_all demo_actuators (actuatorStatuses s),
      qualityCheckpoints := put_all demo_quality (qualityCheckpoints s), currentWorkUnit := demo_work_unit\<rparr>"
  have i: "sim_inv s1" unfolding s1_def by (rule seeded_inv [OF assms(1)])
  note j = dispatch_state_inv(3) [OF i]
  have "getState s1 = getState s" "stateCallbacks s1 = stateCallbacks s" by (simp_all add: s1_def getState_def)
  moreover have "stateCallbacks (fst (dispatch_state ssm_reset s1)) = stateCallbacks s1" by (simp add: dispatch_state_fst)
  moreover have "initializeDemoData s = (fst (dispatch_state ssm_reset s1), snd (dispatch_state ssm_reset s1) @ snd (republishAll (fst (dispatch_state ssm_reset s1))))"
    using republishAll_model [OF j] by (simp add: initializeDemoData_def s1_def Let_def case_prod_beta)
  ultimately show ?thesis using SInit dispatch_notes [OF i, of ssm_reset] republish_state [OF j] by (auto simp: tells_all_def)
qed (use assms in \<open>auto simp: setEquipmentEnabled_def setEquipmentSupplyLevel_def set_equipment_def Let_def getState_def tells_all_def\<close>)

subsection \<open>Supply levels\<close>

lemma set_equipment_rows [simp]:
  "map_of (equipmentStatuses (set_equipment i f s)) = (map_of (equipmentStatuses s))(i \<mapsto> f (omap_get default_equipment (equipmentStatuses s) i))"
  "equipmentCallbacks (set_equipment i f s) = equipmentCallbacks s"
  by (simp_all add: set_equipment_def)

lemma line_notes:
  "EquipmentNote cb e \<in> set (notifyEquipmentChange i s) \<longleftrightarrow> cb \<in> set (equipmentCallbacks s) \<and> map_of (equipmentStatuses s) i = Some e"
  by (auto simp: notifyEquipmentChange_def split: option.splits)

lemma republish_lines:
  "EquipmentNote cb e \<in> set (snd (republishAll s)) \<longleftrightarrow> cb \<in> set (equipmentCallbacks s) \<and> (\<exists>i. map_of (equipmentStatuses s) i = Some e)"
  by (auto simp: republishAll_def case_prod_beta line_notes image_iff) (metis fst_conv map_of_SomeD)

lemma seeded_init:
  assumes "sim_inv s"
  obtains s1 where "sim_inv s1" "same_subscribers s s1" "initializeDemoData s = (s1, snd (dispatch_state ssm_reset (s1\<lparr>stateMachine := stateMachine s\<rparr>)) @ snd (republishAll s1))"
    "equipmentStatuses s1 = put_all demo_equipment (equipmentStatuses s)" "qualityCheckpoints s1 = put_all demo_quality (qualityCheckpoints s)"
proof -
  define s0 where "s0 = s\<lparr>equipmentStatuses := put_all demo_equipment (equipmentStatuses s), actuatorStatuses := put_all demo_actuators (actuatorStatuses s),
      qualityCheckpoints := put_all demo_quality (qualityCheckpoints s), currentWorkUnit := demo_work_unit\<rparr>"
  define s1 where "s1 = fst (dispatch_state ssm_reset s0)"
  have i: "sim_inv s1" unfolding s1_def s0_def by (rule dispatch_state_inv(3) [OF seeded_inv [OF assms]])
  have "s1\<lparr>stateMachine := stateMachine s\<rparr> = s0" by (simp add: s1_def s0_def dispatch_state_fst)
  moreover have "initializeDemoData s = (s1, snd (dispatch_state ssm_reset s0) @ snd (republishAll s1))"
    using republishAll_model [OF i] by (simp add: initializeDemoData_def s1_def s0_def Let_def case_prod_beta)
  ultimately show ?thesis using i by (intro that [of s1]) (simp_all add: s1_def s0_def dispatch_state_fst same_subscribers_def)
qed

lemma line_told:
  assumes "sim_inv s" and "\<not> is_subscription c" and "EquipmentNote cb e \<in> set (snd (sim_exec rf s c))"
  shows "\<exists>i. map_of (equipmentStatuses (fst (sim_exec rf s c))) i = Some e"
proof (cases c)
  case SStart
  then show ?thesis using assms(3)
    by (auto simp: startProduction_def simulateProductionCycle_def case_prod_beta Let_def line_notes split: if_splits)
next
  case (SEnable i en)
  then show ?thesis using assms(3) by (auto simp: setEquipmentEnabled_def Let_def line_notes split: if_splits)
next
  case (SSupply i l)
  then show ?thesis using assms(3) by (auto simp: setEquipmentSupplyLevel_def Let_def line_notes split: if_splits)
next
  case SRepublish
  then show ?thesis using assms(3) republishAll_model [OF assms(1)] by (auto simp: republish_lines)
next
  case SInit
  from seeded_init [OF assms(1)] obtain s1 where "initializeDemoData s = (s1, snd (dispatch_state ssm_reset (s1\<lparr>stateMachine := stateMachine s\<rparr>)) @ snd (republishAll s1))" by metis
  then show ?thesis using assms(3) SInit by (auto simp: republish_lines)
qed (use assms in \<open>auto simp: stopProduction_def resetSystem_def startCalibration_def triggerFault_def loadProduct_def tickSimulation_def
    Let_def case_prod_beta split: if_splits\<close>)

lemma line_change_told:
  assumes "sim_inv s" and "\<not> is_subscription c" and "cb \<in> set (equipmentCallbacks s)"
    and "map_of (equipmentStatuses (fst (sim_exec rf s c))) i \<noteq> map_of (equipmentStatuses s) i"
  shows "\<exists>e. map_of (equipmentStatuses (fst (sim_exec rf s c))) i = Some e \<and> EquipmentNote cb e \<in> set (snd (sim_exec rf s c))"
proof (cases c)
  case SStart
  then show ?thesis using assms(3,4)
    by (auto simp: startProduction_def simulateProductionCycle_def case_prod_beta Let_def line_notes dispatch_state_fst split: if_splits)
next
  case (SEnable j en)
  then show ?thesis using assms(3,4) by (auto simp: setEquipmentEnabled_def Let_def line_notes split: if_splits)
next
  case (SSupply j l)
  then show ?thesis using assms(3,4) by (auto simp: setEquipmentSupplyLevel_def Let_def line_notes split: if_splits)
next
  case SInit
  from seeded_init [OF assms(1)] obtain s1 where s1: "same_subscribers s s1" "equipmentStatuses s1 = put_all demo_equipment (equipmentStatuses s)"
    "initializeDemoData s = (s1, snd (dispatch_state ssm_reset (s1\<lparr>stateMachine := stateMachine s\<rparr>)) @ snd (republishAll s1))" by metis
  have "\<exists>e. map_of (equipmentStatuses s1) i = Some e"
    using assms(4) SInit s1 by (auto simp: put_all_def demo_equipment_def split: if_splits)
  then show ?thesis using SInit assms(3) s1 by (auto simp: republish_lines same_subscribers_def)
next
  case (SLoad p r)
  then show ?thesis using loadProduct_model [OF assms(1) surjective_pairing, of p r] assms(4) by simp
next
  case (STick draws now)
  then show ?thesis using tickSimulation_model [OF assms(1) surjective_pairing, of rf draws now] assms(4) by simp
next
  case SRepublish
  then show ?thesis using assms(4) republishAll_model [OF assms(1)] by simp
qed (use assms in \<open>auto simp: stopProduction_def resetSystem_def startCalibration_def triggerFault_def
    Let_def case_prod_beta dispatch_state_fst setQualityPassRate_def notifyQualityChange_def split: option.splits\<close>)

subsection \<open>Pass rates\<close>

lemma quality_rows: "sim_inv s \<Longrightarrow> cp \<in> snd ` set (qualityCheckpoints s) \<longleftrightarrow> (\<exists>i. map_of (qualityCheckpoints s) i = Some cp)"
  by (force simp: sim_inv_def strict_sorted_iff)

lemma pass_rate_notes:
  assumes "sim_inv s" and "s' = fst (setQualityPassRate i r s)"
  shows "QualityNote cb cp' \<in> set (snd (setQualityPassRate i r s)) \<longleftrightarrow>
    cb \<in> set (qualityCallbacks s) \<and> map_of (qualityCheckpoints s) i \<noteq> None \<and> map_of (qualityCheckpoints s') i = Some cp'"
  using assms by (auto simp: setQualityPassRate_def notifyQualityChange_def Let_def omap_get_def split: option.splits)

lemma republish_quality:
  "sim_inv s \<Longrightarrow> QualityNote cb cp \<in> set (snd (republishAll s)) \<longleftrightarrow> cb \<in> set (qualityCallbacks s) \<and> (\<exists>i. map_of (qualityCheckpoints s) i = Some cp)"
  by (auto simp: republishAll_def case_prod_beta quality_notes quality_rows)

text \<open>The commands that report every checkpoint.\<close>

lemma reports_all:
  assumes "sim_inv s" and "c = SLoad p r \<or> c = STick draws now \<or> c = SInit \<or> c = SRepublish" and "s' = fst (sim_exec rf s c)"
  shows "QualityNote cb cp \<in> set (snd (sim_exec rf s c)) \<longleftrightarrow> cb \<in> set (qualityCallbacks s) \<and> (\<exists>i. map_of (qualityCheckpoints s') i = Some cp)"
proof -
  have cbs: "qualityCallbacks s' = qualityCallbacks s" using exec_subscribers [of c s rf] assms(2,3) by (auto simp: same_subscribers_def)
  have i: "sim_inv s'" using assms sim_exec_inv [of s c rf] by auto
  from assms(2) consider "c = SLoad p r" | "c = STick draws now" | "c = SInit" | "c = SRepublish" by auto
  then show ?thesis
  proof cases
    case 1
    then show ?thesis using loadProduct_model [OF assms(1) surjective_pairing, of p r] assms(3) quality_notes [OF i] quality_rows [OF i] cbs by simp
  next
    case 2
    then show ?thesis using tickSimulation_model [OF assms(1) surjective_pairing, of rf draws now] assms(3) quality_notes [OF i] quality_rows [OF i] cbs by simp
  next
    case 3
    from seeded_init [OF assms(1)] obtain s1 where "initializeDemoData s = (s1, snd (dispatch_state ssm_reset (s1\<lparr>stateMachine := stateMachine s\<rparr>)) @ snd (republishAll s1))" by metis
    then show ?thesis using 3 assms(3) republish_quality [OF i] cbs by simp
  next
    case 4
    then show ?thesis using republish_quality [OF assms(1)] republishAll_model [OF assms(1)] assms(3) by simp
  qed
qed

lemma rows_of_plain_ops:
  assumes "c \<in> {SStart, SStop, SReset, SCalibrate, SFault r, SEnable i en, SSupply i l}"
  shows "qualityCheckpoints (fst (sim_exec rf s c)) = qualityCheckpoints s \<and> QualityNote cb cp \<notin> set (snd (sim_exec rf s c))"
  using assms by (auto simp: frame_simps) (auto simp: startProduction_def simulateProductionCycle_def stopProduction_def resetSystem_def startCalibration_def
      triggerFault_def setEquipmentEnabled_def setEquipmentSupplyLevel_def Let_def case_prod_beta split: if_splits)

lemma rate_told:
  assumes "sim_inv s" and "\<not> is_subscription c" and "QualityNote cb cp \<in> set (snd (sim_exec rf s c))"
  shows "\<exists>i. map_of (qualityCheckpoints (fst (sim_exec rf s c))) i = Some cp"
proof (cases c)
  case (SPassRate i r)
  then show ?thesis using assms(3) pass_rate_notes [OF assms(1) refl] by auto
qed (use assms reports_all [OF assms(1) _ refl, of c] rows_of_plain_ops [of c] in auto)

text \<open>A checkpoint row may change but never disappears.\<close>

lemma quality_row_stays:
  assumes "sim_inv s" and "\<not> is_subscription c"
    and "map_of (qualityCheckpoints (fst (sim_exec rf s c))) i \<noteq> map_of (qualityCheckpoints s) i"
  shows "\<exists>cp. map_of (qualityCheckpoints (fst (sim_exec rf s c))) i = Some cp"
proof (cases c)
  case (SLoad p r)
  then show ?thesis using loadProduct_model [OF assms(1) surjective_pairing, of p r] assms(3)
    by (cases "map_of (qualityCheckpoints s) i") (auto simp: map_of_map_key)
next
  case (STick draws now)
  then show ?thesis using tickSimulation_model [OF assms(1) surjective_pairing, of rf draws now] assms(3)
    by (cases "map_of (qualityCheckpoints s) i") (auto simp: map_of_map_key)
next
  case (SPassRate j r)
  then show ?thesis using assms(3) by (auto simp: setQualityPassRate_def notifyQualityChange_def Let_def split: option.splits if_splits)
next
  case SInit
  from seeded_init [OF assms(1)] obtain s1 where "qualityCheckpoints s1 = put_all demo_quality (qualityCheckpoints s)"
    "initializeDemoData s = (s1, snd (dispatch_state ssm_reset (s1\<lparr>stateMachine := stateMachine s\<rparr>)) @ snd (republishAll s1))" by metis
  then show ?thesis using SInit assms(3) by (auto simp: put_all_def demo_quality_def split: if_splits)
next
  case SRepublish
  then show ?thesis using assms(3) republishAll_model [OF assms(1)] by simp
qed (use assms rows_of_plain_ops [of c] in auto)

lemma rate_change_told:
  assumes "sim_inv s" and "\<not> is_subscription c" and "cb \<in> set (qualityCallbacks s)"
    and "map_of (qualityCheckpoints (fst (sim_exec rf s c))) i \<noteq> map_of (qualityCheckpoints s) i"
  shows "\<exists>cp. map_of (qualityCheckpoints (fst (sim_exec rf s c))) i = Some cp \<and> QualityNote cb cp \<in> set (snd (sim_exec rf s c))"
proof -
  note some = quality_row_stays [OF assms(1,2,4)]
  show ?thesis
  proof (cases c)
    case (SPassRate j r)
    have "j = i \<and> map_of (qualityCheckpoints s) i \<noteq> None"
      using assms(4) SPassRate by (auto simp: setQualityPassRate_def notifyQualityChange_def Let_def omap_get_def split: option.splits if_splits)
    then show ?thesis using SPassRate some assms(3) pass_rate_notes [OF assms(1) refl, of cb _ j r] by auto
  qed (use some assms reports_all [OF assms(1) _ refl, of c] rows_of_plain_ops [of c] in auto)
qed

subsection \<open>The interfaces\<close>

text \<open>The line as the demo data sets it up: three rows, each under its own id, and commands that address one of them.\<close>

definition own_rows :: "'cb SimulatedModel \<Rightarrow> bool" where
  "own_rows s = (map fst (equipmentStatuses s) = [0, 1, 2] \<and> list_all (\<lambda>(i, e). equipmentId e = i) (equipmentStatuses s))"

fun on_line :: "'cb sim_op \<Rightarrow> bool" where
  "on_line (SEnable i _) = (i < 3)"
| "on_line (SSupply i _) = (i < 3)"
| "on_line (SSubscribe _) = False"
| "on_line _ = True"

lemma on_line_known: "on_line c \<Longrightarrow> known_op c \<and> \<not> is_subscription c"
  by (cases c) auto

lemma own_rows_put:
  assumes "own_rows s" and "i < 3" and "\<And>e. equipmentId (f e) = equipmentId e"
  shows "own_rows (set_equipment i f s)"
proof -
  from assms(1) obtain a b c where e: "equipmentStatuses s = [(0, a), (1, b), (2, c)]" "equipmentId a = 0" "equipmentId b = 1" "equipmentId c = 2"
    by (auto simp: own_rows_def map_eq_Cons_conv)
  have "unat i < 3" using assms(2) by (simp add: word_less_nat_alt)
  then have "unat i = 0 \<or> unat i = 1 \<or> unat i = 2" by linarith
  then have "i = 0 \<or> i = 1 \<or> i = 2" by (auto simp: word_unat_eq_iff)
  then show ?thesis using e assms(3) by (auto simp: own_rows_def set_equipment_def omap_get_def)
qed

lemma own_rows_frame: "own_rows s \<Longrightarrow> equipmentStatuses s' = equipmentStatuses s \<Longrightarrow> own_rows s'"
  by (simp add: own_rows_def)

lemma put_demo_equipment: "map fst m = [0, 1, 2 :: u32] \<Longrightarrow> put_all demo_equipment m = demo_equipment"
  by (auto simp: map_eq_Cons_conv put_all_def demo_equipment_def)

lemma own_rows_step:
  assumes "sim_inv s" and "own_rows s" and "on_line c"
  shows "own_rows (fst (sim_exec rf s c))"
proof (cases c)
  case SStart
  have "own_rows (fst (dispatch_state ssm_start s))" by (rule own_rows_frame [OF assms(2)]) (simp add: dispatch_state_fst)
  then show ?thesis using SStart
    by (auto simp: startProduction_def simulateProductionCycle_def Let_def case_prod_beta kBLineId_def intro!: own_rows_put intro: own_rows_frame)
next
  case (SEnable i en)
  then show ?thesis using assms by (auto simp: setEquipmentEnabled_def Let_def intro: own_rows_put)
next
  case (SSupply i l)
  then show ?thesis using assms by (auto simp: setEquipmentSupplyLevel_def Let_def intro: own_rows_put)
next
  case (SLoad p r)
  then show ?thesis using loadProduct_model [OF assms(1) surjective_pairing, of p r] by (auto intro: own_rows_frame [OF assms(2)])
next
  case (STick draws now)
  then show ?thesis using tickSimulation_model [OF assms(1) surjective_pairing, of rf draws now] by (auto intro: own_rows_frame [OF assms(2)])
next
  case SRepublish
  then show ?thesis using republishAll_model [OF assms(1)] assms(2) by simp
next
  case SInit
  from seeded_init [OF assms(1)] obtain s1 where "equipmentStatuses s1 = put_all demo_equipment (equipmentStatuses s)"
    "initializeDemoData s = (s1, snd (dispatch_state ssm_reset (s1\<lparr>stateMachine := stateMachine s\<rparr>)) @ snd (republishAll s1))" by metis
  then show ?thesis using SInit assms(2) put_demo_equipment [of "equipmentStatuses s"] by (auto simp: own_rows_def demo_equipment_def)
qed (use assms in \<open>auto simp: stopProduction_def resetSystem_def startCalibration_def triggerFault_def
    Let_def case_prod_beta dispatch_state_fst setQualityPassRate_def notifyQualityChange_def intro: own_rows_frame split: option.splits\<close>)

text \<open>The states in which \<^verbatim>\<open>d\<close> is subscribed to all three.\<close>

definition feeding :: "'cb \<Rightarrow> 'cb SimulatedModel \<Rightarrow> bool" where
  "feeding d s = (sim_inv s \<and> own_rows s \<and> d \<in> set (equipmentCallbacks s) \<and> d \<in> set (qualityCallbacks s))"

lemma feeding_step: "feeding d s \<Longrightarrow> on_line c \<Longrightarrow> feeding d (fst (sim_exec rf s c))"
  using exec_subscribers [of c s rf] sim_exec_inv [of s c rf] own_rows_step [of s c rf] on_line_known [of c]
  by (auto simp: feeding_def same_subscribers_def)

lemma own_row_id: "own_rows s \<Longrightarrow> map_of (equipmentStatuses s) i = Some e \<Longrightarrow> equipmentId e = i"
  by (auto simp: own_rows_def list_all_iff dest: map_of_SomeD)

lemma checkpoint_own_id: "sim_inv s \<Longrightarrow> map_of (qualityCheckpoints s) i = Some cp \<Longrightarrow> checkpointId cp = i"
  by (auto simp: sim_inv_def checkpoint_ok_def list_all_iff dest: map_of_SomeD)

definition state_feeding :: "'cb \<Rightarrow> 'cb SimulatedModel \<Rightarrow> bool" where
  "state_feeding d s = (sim_inv s \<and> d \<in> set (stateCallbacks s))"

lemma state_feeding_step:
  "state_feeding d s \<Longrightarrow> \<not> is_subscription c \<Longrightarrow> state_feeding d (fst (sim_exec rf s c))"
  using exec_subscribers [of c s rf] sim_exec_inv [of s c rf]
  by (cases c) (auto simp: state_feeding_def same_subscribers_def)

interpretation state_feed: observed_store "sim_exec rf" state_value "tells_state d" "state_feeding d" "\<lambda>c. \<not> is_subscription c" for rf d
proof unfold_locales
  fix s and c :: "'a sim_op" and n k v
  assume s: "state_feeding d s" and c: "\<not> is_subscription c"
  note iff = state_note_iff [of s c _ _ rf, OF _ c]
  show "state_feeding d (fst (sim_exec rf s c))" by (rule state_feeding_step [OF s c])
  show "state_value (fst (sim_exec rf s c)) k = Some v"
    if n: "n \<in> set (snd (sim_exec rf s c))" and t: "tells_state d n = Some (k, v)"
  proof (cases n)
    case (StateNote cb st)
    then have "st = getState (fst (sim_exec rf s c))" using n s iff by (simp add: state_feeding_def)
    then show ?thesis using t StateNote by (simp add: state_value_def split: if_splits)
  qed (use t in auto)
  show "\<exists>n \<in> set (snd (sim_exec rf s c)). \<exists>v. tells_state d n = Some (k, v)"
    if "state_value (fst (sim_exec rf s c)) k \<noteq> state_value s k"
    using that s iff [of d "getState (fst (sim_exec rf s c))"]
    by (intro bexI [of _ "StateNote d (getState (fst (sim_exec rf s c)))"]) (auto simp: state_feeding_def state_value_def)
qed

interpretation supply_feed: observed_store "sim_exec rf" supply_value "tells_supply d" "feeding d" on_line for rf d
proof unfold_locales
  fix s and c :: "'a sim_op" and n k v
  assume s: "feeding d s" and c: "on_line c"
  note c' = on_line_known [OF c, THEN conjunct2]
  have f: "feeding d (fst (sim_exec rf s c))" by (rule feeding_step [OF s c])
  then show "feeding d (fst (sim_exec rf s c))" .
  show "supply_value (fst (sim_exec rf s c)) k = Some v"
    if n: "n \<in> set (snd (sim_exec rf s c))" and t: "tells_supply d n = Some (k, v)"
  proof (cases n)
    case (EquipmentNote cb e)
    then obtain i where "map_of (equipmentStatuses (fst (sim_exec rf s c))) i = Some e"
      using n s line_told [of s c cb e rf, OF _ c'] by (auto simp: feeding_def)
    moreover from this have "equipmentId e = i" using f own_row_id by (auto simp: feeding_def)
    ultimately show ?thesis using t EquipmentNote by (auto simp: supply_value_def split: if_splits)
  qed (use t in auto)
  show "\<exists>n \<in> set (snd (sim_exec rf s c)). \<exists>v. tells_supply d n = Some (k, v)"
    if "supply_value (fst (sim_exec rf s c)) k \<noteq> supply_value s k"
  proof -
    have "map_of (equipmentStatuses (fst (sim_exec rf s c))) k \<noteq> map_of (equipmentStatuses s) k" using that by (auto simp: supply_value_def)
    from line_change_told [OF _ c' _ this, of d] s obtain e where
      "map_of (equipmentStatuses (fst (sim_exec rf s c))) k = Some e" "EquipmentNote d e \<in> set (snd (sim_exec rf s c))" by (auto simp: feeding_def)
    moreover from this have "equipmentId e = k" using f own_row_id by (auto simp: feeding_def)
    ultimately show ?thesis by (intro bexI [of _ "EquipmentNote d e"]) auto
  qed
qed

interpretation rate_feed: observed_store "sim_exec rf" rate_value "tells_rate d" "feeding d" on_line for rf d
proof unfold_locales
  fix s and c :: "'a sim_op" and n k v
  assume s: "feeding d s" and c: "on_line c"
  note c' = on_line_known [OF c, THEN conjunct2]
  have f: "feeding d (fst (sim_exec rf s c))" by (rule feeding_step [OF s c])
  then show "feeding d (fst (sim_exec rf s c))" .
  show "rate_value (fst (sim_exec rf s c)) k = Some v"
    if n: "n \<in> set (snd (sim_exec rf s c))" and t: "tells_rate d n = Some (k, v)"
  proof (cases n)
    case (QualityNote cb cp)
    then obtain i where "map_of (qualityCheckpoints (fst (sim_exec rf s c))) i = Some cp"
      using n s rate_told [of s c cb cp rf, OF _ c'] by (auto simp: feeding_def)
    moreover from this have "checkpointId cp = i" using f checkpoint_own_id by (auto simp: feeding_def)
    ultimately show ?thesis using t QualityNote by (auto simp: rate_value_def split: if_splits)
  qed (use t in auto)
  show "\<exists>n \<in> set (snd (sim_exec rf s c)). \<exists>v. tells_rate d n = Some (k, v)"
    if "rate_value (fst (sim_exec rf s c)) k \<noteq> rate_value s k"
  proof -
    have "map_of (qualityCheckpoints (fst (sim_exec rf s c))) k \<noteq> map_of (qualityCheckpoints s) k" using that by (auto simp: rate_value_def)
    from rate_change_told [OF _ c' _ this, of d] s obtain cp where
      "map_of (qualityCheckpoints (fst (sim_exec rf s c))) k = Some cp" "QualityNote d cp \<in> set (snd (sim_exec rf s c))" by (auto simp: feeding_def)
    moreover from this have "checkpointId cp = k" using f checkpoint_own_id by (auto simp: feeding_def)
    ultimately show ?thesis by (intro bexI [of _ "QualityNote d cp"]) auto
  qed
qed

end
