(* ===== verification/MirrorModel.thy ===== *)
theory MirrorModel
  imports LineFeed
begin

text \<open>
  \<^verbatim>\<open>model/MirrorModel.{h,cpp}\<close>, the production model of a second station, and
  \<^verbatim>\<open>integration/PrimaryToSecondaryBridge.{h,cpp}\<close>, which forwards the primary's supply levels and pass
  rates to it. The \<^verbatim>\<open>unordered_map\<close>s are key-ordered association lists (their iteration order is only
  visible through a sort). The bridge is a subscriber \<^verbatim>\<open>d\<close> of the primary model; the time of a forward is
  an argument. The two atomic flags and the counter are fields: each handler reads or writes each of them
  once.

  The theorems: the second station shows the primary's values after a republish and any commands, a
  restarted bridge forwards every event once, and the line row that reports under a foreign id overwrites
  the mirror of line 0.
\<close>

section \<open>The mirror model\<close>

definition kMinSupplyLevel :: int where "kMinSupplyLevel = 0"
definition kMaxSupplyLevel :: int where "kMaxSupplyLevel = 100"
definition kMinPassRate :: real where "kMinPassRate = 0"
definition kMaxPassRate :: real where "kMaxPassRate = 100"
definition kDefaultStatus :: int where "kDefaultStatus = 1"
definition kDefaultSupplyLevel :: int where "kDefaultSupplyLevel = 100"
definition kDefaultPassRate :: real where "kDefaultPassRate = 100"

definition kDefaultCheckpointNames :: "string list" where
  "kDefaultCheckpointNames = [''Weight Check'', ''Hardness Test'', ''Final Inspection'']"

record 'cb MirrorModel =
  mm_equipment :: "(u32, EquipmentStatus) omap"
  mm_quality :: "(u32, QualityCheckpoint) omap"
  mm_workUnit :: WorkUnit
  mm_state :: SystemState
  mm_equipmentObservers :: "'cb list"
  mm_actuatorObservers :: "'cb list"
  mm_qualityObservers :: "'cb list"
  mm_workUnitObservers :: "'cb list"
  mm_stateObservers :: "'cb list"

definition ids_below :: "u32 \<Rightarrow> u32 list" where
  "ids_below n = map of_nat [0..<unat n]"

definition mirror_checkpoint :: "u32 \<Rightarrow> QualityCheckpoint" where
  "mirror_checkpoint i = default_checkpoint\<lparr>checkpointId := i,
     qc_name := (if unat i < length kDefaultCheckpointNames then kDefaultCheckpointNames ! unat i
                 else ''Checkpoint '' @ nat_str (unat (i + 1))),
     qc_status := 0, unitsInspected := 0, defectsFound := 0, passRate := kDefaultPassRate\<rparr>"

definition mirror_line :: "u32 \<Rightarrow> EquipmentStatus" where
  "mirror_line i = default_equipment\<lparr>equipmentId := i, eq_status := kDefaultStatus, supplyLevel := kDefaultSupplyLevel\<rparr>"

definition mirror_new :: "u32 \<Rightarrow> u32 \<Rightarrow> 'cb MirrorModel" where
  "mirror_new equipmentCount qualityCount =
     \<lparr>mm_equipment = map (\<lambda>i. (i, mirror_line i)) (ids_below equipmentCount),
      mm_quality = map (\<lambda>i. (i, mirror_checkpoint i)) (ids_below qualityCount),
      mm_workUnit = default_work_unit, mm_state = IDLE, mm_equipmentObservers = [], mm_actuatorObservers = [],
      mm_qualityObservers = [], mm_workUnitObservers = [], mm_stateObservers = []\<rparr>"

definition mm_onEquipmentStatusChanged :: "'cb \<Rightarrow> 'cb MirrorModel \<Rightarrow> 'cb MirrorModel" where
  "mm_onEquipmentStatusChanged cb m = m\<lparr>mm_equipmentObservers := mm_equipmentObservers m @ [cb]\<rparr>"

definition mm_onActuatorStatusChanged :: "'cb \<Rightarrow> 'cb MirrorModel \<Rightarrow> 'cb MirrorModel" where
  "mm_onActuatorStatusChanged cb m = m\<lparr>mm_actuatorObservers := mm_actuatorObservers m @ [cb]\<rparr>"

definition mm_onQualityCheckpointChanged :: "'cb \<Rightarrow> 'cb MirrorModel \<Rightarrow> 'cb MirrorModel" where
  "mm_onQualityCheckpointChanged cb m = m\<lparr>mm_qualityObservers := mm_qualityObservers m @ [cb]\<rparr>"

definition mm_onWorkUnitChanged :: "'cb \<Rightarrow> 'cb MirrorModel \<Rightarrow> 'cb MirrorModel" where
  "mm_onWorkUnitChanged cb m = m\<lparr>mm_workUnitObservers := mm_workUnitObservers m @ [cb]\<rparr>"

definition mm_onSystemStateChanged :: "'cb \<Rightarrow> 'cb MirrorModel \<Rightarrow> 'cb MirrorModel" where
  "mm_onSystemStateChanged cb m = m\<lparr>mm_stateObservers := mm_stateObservers m @ [cb]\<rparr>"

definition updateEquipmentSnapshotLocked :: "EquipmentStatus \<Rightarrow> 'cb MirrorModel \<Rightarrow> 'cb notice list" where
  "updateEquipmentSnapshotLocked snap m = map (\<lambda>cb. EquipmentNote cb snap) (mm_equipmentObservers m)"

definition updateQualitySnapshotLocked :: "QualityCheckpoint \<Rightarrow> 'cb MirrorModel \<Rightarrow> 'cb notice list" where
  "updateQualitySnapshotLocked snap m = map (\<lambda>cb. QualityNote cb snap) (mm_qualityObservers m)"

definition publishSystemStateChange :: "SystemState \<Rightarrow> 'cb MirrorModel \<Rightarrow> 'cb MirrorModel \<times> 'cb notice list" where
  "publishSystemStateChange st m = (if mm_state m = st then (m, [])
     else (m\<lparr>mm_state := st\<rparr>, map (\<lambda>cb. StateNote cb st) (mm_stateObservers m)))"

definition mm_startProduction :: "'cb MirrorModel \<Rightarrow> 'cb MirrorModel \<times> 'cb notice list" where
  "mm_startProduction m = publishSystemStateChange RUNNING m"

definition mm_stopProduction :: "'cb MirrorModel \<Rightarrow> 'cb MirrorModel \<times> 'cb notice list" where
  "mm_stopProduction m = publishSystemStateChange IDLE m"

definition mm_resetSystem :: "'cb MirrorModel \<Rightarrow> 'cb MirrorModel \<times> 'cb notice list" where
  "mm_resetSystem m = publishSystemStateChange IDLE m"

definition mm_startCalibration :: "'cb MirrorModel \<Rightarrow> 'cb MirrorModel \<times> 'cb notice list" where
  "mm_startCalibration m = publishSystemStateChange CALIBRATION m"

definition mm_loadProduct :: "Product \<Rightarrow> Recipe \<Rightarrow> 'cb MirrorModel \<Rightarrow> 'cb MirrorModel \<times> 'cb notice list" where
  "mm_loadProduct p r m = (m, [])"

definition mm_setEquipmentEnabled :: "u32 \<Rightarrow> bool \<Rightarrow> 'cb MirrorModel \<Rightarrow> 'cb MirrorModel \<times> 'cb notice list" where
  "mm_setEquipmentEnabled i en m = (case map_of (mm_equipment m) i of
     None \<Rightarrow> (m, [])
   | Some e \<Rightarrow> (let snap = e\<lparr>eq_status := (if en then 1 else 0)\<rparr> in
       (m\<lparr>mm_equipment := omap_put i snap (mm_equipment m)\<rparr>, map (\<lambda>cb. EquipmentNote cb snap) (mm_equipmentObservers m))))"

definition mm_setEquipmentSupplyLevel :: "u32 \<Rightarrow> int \<Rightarrow> 'cb MirrorModel \<Rightarrow> 'cb MirrorModel \<times> 'cb notice list" where
  "mm_setEquipmentSupplyLevel i level m =
     (let level = std_clamp level kMinSupplyLevel kMaxSupplyLevel in
      case map_of (mm_equipment m) i of
        None \<Rightarrow> (m, [])
      | Some e \<Rightarrow> (let snap = e\<lparr>supplyLevel := level\<rparr>; m1 = m\<lparr>mm_equipment := omap_put i snap (mm_equipment m)\<rparr> in
          (m1, updateEquipmentSnapshotLocked snap m1)))"

definition mm_setQualityPassRate :: "u32 \<Rightarrow> real \<Rightarrow> 'cb MirrorModel \<Rightarrow> 'cb MirrorModel \<times> 'cb notice list" where
  "mm_setQualityPassRate i rate m =
     (let rate = std_clamp rate kMinPassRate kMaxPassRate in
      case map_of (mm_quality m) i of
        None \<Rightarrow> (m, [])
      | Some cp \<Rightarrow> (let snap = cp\<lparr>passRate := rate\<rparr>; m1 = m\<lparr>mm_quality := omap_put i snap (mm_quality m)\<rparr> in
          (m1, updateQualitySnapshotLocked snap m1)))"

definition mm_getState :: "'cb MirrorModel \<Rightarrow> SystemState" where
  "mm_getState m = mm_state m"

definition mm_lastFaultReason :: "'cb MirrorModel \<Rightarrow> string" where
  "mm_lastFaultReason m = []"

definition mm_oeeSnapshot :: "'cb MirrorModel \<Rightarrow> OeeMetrics" where
  "mm_oeeSnapshot m = \<lparr>availabilityPct = 0, performancePct = 0, qualityPct = 0, oeePct = 0\<rparr>"

definition mm_getQualityCheckpoint :: "u32 \<Rightarrow> 'cb MirrorModel \<Rightarrow> QualityCheckpoint" where
  "mm_getQualityCheckpoint i m = (case map_of (mm_quality m) i of Some cp \<Rightarrow> cp | None \<Rightarrow> default_checkpoint)"

definition mm_getQualityCheckpoints :: "'cb MirrorModel \<Rightarrow> QualityCheckpoint list" where
  "mm_getQualityCheckpoints m = sort_key checkpointId (map snd (mm_quality m))"

definition mm_getWorkUnit :: "'cb MirrorModel \<Rightarrow> WorkUnit" where
  "mm_getWorkUnit m = mm_workUnit m"

section \<open>The bridge\<close>

definition kBridgeName :: string where "kBridgeName = ''Primary->Secondary''"

record PrimaryToSecondaryBridge =
  br_running :: bool
  br_subscribed :: bool
  br_forwarded :: u64
  br_lastForward :: int

definition bridge_init :: PrimaryToSecondaryBridge where
  "bridge_init = \<lparr>br_running = False, br_subscribed = False, br_forwarded = 0, br_lastForward = 0\<rparr>"

text \<open>The callbacks it installs on the primary are the subscriber \<^verbatim>\<open>d\<close>.\<close>

definition bridge_start :: "'cb \<Rightarrow> PrimaryToSecondaryBridge \<Rightarrow> 'cb SimulatedModel \<Rightarrow> PrimaryToSecondaryBridge \<times> 'cb SimulatedModel" where
  "bridge_start d b s =
     (if br_subscribed b then (b\<lparr>br_running := True\<rparr>, s)
      else (b\<lparr>br_subscribed := True, br_running := True\<rparr>, sim_onQualityCheckpointChanged d (sim_onEquipmentStatusChanged d s)))"

definition bridge_stop :: "PrimaryToSecondaryBridge \<Rightarrow> PrimaryToSecondaryBridge" where
  "bridge_stop b = b\<lparr>br_running := False\<rparr>"

definition bridge_isRunning :: "PrimaryToSecondaryBridge \<Rightarrow> bool" where
  "bridge_isRunning b = br_running b"

definition bridge_connectionState :: "PrimaryToSecondaryBridge \<Rightarrow> BackendState" where
  "bridge_connectionState b = (if bridge_isRunning b then BackendConnected else BackendDisconnected)"

text \<open>\<^verbatim>\<open>hms\<close> renders a time of day: \<^verbatim>\<open>localtime\<close> and \<^verbatim>\<open>strftime("%H:%M:%S")\<close>.\<close>

definition bridge_metricsSummary :: "(int \<Rightarrow> string) \<Rightarrow> PrimaryToSecondaryBridge \<Rightarrow> string" where
  "bridge_metricsSummary hms b = nat_str (unat (br_forwarded b)) @ '' forwarded'' @
     (if br_forwarded b > 0 then '' (last '' @ hms (br_lastForward b) @ '')'' else [])"

definition forwardedCount :: "PrimaryToSecondaryBridge \<Rightarrow> u64" where
  "forwardedCount b = br_forwarded b"

definition onMasterEquipmentEvent ::
  "int \<Rightarrow> EquipmentStatus \<Rightarrow> PrimaryToSecondaryBridge \<Rightarrow> 'm MirrorModel \<Rightarrow> PrimaryToSecondaryBridge \<times> 'm MirrorModel \<times> 'm notice list" where
  "onMasterEquipmentEvent now e b m =
     (if \<not> br_running b then (b, m, [])
      else (case mm_setEquipmentSupplyLevel (equipmentId e) (supplyLevel e) m of (m1, ns) \<Rightarrow>
        (b\<lparr>br_lastForward := now, br_forwarded := br_forwarded b + 1\<rparr>, m1, ns)))"

definition onMasterQualityEvent ::
  "int \<Rightarrow> QualityCheckpoint \<Rightarrow> PrimaryToSecondaryBridge \<Rightarrow> 'm MirrorModel \<Rightarrow> PrimaryToSecondaryBridge \<times> 'm MirrorModel \<times> 'm notice list" where
  "onMasterQualityEvent now cp b m =
     (if \<not> br_running b then (b, m, [])
      else (case mm_setQualityPassRate (checkpointId cp) (passRate cp) m of (m1, ns) \<Rightarrow>
        (b\<lparr>br_lastForward := now, br_forwarded := br_forwarded b + 1\<rparr>, m1, ns)))"

section \<open>Two stations\<close>

text \<open>The primary, the bridge subscribed to it as \<^verbatim>\<open>d\<close>, and the mirror. A command on the primary makes its
  observer calls, in order; those to \<^verbatim>\<open>d\<close> run the handlers of the bridge.\<close>

record ('cb, 'm) stations =
  st_primary :: "'cb SimulatedModel"
  st_bridge :: PrimaryToSecondaryBridge
  st_mirror :: "'m MirrorModel"

fun forward :: "'cb \<Rightarrow> int \<Rightarrow> PrimaryToSecondaryBridge \<times> 'm MirrorModel \<Rightarrow> 'cb notice \<Rightarrow> PrimaryToSecondaryBridge \<times> 'm MirrorModel" where
  "forward d now (b, m) (EquipmentNote cb e) = (if cb = d then (case onMasterEquipmentEvent now e b m of (b, m, _) \<Rightarrow> (b, m)) else (b, m))"
| "forward d now (b, m) (QualityNote cb cp) = (if cb = d then (case onMasterQualityEvent now cp b m of (b, m, _) \<Rightarrow> (b, m)) else (b, m))"
| "forward d now (b, m) _ = (b, m)"

datatype 'cb station_op = OnPrimary "'cb sim_op" | BridgeStart | BridgeStop

fun station_step :: "(real \<Rightarrow> real) \<Rightarrow> 'cb \<Rightarrow> int \<Rightarrow> ('cb, 'm) stations \<Rightarrow> 'cb station_op \<Rightarrow> ('cb, 'm) stations" where
  "station_step rf d now t (OnPrimary c) =
     (case sim_exec rf (st_primary t) c of (s, ns) \<Rightarrow>
      case foldl (forward d now) (st_bridge t, st_mirror t) ns of (b, m) \<Rightarrow> \<lparr>st_primary = s, st_bridge = b, st_mirror = m\<rparr>)"
| "station_step rf d now t BridgeStart =
     (case bridge_start d (st_bridge t) (st_primary t) of (b, s) \<Rightarrow> t\<lparr>st_primary := s, st_bridge := b\<rparr>)"
| "station_step rf d now t BridgeStop = t\<lparr>st_bridge := bridge_stop (st_bridge t)\<rparr>"

definition mirror_supply :: "'m MirrorModel \<Rightarrow> u32 \<Rightarrow> int option" where
  "mirror_supply m i = map_option supplyLevel (map_of (mm_equipment m) i)"

definition mirror_rate :: "'m MirrorModel \<Rightarrow> u32 \<Rightarrow> real option" where
  "mirror_rate m i = map_option passRate (map_of (mm_quality m) i)"

text \<open>What the handlers do to the mirror, seen through a note.\<close>

lemma set_supply:
  "mirror_supply (fst (mm_setEquipmentSupplyLevel i l m)) = (if mirror_supply m i = None then mirror_supply m
     else (mirror_supply m)(i \<mapsto> std_clamp l 0 100))"
  "mirror_rate (fst (mm_setEquipmentSupplyLevel i l m)) = mirror_rate m"
  by (auto simp: mirror_supply_def mirror_rate_def mm_setEquipmentSupplyLevel_def Let_def fun_eq_iff kMinSupplyLevel_def kMaxSupplyLevel_def
      split: option.splits)

lemma set_rate:
  "mirror_rate (fst (mm_setQualityPassRate i r m)) = (if mirror_rate m i = None then mirror_rate m
     else (mirror_rate m)(i \<mapsto> std_clamp r 0 100))"
  "mirror_supply (fst (mm_setQualityPassRate i r m)) = mirror_supply m"
  by (auto simp: mirror_supply_def mirror_rate_def mm_setQualityPassRate_def Let_def fun_eq_iff kMinPassRate_def kMaxPassRate_def
      split: option.splits)

definition fits :: "'cb \<Rightarrow> 'cb notice \<Rightarrow> bool" where
  "fits d n = ((\<forall>k v. tells_supply d n = Some (k, v) \<longrightarrow> 0 \<le> v \<and> v \<le> 100) \<and>
     (\<forall>k v. tells_rate d n = Some (k, v) \<longrightarrow> 0 \<le> v \<and> v \<le> 100))"

lemma forward_step:
  assumes "br_running b" and "fits d n" and "forward d now (b, m) n = (b', m')"
  shows "br_running b' \<and>
    (mirror_supply m k \<noteq> None \<longrightarrow> mirror_supply m' k = supply_feed.note_down d (mirror_supply m) n k) \<and>
    (mirror_rate m k \<noteq> None \<longrightarrow> mirror_rate m' k = rate_feed.note_down d (mirror_rate m) n k)"
  using assms
  by (cases n) (auto simp: supply_feed.note_down_def rate_feed.note_down_def onMasterEquipmentEvent_def onMasterQualityEvent_def
      set_supply set_rate fits_def std_clamp_id case_prod_beta split: if_splits)

lemma note_down_local:
  "c k = c' k \<Longrightarrow> supply_feed.note_down d c n k = supply_feed.note_down d c' n k"
  "e k = e' k \<Longrightarrow> rate_feed.note_down d e n k = rate_feed.note_down d e' n k"
  "c k \<noteq> None \<Longrightarrow> supply_feed.note_down d c n k \<noteq> None" "e k \<noteq> None \<Longrightarrow> rate_feed.note_down d e n k \<noteq> None"
  by (auto simp: supply_feed.note_down_def rate_feed.note_down_def split: option.splits)

lemma forward_all:
  assumes "br_running b" and "list_all (fits d) ns" and "foldl (forward d now) (b, m) ns = (b', m')"
    and "mirror_supply m k = c k" and "c k \<noteq> None" and "mirror_rate m j = e j" and "e j \<noteq> None"
  shows "br_running b' \<and> mirror_supply m' k = foldl (supply_feed.note_down d) c ns k \<and> mirror_rate m' j = foldl (rate_feed.note_down d) e ns j"
  using assms
proof (induction ns arbitrary: b m c e)
  case (Cons n ns)
  obtain b1 m1 where f: "forward d now (b, m) n = (b1, m1)" by fastforce
  note st = forward_step [OF Cons.prems(1) _ f]
  have "mirror_supply m1 k = supply_feed.note_down d c n k"
    using st [of k] Cons.prems note_down_local(1) [of "mirror_supply m" k c d n] by simp
  moreover have "mirror_rate m1 j = rate_feed.note_down d e n j"
    using st [of j] Cons.prems note_down_local(2) [of "mirror_rate m" j e d n] by simp
  ultimately show ?case using Cons.IH [of b1 m1 "supply_feed.note_down d c n" "rate_feed.note_down d e n"] Cons.prems st [of k] f
      note_down_local(3) [of c k d n] note_down_local(4) [of e j d n] by simp
qed simp

text \<open>The primary's values are percentages, so the clamps of the mirror change nothing.\<close>

lemma primary_values:
  "sim_inv s \<Longrightarrow> supply_value s k = Some v \<Longrightarrow> 0 \<le> v \<and> v \<le> 100" "sim_inv s \<Longrightarrow> rate_value s k = Some r \<Longrightarrow> 0 \<le> r \<and> r \<le> 100"
  by (fastforce simp: sim_inv_def value_defs list_all_iff line_ok_def checkpoint_ok_def dest: map_of_SomeD)+

lemma told_fits:
  assumes "feeding d s" and "on_line c"
  shows "list_all (fits d) (snd (sim_exec rf s c))"
proof -
  have i: "sim_inv (fst (sim_exec rf s c))" using feeding_step [OF assms, of rf] by (simp add: feeding_def)
  show ?thesis
    using primary_values [OF i] supply_feed.current [OF assms] rate_feed.current [OF assms] by (fastforce simp: list_all_iff fits_def)
qed

definition in_step :: "'cb \<Rightarrow> u32 \<Rightarrow> ('cb, 'm) stations \<Rightarrow> bool" where
  "in_step d k t = (feeding d (st_primary t) \<and> br_running (st_bridge t) \<and>
     mirror_supply (st_mirror t) k = supply_value (st_primary t) k \<and> supply_value (st_primary t) k \<noteq> None \<and>
     mirror_rate (st_mirror t) k = rate_value (st_primary t) k \<and> rate_value (st_primary t) k \<noteq> None)"

lemma note_down_keeps:
  "c k \<noteq> None \<Longrightarrow> foldl (supply_feed.note_down d) c ns k \<noteq> None" "e k \<noteq> None \<Longrightarrow> foldl (rate_feed.note_down d) e ns k \<noteq> None"
  by (induction ns arbitrary: c e) (simp_all only: foldl.simps note_down_local(3,4) not_False_eq_True)

lemma in_step_step:
  assumes "in_step d k t" and "on_line c"
  shows "in_step d k (station_step rf d now t (OnPrimary c))"
proof -
  let ?s = "st_primary t"
  have f: "feeding d ?s" using assms(1) by (simp add: in_step_def)
  obtain b m where fw: "foldl (forward d now) (st_bridge t, st_mirror t) (snd (sim_exec rf ?s c)) = (b, m)" by fastforce
  note all = forward_all [OF _ told_fits [OF f assms(2)] fw, of k "supply_value ?s" k "rate_value ?s"]
  have "foldl (supply_feed.note_down d) (supply_value ?s) (snd (sim_exec rf ?s c)) k = supply_value (fst (sim_exec rf ?s c)) k"
    "foldl (rate_feed.note_down d) (rate_value ?s) (snd (sim_exec rf ?s c)) k = rate_value (fst (sim_exec rf ?s c)) k"
    by (rule supply_feed.copy_step [OF f assms(2) refl], rule rate_feed.copy_step [OF f assms(2) refl])
  then show ?thesis using assms(1) all feeding_step [OF f assms(2), of rf] fw
      note_down_keeps(1) [of "supply_value ?s" k d "snd (sim_exec rf ?s c)"] note_down_keeps(2) [of "rate_value ?s" k d "snd (sim_exec rf ?s c)"]
    by (simp add: in_step_def case_prod_beta)
qed

interpretation follow: guarded_machine "\<lambda>t c. station_step rf d now t (OnPrimary c)" on_line "in_step d k" for rf d now k
  by unfold_locales (rule in_step_step)

text \<open>Whatever happened before, the mirror and the primary have the line and the checkpoint.\<close>

definition paired :: "'cb \<Rightarrow> u32 \<Rightarrow> ('cb, 'm) stations \<Rightarrow> bool" where
  "paired d k t = (sim_inv (st_primary t) \<and> own_rows (st_primary t) \<and>
     (br_subscribed (st_bridge t) \<longrightarrow> d \<in> set (equipmentCallbacks (st_primary t)) \<and> d \<in> set (qualityCallbacks (st_primary t))) \<and>
     mirror_supply (st_mirror t) k \<noteq> None \<and> mirror_rate (st_mirror t) k \<noteq> None \<and> rate_value (st_primary t) k \<noteq> None)"

fun plain_op :: "'cb station_op \<Rightarrow> bool" where
  "plain_op (OnPrimary c) = on_line c"
| "plain_op _ = True"

lemma forward_keeps_one:
  assumes "forward d now (b, m) n = (b', m')"
  shows "br_subscribed b' = br_subscribed b \<and> br_running b' = br_running b \<and> (mirror_supply m k \<noteq> None \<longrightarrow> mirror_supply m' k \<noteq> None) \<and>
    (mirror_rate m k \<noteq> None \<longrightarrow> mirror_rate m' k \<noteq> None)"
  using assms by (cases n) (auto simp: onMasterEquipmentEvent_def onMasterQualityEvent_def set_supply set_rate case_prod_beta split: if_splits)

lemma forward_keeps:
  assumes "foldl (forward d now) (b, m) ns = (b', m')"
  shows "br_subscribed b' = br_subscribed b \<and> br_running b' = br_running b \<and> (mirror_supply m k \<noteq> None \<longrightarrow> mirror_supply m' k \<noteq> None) \<and>
    (mirror_rate m k \<noteq> None \<longrightarrow> mirror_rate m' k \<noteq> None)"
  using assms
proof (induction ns arbitrary: b m)
  case (Cons n ns)
  obtain b1 m1 where f: "forward d now (b, m) n = (b1, m1)" by fastforce
  show ?case using Cons.IH [of b1 m1] Cons.prems f forward_keeps_one [OF f, of k] by simp
qed simp

lemma paired_step:
  assumes "paired d k t" and "plain_op c"
  shows "paired d k (station_step rf d now t c)"
proof (cases c)
  case (OnPrimary p)
  let ?s = "st_primary t"
  have p: "on_line p" using assms(2) OnPrimary by simp
  obtain b m where fw: "foldl (forward d now) (st_bridge t, st_mirror t) (snd (sim_exec rf ?s p)) = (b, m)" by fastforce
  have "rate_value (fst (sim_exec rf ?s p)) k \<noteq> None"
    using quality_row_stays [of ?s p rf k] on_line_known [OF p] assms(1)
    by (cases "map_of (qualityCheckpoints (fst (sim_exec rf ?s p))) k") (auto simp: rate_value_def paired_def)
  then show ?thesis using OnPrimary assms(1) forward_keeps [OF fw, of k] fw exec_subscribers [of p ?s rf] sim_exec_inv [of ?s p rf]
      own_rows_step [of ?s p rf] p on_line_known [OF p]
    by (simp add: paired_def case_prod_beta same_subscribers_def)
next
  case BridgeStart
  then show ?thesis using assms(1) by (auto simp: paired_def bridge_start_def sim_onEquipmentStatusChanged_def sim_onQualityCheckpointChanged_def
      sim_inv_def own_rows_def rate_value_def)
next
  case BridgeStop
  then show ?thesis using assms(1) by (simp add: paired_def bridge_stop_def)
qed

interpretation pair: guarded_machine "station_step rf d now" plain_op "paired d k" for rf d now k
  by unfold_locales (rule paired_step)

lemma own_rows_supply: "own_rows s \<Longrightarrow> k < 3 \<Longrightarrow> supply_value s k \<noteq> None"
proof -
  assume o: "own_rows s" and k: "k < 3"
  have "unat k < 3" using k by (simp add: word_less_nat_alt)
  then have "unat k = 0 \<or> unat k = 1 \<or> unat k = 2" by linarith
  then have "k \<in> set (map fst (equipmentStatuses s))" using o by (auto simp: own_rows_def word_unat_eq_iff)
  then show ?thesis by (simp add: supply_value_def map_of_eq_None_iff)
qed

lemma republish_synchronises:
  assumes "paired d k t" and "k < 3" and "feeding d (st_primary t)" and "br_running (st_bridge t)"
  shows "in_step d k (station_step rf d now t (OnPrimary SRepublish))"
proof -
  let ?s = "st_primary t"
  have f: "feeding d ?s" and i: "sim_inv ?s" and ok: "on_line SRepublish" using assms by (simp_all add: feeding_def)
  obtain b m where fw: "foldl (forward d now) (st_bridge t, st_mirror t) (snd (sim_exec rf ?s SRepublish)) = (b, m)" by fastforce
  have none: "supply_value ?s k \<noteq> None" "rate_value ?s k \<noteq> None" using assms(1) own_rows_supply [OF _ assms(2), of ?s] by (auto simp: paired_def)
  then obtain e cp where rows: "map_of (equipmentStatuses ?s) k = Some e" "map_of (qualityCheckpoints ?s) k = Some cp" by (auto simp: value_defs)
  have "EquipmentNote d e \<in> set (snd (republishAll ?s))" "QualityNote d cp \<in> set (snd (republishAll ?s))"
    using f rows by (auto simp: republish_lines republish_quality [OF i] feeding_def)
  moreover have "equipmentId e = k" "checkpointId cp = k" using f own_row_id rows(1) checkpoint_own_id [OF i rows(2)] by (auto simp: feeding_def)
  ultimately have "foldl (supply_feed.note_down d) c (snd (sim_exec rf ?s SRepublish)) k = supply_value (fst (sim_exec rf ?s SRepublish)) k"
    "foldl (rate_feed.note_down d) c' (snd (sim_exec rf ?s SRepublish)) k = rate_value (fst (sim_exec rf ?s SRepublish)) k" for c c'
    using supply_feed.copy_told [OF f ok, of "EquipmentNote d e" rf k "supplyLevel e" c] rate_feed.copy_told [OF f ok, of "QualityNote d cp" rf k "passRate cp" c'] by simp_all
  moreover have "fst (sim_exec rf ?s SRepublish) = ?s" using republishAll_model [OF i] by simp
  moreover note forward_all [OF assms(4) told_fits [OF f ok] fw, of k "mirror_supply (st_mirror t)" k "mirror_rate (st_mirror t)"]
  ultimately show ?thesis using assms(1,3) fw none by (simp add: in_step_def paired_def case_prod_beta)
qed

text \<open>The two stations as the application starts them.\<close>

definition fresh_stations :: "('cb, 'm) stations" where
  "fresh_stations = \<lparr>st_primary = demo_model, st_bridge = bridge_init, st_mirror = mirror_new 3 3\<rparr>"

lemma ids_below_3: "ids_below 3 = [0, 1, 2]"
  by (simp add: ids_below_def upt_rec)

lemma demo_own_rows: "own_rows demo_model"
  by (simp add: own_rows_def demo_model_simps demo_equipment_def)

lemma fresh_paired:
  assumes "k < 3"
  shows "paired d k fresh_stations"
proof -
  have "unat k < 3" using assms by (simp add: word_less_nat_alt)
  then have "unat k = 0 \<or> unat k = 1 \<or> unat k = 2" by linarith
  then have "k = 0 \<or> k = 1 \<or> k = 2" by (auto simp: word_unat_eq_iff)
  then show ?thesis using demo_model_inv demo_own_rows
    by (auto simp: paired_def fresh_stations_def bridge_init_def mirror_supply_def mirror_rate_def mirror_new_def ids_below_3
        rate_value_def demo_model_simps demo_quality_def)
qed

lemma started_stations:
  fixes t :: "('cb, 'm) stations"
  assumes "list_all plain_op before" and "k < 3" and "t = foldl (station_step rf d now) fresh_stations (before @ [BridgeStart])"
  shows "paired d k t \<and> feeding d (st_primary t) \<and> br_running (st_bridge t)"
proof -
  define t0 :: "('cb, 'm) stations" where "t0 = foldl (station_step rf d now) fresh_stations before"
  have "paired d k t0" unfolding t0_def by (rule pair.inv_run [OF fresh_paired [OF assms(2)]]) (use assms(1) in \<open>simp add: list_all_iff\<close>)
  moreover have "t = station_step rf d now t0 BridgeStart" by (simp add: assms(3) t0_def)
  ultimately have "paired d k t" using paired_step [of d k t0 BridgeStart rf now] by simp
  moreover have "br_running (st_bridge t)" "br_subscribed (st_bridge t)" by (simp_all add: assms(3) bridge_start_def)
  ultimately show ?thesis by (auto simp: paired_def feeding_def)
qed



lemma demo_unsubscribed:
  fixes d :: "'cb SimulatedModel"
  defines "d \<equiv> demo_model"
  shows "equipmentCallbacks d = []" "qualityCallbacks d = []" "stateCallbacks d = []"
  using exec_subscribers [of SInit "sim_new :: 'cb SimulatedModel" "\<lambda>x. x"]
  by (simp_all add: d_def demo_model_def same_subscribers_def sim_new_def)

definition registered_once :: "'cb \<Rightarrow> ('cb, 'm) stations \<Rightarrow> bool" where
  "registered_once d t = (count_list (equipmentCallbacks (st_primary t)) d = (if br_subscribed (st_bridge t) then 1 else 0) \<and>
     count_list (qualityCallbacks (st_primary t)) d = (if br_subscribed (st_bridge t) then 1 else 0))"

lemma registered_step: "registered_once d t \<Longrightarrow> plain_op c \<Longrightarrow> registered_once d (station_step rf d now t c)"
proof (cases c)
  case (OnPrimary p)
  assume r: "registered_once d t" and p: "plain_op c"
  obtain b m where fw: "foldl (forward d now) (st_bridge t, st_mirror t) (snd (sim_exec rf (st_primary t) p)) = (b, m)" by fastforce
  show ?thesis using OnPrimary r p exec_subscribers [of p "st_primary t" rf] on_line_known [of p] forward_keeps [OF fw] fw
    by (simp add: registered_once_def same_subscribers_def case_prod_beta)
qed (auto simp: registered_once_def bridge_start_def bridge_stop_def sim_onEquipmentStatusChanged_def sim_onQualityCheckpointChanged_def)

interpretation registration: guarded_machine "station_step rf d now" plain_op "registered_once d" for rf d now
  by unfold_locales (rule registered_step)

lemma stopped_forwards_nothing: "\<not> br_running b \<Longrightarrow> foldl (forward d now) (b, m) ns = (b, m)"
proof (induction ns)
  case (Cons n ns)
  have "forward d now (b, m) n = (b, m)"
    using Cons.prems by (cases n) (simp_all add: onMasterEquipmentEvent_def onMasterQualityEvent_def)
  then show ?case using Cons by simp
qed simp

text \<open>
  A restarted bridge forwards once: through any starts, stops and commands the bridge is registered at most
  once in each list of the primary, and while it is stopped no command of the primary reaches the mirror.
\<close>

theorem restarted_bridge_forwards_once:
  fixes t :: "('cb, 'm) stations"
  assumes "list_all plain_op ops" and "t = foldl (station_step rf d now) fresh_stations ops"
  shows "count_list (equipmentCallbacks (st_primary t)) d \<le> 1 \<and> count_list (qualityCallbacks (st_primary t)) d \<le> 1 \<and>
    st_mirror (station_step rf d now (station_step rf d now t BridgeStop) (OnPrimary c)) = st_mirror t"
proof -
  have "registered_once d (fresh_stations :: ('cb, 'm) stations)"
    by (simp add: registered_once_def fresh_stations_def bridge_init_def demo_unsubscribed)
  then have "registered_once d t" unfolding assms(2) by (rule registration.inv_run) (use assms(1) in \<open>simp add: list_all_iff\<close>)
  moreover have "st_mirror (station_step rf d now (station_step rf d now t BridgeStop) (OnPrimary c)) = st_mirror t"
    using stopped_forwards_nothing [of "bridge_stop (st_bridge t)" d now "st_mirror t"] by (simp add: bridge_stop_def case_prod_beta)
  ultimately show ?thesis by (simp add: registered_once_def)
qed

theorem restarted_bridge_forwards_once_witness:
  "count_list (equipmentCallbacks (st_primary (foldl (station_step (\<lambda>x. x) (7::nat) 0) (fresh_stations :: (nat, nat) stations)
     [BridgeStart, BridgeStop, BridgeStart]))) 7 \<le> 1"
proof -
  have "list_all plain_op [BridgeStart, BridgeStop, BridgeStart]" by simp
  from restarted_bridge_forwards_once [OF this refl] show ?thesis by (rule conjunct1)
qed

text \<open>
  A phantom line overwrites the mirror: enabling or disabling the id 3, which the primary's range check lets
  pass although it has no such line, creates a row whose id field is 0; a running bridge forwards it as line 0,
  whose supply level on the mirror becomes 0 while the primary's stays.
\<close>

theorem phantom_line_overwrites_mirror:
  fixes t :: "('cb, 'm) stations"
  assumes "list_all plain_op before" and "t = foldl (station_step rf d now) fresh_stations (before @ [BridgeStart])"
    and "t' = station_step rf d now t (OnPrimary (SEnable 3 en))"
  shows "mirror_supply (st_mirror t') 0 = Some 0 \<and> supply_value (st_primary t') 0 = supply_value (st_primary t) 0"
proof -
  let ?s = "st_primary t" and ?f = "\<lambda>e. e\<lparr>eq_status := (if en then kEquipmentStatusOnline else kEquipmentStatusOffline)\<rparr>"
  have "(0::u32) < 3" by simp
  note t = started_stations [OF assms(1) this assms(2)]
  have none: "map_of (equipmentStatuses ?s) 3 = None"
    using t by (auto simp: feeding_def own_rows_def map_of_eq_None_iff map_eq_Cons_conv)
  obtain s' ns where ex: "setEquipmentEnabled 3 en ?s = (s', ns)" by fastforce
  then have s': "s' = set_equipment 3 ?f ?s" and ns: "ns = map (\<lambda>cb. EquipmentNote cb (?f default_equipment)) (equipmentCallbacks ?s)"
    using none by (auto simp: setEquipmentEnabled_def kEquipmentCount_def notifyEquipmentChange_def omap_get_def Let_def)
  have down: "foldl (supply_feed.note_down d) c (map (\<lambda>cb. EquipmentNote cb (?f default_equipment)) cbs) 0 = (if d \<in> set cbs then Some 0 else c 0)" for c cbs
    by (induction cbs arbitrary: c) (simp_all add: supply_feed.note_down_def default_equipment_def)
  obtain b m where fw: "foldl (forward d now) (st_bridge t, st_mirror t) ns = (b, m)" by fastforce
  have "list_all (fits d) ns" by (auto simp: ns list_all_iff fits_def default_equipment_def split: if_splits)
  from forward_all [OF _ this fw, of 0 "mirror_supply (st_mirror t)" 0 "mirror_rate (st_mirror t)"] t
  have "mirror_supply m 0 = Some 0" by (simp add: ns down feeding_def paired_def)
  moreover have "supply_value s' 0 = supply_value ?s 0" by (simp add: s' supply_value_def)
  ultimately show ?thesis using assms(3) ex fw by simp
qed

theorem phantom_line_overwrites_mirror_witness:
  "mirror_supply (st_mirror (station_step (\<lambda>x. x) (7::nat) 0
     (foldl (station_step (\<lambda>x. x) 7 0) (fresh_stations :: (nat, nat) stations) ([] @ [BridgeStart])) (OnPrimary (SEnable 3 True)))) 0 = Some 0"
proof -
  have "list_all plain_op []" by simp
  from phantom_line_overwrites_mirror [OF this refl refl] show ?thesis by (rule conjunct1)
qed

end
