(* ===== verification/DashboardPresenter.thy ===== *)
theory DashboardPresenter
  imports AlertCenter UserRepository LineFeed
begin

text \<open>
  \<^verbatim>\<open>presenter/DashboardPresenter.{h,cpp}\<close>, \<^verbatim>\<open>presenter/BasePresenter.h\<close> and the view models it builds: the
  clicks of the dashboard (role gate, audit row, command) and the handlers of the model's notifications
  (view model, alarm). The presenter holds the alarm store, the audit rows and the session it was wired with.
  A handler is given the answers the model's queries have at the moment of the call (\<open>model_view\<close>) and
  returns the new presenter, what it sent to views and signals, and the exception that left it, if one did.

  \<^verbatim>\<open>gettext\<close> and the two clocks are fields of an environment; \<^verbatim>\<open>std::vformat\<close> is modelled on the
  replacement fields the sources and the catalogues use, and a format string it rejects is an exception.
  A \<^verbatim>\<open>retranslate\<close> closure is the value \<open>retext\<close> of what it captured, stored under a handle. Log messages
  are not modelled.

  The theorems: the alarms of the store are the conditions the model last reported, the system alarm is on
  exactly while the line is in the safe state, a click reaches the model exactly when the role permits it,
  with one audit row either way, and the buttons offered are the commands the state machine accepts.
\<close>

section \<open>View models\<close>

record WorkUnitViewModel =
  wv_workUnitId :: string
  wv_productId :: string
  wv_productDescription :: string
  wv_progress :: real
  wv_totalOperations :: u32
  wv_completedOperations :: u32
  wv_throughputUph :: real
  wv_oeePct :: real
  wv_statusMessage :: string
  wv_isTestMode :: bool
  wv_hasErrors :: bool
  wv_errorMessage :: string

datatype EquipmentCardStatus = EqOffline | EqStartingUp | EqCheckOutput | EqOnline | EqProcessing | EqWarmingUp
  | EqReady | EqReboot | EqError | EqDisabled | EqUnknown

record EquipmentCardViewModel =
  ev_equipmentId :: u32
  ev_status :: EquipmentCardStatus
  ev_consumables :: string
  ev_messageStatus :: string
  ev_imagePath :: string
  ev_enabled :: bool

datatype ActuatorCardStatus = AcOffline | AcIdle | AcWorking | AcError | AcHoming | AcCalibrating | AcUnknown

record ActuatorCardViewModel =
  cv_actuatorId :: u32
  cv_status :: ActuatorCardStatus
  cv_statusMessage :: string
  cv_imagePath :: string
  cv_autoMode :: bool
  cv_hasAlert :: bool
  cv_atHomePosition :: bool
  cv_alertMessage :: string

datatype QualityCheckpointStatus = QPassing | QWarning | QCritical

record QualityCheckpointViewModel =
  qv_checkpointId :: u32
  qv_checkpointName :: string
  qv_status :: QualityCheckpointStatus
  qv_unitsInspected :: int
  qv_defectsFound :: int
  qv_passRate :: real
  qv_targetPassRate :: real
  qv_lastDefect :: string

datatype ActiveControl = NoControl | StartControl | StopControl | ResetRestartControl | CalibrationControl

record ControlPanelViewModel =
  activeButton :: ActiveControl
  startEnabled :: bool
  stopEnabled :: bool
  resetRestartEnabled :: bool
  calibrationEnabled :: bool

definition kAlarmPriorityEmergency :: int where "kAlarmPriorityEmergency = 1"
definition kAlarmPriorityHigh :: int where "kAlarmPriorityHigh = 2"
definition kAlarmPriorityMedium :: int where "kAlarmPriorityMedium = 3"
definition kAlarmPriorityLow :: int where "kAlarmPriorityLow = 4"

definition new_alert :: AlertViewModel where
  "new_alert = \<lparr>av_key = [], av_severity = Info, av_title = [], av_message = [], av_timestamp = [],
     av_state = UnackActive, av_priority = kAlarmPriorityLow, av_retranslate = None\<rparr>"

definition kQualityPassThreshold :: real where "kQualityPassThreshold = 95"
definition kQualityWarningThreshold :: real where "kQualityWarningThreshold = 90"

section \<open>Formatting\<close>

datatype fmt_arg = ArgU u32 | ArgS string | ArgF real

fun render :: "string \<Rightarrow> fmt_arg \<Rightarrow> string option" where
  "render spec (ArgU w) = (if spec = [] then Some (nat_str (unat w)) else None)"
| "render spec (ArgS s) = (if spec = [] then Some s else None)"
| "render spec (ArgF x) = (if spec = '':.0f'' then Some (fixed_str 0 x) else if spec = '':.1f'' then Some (fixed_str 1 x) else None)"

function vformat :: "string \<Rightarrow> fmt_arg list \<Rightarrow> string option" where
  "vformat [] args = Some []"
| "vformat (c # cs) args =
     (if c = CHR ''{'' \<and> take 1 cs \<noteq> ''{'' then
        (case args of [] \<Rightarrow> None | a # as \<Rightarrow>
           if CHR ''}'' \<notin> set cs then None
           else (case render (takeWhile (\<lambda>x. x \<noteq> CHR ''}'') cs) a of None \<Rightarrow> None
             | Some t \<Rightarrow> map_option (\<lambda>r. t @ r) (vformat (tl (dropWhile (\<lambda>x. x \<noteq> CHR ''}'') cs)) as)))
      else if c = CHR ''{'' then map_option (Cons c) (vformat (drop 1 cs) args)
      else if c = CHR ''}'' then (if take 1 cs = ''}'' then map_option (Cons c) (vformat (drop 1 cs) args) else None)
      else map_option (Cons c) (vformat cs args))"
  by pat_completeness auto
termination
proof (relation "measure (\<lambda>(cs, _). length cs)")
  show "((tl (dropWhile (\<lambda>x. x \<noteq> CHR ''}'') cs), as), c # cs, args) \<in> measure (\<lambda>(cs, _). length cs)" for c cs args as
    using length_dropWhile_le [of "\<lambda>x. x \<noteq> CHR ''}''" cs] by simp
qed auto

section \<open>The presenter\<close>

record model_view =
  mv_state :: SystemState
  mv_faultReason :: string
  mv_workUnit :: WorkUnit
  mv_oee :: OeeMetrics
  mv_checkpoint :: "u32 \<Rightarrow> QualityCheckpoint option"

datatype retext = RtEquipment u32 bool | RtQuality bool string real real | RtSystem string

record dash_env =
  de_gettext :: "string \<Rightarrow> string"
  de_handle :: "retext \<Rightarrow> nat"
  de_stamp :: string
  de_now :: int
  de_round :: "real \<Rightarrow> real"

record 'v DashboardPresenter =
  dp_observers :: "'v list"
  dp_alertCenter :: "AlertCenter option"
  prevSystemState :: SystemState
  dp_audit :: "AuditEvent list option"
  dp_session :: "Session option"
  dp_faultInjector :: bool

datatype 'v dash_out = ShowWorkUnit 'v WorkUnitViewModel | ShowEquipment 'v EquipmentCardViewModel
  | ShowActuator 'v ActuatorCardViewModel | ShowQuality 'v QualityCheckpointViewModel
  | ShowControls 'v ControlPanelViewModel | StateSignal int | AlertOut ac_effect

datatype dash_exn = OutOfRange | FormatError

datatype model_call = CallStart | CallStop | CallReset | CallCalibrate | CallEnable u32 bool | CallFaultInjector

definition dash_new :: "'v DashboardPresenter" where
  "dash_new = \<lparr>dp_observers = [], dp_alertCenter = None, prevSystemState = IDLE, dp_audit = None, dp_session = None,
     dp_faultInjector = False\<rparr>"

text \<open>A null observer is refused (\<^verbatim>\<open>None\<close>).\<close>

definition addObserver :: "'v option \<Rightarrow> 'v DashboardPresenter \<Rightarrow> 'v DashboardPresenter" where
  "addObserver ob p = (case ob of None \<Rightarrow> p
     | Some v \<Rightarrow> if v \<in> set (dp_observers p) then p else p\<lparr>dp_observers := dp_observers p @ [v]\<rparr>)"

definition removeObserver :: "'v option \<Rightarrow> 'v DashboardPresenter \<Rightarrow> 'v DashboardPresenter" where
  "removeObserver ob p = (case ob of None \<Rightarrow> p | Some v \<Rightarrow> p\<lparr>dp_observers := remove1 v (dp_observers p)\<rparr>)"

definition notifyAll :: "('v \<Rightarrow> 'v dash_out) \<Rightarrow> 'v DashboardPresenter \<Rightarrow> 'v dash_out list" where
  "notifyAll f p = map f (dp_observers p)"

definition setAlertCenter :: "AlertCenter \<Rightarrow> 'v DashboardPresenter \<Rightarrow> 'v DashboardPresenter" where
  "setAlertCenter ac p = p\<lparr>dp_alertCenter := Some ac\<rparr>"

definition dash_setAudit :: "AuditEvent list \<Rightarrow> Session \<Rightarrow> 'v DashboardPresenter \<Rightarrow> 'v DashboardPresenter" where
  "dash_setAudit rows se p = p\<lparr>dp_audit := Some rows, dp_session := Some se\<rparr>"

definition dash_setSession :: "Session \<Rightarrow> 'v DashboardPresenter \<Rightarrow> 'v DashboardPresenter" where
  "dash_setSession se p = p\<lparr>dp_session := Some se\<rparr>"

definition hasSession :: "'v DashboardPresenter \<Rightarrow> bool" where
  "hasSession p = (dp_session p \<noteq> None)"

definition setFaultInjector :: "bool \<Rightarrow> 'v DashboardPresenter \<Rightarrow> 'v DashboardPresenter" where
  "setFaultInjector fn p = p\<lparr>dp_faultInjector := fn\<rparr>"

text \<open>\<^verbatim>\<open>initialize\<close> on a simulated model: the presenter's five callbacks are the subscriber \<^verbatim>\<open>d\<close>.\<close>

definition dash_initialize :: "'cb \<Rightarrow> 'cb SimulatedModel \<Rightarrow> 'cb SimulatedModel" where
  "dash_initialize d m = sim_onSystemStateChanged d (sim_onWorkUnitChanged d (sim_onQualityCheckpointChanged d
     (sim_onActuatorStatusChanged d (sim_onEquipmentStatusChanged d m))))"

section \<open>Clicks\<close>

definition kProduction :: string where "kProduction = ''PRODUCTION''"
definition kEquipment :: string where "kEquipment = ''EQUIPMENT''"

definition dash_emitAudit :: "string \<Rightarrow> string \<Rightarrow> string \<Rightarrow> string \<Rightarrow> 'v DashboardPresenter \<Rightarrow> 'v DashboardPresenter" where
  "dash_emitAudit cat action details outcome p =
     (case (dp_audit p, dp_session p) of
        (Some rows, Some se) \<Rightarrow>
          (let user = (case currentUser se of Some u \<Rightarrow> u | None \<Rightarrow> new_user) in
           p\<lparr>dp_audit := Some (rows @ [\<lparr>ae_timestamp = [], ae_username = username user, ae_role = roleName (role user),
              ae_category = cat, ae_action = action, ae_details = details, ae_result = outcome\<rparr>])\<rparr>)
      | _ \<Rightarrow> p)"

definition checkRole :: "(Role \<Rightarrow> bool) \<Rightarrow> string \<Rightarrow> string \<Rightarrow> string \<Rightarrow> 'v DashboardPresenter \<Rightarrow> bool \<times> 'v DashboardPresenter" where
  "checkRole allowed cat action details p =
     (case dp_session p of None \<Rightarrow> (True, p)
      | Some se \<Rightarrow> (case currentUser se of None \<Rightarrow> (False, p)
         | Some u \<Rightarrow> if allowed (role u) then (True, p) else (False, dash_emitAudit cat action details kFailure p)))"

text \<open>The body every click shares: the gate, the audit row, the command.\<close>

definition gated :: "(Role \<Rightarrow> bool) \<Rightarrow> string \<Rightarrow> string \<Rightarrow> string \<Rightarrow> model_call list \<Rightarrow> 'v DashboardPresenter \<Rightarrow> 'v DashboardPresenter \<times> model_call list" where
  "gated allowed cat action details calls p =
     (case checkRole allowed cat action details p of
        (False, p) \<Rightarrow> (p, [])
      | (True, p) \<Rightarrow> (dash_emitAudit cat action details kSuccess p, calls))"

definition onStartClicked :: "'v DashboardPresenter \<Rightarrow> 'v DashboardPresenter \<times> model_call list" where
  "onStartClicked p = gated canStartStop kProduction ''START'' [] [CallStart] p"

definition onStopClicked :: "'v DashboardPresenter \<Rightarrow> 'v DashboardPresenter \<times> model_call list" where
  "onStopClicked p = gated canStartStop kProduction ''STOP'' [] [CallStop] p"

definition onResetRestartClicked :: "'v DashboardPresenter \<Rightarrow> 'v DashboardPresenter \<times> model_call list" where
  "onResetRestartClicked p = gated canResetSystem kProduction ''RESET'' [] [CallReset] p"

definition onCalibrationClicked :: "'v DashboardPresenter \<Rightarrow> 'v DashboardPresenter \<times> model_call list" where
  "onCalibrationClicked p = gated canCalibrate kProduction ''CALIBRATE'' [] [CallCalibrate] p"

definition onInjectFaultClicked :: "'v DashboardPresenter \<Rightarrow> 'v DashboardPresenter \<times> model_call list" where
  "onInjectFaultClicked p = gated canInjectFault kProduction ''INJECT_FAULT'' [] (if dp_faultInjector p then [CallFaultInjector] else []) p"

definition onEquipmentToggled :: "u32 \<Rightarrow> bool \<Rightarrow> 'v DashboardPresenter \<Rightarrow> 'v DashboardPresenter \<times> model_call list" where
  "onEquipmentToggled i en p = gated canStartStop kEquipment (if en then ''ENABLE'' else ''DISABLE'')
     (''equipment id '' @ nat_str (unat i)) [CallEnable i en] p"

section \<open>View model builders\<close>

definition buildWorkUnitVM :: "dash_env \<Rightarrow> model_view \<Rightarrow> WorkUnitViewModel" where
  "buildWorkUnitVM env mv =
     (let wu = mv_workUnit mv; rf = de_round env in
      \<lparr>wv_workUnitId = workUnitId wu, wv_productId = productId wu, wv_productDescription = wu_description wu,
       wv_progress = (if totalOperations wu > 0 then rf (rf (of_int (completedOperations wu)) / rf (of_int (totalOperations wu))) else 0),
       wv_totalOperations = of_int (totalOperations wu), wv_completedOperations = of_int (completedOperations wu),
       wv_throughputUph = throughputUnitsPerHour wu, wv_oeePct = oeePct (mv_oee mv),
       wv_statusMessage = (if completedOperations wu < totalOperations wu
          then ''Processing operation '' @ int_str (completedOperations wu + 1) @ ''...'' else ''Complete''),
       wv_isTestMode = False, wv_hasErrors = False, wv_errorMessage = []\<rparr>)"

definition buildEquipmentVM :: "dash_env \<Rightarrow> u32 \<Rightarrow> int \<Rightarrow> EquipmentCardViewModel" where
  "buildEquipmentVM env i status =
     (let tr = de_gettext env;
          vm = \<lparr>ev_equipmentId = i, ev_status = EqUnknown, ev_consumables = [], ev_messageStatus = [], ev_imagePath = [], ev_enabled = False\<rparr> in
      if status = 0 then vm\<lparr>ev_status := EqOffline, ev_consumables := tr ''Not connected'', ev_enabled := False\<rparr>
      else if status = 1 then vm\<lparr>ev_status := EqOnline, ev_consumables := tr ''Supply level: 85%'', ev_enabled := True\<rparr>
      else if status = 2 then vm\<lparr>ev_status := EqProcessing, ev_consumables := tr ''Supply level: 60%'', ev_enabled := True\<rparr>
      else if status = 3 then vm\<lparr>ev_status := EqError, ev_consumables := tr ''Low supply (12%)'', ev_enabled := False\<rparr>
      else vm)"

definition buildActuatorVM :: "dash_env \<Rightarrow> u32 \<Rightarrow> int \<Rightarrow> ActuatorCardViewModel" where
  "buildActuatorVM env i status =
     (let tr = de_gettext env;
          vm = \<lparr>cv_actuatorId = i, cv_status = AcUnknown, cv_statusMessage = [], cv_imagePath = [], cv_autoMode = False,
                cv_hasAlert = False, cv_atHomePosition = False, cv_alertMessage = []\<rparr> in
      if status = 0 then vm\<lparr>cv_status := AcIdle, cv_statusMessage := tr ''Idle - At home position'', cv_autoMode := True,
        cv_atHomePosition := True, cv_hasAlert := False\<rparr>
      else if status = 1 then vm\<lparr>cv_status := AcWorking, cv_statusMessage := tr ''Working - Position X:150 Y:200'', cv_autoMode := True,
        cv_atHomePosition := False, cv_hasAlert := False\<rparr>
      else if status = 2 then vm\<lparr>cv_status := AcError, cv_statusMessage := tr ''Error - Position fault'', cv_autoMode := True,
        cv_atHomePosition := False, cv_hasAlert := True, cv_alertMessage := tr ''Position timeout detected''\<rparr>
      else vm)"

definition buildQualityCheckpointVM :: "model_view \<Rightarrow> u32 \<Rightarrow> QualityCheckpointViewModel option" where
  "buildQualityCheckpointVM mv i = map_option (\<lambda>cp.
     \<lparr>qv_checkpointId = i, qv_checkpointName = qc_name cp,
      qv_status = (if passRate cp \<ge> kQualityPassThreshold then QPassing
                   else if passRate cp \<ge> kQualityWarningThreshold then QWarning else QCritical),
      qv_unitsInspected = unitsInspected cp, qv_defectsFound = defectsFound cp, qv_passRate = passRate cp,
      qv_targetPassRate = passRateTarget cp, qv_lastDefect = lastDefect cp\<rparr>) (mv_checkpoint mv i)"

fun buildControlPanelVM :: "SystemState \<Rightarrow> ControlPanelViewModel" where
  "buildControlPanelVM IDLE = \<lparr>activeButton = NoControl, startEnabled = True, stopEnabled = False, resetRestartEnabled = True, calibrationEnabled = True\<rparr>"
| "buildControlPanelVM RUNNING = \<lparr>activeButton = StartControl, startEnabled = False, stopEnabled = True, resetRestartEnabled = False, calibrationEnabled = False\<rparr>"
| "buildControlPanelVM ERROR = \<lparr>activeButton = NoControl, startEnabled = False, stopEnabled = False, resetRestartEnabled = True, calibrationEnabled = False\<rparr>"
| "buildControlPanelVM CALIBRATION = \<lparr>activeButton = CalibrationControl, startEnabled = False, stopEnabled = True, resetRestartEnabled = False, calibrationEnabled = False\<rparr>"

section \<open>Model notifications\<close>

definition notifyWorkUnitChanged :: "WorkUnitViewModel \<Rightarrow> 'v DashboardPresenter \<Rightarrow> 'v dash_out list" where
  "notifyWorkUnitChanged vm p = notifyAll (\<lambda>v. ShowWorkUnit v vm) p"

definition notifyEquipmentCardChanged :: "EquipmentCardViewModel \<Rightarrow> 'v DashboardPresenter \<Rightarrow> 'v dash_out list" where
  "notifyEquipmentCardChanged vm p = notifyAll (\<lambda>v. ShowEquipment v vm) p"

definition notifyActuatorCardChanged :: "ActuatorCardViewModel \<Rightarrow> 'v DashboardPresenter \<Rightarrow> 'v dash_out list" where
  "notifyActuatorCardChanged vm p = notifyAll (\<lambda>v. ShowActuator v vm) p"

definition notifyQualityCheckpointChanged :: "QualityCheckpointViewModel \<Rightarrow> 'v DashboardPresenter \<Rightarrow> 'v dash_out list" where
  "notifyQualityCheckpointChanged vm p = notifyAll (\<lambda>v. ShowQuality v vm) p"

definition notifyControlPanelChanged :: "ControlPanelViewModel \<Rightarrow> 'v DashboardPresenter \<Rightarrow> 'v dash_out list" where
  "notifyControlPanelChanged vm p = notifyAll (\<lambda>v. ShowControls v vm) p"

text \<open>The bodies of the three \<^verbatim>\<open>retranslate\<close> closures.\<close>

fun retext_body :: "(string \<Rightarrow> string) \<Rightarrow> retext \<Rightarrow> AlertViewModel \<Rightarrow> AlertViewModel option" where
  "retext_body tr (RtEquipment i isError) vm =
     (case vformat (tr (if isError then ''Equipment {} error'' else ''Equipment {} offline'')) [ArgU i] of
        None \<Rightarrow> None
      | Some t \<Rightarrow> Some (vm\<lparr>av_title := t, av_message := tr ''Line unavailable for production.''\<rparr>))"
| "retext_body tr (RtQuality isCritical cpName rate target) vm =
     (case vformat (tr (if isCritical then ''{} critical'' else ''{} below target'')) [ArgS cpName] of
        None \<Rightarrow> None
      | Some t \<Rightarrow> (case vformat (tr ''Pass rate {:.1f}% (target {:.0f}%)'') [ArgF rate, ArgF target] of
          None \<Rightarrow> None
        | Some m \<Rightarrow> Some (vm\<lparr>av_title := t, av_message := m\<rparr>)))"
| "retext_body tr (RtSystem reason) vm =
     Some (vm\<lparr>av_title := tr ''System fault'', av_message := (if reason = [] then tr ''Production locked out.'' else reason)\<rparr>)"

type_synonym 'v handled = "'v DashboardPresenter \<times> 'v dash_out list \<times> dash_exn option"

definition raise_alert :: "dash_env \<Rightarrow> retext \<Rightarrow> AlertViewModel \<Rightarrow> AlertCenter \<Rightarrow> 'v DashboardPresenter \<Rightarrow> 'v handled" where
  "raise_alert env c a ac p =
     (case retext_body (de_gettext env) c (a\<lparr>av_retranslate := Some (de_handle env c)\<rparr>) of
        None \<Rightarrow> (p, [], Some FormatError)
      | Some a \<Rightarrow> (case ac_raise (de_stamp env) a ac of (ac', es) \<Rightarrow> (p\<lparr>dp_alertCenter := Some ac'\<rparr>, map AlertOut es, None)))"

definition clear_alert :: "dash_env \<Rightarrow> string \<Rightarrow> AlertCenter \<Rightarrow> 'v DashboardPresenter \<Rightarrow> 'v handled" where
  "clear_alert env k ac p =
     (case ac_clear (de_stamp env) k ac of (ac', es) \<Rightarrow> (p\<lparr>dp_alertCenter := Some ac'\<rparr>, map AlertOut es, None))"

definition handleNewWorkUnit :: "dash_env \<Rightarrow> model_view \<Rightarrow> string \<Rightarrow> 'v DashboardPresenter \<Rightarrow> 'v handled" where
  "handleNewWorkUnit env mv wid p =
     (case (case dp_alertCenter p of None \<Rightarrow> (p, [])
        | Some ac \<Rightarrow> (case ac_tick (de_now env) ac of (ac', es) \<Rightarrow> (p\<lparr>dp_alertCenter := Some ac'\<rparr>, map AlertOut es))) of
        (p, outs) \<Rightarrow> (p, outs @ notifyWorkUnitChanged (buildWorkUnitVM env mv) p, None))"

definition equipment_key :: "u32 \<Rightarrow> string" where
  "equipment_key i = ''equipment-'' @ nat_str (unat i)"

definition handleEquipmentStatusUpdate :: "dash_env \<Rightarrow> u32 \<Rightarrow> int \<Rightarrow> 'v DashboardPresenter \<Rightarrow> 'v handled" where
  "handleEquipmentStatusUpdate env i status p =
     (let shown = notifyEquipmentCardChanged (buildEquipmentVM env i status) p in
      case dp_alertCenter p of None \<Rightarrow> (p, shown, None)
      | Some ac \<Rightarrow>
          (case (if status = 0 \<or> status = 3
                 then raise_alert env (RtEquipment i (status = 3))
                   (new_alert\<lparr>av_key := equipment_key i, av_severity := (if status = 3 then Critical else Warning),
                      av_priority := (if status = 3 then kAlarmPriorityHigh else kAlarmPriorityMedium)\<rparr>) ac p
                 else clear_alert env (equipment_key i) ac p) of
             (p, outs, exn) \<Rightarrow> (p, shown @ outs, exn)))"

definition handleActuatorStatusUpdate :: "dash_env \<Rightarrow> u32 \<Rightarrow> int \<Rightarrow> 'v DashboardPresenter \<Rightarrow> 'v handled" where
  "handleActuatorStatusUpdate env i status p = (p, notifyActuatorCardChanged (buildActuatorVM env i status) p, None)"

definition quality_key :: "u32 \<Rightarrow> string" where
  "quality_key i = ''quality-'' @ nat_str (unat i)"

text \<open>The \<^verbatim>\<open>status\<close> the model passes is only logged.\<close>

definition handleQualityCheckpointUpdate :: "dash_env \<Rightarrow> model_view \<Rightarrow> u32 \<Rightarrow> int \<Rightarrow> 'v DashboardPresenter \<Rightarrow> 'v handled" where
  "handleQualityCheckpointUpdate env mv i status p =
     (case buildQualityCheckpointVM mv i of None \<Rightarrow> (p, [], Some OutOfRange)
      | Some vm \<Rightarrow>
        (let shown = notifyQualityCheckpointChanged vm p in
         case dp_alertCenter p of None \<Rightarrow> (p, shown, None)
         | Some ac \<Rightarrow>
             (case (if qv_status vm = QPassing then clear_alert env (quality_key i) ac p
                    else raise_alert env (RtQuality (qv_status vm = QCritical) (qv_checkpointName vm) (qv_passRate vm) (qv_targetPassRate vm))
                      (new_alert\<lparr>av_key := quality_key i, av_severity := (if qv_status vm = QCritical then Critical else Warning),
                         av_priority := (if qv_status vm = QCritical then kAlarmPriorityHigh else kAlarmPriorityMedium)\<rparr>) ac p) of
                (p, outs, exn) \<Rightarrow> (p, shown @ outs, exn))))"

definition kSystemErrorKey :: string where "kSystemErrorKey = ''system-error''"

fun state_code :: "SystemState \<Rightarrow> int" where
  "state_code IDLE = 0"
| "state_code RUNNING = 1"
| "state_code ERROR = 2"
| "state_code CALIBRATION = 3"

definition system_alarm :: "dash_env \<Rightarrow> model_view \<Rightarrow> SystemState \<Rightarrow> 'v DashboardPresenter \<Rightarrow> 'v handled" where
  "system_alarm env mv newState p =
     (case dp_alertCenter p of None \<Rightarrow> (p, [], None)
      | Some ac \<Rightarrow>
          (let nowError = (newState = ERROR); wasError = (prevSystemState p = ERROR) in
           case (if nowError \<and> \<not> wasError
                 then raise_alert env (RtSystem (mv_faultReason mv))
                   (new_alert\<lparr>av_key := kSystemErrorKey, av_severity := Critical, av_priority := kAlarmPriorityEmergency\<rparr>) ac p
                 else if \<not> nowError \<and> wasError then clear_alert env kSystemErrorKey ac p
                 else (p, [], None)) of
             (p, outs, exn) \<Rightarrow> (p\<lparr>prevSystemState := newState\<rparr>, outs, exn)))"

definition handleSystemStateChanged :: "dash_env \<Rightarrow> model_view \<Rightarrow> SystemState \<Rightarrow> 'v DashboardPresenter \<Rightarrow> 'v handled" where
  "handleSystemStateChanged env mv newState p =
     (case system_alarm env mv newState p of (p, outs, exn) \<Rightarrow>
      (p, outs @ notifyControlPanelChanged (buildControlPanelVM (mv_state mv)) p @ [StateSignal (state_code newState)], exn))"

text \<open>The lambdas of \<^verbatim>\<open>initialize\<close>.\<close>

fun on_notice :: "dash_env \<Rightarrow> model_view \<Rightarrow> 'cb notice \<Rightarrow> 'v DashboardPresenter \<Rightarrow> 'v handled" where
  "on_notice env mv (EquipmentNote _ e) p = handleEquipmentStatusUpdate env (equipmentId e) (eq_status e) p"
| "on_notice env mv (ActuatorNote _ a) p = handleActuatorStatusUpdate env (actuatorId a) (act_status a) p"
| "on_notice env mv (QualityNote _ cp) p = handleQualityCheckpointUpdate env mv (checkpointId cp) (qc_status cp) p"
| "on_notice env mv (WorkUnitNote _ wu) p = handleNewWorkUnit env mv (workUnitId wu) p"
| "on_notice env mv (StateNote _ st) p = handleSystemStateChanged env mv st p"

section \<open>Alarms are conditions\<close>

text \<open>
  The specification: one flag per alarm key, set and reset by what the model reports. The store keeps the flag
  of a key as the condition of its alarm, through acknowledging and shelving.
\<close>

fun condition_on :: "phase \<Rightarrow> bool" where
  "condition_on ActiveUnack = True"
| "condition_on ActiveAck = True"
| "condition_on (Suppressed c _) = c"
| "condition_on _ = False"

datatype 'cb dash_event = ModelNotice dash_env model_view "'cb notice" | StoreOp ac_op

fun dash_step :: "(nat \<Rightarrow> AlertViewModel \<Rightarrow> AlertViewModel) \<Rightarrow> 'v DashboardPresenter \<Rightarrow> 'cb dash_event \<Rightarrow> 'v DashboardPresenter" where
  "dash_step invoke p (ModelNotice env mv n) = fst (on_notice env mv n p)"
| "dash_step invoke p (StoreOp op) = p\<lparr>dp_alertCenter := map_option (\<lambda>ac. ac_apply invoke ac op) (dp_alertCenter p)\<rparr>"

fun conditions :: "(string \<Rightarrow> bool) \<Rightarrow> 'cb dash_event \<Rightarrow> (string \<Rightarrow> bool)" where
  "conditions c (ModelNotice env mv (EquipmentNote _ e)) = c(equipment_key (equipmentId e) := (eq_status e = 0 \<or> eq_status e = 3))"
| "conditions c (ModelNotice env mv (QualityNote _ cp)) = (case mv_checkpoint mv (checkpointId cp) of None \<Rightarrow> c
     | Some row \<Rightarrow> c(quality_key (checkpointId cp) := (passRate row < 95)))"
| "conditions c (ModelNotice env mv (StateNote _ st)) = c(kSystemErrorKey := (st = ERROR))"
| "conditions c (StoreOp (Raise _ a)) = c(av_key a := True)"
| "conditions c (StoreOp (Clear _ k)) = c(k := False)"
| "conditions c _ = c"

text \<open>Catalogues that keep the placeholders of the five format strings.\<close>

definition good_catalog :: "(string \<Rightarrow> string) \<Rightarrow> bool" where
  "good_catalog tr = (\<forall>i s x y. vformat (tr ''Equipment {} error'') [ArgU i] \<noteq> None \<and> vformat (tr ''Equipment {} offline'') [ArgU i] \<noteq> None \<and>
     vformat (tr ''{} critical'') [ArgS s] \<noteq> None \<and> vformat (tr ''{} below target'') [ArgS s] \<noteq> None \<and>
     vformat (tr ''Pass rate {:.1f}% (target {:.0f}%)'') [ArgF x, ArgF y] \<noteq> None)"

text \<open>What other users of the store do: everything but \<^verbatim>\<open>clearAll\<close>, and not under the system alarm's key.\<close>

fun admissible :: "'cb dash_event \<Rightarrow> bool" where
  "admissible (ModelNotice env mv n) = good_catalog (de_gettext env)"
| "admissible (StoreOp (ClearAll _)) = False"
| "admissible (StoreOp (Raise _ a)) = (av_key a \<noteq> kSystemErrorKey)"
| "admissible (StoreOp (Clear _ k)) = (k \<noteq> kSystemErrorKey)"
| "admissible (StoreOp _) = True"

definition tracks :: "'v DashboardPresenter \<Rightarrow> (string \<Rightarrow> bool) \<Rightarrow> bool" where
  "tracks p c = (\<exists>ac. dp_alertCenter p = Some ac \<and> ac_inv ac \<and> (\<forall>k. condition_on (phase_of ac k) = c k) \<and>
     c kSystemErrorKey = (prevSystemState p = ERROR))"

lemma condition_phases [simp]:
  "condition_on (phase_raise p)" "\<not> condition_on (phase_clear p)" "condition_on (phase_ack p) = condition_on p"
  "condition_on (phase_shelve d p) = condition_on p" "condition_on (released p) = condition_on p"
  "condition_on (phase_tick now p) = condition_on p"
  by (cases p; simp)+

lemma keys_differ [simp]:
  "equipment_key i \<noteq> kSystemErrorKey" "quality_key i \<noteq> kSystemErrorKey" "equipment_key i \<noteq> quality_key j"
  "kSystemErrorKey \<noteq> equipment_key i" "kSystemErrorKey \<noteq> quality_key i" "quality_key j \<noteq> equipment_key i"
  by (simp_all add: equipment_key_def quality_key_def kSystemErrorKey_def)

lemma good_catalog_render:
  assumes "good_catalog tr"
  shows "\<exists>a'. retext_body tr c a = Some a' \<and> av_key a' = av_key a"
proof (cases c)
  case (RtEquipment i err)
  have "vformat (tr (if err then ''Equipment {} error'' else ''Equipment {} offline'')) [ArgU i] \<noteq> None" using assms by (auto simp: good_catalog_def)
  then show ?thesis using RtEquipment by auto
next
  case (RtQuality cr n x y)
  have "vformat (tr ''Pass rate {:.1f}% (target {:.0f}%)'') [ArgF x, ArgF y] \<noteq> None"
    "vformat (tr (if cr then ''{} critical'' else ''{} below target'')) [ArgS n] \<noteq> None" using assms by (auto simp: good_catalog_def)
  then show ?thesis using RtQuality by auto
qed simp

text \<open>Both ways of changing an alarm, seen on the flags.\<close>

lemma raise_alert_tracks:
  assumes "good_catalog (de_gettext env)" and "dp_alertCenter p = Some ac" and "ac_inv ac"
  shows "\<exists>ac'. dp_alertCenter (fst (raise_alert env c a ac p)) = Some ac' \<and> ac_inv ac' \<and>
    (\<forall>k. condition_on (phase_of ac' k) = ((\<lambda>k. condition_on (phase_of ac k))(av_key a := True)) k) \<and>
    prevSystemState (fst (raise_alert env c a ac p)) = prevSystemState p \<and> snd (snd (raise_alert env c a ac p)) = None"
proof -
  let ?a = "a\<lparr>av_retranslate := Some (de_handle env c)\<rparr>"
  obtain a' where a': "retext_body (de_gettext env) c ?a = Some a'" "av_key a' = av_key a" using good_catalog_render [OF assms(1), of c ?a] by auto
  then have "raise_alert env c a ac p = (p\<lparr>dp_alertCenter := Some (fst (ac_raise (de_stamp env) a' ac))\<rparr>, map AlertOut (snd (ac_raise (de_stamp env) a' ac)), None)"
    by (simp add: raise_alert_def case_prod_beta)
  then show ?thesis using raise_refines [OF assms(3), of "de_stamp env" a'] a'(2) by auto
qed

lemma clear_alert_tracks:
  assumes "dp_alertCenter p = Some ac" and "ac_inv ac"
  shows "\<exists>ac'. dp_alertCenter (fst (clear_alert env k0 ac p)) = Some ac' \<and> ac_inv ac' \<and>
    (\<forall>k. condition_on (phase_of ac' k) = ((\<lambda>k. condition_on (phase_of ac k))(k0 := False)) k) \<and>
    prevSystemState (fst (clear_alert env k0 ac p)) = prevSystemState p \<and> snd (snd (clear_alert env k0 ac p)) = None"
  using clear_refines [OF assms(2), of "de_stamp env" k0] by (auto simp: clear_alert_def case_prod_beta)

lemma equipment_tracks:
  assumes "tracks p c" and "good_catalog (de_gettext env)"
  shows "tracks (fst (handleEquipmentStatusUpdate env i st p)) (c(equipment_key i := (st = 0 \<or> st = 3)))"
proof -
  from assms(1) obtain ac where ac: "dp_alertCenter p = Some ac" "ac_inv ac" "\<And>k. condition_on (phase_of ac k) = c k"
    "c kSystemErrorKey = (prevSystemState p = ERROR)" by (auto simp: tracks_def)
  define h where "h = (if st = 0 \<or> st = 3
      then raise_alert env (RtEquipment i (st = 3)) (new_alert\<lparr>av_key := equipment_key i, av_severity := (if st = 3 then Critical else Warning),
        av_priority := (if st = 3 then kAlarmPriorityHigh else kAlarmPriorityMedium)\<rparr>) ac p
      else clear_alert env (equipment_key i) ac p)"
  have "\<exists>ac'. dp_alertCenter (fst h) = Some ac' \<and> ac_inv ac' \<and> (\<forall>k. condition_on (phase_of ac' k) = (c(equipment_key i := (st = 0 \<or> st = 3))) k) \<and>
      prevSystemState (fst h) = prevSystemState p"
    using raise_alert_tracks [OF assms(2) ac(1,2), of "RtEquipment i (st = 3)" "new_alert\<lparr>av_key := equipment_key i, av_severity := (if st = 3 then Critical else Warning),
        av_priority := (if st = 3 then kAlarmPriorityHigh else kAlarmPriorityMedium)\<rparr>"]
      clear_alert_tracks [OF ac(1,2), of env "equipment_key i"] ac(3) by (cases "st = 0 \<or> st = 3") (auto simp: h_def)
  moreover have "fst (handleEquipmentStatusUpdate env i st p) = fst h"
    using ac(1) by (simp add: handleEquipmentStatusUpdate_def h_def Let_def case_prod_beta)
  ultimately show ?thesis using ac(4) by (auto simp: tracks_def)
qed

lemma quality_tracks:
  assumes "tracks p c" and "good_catalog (de_gettext env)"
  shows "tracks (fst (handleQualityCheckpointUpdate env mv i st p))
    (case mv_checkpoint mv i of None \<Rightarrow> c | Some row \<Rightarrow> c(quality_key i := (passRate row < 95)))"
proof (cases "buildQualityCheckpointVM mv i")
  case None
  then show ?thesis using assms(1) by (auto simp: buildQualityCheckpointVM_def handleQualityCheckpointUpdate_def split: option.splits)
next
  case (Some vm)
  then obtain row where row: "mv_checkpoint mv i = Some row" "qv_status vm = QPassing \<longleftrightarrow> \<not> passRate row < 95"
    by (auto simp: buildQualityCheckpointVM_def kQualityPassThreshold_def)
  from assms(1) obtain ac where ac: "dp_alertCenter p = Some ac" "ac_inv ac" "\<And>k. condition_on (phase_of ac k) = c k"
    "c kSystemErrorKey = (prevSystemState p = ERROR)" by (auto simp: tracks_def)
  let ?c = "RtQuality (qv_status vm = QCritical) (qv_checkpointName vm) (qv_passRate vm) (qv_targetPassRate vm)"
  let ?a = "new_alert\<lparr>av_key := quality_key i, av_severity := (if qv_status vm = QCritical then Critical else Warning),
      av_priority := (if qv_status vm = QCritical then kAlarmPriorityHigh else kAlarmPriorityMedium)\<rparr>"
  define h where "h = (if qv_status vm = QPassing then clear_alert env (quality_key i) ac p else raise_alert env ?c ?a ac p)"
  have "\<exists>ac'. dp_alertCenter (fst h) = Some ac' \<and> ac_inv ac' \<and> (\<forall>k. condition_on (phase_of ac' k) = (c(quality_key i := (passRate row < 95))) k) \<and>
      prevSystemState (fst h) = prevSystemState p"
    using raise_alert_tracks [OF assms(2) ac(1,2), of ?c ?a] clear_alert_tracks [OF ac(1,2), of env "quality_key i"] ac(3) row(2)
    by (cases "qv_status vm = QPassing") (auto simp: h_def)
  moreover have "fst (handleQualityCheckpointUpdate env mv i st p) = fst h"
    using ac(1) Some by (simp add: handleQualityCheckpointUpdate_def h_def Let_def case_prod_beta)
  ultimately show ?thesis using ac(4) row(1) by (auto simp: tracks_def)
qed

lemma state_tracks:
  assumes "tracks p c" and "good_catalog (de_gettext env)"
  shows "tracks (fst (handleSystemStateChanged env mv st p)) (c(kSystemErrorKey := (st = ERROR))) \<and>
    prevSystemState (fst (handleSystemStateChanged env mv st p)) = st"
proof -
  from assms(1) obtain ac where ac: "dp_alertCenter p = Some ac" "ac_inv ac" "\<And>k. condition_on (phase_of ac k) = c k"
    "c kSystemErrorKey = (prevSystemState p = ERROR)" by (auto simp: tracks_def)
  let ?a = "new_alert\<lparr>av_key := kSystemErrorKey, av_severity := Critical, av_priority := kAlarmPriorityEmergency\<rparr>"
  have same: "c(kSystemErrorKey := b) = c" if "(prevSystemState p = ERROR) = b" for b using ac(4) that by (auto simp: fun_eq_iff)
  have "fst (handleSystemStateChanged env mv st p) = fst (if st = ERROR \<and> prevSystemState p \<noteq> ERROR then raise_alert env (RtSystem (mv_faultReason mv)) ?a ac p
      else if st \<noteq> ERROR \<and> prevSystemState p = ERROR then clear_alert env kSystemErrorKey ac p else (p, [], None))\<lparr>prevSystemState := st\<rparr>"
    using ac(1) by (simp add: handleSystemStateChanged_def system_alarm_def Let_def case_prod_beta)
  then show ?thesis using raise_alert_tracks [OF assms(2) ac(1,2), of "RtSystem (mv_faultReason mv)" ?a]
      clear_alert_tracks [OF ac(1,2), of env kSystemErrorKey] ac same [of "st = ERROR"]
    by (auto simp: tracks_def split: if_splits)
qed

lemma work_unit_tracks: "tracks p c \<Longrightarrow> tracks (fst (handleNewWorkUnit env mv w p)) c"
  by (auto simp: tracks_def handleNewWorkUnit_def case_prod_beta tick_refines)

lemma store_op_tracks:
  assumes "only_texts invoke" and "tracks p c" and "admissible (StoreOp op)"
  shows "tracks (dash_step invoke p (StoreOp op)) (conditions c (StoreOp op))"
proof -
  from assms(2) obtain ac where ac: "dp_alertCenter p = Some ac" "ac_inv ac" "\<And>k. condition_on (phase_of ac k) = c k"
    "c kSystemErrorKey = (prevSystemState p = ERROR)" by (auto simp: tracks_def)
  show ?thesis using ac_refines [OF assms(1) ac(2), of op] ac assms(3) by (cases op) (auto simp: tracks_def)
qed

lemma dash_step_tracks:
  assumes "only_texts invoke" and "tracks p c" and "admissible ev"
  shows "tracks (dash_step invoke p ev) (conditions c ev)"
proof (cases ev)
  case (ModelNotice env mv n)
  then have "good_catalog (de_gettext env)" using assms(3) by simp
  then show ?thesis using ModelNotice assms(2) equipment_tracks quality_tracks state_tracks [THEN conjunct1] work_unit_tracks
    by (cases n) (auto simp: handleActuatorStatusUpdate_def)
qed (use assms store_op_tracks in auto)

section \<open>The dashboard on the simulated line\<close>

fun addressee :: "'cb notice \<Rightarrow> 'cb" where
  "addressee (EquipmentNote cb _) = cb"
| "addressee (ActuatorNote cb _) = cb"
| "addressee (QualityNote cb _) = cb"
| "addressee (WorkUnitNote cb _) = cb"
| "addressee (StateNote cb _) = cb"

text \<open>
  The observer calls of one command reach the presenter in order. When a call is made, the state machine, the
  work unit and the checkpoints already have the values they have after the command; the OEE figures may be
  older (a Start reports the work unit before it sets its line to Processing) and are an argument.
\<close>

definition view_of :: "'cb SimulatedModel \<Rightarrow> OeeMetrics \<Rightarrow> model_view" where
  "view_of m oee = \<lparr>mv_state = getState m, mv_faultReason = sim_lastFaultReason m, mv_workUnit = getWorkUnit m, mv_oee = oee,
     mv_checkpoint = (\<lambda>i. getQualityCheckpoint i m)\<rparr>"

fun deliver :: "'cb \<Rightarrow> (nat \<Rightarrow> dash_env) \<Rightarrow> (nat \<Rightarrow> model_view) \<Rightarrow> nat \<Rightarrow> 'cb notice list \<Rightarrow> 'v DashboardPresenter \<Rightarrow> 'v DashboardPresenter" where
  "deliver d env mv i [] p = p"
| "deliver d env mv i (n # ns) p = deliver d env mv (Suc i) ns (if addressee n = d then fst (on_notice (env i) (mv i) n p) else p)"

datatype click = ClickStart | ClickStop | ClickReset | ClickCalibration | ClickInjectFault | ClickToggle u32 bool

fun do_click :: "click \<Rightarrow> 'v DashboardPresenter \<Rightarrow> 'v DashboardPresenter \<times> model_call list" where
  "do_click ClickStart p = onStartClicked p"
| "do_click ClickStop p = onStopClicked p"
| "do_click ClickReset p = onResetRestartClicked p"
| "do_click ClickCalibration p = onCalibrationClicked p"
| "do_click ClickInjectFault p = onInjectFaultClicked p"
| "do_click (ClickToggle i en) p = onEquipmentToggled i en p"

text \<open>What a call does on the simulated model; the fault injector the main window installs triggers \<^verbatim>\<open>"DEMO"\<close>.\<close>

fun line_op :: "model_call \<Rightarrow> 'cb sim_op" where
  "line_op CallStart = SStart"
| "line_op CallStop = SStop"
| "line_op CallReset = SReset"
| "line_op CallCalibrate = SCalibrate"
| "line_op (CallEnable i en) = SEnable i en"
| "line_op CallFaultInjector = SFault ''DEMO''"

datatype 'cb hmi_op = HLine "nat \<Rightarrow> dash_env" "nat \<Rightarrow> OeeMetrics" "'cb sim_op"
  | HClick "nat \<Rightarrow> dash_env" "nat \<Rightarrow> OeeMetrics" click | HStore ac_op

type_synonym ('cb, 'v) hmi = "'cb SimulatedModel \<times> 'v DashboardPresenter"

definition run_line :: "(real \<Rightarrow> real) \<Rightarrow> 'cb \<Rightarrow> (nat \<Rightarrow> dash_env) \<Rightarrow> (nat \<Rightarrow> OeeMetrics) \<Rightarrow> ('cb, 'v) hmi \<Rightarrow> 'cb sim_op \<Rightarrow> ('cb, 'v) hmi" where
  "run_line rf d env oee h c = (case sim_exec rf (fst h) c of (m, ns) \<Rightarrow> (m, deliver d env (\<lambda>i. view_of m (oee i)) 0 ns (snd h)))"

fun hmi_step :: "(real \<Rightarrow> real) \<Rightarrow> (nat \<Rightarrow> AlertViewModel \<Rightarrow> AlertViewModel) \<Rightarrow> 'cb \<Rightarrow> ('cb, 'v) hmi \<Rightarrow> 'cb hmi_op \<Rightarrow> ('cb, 'v) hmi" where
  "hmi_step rf invoke d h (HLine env oee c) = run_line rf d env oee h c"
| "hmi_step rf invoke d h (HClick env oee b) =
     (case do_click b (snd h) of (p, calls) \<Rightarrow> foldl (run_line rf d env oee) (fst h, p) (map line_op calls))"
| "hmi_step rf invoke d h (HStore op) = (fst h, dash_step invoke (snd h) (StoreOp op :: 'cb dash_event))"

fun hmi_ok :: "'cb hmi_op \<Rightarrow> bool" where
  "hmi_ok (HLine env oee c) = (\<not> is_subscription c \<and> (\<forall>i. good_catalog (de_gettext (env i))))"
| "hmi_ok (HClick env oee b) = (\<forall>i. good_catalog (de_gettext (env i)))"
| "hmi_ok (HStore op) = admissible (StoreOp op :: 'cb dash_event)"

text \<open>A delivery keeps the store's flags and leaves the presenter with the last state it was told.\<close>

lemma on_notice_prev:
  assumes "tracks p c" and "good_catalog (de_gettext env)"
  shows "(\<exists>c'. tracks (fst (on_notice env mv n p)) c') \<and>
    prevSystemState (fst (on_notice env mv n p)) = (case n of StateNote _ st \<Rightarrow> st | _ \<Rightarrow> prevSystemState p)"
proof -
  obtain ac where ac: "dp_alertCenter p = Some ac" "ac_inv ac" using assms(1) by (auto simp: tracks_def)
  have t: "tracks (fst (on_notice env mv n p)) (conditions c (ModelNotice env mv n))"
    using dash_step_tracks [of "\<lambda>_ vm. vm" p c "ModelNotice env mv n"] assms by (simp add: only_texts_def)
  have "prevSystemState (fst (raise_alert env t a ac p)) = prevSystemState p" "prevSystemState (fst (clear_alert env k ac p)) = prevSystemState p" for t a k
    using raise_alert_tracks [OF assms(2) ac] clear_alert_tracks [OF ac] by blast+
  then have "prevSystemState (fst (on_notice env mv n p)) = (case n of StateNote _ st \<Rightarrow> st | _ \<Rightarrow> prevSystemState p)"
    using state_tracks [OF assms] ac(1)
    by (cases n) (auto simp: handleEquipmentStatusUpdate_def handleQualityCheckpointUpdate_def handleActuatorStatusUpdate_def handleNewWorkUnit_def
        Let_def case_prod_beta split: option.splits)
  with t show ?thesis by blast
qed

lemma deliver_prev:
  assumes "tracks p c" and "\<And>i. good_catalog (de_gettext (env i))" and "cp () = Some (prevSystemState p)"
  shows "(\<exists>c'. tracks (deliver d env mv i ns p) c') \<and>
    foldl (state_feed.note_down d) cp ns () = Some (prevSystemState (deliver d env mv i ns p))"
  using assms(1,3)
proof (induction ns arbitrary: p i c cp)
  case (Cons n ns)
  let ?p = "if addressee n = d then fst (on_notice (env i) (mv i) n p) else p"
  obtain c' where t: "tracks ?p c'" using on_notice_prev [OF Cons.prems(1) assms(2), of i "mv i" n] Cons.prems(1) by (cases "addressee n = d") auto
  have "state_feed.note_down d cp n () = Some (prevSystemState ?p)"
    using on_notice_prev [OF Cons.prems(1) assms(2), of i "mv i" n] Cons.prems(2) by (cases n) (auto simp: state_feed.note_down_def)
  from Cons.IH [where cp = "state_feed.note_down d cp n", OF t this, of "Suc i"] show ?case by (simp only: deliver.simps foldl.simps)
qed auto

definition in_touch :: "'cb \<Rightarrow> ('cb, 'v) hmi \<Rightarrow> bool" where
  "in_touch d h = (state_feeding d (fst h) \<and> (\<exists>c. tracks (snd h) c) \<and> prevSystemState (snd h) = getState (fst h))"

lemma run_line_in_touch:
  assumes "in_touch d h" and "\<not> is_subscription c" and "\<And>i. good_catalog (de_gettext (env i))"
  shows "in_touch d (run_line rf d env oee h c)"
proof -
  obtain c0 where c0: "tracks (snd h) c0" using assms(1) by (auto simp: in_touch_def)
  have s: "state_feeding d (fst h)" "state_value (fst h) () = Some (prevSystemState (snd h))"
    using assms(1) by (simp_all add: in_touch_def state_value_def)
  have "foldl (state_feed.note_down d) (state_value (fst h)) (snd (sim_exec rf (fst h) c)) () = state_value (fst (sim_exec rf (fst h) c)) ()"
    by (rule state_feed.copy_step [OF s(1) assms(2) refl])
  then show ?thesis using deliver_prev [where cp = "state_value (fst h)" and env = env and d = d and mv = "\<lambda>i. view_of (fst (sim_exec rf (fst h) c)) (oee i)"
        and i = 0 and ns = "snd (sim_exec rf (fst h) c)", OF c0 assms(3) s(2)]
      state_feeding_step [OF s(1) assms(2), of rf]
    by (simp add: in_touch_def run_line_def case_prod_beta state_value_def)
qed

lemma line_ops_plain: "\<not> is_subscription (line_op call)"
  by (cases call) simp_all

lemma gated_keeps:
  "dp_alertCenter (fst (gated al cat act det calls p)) = dp_alertCenter p" "prevSystemState (fst (gated al cat act det calls p)) = prevSystemState p"
  "dp_session (fst (gated al cat act det calls p)) = dp_session p"
  by (auto simp: gated_def checkRole_def dash_emitAudit_def Let_def split: option.splits)

lemmas click_defs = onStartClicked_def onStopClicked_def onResetRestartClicked_def onCalibrationClicked_def onInjectFaultClicked_def onEquipmentToggled_def

lemma click_keeps:
  "dp_alertCenter (fst (do_click b p)) = dp_alertCenter p" "prevSystemState (fst (do_click b p)) = prevSystemState p"
  "dp_session (fst (do_click b p)) = dp_session p"
  by (cases b; simp add: click_defs gated_keeps)+

lemma run_lines_in_touch:
  assumes "in_touch d h" and "\<And>i. good_catalog (de_gettext (env i))"
  shows "in_touch d (foldl (run_line rf d env oee) h (map line_op calls))"
  using assms(1) by (induction calls arbitrary: h) (simp_all add: run_line_in_touch line_ops_plain assms(2))

lemma hmi_step_in_touch:
  assumes "only_texts invoke" and "in_touch d h" and "hmi_ok op"
  shows "in_touch d (hmi_step rf invoke d h op)"
proof (cases op)
  case (HLine env oee c)
  then show ?thesis using assms run_line_in_touch [of d h c env rf oee] by simp
next
  case (HClick env oee b)
  have "tracks (fst (do_click b (snd h))) c = tracks (snd h) c" for c by (simp add: tracks_def click_keeps)
  then have "in_touch d (fst h, fst (do_click b (snd h)))" using assms(2) by (simp add: in_touch_def click_keeps)
  then show ?thesis using HClick assms(3) run_lines_in_touch [of d _ env rf oee "snd (do_click b (snd h))"] by (simp add: case_prod_beta)
next
  case (HStore op)
  then show ?thesis using assms store_op_tracks [OF assms(1), of "snd h" _ op] by (auto simp: in_touch_def)
qed

interpretation dashboard: guarded_machine "hmi_step rf invoke d" hmi_ok "\<lambda>h. only_texts invoke \<and> in_touch d h" for rf invoke d
  by unfold_locales (simp add: hmi_step_in_touch)

section \<open>Properties\<close>

lemma condition_shown: "condition_on (phase_of ac k) \<Longrightarrow> \<exists>vm. av_key vm = k \<and> (vm \<in> set (snapshot ac) \<or> vm \<in> sv_vm ` set (shelvedSnapshot now ac))"
  by (rule tracked_is_shown) auto

lemma fresh_tracks: "tracks (setAlertCenter ac_new dash_new) (\<lambda>_. False)"
proof -
  have "phase_of ac_new k = Absent" for k by (simp add: phase_of_def ac_new_def)
  then show ?thesis by (simp add: tracks_def setAlertCenter_def dash_new_def ac_inv_new)
qed

lemma run_tracks:
  assumes "only_texts invoke" and "tracks p c" and "list_all admissible es"
  shows "tracks (foldl (dash_step invoke) p es) (foldl conditions c es)"
  using assms(2,3) by (induction es arbitrary: p c) (simp_all add: dash_step_tracks [OF assms(1)])


lemma plain_catalog: "good_catalog (\<lambda>s. s)"
  by (simp add: good_catalog_def)

definition demo_env :: "nat \<Rightarrow> dash_env" where
  "demo_env _ = \<lparr>de_gettext = (\<lambda>s. s), de_handle = (\<lambda>_. 0), de_stamp = ''12:00'', de_now = 0, de_round = (\<lambda>x. x)\<rparr>"

definition demo_oee :: "nat \<Rightarrow> OeeMetrics" where
  "demo_oee _ = \<lparr>availabilityPct = 0, performancePct = 0, qualityPct = 0, oeePct = 0\<rparr>"




subsection \<open>Clicks\<close>

fun permitted :: "click \<Rightarrow> Role \<Rightarrow> bool" where
  "permitted ClickStart r = canStartStop r"
| "permitted ClickStop r = canStartStop r"
| "permitted ClickReset r = canResetSystem r"
| "permitted ClickCalibration r = canCalibrate r"
| "permitted ClickInjectFault r = canInjectFault r"
| "permitted (ClickToggle i en) r = canStartStop r"

fun verb :: "click \<Rightarrow> string" where
  "verb ClickStart = ''START''"
| "verb ClickStop = ''STOP''"
| "verb ClickReset = ''RESET''"
| "verb ClickCalibration = ''CALIBRATE''"
| "verb ClickInjectFault = ''INJECT_FAULT''"
| "verb (ClickToggle i en) = (if en then ''ENABLE'' else ''DISABLE'')"

text \<open>A session with a user, and an audit log.\<close>

definition signed_in :: "'v DashboardPresenter \<Rightarrow> User \<Rightarrow> AuditEvent list \<Rightarrow> bool" where
  "signed_in p u rows = (dp_audit p = Some rows \<and> (\<exists>se. dp_session p = Some se \<and> currentUser se = Some u))"

definition click_row :: "User \<Rightarrow> click \<Rightarrow> AuditEvent \<Rightarrow> bool" where
  "click_row u b e = (ae_username e = username u \<and> ae_action e = verb b \<and> ae_result e = (if permitted b (role u) then kSuccess else kFailure))"

lemma gated_signed_in:
  assumes "signed_in p u rows" and "gated al cat act det calls p = (p', calls')"
  shows "calls' = (if al (role u) then calls else []) \<and>
    (\<exists>e. signed_in p' u (rows @ [e]) \<and> ae_username e = username u \<and> ae_action e = act \<and> ae_result e = (if al (role u) then kSuccess else kFailure))"
  using assms by (auto simp: signed_in_def gated_def checkRole_def dash_emitAudit_def Let_def split: if_splits)

lemma click_signed_in:
  assumes "signed_in p u rows" and "do_click b p = (p', calls)"
  shows "(permitted b (role u) \<or> calls = []) \<and> (\<exists>e. signed_in p' u (rows @ [e]) \<and> click_row u b e)"
  using assms(2) by (cases b) (auto simp: click_defs click_row_def dest!: gated_signed_in [OF assms(1)] split: if_splits)

lemma notice_keeps_account:
  "dp_audit (fst (on_notice env mv n p)) = dp_audit p \<and> dp_session (fst (on_notice env mv n p)) = dp_session p"
  by (cases n) (auto simp: handleEquipmentStatusUpdate_def handleQualityCheckpointUpdate_def handleActuatorStatusUpdate_def handleNewWorkUnit_def
      handleSystemStateChanged_def system_alarm_def raise_alert_def clear_alert_def Let_def case_prod_beta split: option.splits if_splits)

lemma deliver_keeps_account:
  "dp_audit (deliver d env mv i ns p) = dp_audit p \<and> dp_session (deliver d env mv i ns p) = dp_session p"
  by (induction ns arbitrary: i p) (simp_all add: notice_keeps_account)

lemma run_lines_keep_account:
  "signed_in (snd (foldl (run_line rf d env oee) h cs)) u rows = signed_in (snd h) u rows"
  by (induction cs arbitrary: h) (simp_all add: run_line_def signed_in_def case_prod_beta deliver_keeps_account)

text \<open>Which line commands of a click leave the safe state.\<close>

lemma locked_line_op:
  assumes "sim_inv m" and "getState m = ERROR" and "c \<noteq> SReset" and "c = line_op call"
  shows "getState (fst (sim_exec rf m c)) = ERROR"
proof -
  have "sm (stateMachine m) = ERROR" using assms(2) by (simp add: getState_def)
  then show ?thesis using assms(3,4)
    by (cases call) (auto simp: startProduction_def stopProduction_def startCalibration_def triggerFault_def setEquipmentEnabled_def set_equipment_def
        case_prod_beta Let_def dispatch_state_fst ssm_defs getState_def simulateProductionCycle_def)
qed

fun click_of :: "click \<Rightarrow> model_call list \<Rightarrow> bool" where
  "click_of b calls = (calls \<in> {[], [case b of ClickStart \<Rightarrow> CallStart | ClickStop \<Rightarrow> CallStop | ClickReset \<Rightarrow> CallReset
     | ClickCalibration \<Rightarrow> CallCalibrate | ClickInjectFault \<Rightarrow> CallFaultInjector | ClickToggle i en \<Rightarrow> CallEnable i en]})"

lemma gated_calls: "snd (gated al cat act det calls p) \<in> {[], calls}"
  by (auto simp: gated_def split: bool.splits prod.splits)

lemma click_calls: "click_of b (snd (do_click b p))"
  using gated_calls by (cases b) (fastforce simp: click_defs split: if_splits)+

lemma locked_click:
  assumes "sim_inv m" and "getState m = ERROR" and "signed_in p u rows" and "\<not> canResetSystem (role u)"
    and "hmi_step rf invoke d (m, p) (HClick env oee b) = (m', p')"
  shows "sim_inv m' \<and> getState m' = ERROR \<and> (\<exists>e. signed_in p' u (rows @ [e]) \<and> click_row u b e)"
proof -
  obtain p1 calls where c: "do_click b p = (p1, calls)" by fastforce
  from click_signed_in [OF assms(3) c] obtain e where e: "signed_in p1 u (rows @ [e])" "click_row u b e" "permitted b (role u) \<or> calls = []" by blast
  have h: "(m', p') = foldl (run_line rf d env oee) (m, p1) (map line_op calls)" using assms(5) c by simp
  have "calls = [] \<or> (\<exists>call. calls = [call] \<and> line_op call \<noteq> (SReset :: 'a sim_op))"
    using click_calls [of b p] c e(3) assms(4) by (cases b) auto
  then have "sim_inv m' \<and> getState m' = ERROR"
  proof
    assume "calls = []"
    then show ?thesis using h assms(1,2) by simp
  next
    assume "\<exists>call. calls = [call] \<and> line_op call \<noteq> (SReset :: 'a sim_op)"
    then obtain call where call: "calls = [call]" "line_op call \<noteq> (SReset :: 'a sim_op)" by blast
    then have "m' = fst (sim_exec rf m (line_op call))" using h by (simp add: run_line_def case_prod_beta)
    moreover have "known_op (line_op call :: 'a sim_op)" by (cases call) simp_all
    ultimately show ?thesis using sim_exec_inv [OF assms(1)] locked_line_op [OF assms(1,2) call(2) refl] by simp
  qed
  moreover have "signed_in p' u (rows @ [e])" using e(1) h run_lines_keep_account [of rf d env oee "(m, p1)" "map line_op calls" u "rows @ [e]"] by (metis snd_conv)
  ultimately show ?thesis using e(2) by blast
qed

text \<open>
  C21. The safe state needs the maintenance role: whatever a signed-in user without it clicks, in any order, the
  line stays in the safe state, and every click leaves exactly one audit row under the user's name, a failure
  where the role does not permit the action.
\<close>

theorem operator_stays_locked_out:
  assumes "sim_inv m" and "getState m = ERROR" and "signed_in p u rows" and "\<not> canResetSystem (role u)"
    and "(m', p') = foldl (hmi_step rf invoke d) (m, p) (map (HClick env oee) bs)"
  shows "getState m' = ERROR \<and> (\<exists>new. signed_in p' u (rows @ new) \<and> list_all2 (click_row u) bs new)"
  using assms(1-3,5)
proof (induction bs arbitrary: m p rows)
  case Nil
  then show ?case by (auto intro: exI [of _ "[]"])
next
  case (Cons b bs)
  obtain m1 p1 where s: "hmi_step rf invoke d (m, p) (HClick env oee b) = (m1, p1)" by fastforce
  from locked_click [OF Cons.prems(1-3) assms(4) s] obtain e where
    e: "sim_inv m1" "getState m1 = ERROR" "signed_in p1 u (rows @ [e])" "click_row u b e" by blast
  from Cons.prems(4) s have "(m', p') = foldl (hmi_step rf invoke d) (m1, p1) (map (HClick env oee) bs)" by (simp del: hmi_step.simps)
  from Cons.IH [OF e(1-3) this] obtain new where "getState m' = ERROR" "signed_in p' u ((rows @ [e]) @ new)" "list_all2 (click_row u) bs new" by blast
  then show ?case using e(4) by (intro conjI exI [of _ "e # new"]) simp_all
qed

definition demo_dashboard :: "Role \<Rightarrow> nat DashboardPresenter" where
  "demo_dashboard r = dash_setAudit [] (setUser \<lparr>current = None, changes = 0\<rparr> (new_user\<lparr>username := ''ann'', role := r\<rparr>)) (setAlertCenter ac_new dash_new)"

theorem operator_stays_locked_out_witness:
  "\<exists>m' p'. foldl (hmi_step (\<lambda>x. x) (\<lambda>_ vm. vm) (0::nat)) (fst (triggerFault ''E'' demo_model), demo_dashboard Operator)
      (map (HClick demo_env demo_oee) [ClickReset, ClickStart]) = (m', p') \<and> getState m' = ERROR \<and>
    (\<exists>rows. dp_audit p' = Some rows \<and> map ae_result rows = [kFailure, kSuccess])"
proof -
  define u where "u = new_user\<lparr>username := ''ann'', role := Operator\<rparr>"
  let ?m = "fst (triggerFault ''E'' (demo_model :: nat SimulatedModel))"
  obtain m' p' where r: "(m', p') = foldl (hmi_step (\<lambda>x. x) (\<lambda>_ vm. vm) 0) (?m, demo_dashboard Operator) (map (HClick demo_env demo_oee) [ClickReset, ClickStart])"
    by (metis surj_pair)
  have i: "sim_inv ?m" using dispatch_state_inv(5) [OF demo_model_inv] by (simp add: triggerFault_def)
  have g: "getState ?m = ERROR" by (simp add: triggerFault_def dispatch_state_fst getState_def ssm_defs)
  have s: "signed_in (demo_dashboard Operator) u []" by (simp add: signed_in_def demo_dashboard_def dash_setAudit_def u_def)
  have "\<not> canResetSystem (role u)" by (simp add: u_def permission_defs role_defs less_eq_Role_def)
  from operator_stays_locked_out [OF i g s this r] obtain new where new: "getState m' = ERROR" "signed_in p' u ([] @ new)"
    "list_all2 (click_row u) [ClickReset, ClickStart] new" by blast
  then obtain e1 e2 where "new = [e1, e2]" "click_row u ClickReset e1" "click_row u ClickStart e2" by (auto simp: list_all2_Cons1)
  then have "map ae_result new = [kFailure, kSuccess]" by (simp add: click_row_def u_def permission_defs role_defs less_eq_Role_def)
  moreover have "dp_audit p' = Some new" using new(2) by (simp add: signed_in_def)
  ultimately show ?thesis using new(1) by (intro exI [of _ m'] exI [of _ p'] conjI exI [of _ new]) (rule r [symmetric])
qed

subsection \<open>The panel\<close>

text \<open>
  The buttons are the accepted commands: Start, Stop and Calibrate are enabled exactly in the states in which
  the state machine would act on them, Reset exactly when Stop is not, so that in the safe state it is the
  only one; and exactly the running states light a button.
\<close>

theorem buttons_are_accepted_commands:
  "startEnabled (buildControlPanelVM s) = (process_event s StartEvt \<noteq> s) \<and>
   stopEnabled (buildControlPanelVM s) = (process_event s StopEvt \<noteq> s) \<and>
   calibrationEnabled (buildControlPanelVM s) = (process_event s CalibrateEvt \<noteq> s) \<and>
   resetRestartEnabled (buildControlPanelVM s) = (\<not> stopEnabled (buildControlPanelVM s)) \<and>
   (s = ERROR) = (resetRestartEnabled (buildControlPanelVM s) \<and> \<not> startEnabled (buildControlPanelVM s)) \<and>
   (activeButton (buildControlPanelVM s) = NoControl) = (process_event s StopEvt = s)"
  by (cases s) (simp_all add: process_event_def)

text \<open>
  The recipe's target is ignored: a checkpoint between the fixed threshold of 95 percent and a stricter
  target its recipe sets is shown as passing, and the handler switches its alarm's condition off.
\<close>

theorem recipe_target_ignored:
  assumes "dp_alertCenter p = Some ac" and "ac_inv ac" and "mv_checkpoint mv i = Some cp"
    and "95 \<le> passRate cp" and "passRate cp < passRateTarget cp"
    and "handleQualityCheckpointUpdate env mv i st p = (p', outs, exn)"
  shows "(\<exists>vm. buildQualityCheckpointVM mv i = Some vm \<and> qv_status vm = QPassing \<and> qv_passRate vm < qv_targetPassRate vm) \<and>
    (\<exists>ac'. dp_alertCenter p' = Some ac' \<and> \<not> condition_on (phase_of ac' (quality_key i)))"
proof -
  have "fst (handleQualityCheckpointUpdate env mv i st p) = fst (clear_alert env (quality_key i) ac p)"
    using assms(1,3,4) by (simp add: handleQualityCheckpointUpdate_def buildQualityCheckpointVM_def kQualityPassThreshold_def Let_def case_prod_beta)
  then show ?thesis using clear_alert_tracks [OF assms(1,2), of env "quality_key i"] assms(3-6)
    by (auto simp: buildQualityCheckpointVM_def kQualityPassThreshold_def)
qed

theorem recipe_target_ignored_witness:
  "\<exists>vm. buildQualityCheckpointVM (view_of (demo_model :: nat SimulatedModel) (demo_oee 0)\<lparr>mv_checkpoint := (\<lambda>_. Some (default_checkpoint\<lparr>passRate := 96, passRateTarget := 99\<rparr>))\<rparr>) 0 = Some vm \<and>
    qv_status vm = QPassing"
proof -
  let ?mv = "view_of (demo_model :: nat SimulatedModel) (demo_oee 0)\<lparr>mv_checkpoint := (\<lambda>_. Some (default_checkpoint\<lparr>passRate := 96, passRateTarget := 99\<rparr>))\<rparr>"
  obtain p' outs exn where h: "handleQualityCheckpointUpdate (demo_env 0) ?mv 0 0 (setAlertCenter ac_new (dash_new :: nat DashboardPresenter)) = (p', outs, exn)"
    by (metis prod_cases3)
  have "dp_alertCenter (setAlertCenter ac_new (dash_new :: nat DashboardPresenter)) = Some ac_new" by (simp add: setAlertCenter_def)
  from recipe_target_ignored [OF this ac_inv_new _ _ _ h] show ?thesis by auto
qed

end
