(* ===== verification/ProductSerializers.thy ===== *)
theory ProductSerializers
  imports SimulatedModel
begin

text \<open>
  \<^verbatim>\<open>integration/CsvSerializer.cpp\<close> and \<^verbatim>\<open>integration/JsonSerializer.cpp\<close> behind the interface of
  \<^verbatim>\<open>integration/Serializer.h\<close>: both writers and both readers, byte by byte. A stream is the text that is
  still to be read (its state bits make no difference to these readers, except for the failed put-back of a
  truncated byte order mark, which is written out). The rounding of \<^verbatim>\<open>stof\<close> is an argument; the texts of
  the exceptions are not modelled.

  The theorems: what is written is read back, for both formats through one interface; a second export is
  byte-identical to the first; exactly which products the JSON reader refuses although the JSON writer wrote
  them.
\<close>

section \<open>Data\<close>

text \<open>The \<^verbatim>\<open>Product\<close> a reader fills in: it is declared without an initializer, so a number no field
  assigns is indeterminate, \<^const>\<open>None\<close>. The readers never assign the other members.\<close>

record ImportedProduct =
  im_productCode :: string
  im_name :: string
  im_status :: string
  im_stock :: "int option"
  im_qualityRate :: "flt option"

definition unassigned :: ImportedProduct where
  "unassigned = \<lparr>im_productCode = [], im_name = [], im_status = [], im_stock = None, im_qualityRate = None\<rparr>"

text \<open>The exceptions: \<^verbatim>\<open>std::runtime_error\<close> in all cases but the last, where \<^verbatim>\<open>std::stof\<close>'s own exception
  leaves the JSON reader.\<close>

datatype import_error =
    BadFieldCount nat | StockNotInteger string | QualityNotFloat string
  | JsonExpected char | JsonEofInString | JsonUnicodeEscape | JsonBadEscape | JsonExpectedNumber
  | JsonExpectedSeparator
  | StofThrew string

abbreviation quote :: char where "quote \<equiv> CHR 0x22"
abbreviation backslash :: char where "backslash \<equiv> CHR 0x5C"
abbreviation lf :: char where "lf \<equiv> CHR 0x0A"
abbreviation cr :: char where "cr \<equiv> CHR 0x0D"

text \<open>\<^verbatim>\<open>fmtRate\<close>, the same in both classes; the sign of a NaN is not modelled.\<close>

definition fmtRate :: "flt \<Rightarrow> string" where
  "fmtRate v = (case v of Fin x \<Rightarrow> fixed_str 1 x | Inf neg \<Rightarrow> (if neg then ''-inf'' else ''inf'') | NaN \<Rightarrow> ''nan'')"

section \<open>CSV\<close>

definition kUtf8Bom :: string where "kUtf8Bom = [CHR 0xEF, CHR 0xBB, CHR 0xBF]"

definition defaultHeader :: "string list" where
  "defaultHeader = [''Product Code'', ''Name'', ''Status'', ''Stock'', ''Quality %'']"

definition special :: "char \<Rightarrow> bool" where
  "special c = (c = CHR '','' \<or> c = quote \<or> c = lf \<or> c = cr)"

definition escapeField :: "string \<Rightarrow> string" where
  "escapeField f =
     (if list_ex special f then quote # concat (map (\<lambda>c. if c = quote then [quote, quote] else [c]) f) @ [quote] else f)"

text \<open>The header loop writes a comma before every label but the first.\<close>

fun header_row :: "string list \<Rightarrow> string" where
  "header_row [] = []"
| "header_row [h] = escapeField h"
| "header_row (h # hs) = escapeField h @ '','' @ header_row hs"

definition csv_row :: "Product \<Rightarrow> string" where
  "csv_row p = escapeField (productCode p) @ '','' @ escapeField (prod_name p) @ '','' @ escapeField (prod_status p) @ '','' @
     int_str (stock p) @ '','' @ fmtRate (qualityRate p) @ [cr, lf]"

definition csv_writeProducts :: "string list \<Rightarrow> Product list \<Rightarrow> string" where
  "csv_writeProducts header products = kUtf8Bom @ header_row header @ [cr, lf] @ concat (map csv_row products)"

text \<open>The loop of \<^verbatim>\<open>parseRecord\<close>: the fields so far, the current one, whether inside quotes, whether any
  character was read; the result is the record and the rest of the stream.\<close>

fun record_loop :: "string list \<Rightarrow> string \<Rightarrow> bool \<Rightarrow> bool \<Rightarrow> string \<Rightarrow> string list \<times> string" where
  "record_loop fs current inQuotes sawAnyChar [] =
     (if sawAnyChar \<or> fs \<noteq> [] then fs @ [current] else fs, [])"
| "record_loop fs current inQuotes sawAnyChar (c # r) =
     (if inQuotes then
        (if c = quote then
           (if r \<noteq> [] \<and> hd r = quote then record_loop fs (current @ [quote]) True True (tl r)
            else record_loop fs current False True r)
         else record_loop fs (current @ [c]) True True r)
      else if c = CHR '','' then record_loop (fs @ [current]) [] False True r
      else if c = cr then (fs @ [current], if r \<noteq> [] \<and> hd r = lf then tl r else r)
      else if c = lf then (fs @ [current], r)
      else if c = quote \<and> current = [] then record_loop fs current True True r
      else record_loop fs (current @ [c]) False True r)"

definition parseRecord :: "string \<Rightarrow> string list \<times> string" where
  "parseRecord s = record_loop [] [] False False s"

text \<open>One data row.\<close>

definition csv_product :: "rounding \<Rightarrow> string list \<Rightarrow> import_error + ImportedProduct" where
  "csv_product rnd fs =
     (case fs of [code, name, st, stockStr, rate] \<Rightarrow>
        (case from_chars_int stockStr of
           Parsed v rest \<Rightarrow>
             (case stof rnd rate of
                Some q \<Rightarrow> Inr \<lparr>im_productCode = code, im_name = name, im_status = st, im_stock = Some v, im_qualityRate = Some q\<rparr>
              | None \<Rightarrow> Inl (QualityNotFloat rate))
         | _ \<Rightarrow> Inl (StockNotInteger stockStr))
      | _ \<Rightarrow> Inl (BadFieldCount (length fs)))"

lemma record_loop_shorter: "length (snd (record_loop fs cur q saw s)) \<le> length s - 1"
proof (induction fs cur q saw s rule: record_loop.induct)
  case (2 fs cur q saw c r)
  have step: "n \<le> length r" if "n \<le> length r - 1 \<or> n \<le> length (tl r) - 1" for n using that by auto
  show ?case by (cases q; cases "c = quote"; cases "r \<noteq> [] \<and> hd r = quote"; cases "cur = []")
    (use 2 step in \<open>simp_all\<close>)
qed simp

function csv_rows :: "rounding \<Rightarrow> ImportedProduct list \<Rightarrow> string \<Rightarrow> import_error + ImportedProduct list" where
  "csv_rows rnd out s =
     (if fst (parseRecord s) = [] then Inr out
      else case csv_product rnd (fst (parseRecord s)) of
          Inl e \<Rightarrow> Inl e
        | Inr p \<Rightarrow> csv_rows rnd (out @ [p]) (snd (parseRecord s)))"
  by pat_completeness auto
termination
proof (relation "measure (\<lambda>(rnd, out, s). length s)", goal_cases)
  case (2 rnd out s p)
  have "s \<noteq> []" using 2(1) by (auto simp: parseRecord_def)
  then show ?case using record_loop_shorter [of "[]" "[]" False False s] by (cases s) (simp_all add: parseRecord_def)
qed simp

text \<open>A stream that begins with the first byte of the mark but ends before its third fails on the read, and
  the put-back of a failed stream does nothing: it is at its end.\<close>

definition strip_bom :: "string \<Rightarrow> string" where
  "strip_bom s =
     (if s \<noteq> [] \<and> hd s = CHR 0xEF
      then if length s < 3 then [] else if take 3 s = kUtf8Bom then drop 3 s else s
      else s)"

definition csv_readProducts :: "rounding \<Rightarrow> string \<Rightarrow> import_error + ImportedProduct list" where
  "csv_readProducts rnd s = csv_rows rnd [] (snd (parseRecord (strip_bom s)))"
declare csv_rows.simps [simp del]

subsection \<open>Reading a written record\<close>

lemma saw_irrelevant: "record_loop fs cur q saw (c # r) = record_loop fs cur q True (c # r)"
  by simp

lemma plain_field:
  "list_all (\<lambda>c. \<not> special c) f \<Longrightarrow> record_loop fs cur False saw (f @ c # r) = record_loop fs (cur @ f) False True (c # r)"
proof (induction f arbitrary: cur saw)
  case Nil
  then show ?case using saw_irrelevant by simp
next
  case (Cons x f)
  then have "record_loop fs cur False saw ((x # f) @ c # r) = record_loop fs (cur @ [x]) False True (f @ c # r)"
    by (simp add: special_def)
  then show ?case using Cons by simp
qed

lemma quoted_field:
  assumes "c \<noteq> quote"
  shows "record_loop fs cur True True (concat (map (\<lambda>c. if c = quote then [quote, quote] else [c]) f) @ quote # c # r) =
    record_loop fs (cur @ f) False True (c # r)"
proof (induction f arbitrary: cur)
  case Nil
  have "record_loop fs cur True True (quote # c # r) = record_loop fs cur False True (c # r)"
    using assms by (subst record_loop.simps) simp
  then show ?case by (simp del: record_loop.simps)
next
  case (Cons x f)
  then show ?case by (cases "x = quote") simp_all
qed

lemma escaped_field:
  assumes "c \<noteq> quote"
  shows "record_loop fs [] False saw (escapeField f @ c # r) = record_loop fs f False True (c # r)"
proof (cases "list_ex special f")
  case True
  then have "record_loop fs [] False saw (escapeField f @ c # r) =
      record_loop fs [] True True (concat (map (\<lambda>c. if c = quote then [quote, quote] else [c]) f) @ quote # c # r)"
    by (simp add: escapeField_def)
  then show ?thesis using quoted_field [OF assms, of fs "[]" f r] by simp
next
  case False
  then show ?thesis using plain_field [of f fs "[]" saw c r]
    by (simp add: escapeField_def list_all_iff list_ex_iff del: record_loop.simps)
qed

lemma record_of_fields:
  "record_loop fs [] False saw (escapeField f @ CHR '','' # r) = record_loop (fs @ [f]) [] False True r"
  "record_loop fs [] False saw (escapeField f @ cr # lf # r) = (fs @ [f], r)"
  by (simp_all add: escaped_field)

lemma record_of_header:
  "record_loop fs [] False saw (header_row hs @ cr # lf # r) = (fs @ (if hs = [] then [[]] else hs), r)"
  by (induction hs arbitrary: fs saw rule: header_row.induct)
    (simp_all add: record_of_fields del: record_loop.simps, simp)

lemma no_special_digits: "list_all isdigit ds \<Longrightarrow> \<not> list_ex special ds"
  by (induction ds) (auto simp: special_def isdigit_def ch_code_def)

lemma no_special_int [simp]: "escapeField (int_str i) = int_str i"
  using no_special_digits nat_str_digits by (simp add: escapeField_def int_str_def special_def)

lemma no_special_rate [simp]: "escapeField (fmtRate v) = fmtRate v"
proof -
  have d: "\<not> list_ex special (nat_str n)" "\<not> list_ex special (replicate k (CHR ''0''))" for n k
    using no_special_digits [of "nat_str n"] nat_str_digits by (simp_all add: list_ex_iff special_def)
  then have b: "\<not> list_ex special (fixed_body 1 n)" for n by (simp add: fixed_body_def special_def [of "CHR ''.''"])
  have "\<not> list_ex special (fixed_str 1 x)" for x using b by (simp add: fixed_str_body special_def)
  then show ?thesis by (simp add: fmtRate_def escapeField_def special_def split: flt.split)
qed

lemma parse_csv_row:
  "parseRecord (csv_row p @ r) = ([productCode p, prod_name p, prod_status p, int_str (stock p), fmtRate (qualityRate p)], r)"
proof -
  have "csv_row p @ r = escapeField (productCode p) @ CHR '','' # escapeField (prod_name p) @ CHR '','' #
      escapeField (prod_status p) @ CHR '','' # escapeField (int_str (stock p)) @ CHR '','' #
      escapeField (fmtRate (qualityRate p)) @ cr # lf # r"
    by (simp add: csv_row_def)
  then show ?thesis unfolding parseRecord_def by (simp only: record_of_fields append_Nil append_Cons)
qed

text \<open>The product that comes back: its rate is the \<^verbatim>\<open>float\<close> nearest to the printed one. A rate whose printed
  form is out of range does not come back.\<close>

definition imported :: "rounding \<Rightarrow> Product \<Rightarrow> ImportedProduct" where
  "imported rnd p = \<lparr>im_productCode = productCode p, im_name = prod_name p, im_status = prod_status p,
     im_stock = Some (stock p),
     im_qualityRate = Some (case qualityRate p of Fin x \<Rightarrow> fst (rnd (printed 1 x)) | v \<Rightarrow> v)\<rparr>"

definition in_range :: "rounding \<Rightarrow> Product \<Rightarrow> bool" where
  "in_range rnd p = (- (2 ^ 31) \<le> stock p \<and> stock p < 2 ^ 31 \<and> (\<forall>x. qualityRate p = Fin x \<longrightarrow> \<not> snd (rnd (printed 1 x))))"

lemma stof_fmtRate:
  assumes "in_range rnd p"
  shows "stof rnd (fmtRate (qualityRate p)) = im_qualityRate (imported rnd p)"
proof (cases "qualityRate p")
  case (Fin x)
  then show ?thesis using assms by (simp add: fmtRate_def stof_fixed_str imported_def in_range_def)
next
  case (Inf b)
  have "stof rnd ''inf'' = Some (Inf False)" "stof rnd ''-inf'' = Some (Inf True)" by code_simp+
  then show ?thesis using Inf by (simp add: fmtRate_def imported_def)
next
  case NaN
  have "stof rnd ''nan'' = Some NaN" by code_simp
  then show ?thesis using NaN by (simp add: fmtRate_def imported_def)
qed

lemma csv_rows_written:
  "list_all (in_range rnd) ps \<Longrightarrow> csv_rows rnd out (concat (map csv_row ps)) = Inr (out @ map (imported rnd) ps)"
proof (induction ps arbitrary: out)
  case Nil
  then show ?case by (simp add: csv_rows.simps parseRecord_def)
next
  case (Cons p ps)
  have "from_chars_int (int_str (stock p)) = Parsed (stock p) []"
    using Cons.prems from_chars_int_str [of "stock p" "[]"] by (simp add: in_range_def no_digit_def)
  moreover have "stof rnd (fmtRate (qualityRate p)) = im_qualityRate (imported rnd p)"
    using Cons.prems by (simp add: stof_fmtRate)
  ultimately have "csv_product rnd (fst (parseRecord (concat (map csv_row (p # ps))))) = Inr (imported rnd p)"
    by (simp add: parse_csv_row csv_product_def imported_def)
  then show ?case using Cons by (subst csv_rows.simps) (simp add: parse_csv_row)
qed

lemma csv_written_is_read:
  assumes "list_all (in_range rnd) ps"
  shows "csv_readProducts rnd (csv_writeProducts header ps) = Inr (map (imported rnd) ps)"
proof -
  have "strip_bom (csv_writeProducts header ps) = header_row header @ cr # lf # concat (map csv_row ps)"
    by (simp add: strip_bom_def csv_writeProducts_def kUtf8Bom_def)
  then have "csv_readProducts rnd (csv_writeProducts header ps) = csv_rows rnd [] (concat (map csv_row ps))"
    by (simp add: csv_readProducts_def parseRecord_def record_of_header del: record_loop.simps)
  then show ?thesis using csv_rows_written [OF assms, of "[]"] by simp
qed

section \<open>JSON\<close>

subsection \<open>Writing\<close>

definition hex_char :: "nat \<Rightarrow> char" where
  "hex_char n = (if n < 10 then char_of (48 + n) else char_of (87 + n))"

definition escape_char :: "char \<Rightarrow> string" where
  "escape_char c =
     (if c = quote then [backslash, quote] else if c = backslash then [backslash, backslash]
      else if c = CHR 0x08 then backslash # ''b'' else if c = CHR 0x0C then backslash # ''f''
      else if c = lf then backslash # ''n'' else if c = cr then backslash # ''r''
      else if c = CHR 0x09 then backslash # ''t''
      else if ch_code c < 32 then backslash # ''u00'' @ [hex_char (ch_code c div 16), hex_char (ch_code c mod 16)]
      else [c])"

definition escapeString :: "string \<Rightarrow> string" where
  "escapeString s = concat (map escape_char s)"

definition quoted :: "string \<Rightarrow> string" where "quoted s = quote # s @ [quote]"

definition json_line :: "string \<Rightarrow> string \<Rightarrow> string" where
  "json_line key v = ''    '' @ quoted key @ '': '' @ v"

definition json_object :: "Product \<Rightarrow> string" where
  "json_object p = ''  {'' @ [lf] @
     json_line ''productCode'' (quoted (escapeString (productCode p))) @ '','' @ [lf] @
     json_line ''name'' (quoted (escapeString (prod_name p))) @ '','' @ [lf] @
     json_line ''status'' (quoted (escapeString (prod_status p))) @ '','' @ [lf] @
     json_line ''stock'' (int_str (stock p)) @ '','' @ [lf] @
     json_line ''qualityRate'' (fmtRate (qualityRate p)) @ [lf] @ ''  }''"

fun json_objects :: "Product list \<Rightarrow> string" where
  "json_objects [] = []"
| "json_objects [p] = json_object p @ [lf]"
| "json_objects (p # ps) = json_object p @ '','' @ [lf] @ json_objects ps"

definition json_writeProducts :: "Product list \<Rightarrow> string" where
  "json_writeProducts products =
     (if products = [] then ''[]'' @ [lf] else ''['' @ [lf] @ json_objects products @ '']'' @ [lf])"

subsection \<open>Reading\<close>

definition json_ws :: "char \<Rightarrow> bool" where
  "json_ws c = (c = CHR '' '' \<or> c = CHR 0x09 \<or> c = lf \<or> c = cr)"

definition skipWs :: "string \<Rightarrow> string" where "skipWs s = dropWhile json_ws s"

definition expect :: "char \<Rightarrow> string \<Rightarrow> import_error + string" where
  "expect c s = (case skipWs s of d # r \<Rightarrow> if d = c then Inr r else Inl (JsonExpected c) | [] \<Rightarrow> Inl (JsonExpected c))"

definition unescape :: "char \<Rightarrow> char option" where
  "unescape e =
     (if e = quote \<or> e = backslash \<or> e = CHR ''/'' then Some e
      else if e = CHR ''b'' then Some (CHR 0x08) else if e = CHR ''f'' then Some (CHR 0x0C)
      else if e = CHR ''n'' then Some lf else if e = CHR ''r'' then Some cr
      else if e = CHR ''t'' then Some (CHR 0x09) else None)"

fun string_loop :: "string \<Rightarrow> string \<Rightarrow> import_error + string \<times> string" where
  "string_loop out [] = Inl JsonEofInString"
| "string_loop out (c # r) =
     (if c = quote then Inr (out, r)
      else if c = backslash then
        (case r of [] \<Rightarrow> Inl JsonBadEscape
         | e # r' \<Rightarrow> (case unescape e of Some d \<Rightarrow> string_loop (out @ [d]) r'
                     | None \<Rightarrow> Inl (if e = CHR ''u'' then JsonUnicodeEscape else JsonBadEscape)))
      else string_loop (out @ [c]) r)"

definition parseString :: "string \<Rightarrow> import_error + string \<times> string" where
  "parseString s = (case expect quote s of Inl e \<Rightarrow> Inl e | Inr r \<Rightarrow> string_loop [] r)"

definition number_char :: "char \<Rightarrow> bool" where
  "number_char c = (isdigit c \<or> c = CHR ''-'' \<or> c = CHR ''+'' \<or> c = CHR ''.'' \<or> c = CHR ''e'' \<or> c = CHR ''E'')"

definition parseNumber :: "string \<Rightarrow> import_error + string \<times> string" where
  "parseNumber s =
     (let t = skipWs s; n = takeWhile number_char t in
      if n = [] then Inl JsonExpectedNumber else Inr (n, dropWhile number_char t))"

text \<open>The value of a member, by its key; the value of an unknown key is skipped.\<close>

definition member_value :: "rounding \<Rightarrow> ImportedProduct \<Rightarrow> string \<Rightarrow> string \<Rightarrow> import_error + ImportedProduct \<times> string" where
  "member_value rnd p key s =
     (if key = ''productCode'' then (case parseString s of Inl e \<Rightarrow> Inl e | Inr (v, r) \<Rightarrow> Inr (p\<lparr>im_productCode := v\<rparr>, r))
      else if key = ''name'' then (case parseString s of Inl e \<Rightarrow> Inl e | Inr (v, r) \<Rightarrow> Inr (p\<lparr>im_name := v\<rparr>, r))
      else if key = ''status'' then (case parseString s of Inl e \<Rightarrow> Inl e | Inr (v, r) \<Rightarrow> Inr (p\<lparr>im_status := v\<rparr>, r))
      else if key = ''stock'' then
        (case parseNumber s of Inl e \<Rightarrow> Inl e
         | Inr (n, r) \<Rightarrow> (case from_chars_int n of Parsed v rest \<Rightarrow> Inr (p\<lparr>im_stock := Some v\<rparr>, r) | _ \<Rightarrow> Inl (StockNotInteger n)))
      else if key = ''qualityRate'' then
        (case parseNumber s of Inl e \<Rightarrow> Inl e
         | Inr (n, r) \<Rightarrow> (case stof rnd n of Some q \<Rightarrow> Inr (p\<lparr>im_qualityRate := Some q\<rparr>, r) | None \<Rightarrow> Inl (StofThrew n)))
      else if s \<noteq> [] \<and> hd s = quote then (case parseString s of Inl e \<Rightarrow> Inl e | Inr (v, r) \<Rightarrow> Inr (p, r))
      else (case parseNumber s of Inl e \<Rightarrow> Inl e | Inr (v, r) \<Rightarrow> Inr (p, r)))"

definition parse_member :: "rounding \<Rightarrow> ImportedProduct \<Rightarrow> string \<Rightarrow> import_error + ImportedProduct \<times> string" where
  "parse_member rnd p s =
     (case parseString s of Inl e \<Rightarrow> Inl e
      | Inr (key, r) \<Rightarrow> (case expect (CHR '':'') (skipWs r) of Inl e \<Rightarrow> Inl e | Inr r' \<Rightarrow> member_value rnd p key (skipWs r')))"

text \<open>What is read is consumed: the loops over members and objects end.\<close>

lemma skipWs_shorter: "length (skipWs s) \<le> length s"
  by (simp add: skipWs_def length_dropWhile_le)

lemma expect_shorter: "expect c s = Inr r \<Longrightarrow> length r < length s"
  using skipWs_shorter [of s] by (auto simp: expect_def split: list.splits if_splits)

lemma string_loop_shorter: "string_loop out s = Inr (v, r) \<Longrightarrow> length r < length s"
proof (induction out s rule: string_loop.induct)
  case (2 out c s)
  then show ?case
    by (cases s) (fastforce split: if_splits option.splits)+
qed simp

lemma parseString_shorter: "parseString s = Inr (v, r) \<Longrightarrow> length r < length s"
  using expect_shorter string_loop_shorter by (fastforce simp: parseString_def split: sum.splits)

lemma parseNumber_shorter: "parseNumber s = Inr (n, r) \<Longrightarrow> length r \<le> length s"
  using skipWs_shorter [of s] length_dropWhile_le [of number_char "skipWs s"]
  by (auto simp: parseNumber_def Let_def split: if_splits)

lemma member_value_shorter: "member_value rnd p key s = Inr (p', r) \<Longrightarrow> length r \<le> length s"
  using parseString_shorter [of s] parseNumber_shorter [of s]
  by (fastforce simp: member_value_def split: if_splits sum.splits from_chars_result.splits option.splits)

lemma parse_member_shorter:
  assumes "parse_member rnd p s = Inr (p', r)"
  shows "length r < length s"
proof -
  obtain key t where k: "parseString s = Inr (key, t)"
    using assms by (auto simp: parse_member_def split: sum.splits)
  with assms obtain u where u: "expect (CHR '':'') (skipWs t) = Inr u" "member_value rnd p key (skipWs u) = Inr (p', r)"
    by (auto simp: parse_member_def split: sum.splits)
  show ?thesis using parseString_shorter [OF k] skipWs_shorter [of t] expect_shorter [OF u(1)] skipWs_shorter [of u]
      member_value_shorter [OF u(2)] by linarith
qed

function members :: "rounding \<Rightarrow> bool \<Rightarrow> ImportedProduct \<Rightarrow> string \<Rightarrow> import_error + ImportedProduct \<times> string" where
  "members rnd first p s =
     (let t = skipWs s in
      if t \<noteq> [] \<and> hd t = CHR ''}'' then Inr (p, tl t)
      else case (if first then Inr t else map_sum id skipWs (expect (CHR '','') t)) of
          Inl e \<Rightarrow> Inl e
        | Inr u \<Rightarrow> (case parse_member rnd p u of Inl e \<Rightarrow> Inl e | Inr (p', r) \<Rightarrow> members rnd False p' r))"
  by pat_completeness auto
termination
proof (relation "measure (\<lambda>(rnd, first, p, s). length s)", goal_cases)
  case (2 rnd first p s t u y p' r)
  have "length u \<le> length t"
    using 2(3) expect_shorter [of "CHR '',''" t] skipWs_shorter
    by (cases first; cases "expect (CHR '','') t") (auto intro: order.trans less_imp_le)
  moreover have "length r < length u" using parse_member_shorter [of rnd p u p' r] 2(4,5) by simp
  ultimately show ?case using 2(1) skipWs_shorter [of s] by simp
qed simp

declare members.simps [simp del]

lemma members_shorter: "members rnd first p s = Inr (p', r) \<Longrightarrow> length r < length s"
proof (induction rnd first p s rule: members.induct)
  case (1 rnd first p s)
  let ?t = "skipWs s"
  show ?case
  proof (cases "?t \<noteq> [] \<and> hd ?t = CHR ''}''")
    case True
    then show ?thesis using 1(2) skipWs_shorter [of s] by (cases ?t) (auto simp: members.simps)
  next
    case False
    obtain u where u: "(if first then Inr ?t else map_sum id skipWs (expect (CHR '','') ?t)) = Inr u"
      using 1(2) False by (subst (asm) members.simps) (auto simp: Let_def split: sum.splits)
    then obtain q v where m: "parse_member rnd p u = Inr (q, v)"
      using 1(2) False by (subst (asm) members.simps) (auto simp: Let_def split: sum.splits)
    have "members rnd False q v = Inr (p', r)"
      using 1(2) False u m by (subst (asm) members.simps) (simp add: Let_def)
    then have "length r < length v" using 1(1) [OF refl False u m refl] by simp
    moreover have "length u \<le> length ?t"
      using u expect_shorter [of "CHR '',''" ?t] skipWs_shorter
      by (cases first; cases "expect (CHR '','') ?t") (auto intro: order.trans less_imp_le)
    ultimately show ?thesis using parse_member_shorter [OF m] skipWs_shorter [of s] by simp
  qed
qed

function objects :: "rounding \<Rightarrow> ImportedProduct list \<Rightarrow> string \<Rightarrow> import_error + ImportedProduct list" where
  "objects rnd result s =
     (case expect (CHR ''{'') (skipWs s) of
        Inl e \<Rightarrow> Inl e
      | Inr t \<Rightarrow>
          (case members rnd True unassigned t of
             Inl e \<Rightarrow> Inl e
           | Inr (p, r) \<Rightarrow>
               (case skipWs r of
                  [] \<Rightarrow> Inl JsonExpectedSeparator
                | after # r' \<Rightarrow>
                    if after = CHR '']'' then Inr (result @ [p])
                    else if after \<noteq> CHR '','' then Inl JsonExpectedSeparator
                    else objects rnd (result @ [p]) r')))"
  by pat_completeness auto
termination
proof (relation "measure (\<lambda>(rnd, result, s). length s)", goal_cases)
  case (2 rnd result s t y p r after r')
  have "length r < length t" using members_shorter [of rnd True unassigned t p r] 2(2,3) by simp
  moreover have "length r' < length r" using skipWs_shorter [of r] 2(4) by simp
  ultimately show ?case using expect_shorter [OF 2(1)] skipWs_shorter [of s] by simp
qed simp

declare objects.simps [simp del]

definition json_readProducts :: "rounding \<Rightarrow> string \<Rightarrow> import_error + ImportedProduct list" where
  "json_readProducts rnd s =
     (case expect (CHR ''['') (skipWs s) of
        Inl e \<Rightarrow> Inl e
      | Inr r \<Rightarrow> let t = skipWs r in if t \<noteq> [] \<and> hd t = CHR '']'' then Inr [] else objects rnd [] t)"

subsection \<open>Reading what was written\<close>

text \<open>The control characters the reader has no escape for: the writer turns them into \<^verbatim>\<open>\u00XX\<close>.\<close>

definition needs_u :: "char \<Rightarrow> bool" where
  "needs_u c = (ch_code c < 32 \<and> c \<notin> {CHR 0x08, CHR 0x0C, lf, cr, CHR 0x09})"

lemma escape_char_cases:
  obtains (unicode) x where "needs_u c" "escape_char c = backslash # CHR ''u'' # x"
  | (escaped) e where "\<not> needs_u c" "escape_char c = [backslash, e]" "unescape e = Some c"
  | (plain) "\<not> needs_u c" "escape_char c = [c]" "c \<noteq> quote" "c \<noteq> backslash"
proof (cases "c \<in> {quote, backslash, CHR 0x08, CHR 0x0C, lf, cr, CHR 0x09}")
  case True
  moreover have "\<not> needs_u quote" "\<not> needs_u backslash" by (simp_all add: needs_u_def ch_code_def)
  ultimately show ?thesis
    by (intro escaped [of "hd (tl (escape_char c))"]; elim insertE emptyE) (simp_all add: escape_char_def unescape_def needs_u_def)
next
  case False
  then show ?thesis
  proof (cases "ch_code c < 32")
    case True
    with False show ?thesis by (intro unicode) (auto simp: needs_u_def escape_char_def)
  next
    case F: False
    then have "escape_char c = [c]" using False by (simp add: escape_char_def)
    then show ?thesis using False F plain by (simp add: needs_u_def)
  qed
qed

lemma string_loop_char:
  "\<not> needs_u c \<Longrightarrow> string_loop out (escape_char c @ r) = string_loop (out @ [c]) r"
  "needs_u c \<Longrightarrow> string_loop out (escape_char c @ r) = Inl JsonUnicodeEscape"
  by (cases c rule: escape_char_cases; simp add: unescape_def)+

lemma string_loop_written:
  "string_loop out (escapeString s @ quote # r) = (if list_ex needs_u s then Inl JsonUnicodeEscape else Inr (out @ s, r))"
proof (induction s arbitrary: out)
  case Nil
  then show ?case by (simp add: escapeString_def)
next
  case (Cons c s)
  then show ?case using string_loop_char [of c out "escapeString s @ quote # r"]
    by (cases "needs_u c") (simp_all add: escapeString_def)
qed

lemma skipWs_simps [simp]:
  "skipWs [] = []" "json_ws c \<Longrightarrow> skipWs (c # s) = skipWs s" "\<not> json_ws c \<Longrightarrow> skipWs (c # s) = c # s"
  by (simp_all add: skipWs_def)

lemma ws_chars [simp]: "json_ws (CHR '' '')" "json_ws lf" "\<not> json_ws quote" "\<not> json_ws (CHR '':'')" "\<not> json_ws (CHR '','')"
  "\<not> json_ws (CHR ''{'')" "\<not> json_ws (CHR ''}'')" "\<not> json_ws (CHR ''['')" "\<not> json_ws (CHR '']'')" "isdigit c \<Longrightarrow> \<not> json_ws c"
  "\<not> json_ws (CHR ''-'')"
  by (auto simp: json_ws_def isdigit_def ch_code_def)

lemma parseString_written:
  "parseString (quoted (escapeString s) @ r) = (if list_ex needs_u s then Inl JsonUnicodeEscape else Inr (s, r))"
  using string_loop_written [of "[]" s r] by (simp add: parseString_def expect_def quoted_def)

lemma key_escape: "list_all (\<lambda>c. ch_code c \<ge> 32 \<and> c \<noteq> quote \<and> c \<noteq> backslash) s \<Longrightarrow> escapeString s = s \<and> \<not> list_ex needs_u s"
  by (induction s) (auto simp: escapeString_def escape_char_def needs_u_def ch_code_def)

lemma parse_member_line:
  assumes "list_all (\<lambda>c. ch_code c \<ge> 32 \<and> c \<noteq> quote \<and> c \<noteq> backslash) key"
  shows "parse_member rnd p (quoted key @ '': '' @ v) = member_value rnd p key (skipWs v)"
  using parseString_written [of key] key_escape [OF assms] by (simp add: parse_member_def expect_def)

lemma member_lines:
  assumes "list_all (\<lambda>c. ch_code c \<ge> 32 \<and> c \<noteq> quote \<and> c \<noteq> backslash) key"
  shows "members rnd True q (lf # json_line key v) =
      (case member_value rnd q key (skipWs v) of Inl e \<Rightarrow> Inl e | Inr (q', r) \<Rightarrow> members rnd False q' r)"
    and "members rnd False q (CHR '','' # lf # json_line key v) =
      (case member_value rnd q key (skipWs v) of Inl e \<Rightarrow> Inl e | Inr (q', r) \<Rightarrow> members rnd False q' r)"
  using parse_member_line [OF assms, of rnd q v]
  by (subst members.simps, simp add: json_line_def quoted_def expect_def)+

lemma members_end: "members rnd first q (lf # ''  }'' @ r) = Inr (q, r)"
  by (subst members.simps) simp

lemma skipWs_quoted [simp]: "skipWs (quoted s @ r) = quoted s @ r"
  by (simp add: quoted_def)

lemma number_taken:
  assumes "list_all number_char n" and "n \<noteq> []" and "\<not> number_char c"
  shows "parseNumber (n @ c # r) = Inr (n, c # r)" "skipWs (n @ c # r) = n @ c # r"
proof -
  have "\<not> json_ws (hd n)" using assms(1,2)
    by (cases n) (auto simp: number_char_def isdigit_def json_ws_def ch_code_def)
  then show "skipWs (n @ c # r) = n @ c # r" using assms(2) by (cases n) simp_all
  moreover have "takeWhile number_char (n @ c # r) = n" "dropWhile number_char (n @ c # r) = c # r"
    using assms by (simp_all add: list_all_iff)
  ultimately show "parseNumber (n @ c # r) = Inr (n, c # r)" using assms(2) by (simp add: parseNumber_def Let_def)
qed

lemma digits_number: "list_all isdigit ds \<Longrightarrow> list_all number_char ds"
  by (auto simp: list_all_iff number_char_def)

lemma written_numbers:
  "list_all number_char (int_str i)" "int_str i \<noteq> []" "list_all number_char (fixed_str 1 x)" "fixed_str 1 x \<noteq> []"
proof -
  have z: "list_all number_char (replicate k (CHR ''0''))" for k
    by (simp add: list_all_iff number_char_def isdigit_def ch_code_def)
  have d: "list_all number_char (nat_str n)" for n using digits_number nat_str_digits by blast
  have m: "number_char (CHR ''-'')" "number_char (CHR ''.'')" by (simp_all add: number_char_def)
  show "list_all number_char (int_str i)" "int_str i \<noteq> []" using d m nat_str_digits by (simp_all add: int_str_def)
  show "list_all number_char (fixed_str 1 x)" "fixed_str 1 x \<noteq> []"
    using d m z by (simp_all add: fixed_str_body fixed_body_def)
qed

lemma separators [simp]: "\<not> number_char (CHR '','')" "\<not> number_char lf" "\<not> number_char (CHR ''i'')"
  by (simp_all add: number_char_def isdigit_def ch_code_def)

definition finite_rate :: "Product \<Rightarrow> bool" where
  "finite_rate p = (case qualityRate p of Fin x \<Rightarrow> True | _ \<Rightarrow> False)"

text \<open>What JSON can carry: no control character without a short escape, and a finite rate.\<close>

definition json_ok :: "Product \<Rightarrow> bool" where
  "json_ok p = (\<not> list_ex needs_u (productCode p) \<and> \<not> list_ex needs_u (prod_name p) \<and> \<not> list_ex needs_u (prod_status p) \<and>
     finite_rate p)"

lemma written_values:
  "member_value rnd q ''productCode'' (quoted (escapeString s) @ r) =
     (if list_ex needs_u s then Inl JsonUnicodeEscape else Inr (q\<lparr>im_productCode := s\<rparr>, r))"
  "member_value rnd q ''name'' (quoted (escapeString s) @ r) =
     (if list_ex needs_u s then Inl JsonUnicodeEscape else Inr (q\<lparr>im_name := s\<rparr>, r))"
  "member_value rnd q ''status'' (quoted (escapeString s) @ r) =
     (if list_ex needs_u s then Inl JsonUnicodeEscape else Inr (q\<lparr>im_status := s\<rparr>, r))"
  by (simp_all add: member_value_def parseString_written)

lemma written_stock:
  assumes "in_range rnd p"
  shows "member_value rnd q ''stock'' (skipWs (int_str (stock p) @ CHR '','' # r)) = Inr (q\<lparr>im_stock := Some (stock p)\<rparr>, CHR '','' # r)"
  using assms from_chars_int_str [of "stock p" "[]"] number_taken [OF written_numbers(1,2), of "CHR '',''" "stock p" r]
  by (simp add: member_value_def in_range_def no_digit_def)

lemma written_rate:
  assumes "in_range rnd p" and "finite_rate p"
  shows "member_value rnd q ''qualityRate'' (skipWs (fmtRate (qualityRate p) @ lf # r)) =
    Inr (q\<lparr>im_qualityRate := im_qualityRate (imported rnd p)\<rparr>, lf # r)"
proof -
  obtain x where x: "qualityRate p = Fin x" using assms(2) by (auto simp: finite_rate_def split: flt.splits)
  have "stof rnd (fixed_str 1 x) = im_qualityRate (imported rnd p)" using stof_fmtRate [OF assms(1)] x by (simp add: fmtRate_def)
  then show ?thesis using x number_taken [OF written_numbers(3,4), of lf x r]
    by (simp add: member_value_def fmtRate_def imported_def)
qed

lemma non_finite_rate:
  assumes "\<not> finite_rate p"
  shows "\<exists>e. member_value rnd q ''qualityRate'' (skipWs (fmtRate (qualityRate p) @ lf # r)) = Inl e"
proof (cases "qualityRate p")
  case (Inf b)
  have "stof rnd ''-'' = None" by code_simp
  then show ?thesis using Inf number_taken [of "''-''" "CHR ''i''" "''nf'' @ lf # r"]
    by (cases b) (simp_all add: fmtRate_def member_value_def number_char_def parseNumber_def json_ws_def isdigit_def ch_code_def)
next
  case NaN
  then show ?thesis by (simp add: fmtRate_def member_value_def number_char_def parseNumber_def json_ws_def isdigit_def ch_code_def)
qed (use assms in \<open>simp add: finite_rate_def\<close>)

lemma skipWs_skipWs [simp]: "skipWs (skipWs s) = skipWs s"
  by (induction s) (auto simp: skipWs_def)

definition object_body :: "Product \<Rightarrow> string \<Rightarrow> string" where
  "object_body p r = lf # json_line ''productCode'' (quoted (escapeString (productCode p)) @
     CHR '','' # lf # json_line ''name'' (quoted (escapeString (prod_name p)) @
     CHR '','' # lf # json_line ''status'' (quoted (escapeString (prod_status p)) @
     CHR '','' # lf # json_line ''stock'' (int_str (stock p) @
     CHR '','' # lf # json_line ''qualityRate'' (fmtRate (qualityRate p) @ lf # ''  }'' @ r)))))"

lemma json_object_body: "json_object p @ r = ''  {'' @ object_body p r"
  by (simp add: json_object_def object_body_def json_line_def)

lemma members_written:
  assumes "in_range rnd p"
  shows "json_ok p \<Longrightarrow> members rnd True unassigned (object_body p r) = Inr (imported rnd p, r)"
    and "\<not> json_ok p \<Longrightarrow> \<exists>e. members rnd True unassigned (object_body p r) = Inl e"
proof -
  have k: "list_all (\<lambda>c. ch_code c \<ge> 32 \<and> c \<noteq> quote \<and> c \<noteq> backslash) key"
    if "key \<in> {''productCode'', ''name'', ''status'', ''stock'', ''qualityRate''}" for key
    using that by (elim insertE emptyE) (simp_all add: ch_code_def)
  note ml = member_lines [OF k] and step = written_values written_stock [OF assms]
  show "members rnd True unassigned (object_body p r) = Inr (imported rnd p, r)" if "json_ok p"
    using that written_rate [OF assms, of _ "''  }'' @ r"] members_end [of rnd False _ r]
    by (simp add: object_body_def ml step json_ok_def imported_def unassigned_def)
  show "\<exists>e. members rnd True unassigned (object_body p r) = Inl e" if "\<not> json_ok p"
    using that non_finite_rate [of p rnd _ "''  }'' @ r"]
    by (auto simp: object_body_def ml step json_ok_def split: sum.split) (metis Inl_Inr_False)
qed

lemma objects_step:
  assumes "in_range rnd p"
  shows "json_ok p \<Longrightarrow> objects rnd out (json_object p @ lf # '']'' @ r) = Inr (out @ [imported rnd p])"
    and "json_ok p \<Longrightarrow> objects rnd out (json_object p @ CHR '','' # r) = objects rnd (out @ [imported rnd p]) r"
    and "\<not> json_ok p \<Longrightarrow> \<exists>e. objects rnd out (json_object p @ r) = Inl e"
proof -
  have h: "expect (CHR ''{'') (skipWs (json_object p @ r)) = Inr (object_body p r)" for r
    by (simp add: json_object_body expect_def)
  show "objects rnd out (json_object p @ lf # '']'' @ r) = Inr (out @ [imported rnd p])" if "json_ok p"
    using members_written(1) [OF assms that, of "lf # '']'' @ r"] by (subst objects.simps) (simp add: h)
  show "objects rnd out (json_object p @ CHR '','' # r) = objects rnd (out @ [imported rnd p]) r" if "json_ok p"
    using members_written(1) [OF assms that, of "CHR '','' # r"] by (subst objects.simps) (simp add: h)
  show "\<exists>e. objects rnd out (json_object p @ r) = Inl e" if "\<not> json_ok p"
    using members_written(2) [OF assms that, of r] by (subst objects.simps) (auto simp: h)
qed

lemma objects_skip: "objects rnd out (lf # s) = objects rnd out s"
  by (subst (1 2) objects.simps) simp

lemma objects_written:
  "\<lbrakk>list_all (in_range rnd) ps; ps \<noteq> []\<rbrakk> \<Longrightarrow>
    (list_all json_ok ps \<longrightarrow> objects rnd out (json_objects ps @ '']'' @ r) = Inr (out @ map (imported rnd) ps)) \<and>
    (\<not> list_all json_ok ps \<longrightarrow> (\<exists>e. objects rnd out (json_objects ps @ '']'' @ r) = Inl e))"
proof (induction ps arbitrary: out rule: json_objects.induct)
  case (2 p)
  then show ?case using objects_step(1,3) [of rnd p out] by simp
next
  case (3 p p' ps)
  show ?case
  proof (cases "json_ok p")
    case True
    have "objects rnd out (json_objects (p # p' # ps) @ '']'' @ r) =
        objects rnd (out @ [imported rnd p]) (json_objects (p' # ps) @ '']'' @ r)"
      using objects_step(2) [of rnd p out "lf # json_objects (p' # ps) @ '']'' @ r"] 3(2) True by (simp add: objects_skip)
    then show ?thesis using 3(1) [of "out @ [imported rnd p]"] 3(2) True by simp
  next
    case False
    then show ?thesis using objects_step(3) [of rnd p out "CHR '','' # lf # json_objects (p' # ps) @ '']'' @ r"] 3(2) by simp
  qed
qed simp

lemma json_written_is_read:
  assumes "list_all (in_range rnd) ps"
  shows "list_all json_ok ps \<Longrightarrow> json_readProducts rnd (json_writeProducts ps) = Inr (map (imported rnd) ps)"
    and "\<not> list_all json_ok ps \<Longrightarrow> \<exists>e. json_readProducts rnd (json_writeProducts ps) = Inl e"
proof -
  have r: "json_readProducts rnd (json_writeProducts ps) = objects rnd [] (json_objects ps @ '']'' @ [lf])" if ne: "ps \<noteq> []"
  proof -
    obtain p t where p: "json_objects ps = json_object p @ t" using ne by (cases ps rule: json_objects.cases) auto
    have "skipWs (json_objects ps @ '']'' @ [lf]) = CHR ''{'' # object_body p (t @ '']'' @ [lf])"
      using json_object_body [of p "t @ '']'' @ [lf]"] by (simp add: p)
    moreover have "objects rnd [] (skipWs s) = objects rnd [] s" for s by (subst (1 2) objects.simps) simp
    ultimately show ?thesis using ne by (simp add: json_readProducts_def json_writeProducts_def expect_def) metis
  qed
  have e: "json_readProducts rnd (json_writeProducts []) = Inr []"
    by (simp add: json_readProducts_def json_writeProducts_def expect_def)
  show "json_readProducts rnd (json_writeProducts ps) = Inr (map (imported rnd) ps)" if "list_all json_ok ps"
    using objects_written [OF assms, of "[]" "[lf]"] that r e by (cases "ps = []") simp_all
  show "\<exists>e. json_readProducts rnd (json_writeProducts ps) = Inl e" if "\<not> list_all json_ok ps"
    using objects_written [OF assms, of "[]" "[lf]"] that r by (cases "ps = []") simp_all
qed

section \<open>The interface\<close>

text \<open>What a client of \<^verbatim>\<open>Serializer\<close> relies on: a format reads back what it wrote, for the products it can
  carry, and writes only the five columns.\<close>

definition same_columns :: "Product \<Rightarrow> Product \<Rightarrow> bool" where
  "same_columns p p' = (productCode p = productCode p' \<and> prod_name p = prod_name p' \<and> prod_status p = prod_status p' \<and>
     stock p = stock p' \<and> fmtRate (qualityRate p) = fmtRate (qualityRate p'))"

text \<open>A product holds what a reader filled in.\<close>

definition holds :: "Product \<Rightarrow> ImportedProduct \<Rightarrow> bool" where
  "holds p q = (productCode p = im_productCode q \<and> prod_name p = im_name q \<and> prod_status p = im_status q \<and>
     Some (stock p) = im_stock q \<and> Some (qualityRate p) = im_qualityRate q)"

locale serializer =
  fixes rnd :: rounding
    and writeProducts :: "Product list \<Rightarrow> string"
    and readProducts :: "string \<Rightarrow> import_error + ImportedProduct list"
    and carries :: "Product \<Rightarrow> bool"
  assumes read_back: "list_all carries ps \<Longrightarrow> readProducts (writeProducts ps) = Inr (map (imported rnd) ps)"
    and columns: "list_all2 same_columns ps ps' \<Longrightarrow> writeProducts ps = writeProducts ps'"
begin

lemma second_export:
  assumes "list_all carries ps" and "readProducts (writeProducts ps) = Inr qs" and "list_all2 holds ps' qs"
    and stable: "\<And>p. p \<in> set ps \<Longrightarrow> fmtRate (the (im_qualityRate (imported rnd p))) = fmtRate (qualityRate p)"
  shows "writeProducts ps' = writeProducts ps"
proof (rule columns)
  have "list_all2 holds ps' (map (imported rnd) ps)" using assms(1-3) read_back by simp
  then have h: "list_all2 (\<lambda>p' p. holds p' (imported rnd p)) ps' ps" by (simp add: list_all2_map2)
  show "list_all2 same_columns ps' ps"
  proof (rule list_all2_all_nthI)
    fix n
    assume n: "n < length ps'"
    then have "holds (ps' ! n) (imported rnd (ps ! n))" using h list_all2_nthD by fast
    moreover have "ps ! n \<in> set ps" using n list_all2_lengthD [OF h] by simp
    ultimately show "same_columns (ps' ! n) (ps ! n)"
      using stable [of "ps ! n"] by (simp add: holds_def same_columns_def imported_def)
  qed (rule list_all2_lengthD [OF h])
qed

end

lemma csv_row_columns: "same_columns p p' \<Longrightarrow> csv_row p = csv_row p'"
  by (simp add: csv_row_def same_columns_def)

lemma json_object_columns: "same_columns p p' \<Longrightarrow> json_object p = json_object p'"
  by (simp add: json_object_def same_columns_def)

interpretation csv: serializer rnd "csv_writeProducts header" "csv_readProducts rnd" "in_range rnd"
proof
  fix ps ps' :: "Product list"
  assume "list_all2 same_columns ps ps'"
  then have "map csv_row ps = map csv_row ps'" by induction (simp_all add: csv_row_columns)
  then show "csv_writeProducts header ps = csv_writeProducts header ps'" by (simp add: csv_writeProducts_def)
qed (rule csv_written_is_read)

interpretation json: serializer rnd json_writeProducts "json_readProducts rnd" "\<lambda>p. in_range rnd p \<and> json_ok p"
proof
  fix ps ps' :: "Product list"
  assume a: "list_all2 same_columns ps ps'"
  then have "json_objects ps = json_objects ps'"
  proof (induction ps arbitrary: ps' rule: json_objects.induct)
    case (3 p q ps)
    then show ?case using json_object_columns by (auto simp: list_all2_Cons1)
  qed (auto simp: list_all2_Cons1 json_object_columns)
  moreover have "ps = [] \<longleftrightarrow> ps' = []" using a by auto
  ultimately show "json_writeProducts ps = json_writeProducts ps'" by (simp add: json_writeProducts_def)
next
  fix ps
  assume "list_all (\<lambda>p. in_range rnd p \<and> json_ok p) ps"
  then show "json_readProducts rnd (json_writeProducts ps) = Inr (map (imported rnd) ps)"
    using json_written_is_read(1) [of rnd ps] by (simp add: list_all_iff)
qed

section \<open>Properties\<close>

text \<open>The rates are percentages, and the conversion to \<^verbatim>\<open>float\<close> is that of IEEE 754 binary32 on them as far as
  the theorems need it: no range error, no change of sign, an error below 1/20.\<close>

definition percentage :: "Product \<Rightarrow> bool" where
  "percentage p = (case qualityRate p of Fin x \<Rightarrow> 0 \<le> x \<and> x \<le> 100 | _ \<Rightarrow> False)"

definition near_float :: "rounding \<Rightarrow> bool" where
  "near_float rnd = (\<forall>t. 0 \<le> t \<and> t \<le> 101 \<longrightarrow> (\<exists>y. rnd t = (Fin y, False) \<and> 0 \<le> y \<and> \<bar>y - t\<bar> < 1 / 20))"

definition int_stock :: "Product \<Rightarrow> bool" where
  "int_stock p = (- (2 ^ 31) \<le> stock p \<and> stock p < 2 ^ 31)"

lemma printed_percentage:
  assumes "near_float rnd" and "qualityRate p = Fin x" and "percentage p"
  obtains y where "rnd (printed 1 x) = (Fin y, False)" "fixed_str 1 y = fixed_str 1 x"
proof -
  have x: "0 \<le> x" "x \<le> 100" using assms(2,3) by (simp_all add: percentage_def)
  then have "real (round_even (x * 10)) \<le> 1010" using round_even_close [of "x * 10"] by linarith
  then have t: "0 \<le> printed 1 x" "printed 1 x \<le> 101" using x by (simp_all add: printed_def Let_def)
  then obtain y where y: "rnd (printed 1 x) = (Fin y, False)" "0 \<le> y" "\<bar>y - printed 1 x\<bar> < 1 / 20"
    using assms(1) unfolding near_float_def by blast
  have "fixed_str 1 y = fixed_str 1 x" by (rule fixed_str_stable) (use x y in simp_all)
  then show ?thesis using y(1) that by blast
qed

lemma percentage_in_range:
  assumes "near_float rnd" and "percentage p" and "int_stock p"
  shows "in_range rnd p" "fmtRate (the (im_qualityRate (imported rnd p))) = fmtRate (qualityRate p)" "finite_rate p"
proof -
  obtain x where x: "qualityRate p = Fin x" using assms(2) by (auto simp: percentage_def split: flt.splits)
  obtain y where y: "rnd (printed 1 x) = (Fin y, False)" "fixed_str 1 y = fixed_str 1 x"
    by (rule printed_percentage [OF assms(1) x assms(2)])
  show "in_range rnd p" "fmtRate (the (im_qualityRate (imported rnd p))) = fmtRate (qualityRate p)" "finite_rate p"
    using assms(3) x y by (simp_all add: in_range_def int_stock_def imported_def fmtRate_def finite_rate_def)
qed


definition sample_product :: "string \<Rightarrow> Product" where
  "sample_product name = \<lparr>prod_id = 1, productCode = ''PROD-001'', prod_name = name, prod_status = ''Active'', stock = 850,
     qualityRate = Fin (98.0625), createdAt = [], updatedAt = [], deletedAt = []\<rparr>"

definition exact :: rounding where "exact x = (Fin x, False)"

lemma sample_product_ok: "near_float exact" "percentage (sample_product n)" "int_stock (sample_product n)"
proof -
  have "\<exists>y. exact t = (Fin y, False) \<and> 0 \<le> y \<and> \<bar>y - t\<bar> < 1 / 20" if "0 \<le> t" for t
    using that by (intro exI [of _ t]) (simp add: exact_def)
  then show "near_float exact" by (simp add: near_float_def)
qed (simp_all add: percentage_def int_stock_def sample_product_def)


text \<open>
  What the JSON export cannot bring back. An export is refused by the reader of the same class exactly
  when some text holds a control character other than backspace, form feed, line feed, carriage return and
  tab, which the writer turns into a \<^verbatim>\<open>u\<close> escape the reader rejects, or a rate is not finite.
\<close>

theorem json_reimport_iff:
  assumes "\<forall>p\<in>set ps. in_range rnd p"
  shows "(\<exists>qs. json_readProducts rnd (json_writeProducts ps) = Inr qs) \<longleftrightarrow>
    (\<forall>p\<in>set ps. \<not> list_ex needs_u (productCode p @ prod_name p @ prod_status p) \<and> finite_rate p)"
proof -
  have r: "list_all (in_range rnd) ps" using assms by (simp add: list_all_iff)
  have "list_all json_ok ps \<longleftrightarrow>
      (\<forall>p\<in>set ps. \<not> list_ex needs_u (productCode p @ prod_name p @ prod_status p) \<and> finite_rate p)"
    by (auto simp: list_all_iff json_ok_def)
  then show ?thesis using json_written_is_read [OF r] by (cases "list_all json_ok ps") auto
qed

theorem json_reimport_iff_witness:
  "\<not> (\<exists>qs. json_readProducts exact (json_writeProducts [sample_product [CHR 0x1B]]) = Inr qs)"
  using json_reimport_iff [of "[sample_product [CHR 0x1B]]" exact] percentage_in_range(1) sample_product_ok
  by (simp add: sample_product_def needs_u_def ch_code_def)

text \<open>The interface promises \<^verbatim>\<open>std::runtime_error\<close> on malformed input. A rate without digits leaves the JSON
  reader with \<^verbatim>\<open>std::stof\<close>'s own exception instead; the same cell is a \<^verbatim>\<open>runtime_error\<close> in CSV. A JSON object
  without a stock or a rate is accepted with those members never assigned.\<close>

lemma json_stof_escapes:
  "json_readProducts rnd (''[{'' @ quoted ''qualityRate'' @ '':-}]'') = Inl (StofThrew ''-'')"
  "json_readProducts rnd ''[{}]'' = Inr [unassigned]"
  "csv_product rnd [code, name, st, ''1'', ''-''] = Inl (QualityNotFloat ''-'')"
  by code_simp+

text \<open>Neither reader looks at what follows the number: a stock of \<^verbatim>\<open>12abc\<close> is read as 12.\<close>

lemma leftover_accepted:
  "stof rnd rate = Some q \<Longrightarrow> csv_product rnd [code, name, st, ''12abc'', rate] =
     Inr \<lparr>im_productCode = code, im_name = name, im_status = st, im_stock = Some 12, im_qualityRate = Some q\<rparr>"
proof -
  have "from_chars_int ''12abc'' = Parsed 12 ''abc''" by code_simp
  then show "stof rnd rate = Some q \<Longrightarrow> csv_product rnd [code, name, st, ''12abc'', rate] =
     Inr \<lparr>im_productCode = code, im_name = name, im_status = st, im_stock = Some 12, im_qualityRate = Some q\<rparr>"
    by (simp add: csv_product_def)
qed

end
