(* ===== verification/MqttClient.thy ===== *)
theory MqttClient
  imports MqttPacket
begin

text \<open>
  \<^verbatim>\<open>integration/MqttClient.cpp\<close>: the client of the broker, publisher and subscriber in one. The callers'
  threads post tasks, the worker thread runs them and reads the socket; every handler is one operation here,
  so an interleaving of the threads is a sequence of operations. The socket is the environment: whether a
  write of given bytes succeeds is an argument, inbound bytes and read errors are operations. An operation
  returns the client and what it does, in order: bytes written and callbacks invoked. Callbacks are taken to
  return normally. \<^verbatim>\<open>UndefinedRange\<close> of the packet parser is an event of its own.

  The theorems: the read loop delivers exactly the publishes of the byte stream to the registered callbacks,
  never leaves the packet bounds on any input, and three ways the client goes down for good.
\<close>

section \<open>State\<close>

text \<open>\<^verbatim>\<open>MqttClient::Session\<close>: the scratch buffers of the read chain and which of its reads is outstanding;
  \<^const>\<open>None\<close> when the chain has ended.\<close>

datatype read_step = ReadHeader | ReadLength | ReadBody nat

record mqtt_session =
  heartbeat_armed :: bool
  readFixedHeader :: byte
  readRemainingLengthBytes :: "byte list"
  readBody :: "byte list"
  outstanding :: "read_step option"

datatype mqtt_task = TaskPublish string string | TaskSubscribe string

record MqttConfig =
  brokerHost :: string
  brokerPort :: u16
  clientId :: string
  mq_keepAlive :: int

text \<open>The members; \<open>worker\<close>: the worker thread is in \<^verbatim>\<open>io_context::run\<close>, \<open>posted\<close>: the tasks posted to it.\<close>

record 'cb MqttClient =
  mq_config :: MqttConfig
  running :: bool
  worker :: bool
  publishedCount :: u64
  receivedCount :: u64
  nextPacketId :: u16
  mq_subscriptions :: "(string \<times> 'cb) list"
  session :: "mqtt_session option"
  posted :: "mqtt_task list"

definition mqtt_client_new :: "MqttConfig \<Rightarrow> 'cb MqttClient" where
  "mqtt_client_new cfg = \<lparr>mq_config = cfg, running = False, worker = False, publishedCount = 0, receivedCount = 0,
     nextPacketId = 1, mq_subscriptions = [], session = None, posted = []\<rparr>"

datatype 'cb mqtt_event = Wrote "byte list" | Callback 'cb string string | Undefined

section \<open>Publishing and subscribing\<close>

definition canPublish :: "'cb MqttClient \<Rightarrow> bool" where
  "canPublish c = running c"

definition mq_publish :: "string \<Rightarrow> string \<Rightarrow> 'cb MqttClient \<Rightarrow> 'cb MqttClient" where
  "mq_publish topic payload c =
     (if \<not> canPublish c \<or> session c = None then c else c\<lparr>posted := posted c @ [TaskPublish topic payload]\<rparr>)"

text \<open>\<^verbatim>\<open>insert_or_assign\<close>.\<close>

fun insert_or_assign :: "string \<Rightarrow> 'cb \<Rightarrow> (string \<times> 'cb) list \<Rightarrow> (string \<times> 'cb) list" where
  "insert_or_assign k v [] = [(k, v)]"
| "insert_or_assign k v ((k', v') # m) = (if k' = k then (k, v) # m else (k', v') # insert_or_assign k v m)"

definition mq_subscribe :: "string \<Rightarrow> 'cb \<Rightarrow> 'cb MqttClient \<Rightarrow> 'cb MqttClient" where
  "mq_subscribe topicFilter callback c =
     (if topicFilter = [] \<or> length topicFilter > kMaxStringLength then c
      else
        let c = c\<lparr>mq_subscriptions := insert_or_assign topicFilter callback (mq_subscriptions c)\<rparr>
        in if \<not> running c \<or> session c = None then c else c\<lparr>posted := posted c @ [TaskSubscribe topicFilter]\<rparr>)"

definition sendSubscribeFrame :: "(byte list \<Rightarrow> bool) \<Rightarrow> string \<Rightarrow> 'cb MqttClient \<Rightarrow> 'cb MqttClient \<times> 'cb mqtt_event list" where
  "sendSubscribeFrame wr topicFilter c =
     (if session c = None \<or> \<not> running c then (c, [])
      else
        let packetId = nextPacketId c; c = c\<lparr>nextPacketId := packetId + 1\<rparr>
        in case buildSubscribe packetId topicFilter of
             Inl e \<Rightarrow> (c\<lparr>running := False, worker := False\<rparr>, [])
           | Inr bytes \<Rightarrow> if wr bytes then (c, [Wrote bytes]) else (c\<lparr>running := False\<rparr>, []))"

text \<open>A task of the worker. An exception of a task leaves \<^verbatim>\<open>io_context::run\<close>: \<^verbatim>\<open>runIoLoop\<close> catches it, marks the
  client down and the thread ends.\<close>

definition run_task :: "(byte list \<Rightarrow> bool) \<Rightarrow> mqtt_task \<Rightarrow> 'cb MqttClient \<Rightarrow> 'cb MqttClient \<times> 'cb mqtt_event list" where
  "run_task wr task c =
     (case task of
        TaskSubscribe topicFilter \<Rightarrow> sendSubscribeFrame wr topicFilter c
      | TaskPublish topic payload \<Rightarrow>
          if session c = None then (c, [])
          else case buildPublish topic payload of
              Inl e \<Rightarrow> (c\<lparr>running := False, worker := False\<rparr>, [])
            | Inr bytes \<Rightarrow>
                if wr bytes then (c\<lparr>publishedCount := publishedCount c + 1\<rparr>, [Wrote bytes]) else (c\<lparr>running := False\<rparr>, []))"

definition run_posted :: "(byte list \<Rightarrow> bool) \<Rightarrow> 'cb MqttClient \<Rightarrow> 'cb MqttClient \<times> 'cb mqtt_event list" where
  "run_posted wr c =
     (if \<not> worker c then (c, [])
      else case posted c of [] \<Rightarrow> (c, []) | task # rest \<Rightarrow> run_task wr task (c\<lparr>posted := rest\<rparr>))"

section \<open>The heartbeat\<close>

definition scheduleHeartbeat :: "'cb MqttClient \<Rightarrow> 'cb MqttClient" where
  "scheduleHeartbeat c =
     (case session c of None \<Rightarrow> c
      | Some s \<Rightarrow> if running c then c\<lparr>session := Some (s\<lparr>heartbeat_armed := True\<rparr>)\<rparr> else c)"

text \<open>The timer fires.\<close>

definition heartbeat :: "(byte list \<Rightarrow> bool) \<Rightarrow> 'cb MqttClient \<Rightarrow> 'cb MqttClient \<times> 'cb mqtt_event list" where
  "heartbeat wr c =
     (case session c of None \<Rightarrow> (c, [])
      | Some s \<Rightarrow>
          if \<not> heartbeat_armed s \<or> \<not> worker c then (c, [])
          else
            let c = c\<lparr>session := Some (s\<lparr>heartbeat_armed := False\<rparr>)\<rparr>
            in if wr buildPingReq then (scheduleHeartbeat c, [Wrote buildPingReq]) else (c\<lparr>running := False\<rparr>, []))"

section \<open>Reading\<close>

definition startReadLoop :: "mqtt_session \<Rightarrow> mqtt_session" where
  "startReadLoop s = s\<lparr>readRemainingLengthBytes := [], readBody := [], outstanding := Some ReadHeader\<rparr>"

definition deliverInboundPublish :: "string \<Rightarrow> string \<Rightarrow> 'cb MqttClient \<Rightarrow> 'cb mqtt_event list" where
  "deliverInboundPublish topic payload c =
     (case map_of (mq_subscriptions c) topic of None \<Rightarrow> [] | Some cb \<Rightarrow> [Callback cb topic payload])"

definition dispatchFrame :: "byte \<Rightarrow> byte list \<Rightarrow> byte list \<Rightarrow> 'cb MqttClient \<Rightarrow> 'cb MqttClient \<times> 'cb mqtt_event list" where
  "dispatchFrame fixedHeader remainingLength body c =
     (if fixedHeader AND kFixedHeaderTypeMask = type_byte Publish then
        (case parsePublish ([fixedHeader] @ remainingLength @ body) of
           Inr parsed \<Rightarrow> (c\<lparr>receivedCount := receivedCount c + 1\<rparr>, deliverInboundPublish (pp_topic parsed) (pp_payload parsed) c)
         | Inl UndefinedRange \<Rightarrow> (c, [Undefined])
         | Inl e \<Rightarrow> (c, []))
      else (c, []))"

text \<open>The body is complete: dispatch the frame, then read the next one.\<close>

definition body_read :: "mqtt_session \<Rightarrow> 'cb MqttClient \<Rightarrow> 'cb MqttClient \<times> 'cb mqtt_event list" where
  "body_read s c =
     (case dispatchFrame (readFixedHeader s) (readRemainingLengthBytes s) (readBody s) c of
        (c, evs) \<Rightarrow> (c\<lparr>session := Some (startReadLoop s)\<rparr>, evs))"

text \<open>A read of no bytes completes at once.\<close>

definition readFrameBody :: "u32 \<Rightarrow> mqtt_session \<Rightarrow> 'cb MqttClient \<Rightarrow> 'cb MqttClient \<times> 'cb mqtt_event list" where
  "readFrameBody bodyLen s c =
     (let s = s\<lparr>readBody := [], outstanding := Some (ReadBody (unat bodyLen))\<rparr>
      in if bodyLen = 0 then body_read s c else (c\<lparr>session := Some s\<rparr>, []))"

definition length_byte_read :: "byte \<Rightarrow> mqtt_session \<Rightarrow> 'cb MqttClient \<Rightarrow> 'cb MqttClient \<times> 'cb mqtt_event list" where
  "length_byte_read b s c =
     (let s = s\<lparr>readRemainingLengthBytes := readRemainingLengthBytes s @ [b]\<rparr>;
          stopped = c\<lparr>running := False, session := Some (s\<lparr>outstanding := None\<rparr>)\<rparr>
      in if b AND kContinuationBit \<noteq> 0 then
           (if length (readRemainingLengthBytes s) \<ge> kMaxRemainingLengthBytes then (stopped, [])
            else (c\<lparr>session := Some s\<rparr>, []))
         else case decodeRemainingLength (readRemainingLengthBytes s) 0 of
             Inl e \<Rightarrow> (stopped, [])
           | Inr (bodyLen, cursor) \<Rightarrow> readFrameBody bodyLen s c)"

text \<open>One byte arrives for the outstanding read.\<close>

definition receive_byte :: "byte \<Rightarrow> 'cb MqttClient \<Rightarrow> 'cb MqttClient \<times> 'cb mqtt_event list" where
  "receive_byte b c =
     (case session c of None \<Rightarrow> (c, [])
      | Some s \<Rightarrow>
          if \<not> worker c then (c, [])
          else case outstanding s of
              None \<Rightarrow> (c, [])
            | Some ReadHeader \<Rightarrow> (c\<lparr>session := Some (s\<lparr>readFixedHeader := b, outstanding := Some ReadLength\<rparr>)\<rparr>, [])
            | Some ReadLength \<Rightarrow> length_byte_read b s c
            | Some (ReadBody n) \<Rightarrow>
                (let s = s\<lparr>readBody := readBody s @ [b]\<rparr>
                 in if length (readBody s) = n then body_read s c else (c\<lparr>session := Some s\<rparr>, [])))"

definition read_error :: "'cb MqttClient \<Rightarrow> 'cb MqttClient" where
  "read_error c =
     (case session c of None \<Rightarrow> c
      | Some s \<Rightarrow> if worker c \<and> outstanding s \<noteq> None
          then c\<lparr>running := False, session := Some (s\<lparr>outstanding := None\<rparr>)\<rparr> else c)"

fun receive :: "byte list \<Rightarrow> 'cb MqttClient \<Rightarrow> 'cb MqttClient \<times> 'cb mqtt_event list" where
  "receive [] c = (c, [])"
| "receive (b # bs) c = (case receive_byte b c of (c, evs) \<Rightarrow> case receive bs c of (c, evs') \<Rightarrow> (c, evs @ evs'))"

section \<open>Starting and stopping\<close>

text \<open>What the broker does while the client connects: the host does not resolve or refuses, nothing arrives
  in time, the read fails, or these bytes arrive.\<close>

datatype broker_reply = Unreachable | NoConnAck | ConnAckReadFails | ConnAckBytes "byte list"

datatype connect_error = ConnectFailed | BadConnectPacket mqtt_error | WriteFailed | ConnAckTimeout | ConnAckReadFailed
  | BadConnAck mqtt_error | ConnectRejected byte

definition connectToBroker :: "(byte list \<Rightarrow> bool) \<Rightarrow> broker_reply \<Rightarrow> 'cb MqttClient \<Rightarrow> connect_error + 'cb mqtt_event list" where
  "connectToBroker wr broker c =
     (if broker = Unreachable then Inl ConnectFailed
      else case buildConnect (clientId (mq_config c)) (mq_keepAlive (mq_config c)) of
          Inl e \<Rightarrow> Inl (BadConnectPacket e)
        | Inr connectBytes \<Rightarrow>
            if \<not> wr connectBytes then Inl WriteFailed
            else case broker of
                NoConnAck \<Rightarrow> Inl ConnAckTimeout
              | ConnAckBytes buf \<Rightarrow>
                  (case parseConnAck buf of
                     Inl e \<Rightarrow> Inl (BadConnAck e)
                   | Inr code \<Rightarrow> if code \<noteq> 0 then Inl (ConnectRejected code) else Inr [Wrote connectBytes])
              | _ \<Rightarrow> Inl ConnAckReadFailed)"

fun replay_loop :: "(byte list \<Rightarrow> bool) \<Rightarrow> string list \<Rightarrow> 'cb MqttClient \<Rightarrow> 'cb MqttClient \<times> 'cb mqtt_event list" where
  "replay_loop wr [] c = (c, [])"
| "replay_loop wr (t # ts) c =
     (case sendSubscribeFrame wr t c of (c, evs) \<Rightarrow> case replay_loop wr ts c of (c, evs') \<Rightarrow> (c, evs @ evs'))"

text \<open>The order in which an \<^verbatim>\<open>unordered_map\<close> is walked is an argument.\<close>

definition replaySubscriptions :: "(byte list \<Rightarrow> bool) \<Rightarrow> (string list \<Rightarrow> string list) \<Rightarrow> 'cb MqttClient \<Rightarrow> 'cb MqttClient \<times> 'cb mqtt_event list" where
  "replaySubscriptions wr order c = replay_loop wr (order (map fst (mq_subscriptions c))) c"

text \<open>The last statement of \<^verbatim>\<open>start\<close> assigns a new \<^verbatim>\<open>std::jthread\<close>, which first joins the old one. A worker
  that is still in \<^verbatim>\<open>run\<close> never leaves it, because the new session's work guard was made before the old
  session released its own: the call does not return.\<close>

datatype start_outcome = Started | Threw connect_error | NeverReturns

definition fresh_session :: mqtt_session where
  "fresh_session = \<lparr>heartbeat_armed = False, readFixedHeader = 0, readRemainingLengthBytes = [], readBody = [], outstanding = None\<rparr>"

definition mqtt_start :: "(byte list \<Rightarrow> bool) \<Rightarrow> (string list \<Rightarrow> string list) \<Rightarrow> broker_reply \<Rightarrow> 'cb MqttClient \<Rightarrow>
    start_outcome \<times> 'cb MqttClient \<times> 'cb mqtt_event list" where
  "mqtt_start wr order broker c =
     (if running c then (Started, c, [])
      else
        let joins = worker c; c = c\<lparr>running := True, session := Some fresh_session\<rparr>
        in case connectToBroker wr broker c of
             Inl e \<Rightarrow> (Threw e, c\<lparr>running := False, session := None\<rparr>, [])
           | Inr evs \<Rightarrow>
               let c = scheduleHeartbeat c;
                   c = c\<lparr>session := map_option startReadLoop (session c)\<rparr>
               in case replaySubscriptions wr order c of
                    (c, evs') \<Rightarrow> (if joins then NeverReturns else Started, c\<lparr>worker := True\<rparr>, evs @ evs'))"

text \<open>\<^verbatim>\<open>stopImpl\<close>: the new \<^verbatim>\<open>io_context\<close> has no tasks.\<close>

definition mqtt_stop :: "(byte list \<Rightarrow> bool) \<Rightarrow> 'cb MqttClient \<Rightarrow> 'cb MqttClient \<times> 'cb mqtt_event list" where
  "mqtt_stop wr c =
     (if \<not> running c then (c, [])
      else (c\<lparr>running := False, worker := False, session := None, posted := []\<rparr>,
            if session c \<noteq> None \<and> wr buildDisconnect then [Wrote buildDisconnect] else []))"

definition mqtt_connectionState :: "'cb MqttClient \<Rightarrow> BackendState" where
  "mqtt_connectionState c =
     (if running c then BackendConnected else if publishedCount c > 0 then BackendDegraded else BackendDisconnected)"

definition mqtt_metricsSummary :: "'cb MqttClient \<Rightarrow> string" where
  "mqtt_metricsSummary c = ''broker '' @ brokerHost (mq_config c) @ '':'' @ nat_str (unat (brokerPort (mq_config c))) @ '' | '' @
     nat_str (unat (publishedCount c)) @ '' publishes''"

section \<open>Framing\<close>

definition continues :: "byte \<Rightarrow> bool" where "continues b = (b AND kContinuationBit \<noteq> 0)"

lemma encoded_length_bytes:
  "\<exists>init b. encode_length_loop v = init @ [b] \<and> list_all continues init \<and> \<not> continues b"
proof (induction v rule: encode_length_loop.induct)
  case (1 v)
  let ?b = "ucast (v AND ucast kRemainingLengthValueMask) :: byte"
  have f: "\<not> continues ?b" "continues (?b OR kContinuationBit)" using len_byte_flag [of v] by (simp_all add: continues_def low7 kContinuationBit_def)
  show ?case
  proof (cases "drop_bit 7 v > 0")
    case True
    with 1 obtain init b where "encode_length_loop (drop_bit 7 v) = init @ [b]" "list_all continues init" "\<not> continues b"
      by fastforce
    then show ?thesis using True f by (subst encode_length_loop.simps) (auto simp: Let_def intro!: exI [of _ "_ # init"])
  next
    case False
    then show ?thesis using f by (subst encode_length_loop.simps) (auto simp: Let_def)
  qed
qed

text \<open>Decoding does not look around the field.\<close>

lemma decode_length_shift:
  "decode_length_loop n bs k m acc = Inr (v, c) \<Longrightarrow>
    decode_length_loop n (pre @ bs @ post) (length pre + k) m acc = Inr (v, length pre + c)"
proof (induction n arbitrary: k m acc)
  case (Suc n)
  then have "k < length bs" by (auto split: if_splits)
  then have "(pre @ bs @ post) ! (length pre + k) = bs ! k" by (simp add: nth_append)
  then show ?case using Suc.prems Suc.IH [of "Suc k"] \<open>k < length bs\<close> by (auto simp: Let_def split: if_splits)
qed simp

lemma decode_consumes:
  assumes "list_all continues init" "\<not> continues b"
  shows "decode_length_loop n (init @ [b]) k m acc = Inr (v, c) \<Longrightarrow> k \<le> length init \<Longrightarrow> c = length (init @ [b])"
proof (induction n arbitrary: k m acc)
  case (Suc n)
  show ?case
  proof (cases "k = length init")
    case True
    then show ?thesis using Suc.prems assms(2) by (simp add: continues_def Let_def)
  next
    case False
    then have k: "k < length init" using Suc.prems(2) by simp
    then have "continues ((init @ [b]) ! k)" using assms(1) by (simp add: nth_append list_all_length)
    then have "(init @ [b]) ! k AND kContinuationBit \<noteq> 0" by (simp add: continues_def)
    with Suc.prems(1) Suc.IH [of "Suc k"] k show ?thesis by (simp add: Let_def)
  qed
qed simp

text \<open>The session between two frames, and the session the read chain can be in.\<close>

definition between :: "mqtt_session \<Rightarrow> bool" where
  "between s = (outstanding s = Some ReadHeader \<and> readRemainingLengthBytes s = [] \<and> readBody s = [])"

fun chain_ok :: "mqtt_session \<Rightarrow> bool" where
  "chain_ok s =
     (case outstanding s of
        None \<Rightarrow> True
      | Some ReadHeader \<Rightarrow> readRemainingLengthBytes s = [] \<and> readBody s = []
      | Some ReadLength \<Rightarrow> list_all continues (readRemainingLengthBytes s) \<and> length (readRemainingLengthBytes s) < 4 \<and> readBody s = []
      | Some (ReadBody n) \<Rightarrow> length (readBody s) < n \<and>
          (\<exists>w. decodeRemainingLength (readRemainingLengthBytes s) 0 = Inr (w, length (readRemainingLengthBytes s)) \<and> unat w = n))"

lemma dispatch_defined:
  assumes "decodeRemainingLength lb 0 = Inr (w, length lb)" and "length body = unat w"
  shows "Undefined \<notin> set (snd (dispatchFrame h lb body c))"
proof -
  have "decodeRemainingLength ([h] @ lb @ body) 1 = Inr (w, 1 + length lb)"
    using decode_length_shift [OF assms(1) [unfolded decodeRemainingLength_def], of "[h]" body] by (simp add: decodeRemainingLength_def)
  then have "parsePublish ([h] @ lb @ body) \<noteq> Inl UndefinedRange"
    by (rule exact_packet_defined) (simp add: assms(2))
  then show ?thesis
    by (auto simp: dispatchFrame_def deliverInboundPublish_def split: sum.splits option.splits mqtt_error.splits)
qed

lemma receive_append:
  "receive (xs @ ys) c = (case receive xs c of (c, e) \<Rightarrow> case receive ys c of (c, e') \<Rightarrow> (c, e @ e'))"
  by (induction xs arbitrary: c) (simp_all add: case_prod_beta)

lemma dispatch_session:
  "dispatchFrame h l b (c\<lparr>session := x\<rparr>) = ((fst (dispatchFrame h l b c))\<lparr>session := x\<rparr>, snd (dispatchFrame h l b c))"
  by (simp add: dispatchFrame_def deliverInboundPublish_def split: sum.split mqtt_error.split)

lemma dispatch_keeps [simp]:
  "session (fst (dispatchFrame h l b c)) = session c" "worker (fst (dispatchFrame h l b c)) = worker c"
  "mq_subscriptions (fst (dispatchFrame h l b c)) = mq_subscriptions c" "running (fst (dispatchFrame h l b c)) = running c"
  by (simp_all add: dispatchFrame_def split: sum.split mqtt_error.split)

lemma receive_length_bytes:
  assumes "worker c" and "session c = Some s" and "outstanding s = Some ReadLength" and "list_all continues bs"
    and "length (readRemainingLengthBytes s) + length bs < 4"
  shows "receive bs c = (c\<lparr>session := Some (s\<lparr>readRemainingLengthBytes := readRemainingLengthBytes s @ bs\<rparr>)\<rparr>, [])"
  using assms
proof (induction bs arbitrary: c s)
  case Nil
  then show ?case by simp
next
  case (Cons b bs)
  let ?s = "s\<lparr>readRemainingLengthBytes := readRemainingLengthBytes s @ [b]\<rparr>"
  have "receive_byte b c = (c\<lparr>session := Some ?s\<rparr>, [])"
    using Cons.prems by (simp add: receive_byte_def length_byte_read_def continues_def kMaxRemainingLengthBytes_def)
  moreover have "receive bs (c\<lparr>session := Some ?s\<rparr>) =
      (c\<lparr>session := Some (?s\<lparr>readRemainingLengthBytes := readRemainingLengthBytes ?s @ bs\<rparr>)\<rparr>, [])"
    using Cons.IH [of "c\<lparr>session := Some ?s\<rparr>" ?s] Cons.prems by simp
  ultimately show ?case by simp
qed

lemma receive_body_bytes:
  assumes "worker c" and "session c = Some s" and "outstanding s = Some (ReadBody n)" and "length (readBody s) + length bs < n"
  shows "receive bs c = (c\<lparr>session := Some (s\<lparr>readBody := readBody s @ bs\<rparr>)\<rparr>, [])"
  using assms
proof (induction bs arbitrary: c s)
  case Nil
  then show ?case by simp
next
  case (Cons b bs)
  let ?s = "s\<lparr>readBody := readBody s @ [b]\<rparr>"
  have "receive_byte b c = (c\<lparr>session := Some ?s\<rparr>, [])" using Cons.prems by (simp add: receive_byte_def)
  moreover have "receive bs (c\<lparr>session := Some ?s\<rparr>) = (c\<lparr>session := Some (?s\<lparr>readBody := readBody ?s @ bs\<rparr>)\<rparr>, [])"
    using Cons.IH [of "c\<lparr>session := Some ?s\<rparr>" ?s] Cons.prems by simp
  ultimately show ?case by simp
qed

lemma receive_body:
  assumes "worker c" and "session c = Some s" and "outstanding s = Some (ReadBody (length body))" and "readBody s = []" and "body \<noteq> []"
  shows "receive body c = body_read (s\<lparr>readBody := body\<rparr>) c"
proof -
  obtain bs b where b: "body = bs @ [b]" using assms(5) by (cases body rule: rev_cases) auto
  let ?s = "s\<lparr>readBody := bs\<rparr>"
  have "receive bs c = (c\<lparr>session := Some ?s\<rparr>, [])" using receive_body_bytes [OF assms(1-3), of bs] assms(4) b by simp
  moreover have "receive_byte b (c\<lparr>session := Some ?s\<rparr>) = body_read (s\<lparr>readBody := body\<rparr>) c"
    using assms(1,3) by (simp add: receive_byte_def b body_read_def dispatch_session case_prod_beta)
  ultimately show ?thesis using assms by (simp add: b receive_append case_prod_beta)
qed

lemma receive_framed:
  assumes "worker c" and "session c = Some s" and "between s" and "length body < 2 ^ 32" and "body_fits body"
  shows "receive (framed h body) c =
    (case dispatchFrame h (encode_length_loop (of_nat (length body))) body c of
       (c', evs) \<Rightarrow> (c'\<lparr>session := Some (s\<lparr>readFixedHeader := h\<rparr>)\<rparr>, evs))"
proof -
  let ?v = "of_nat (length body) :: u32"
  obtain init b where l: "encode_length_loop ?v = init @ [b]" "list_all continues init" "\<not> continues b"
    using encoded_length_bytes by blast
  have r: "length (init @ [b]) \<le> 4" "decodeRemainingLength (init @ [b]) 0 = Inr (?v, length (init @ [b]))"
    using remaining_length_ok [of ?v "[]" "[]"] assms(5) l by (simp_all add: body_fits_def)
  have v: "unat ?v = length body" using assms(4) by (simp add: unat_of_nat)
  define s1 where "s1 = s\<lparr>readFixedHeader := h, outstanding := Some ReadLength\<rparr>"
  define s2 where "s2 = s1\<lparr>readRemainingLengthBytes := init\<rparr>"
  define s3 where "s3 = s1\<lparr>readRemainingLengthBytes := init @ [b], readBody := [], outstanding := Some (ReadBody (length body))\<rparr>"
  have s1: "receive_byte h c = (c\<lparr>session := Some s1\<rparr>, [])" using assms(1-3) by (simp add: receive_byte_def s1_def between_def)
  have lb: "readRemainingLengthBytes s1 = []" "readBody s1 = []" using assms(3) by (simp_all add: s1_def between_def)
  have s2: "receive init (c\<lparr>session := Some s1\<rparr>) = (c\<lparr>session := Some s2\<rparr>, [])"
    using receive_length_bytes [of "c\<lparr>session := Some s1\<rparr>" s1 init] assms(1) l r lb by (simp add: s1_def s2_def)
  have s3: "receive_byte b (c\<lparr>session := Some s2\<rparr>) = readFrameBody ?v (s2\<lparr>readRemainingLengthBytes := init @ [b]\<rparr>) (c\<lparr>session := Some s2\<rparr>)"
    using assms(1) l(3) r(2) by (simp add: receive_byte_def s2_def s1_def length_byte_read_def continues_def)
  have bk: "body_read (s3\<lparr>readBody := body\<rparr>) (c\<lparr>session := x\<rparr>) =
      (case dispatchFrame h (encode_length_loop ?v) body c of (c', evs) \<Rightarrow> (c'\<lparr>session := Some (s\<lparr>readFixedHeader := h\<rparr>)\<rparr>, evs))" for x
    using assms(3) by (simp add: body_read_def s3_def s1_def l(1) dispatch_session case_prod_beta startReadLoop_def between_def)
  have "receive (init @ [b] @ body) (c\<lparr>session := Some s1\<rparr>) =
      (case dispatchFrame h (encode_length_loop ?v) body c of (c', evs) \<Rightarrow> (c'\<lparr>session := Some (s\<lparr>readFixedHeader := h\<rparr>)\<rparr>, evs))"
  proof (cases "body = []")
    case True
    then have "s2\<lparr>readRemainingLengthBytes := init @ [b], readBody := [], outstanding := Some (ReadBody 0)\<rparr> = s3\<lparr>readBody := body\<rparr>"
      by (simp add: s2_def s3_def)
    then show ?thesis using s2 s3 True bk [of "Some s2"] by (simp add: receive_append readFrameBody_def case_prod_beta)
  next
    case False
    then have "?v \<noteq> 0" using v by (metis length_0_conv unat_0)
    then have "receive_byte b (c\<lparr>session := Some s2\<rparr>) = (c\<lparr>session := Some s3\<rparr>, [])"
      using s3 v by (simp add: readFrameBody_def s2_def s3_def)
    moreover have "receive body (c\<lparr>session := Some s3\<rparr>) = body_read (s3\<lparr>readBody := body\<rparr>) (c\<lparr>session := Some s3\<rparr>)"
      by (rule receive_body) (use assms(1) False in \<open>simp_all add: s3_def\<close>)
    ultimately show ?thesis using s2 bk [of "Some s3"] by (simp add: receive_append case_prod_beta)
  qed
  then show ?thesis using s1 by (simp add: framed_def l(1))
qed

section \<open>Every operation\<close>

datatype 'cb mqtt_op =
    OpStart "byte list \<Rightarrow> bool" "string list \<Rightarrow> string list" broker_reply | OpStop "byte list \<Rightarrow> bool"
  | OpPublish string string | OpSubscribe string 'cb | OpRun "byte list \<Rightarrow> bool" | OpBeat "byte list \<Rightarrow> bool"
  | OpReceive byte | OpReadError

fun mqtt_exec :: "'cb MqttClient \<Rightarrow> 'cb mqtt_op \<Rightarrow> 'cb MqttClient \<times> 'cb mqtt_event list" where
  "mqtt_exec c (OpStart wr order broker) = snd (mqtt_start wr order broker c)"
| "mqtt_exec c (OpStop wr) = mqtt_stop wr c"
| "mqtt_exec c (OpPublish topic payload) = (mq_publish topic payload c, [])"
| "mqtt_exec c (OpSubscribe topic cb) = (mq_subscribe topic cb c, [])"
| "mqtt_exec c (OpRun wr) = run_posted wr c"
| "mqtt_exec c (OpBeat wr) = heartbeat wr c"
| "mqtt_exec c (OpReceive b) = receive_byte b c"
| "mqtt_exec c OpReadError = (read_error c, [])"

fun mqtt_run :: "'cb MqttClient \<Rightarrow> 'cb mqtt_op list \<Rightarrow> 'cb MqttClient \<times> 'cb mqtt_event list" where
  "mqtt_run c [] = (c, [])"
| "mqtt_run c (op # ops) = (case mqtt_exec c op of (c, evs) \<Rightarrow> case mqtt_run c ops of (c, evs') \<Rightarrow> (c, evs @ evs'))"

text \<open>The invariant: the read chain is in a state it can be in, and every callback registered is one of \<open>R\<close>.\<close>

definition client_inv :: "(string \<times> 'cb) set \<Rightarrow> 'cb MqttClient \<Rightarrow> bool" where
  "client_inv R c = ((\<forall>s. session c = Some s \<longrightarrow> chain_ok s) \<and> set (mq_subscriptions c) \<subseteq> R)"

definition event_ok :: "(string \<times> 'cb) set \<Rightarrow> 'cb mqtt_event \<Rightarrow> bool" where
  "event_ok R e = (case e of Undefined \<Rightarrow> False | Callback cb t p \<Rightarrow> (t, cb) \<in> R | Wrote bs \<Rightarrow> True)"

lemma set_insert_or_assign: "set (insert_or_assign k v m) \<subseteq> insert (k, v) (set m)"
  by (induction k v m rule: insert_or_assign.induct) auto

lemma chain_ok_fresh [simp]: "chain_ok (startReadLoop s)" "outstanding s = None \<Longrightarrow> chain_ok s"
  by (simp_all add: startReadLoop_def)

lemma dispatch_event_ok:
  assumes "set (mq_subscriptions c) \<subseteq> R" and "decodeRemainingLength lb 0 = Inr (w, length lb)" and "length body = unat w"
  shows "list_all (event_ok R) (snd (dispatchFrame h lb body c))"
proof -
  have "(t, cb) \<in> R" if "map_of (mq_subscriptions c) t = Some cb" for t cb using map_of_SomeD [OF that] assms(1) by blast
  moreover have "Undefined \<notin> set (snd (dispatchFrame h lb body c))" by (rule dispatch_defined [OF assms(2,3)])
  ultimately show ?thesis
    by (auto simp: dispatchFrame_def deliverInboundPublish_def event_ok_def split: sum.splits option.splits mqtt_error.splits)
qed

lemma body_read_ok:
  assumes "client_inv R c" and "decodeRemainingLength (readRemainingLengthBytes s) 0 = Inr (w, length (readRemainingLengthBytes s))"
    and "length (readBody s) = unat w"
  shows "client_inv R (fst (body_read s c)) \<and> list_all (event_ok R) (snd (body_read s c))"
  using dispatch_event_ok [OF _ assms(2,3), of c R] assms(1) by (simp add: body_read_def client_inv_def case_prod_beta startReadLoop_def)

lemma length_byte_ok:
  assumes "client_inv R c" and "session c = Some s" and "outstanding s = Some ReadLength"
  shows "client_inv R (fst (length_byte_read b s c)) \<and> list_all (event_ok R) (snd (length_byte_read b s c))"
proof -
  let ?l = "readRemainingLengthBytes s"
  have l: "list_all continues ?l" "length ?l < 4" "readBody s = []" "set (mq_subscriptions c) \<subseteq> R"
    using assms by (auto simp: client_inv_def)
  show ?thesis
  proof (cases "continues b")
    case True
    then show ?thesis using l assms(3)
      by (auto simp: length_byte_read_def client_inv_def continues_def kMaxRemainingLengthBytes_def Let_def)
  next
    case False
    show ?thesis
    proof (cases "decodeRemainingLength (?l @ [b]) 0")
      case (Inl e)
      then show ?thesis using l False by (simp add: length_byte_read_def client_inv_def continues_def Let_def)
    next
      case (Inr y)
      obtain w k where w: "decodeRemainingLength (?l @ [b]) 0 = Inr (w, k)" using Inr by (cases y) simp
      then have k: "k = length (?l @ [b])"
        using decode_consumes [OF l(1) False] unfolding decodeRemainingLength_def by blast
      let ?s = "s\<lparr>readRemainingLengthBytes := ?l @ [b]\<rparr>"
      have e: "length_byte_read b s c = readFrameBody w ?s c"
        using False w by (simp add: length_byte_read_def continues_def Let_def)
      show ?thesis
      proof (cases "w = 0")
        case True
        then show ?thesis using body_read_ok [of R c "?s\<lparr>readBody := [], outstanding := Some (ReadBody 0)\<rparr>" w] assms(1) w k
          by (simp add: e readFrameBody_def)
      next
        case F: False
        then have "0 < unat w" by (simp add: unat_gt_0)
        then show ?thesis using F w k l by (simp add: e readFrameBody_def client_inv_def Let_def)
      qed
    qed
  qed
qed

lemma receive_byte_ok:
  assumes "client_inv R c"
  shows "client_inv R (fst (receive_byte b c)) \<and> list_all (event_ok R) (snd (receive_byte b c))"
proof (cases "session c")
  case None
  then show ?thesis using assms by (simp add: receive_byte_def)
next
  case (Some s)
  have ok: "chain_ok s" "set (mq_subscriptions c) \<subseteq> R" using assms Some by (simp_all add: client_inv_def)
  show ?thesis
  proof (cases "outstanding s")
    case None
    then show ?thesis using assms Some by (simp add: receive_byte_def)
  next
    case o: (Some st)
    show ?thesis
    proof (cases st)
      case ReadHeader
      then show ?thesis using ok Some o assms by (simp add: receive_byte_def client_inv_def)
    next
      case ReadLength
      then show ?thesis using length_byte_ok [OF assms Some, of b] Some o assms by (simp add: receive_byte_def)
    next
      case (ReadBody n)
      obtain w where w: "decodeRemainingLength (readRemainingLengthBytes s) 0 = Inr (w, length (readRemainingLengthBytes s))" "unat w = n"
        "length (readBody s) < n" using ok o ReadBody by auto
      let ?s = "s\<lparr>readBody := readBody s @ [b]\<rparr>"
      show ?thesis
      proof (cases "Suc (length (readBody s)) = n")
        case True
        then show ?thesis using body_read_ok [OF assms, of ?s w] w Some o ReadBody assms by (simp add: receive_byte_def)
      next
        case False
        then have "chain_ok ?s" using w o ReadBody by simp
        then show ?thesis using False Some o ReadBody ok assms by (simp add: receive_byte_def client_inv_def)
      qed
    qed
  qed
qed

text \<open>The operations that neither read nor register keep the chain and the registry.\<close>

lemma client_inv_cong:
  "session c' = session c \<Longrightarrow> mq_subscriptions c' = mq_subscriptions c \<Longrightarrow> client_inv R c' = client_inv R c"
  by (simp add: client_inv_def)

lemma wrote_ok [simp]: "event_ok R (Wrote bs)"
  by (simp add: event_ok_def)

lemma sendSubscribeFrame_ok:
  "session (fst (sendSubscribeFrame wr t c)) = session c" "mq_subscriptions (fst (sendSubscribeFrame wr t c)) = mq_subscriptions c"
  "list_all (event_ok R) (snd (sendSubscribeFrame wr t c))"
  by (simp_all add: sendSubscribeFrame_def Let_def split: sum.split)

lemma replay_loop_ok:
  "session (fst (replay_loop wr ts c)) = session c \<and> mq_subscriptions (fst (replay_loop wr ts c)) = mq_subscriptions c \<and>
   list_all (event_ok R) (snd (replay_loop wr ts c))"
  by (induction ts arbitrary: c) (simp_all add: case_prod_beta sendSubscribeFrame_ok)

lemma run_posted_ok:
  "session (fst (run_posted wr c)) = session c" "mq_subscriptions (fst (run_posted wr c)) = mq_subscriptions c"
  "list_all (event_ok R) (snd (run_posted wr c))"
  by (simp_all add: run_posted_def run_task_def sendSubscribeFrame_ok split: list.split mqtt_task.split sum.split)

lemma chain_ok_heartbeat [simp]: "chain_ok (s\<lparr>heartbeat_armed := a\<rparr>) = chain_ok s"
  by (simp split: option.split read_step.split)

lemma heartbeat_ok:
  "client_inv R c \<Longrightarrow> client_inv R (fst (heartbeat wr c)) \<and> list_all (event_ok R) (snd (heartbeat wr c))"
  by (auto simp: heartbeat_def client_inv_def scheduleHeartbeat_def Let_def simp del: chain_ok.simps split: option.split)

lemma connect_ok: "connectToBroker wr broker c = Inr evs \<Longrightarrow> list_all (event_ok R) evs"
  by (cases broker; cases "buildConnect (clientId (mq_config c)) (mq_keepAlive (mq_config c))")
    (auto simp: connectToBroker_def split: if_splits sum.splits)

text \<open>\<^verbatim>\<open>start\<close> once the broker has accepted.\<close>

definition connected :: "'cb MqttClient \<Rightarrow> 'cb MqttClient" where
  "connected c = c\<lparr>running := True, session := Some (startReadLoop (fresh_session\<lparr>heartbeat_armed := True\<rparr>))\<rparr>"

lemma start_cases:
  assumes "\<not> running c"
  shows "mqtt_start wr order broker c =
    (case connectToBroker wr broker (c\<lparr>running := True, session := Some fresh_session\<rparr>) of
       Inl e \<Rightarrow> (Threw e, c\<lparr>running := False, session := None\<rparr>, [])
     | Inr evs \<Rightarrow> (case replaySubscriptions wr order (connected c) of
         (c', evs') \<Rightarrow> (if worker c then NeverReturns else Started, c'\<lparr>worker := True\<rparr>, evs @ evs')))"
  using assms by (simp add: mqtt_start_def Let_def scheduleHeartbeat_def connected_def split: sum.split)

lemma start_ok:
  assumes "client_inv R c"
  shows "client_inv R (fst (snd (mqtt_start wr order broker c))) \<and> list_all (event_ok R) (snd (snd (mqtt_start wr order broker c)))"
proof (cases "running c")
  case True
  then show ?thesis using assms by (simp add: mqtt_start_def)
next
  case False
  have d: "client_inv R (connected c)" using assms by (simp add: client_inv_def connected_def startReadLoop_def)
  obtain c' evs' where r: "replaySubscriptions wr order (connected c) = (c', evs')" by fastforce
  then have "session c' = session (connected c)" "mq_subscriptions c' = mq_subscriptions (connected c)" "list_all (event_ok R) evs'"
    using replay_loop_ok [of wr "order (map fst (mq_subscriptions (connected c)))" "connected c" R] by (simp_all add: replaySubscriptions_def)
  with d have r': "client_inv R (c'\<lparr>worker := True\<rparr>)" "list_all (event_ok R) evs'" by (simp_all add: client_inv_def)
  show ?thesis
  proof (cases "connectToBroker wr broker (c\<lparr>running := True, session := Some fresh_session\<rparr>)")
    case (Inl e)
    then show ?thesis using False assms by (simp add: start_cases client_inv_def)
  next
    case (Inr evs)
    then show ?thesis using False r r' connect_ok [OF Inr, of R] by (simp add: start_cases)
  qed
qed

text \<open>A registration that is one of \<open>R\<close>.\<close>

fun registers :: "(string \<times> 'cb) set \<Rightarrow> 'cb mqtt_op \<Rightarrow> bool" where
  "registers R (OpSubscribe t cb) = ((t, cb) \<in> R)"
| "registers R _ = True"

lemma mqtt_exec_ok:
  assumes "client_inv R c" and "registers R op"
  shows "client_inv R (fst (mqtt_exec c op)) \<and> list_all (event_ok R) (snd (mqtt_exec c op))"
proof (cases op)
  case (OpStop wr)
  then show ?thesis using assms(1) by (simp add: mqtt_stop_def client_inv_def)
next
  case (OpPublish t p)
  then show ?thesis using assms(1) by (simp add: mq_publish_def client_inv_def)
next
  case (OpSubscribe t cb)
  then show ?thesis using assms set_insert_or_assign [of t cb "mq_subscriptions c"]
    by (auto simp: mq_subscribe_def client_inv_def Let_def simp del: chain_ok.simps)
next
  case (OpRun wr)
  then show ?thesis using assms(1) client_inv_cong [OF run_posted_ok(1,2), of R wr c] run_posted_ok(3) by simp
next
  case OpReadError
  then show ?thesis using assms(1) by (auto simp: read_error_def client_inv_def split: option.split)
qed (use assms start_ok heartbeat_ok receive_byte_ok in simp_all)

lemma mqtt_run_ok:
  "client_inv R c \<Longrightarrow> list_all (registers R) ops \<Longrightarrow>
    client_inv R (fst (mqtt_run c ops)) \<and> list_all (event_ok R) (snd (mqtt_run c ops))"
proof (induction ops arbitrary: c)
  case (Cons op ops)
  then show ?case using mqtt_exec_ok [of R c op] Cons.IH [of "fst (mqtt_exec c op)"] by (simp add: case_prod_beta)
qed simp

section \<open>Properties\<close>

text \<open>What a broker sends: a message, or a packet of another type.\<close>

datatype broker_packet = Message string string | Control byte "byte list"

fun packet_ok :: "broker_packet \<Rightarrow> bool" where
  "packet_ok (Message topic payload) = (length topic \<le> 65535 \<and> length topic + length payload + 2 \<le> 268435455)"
| "packet_ok (Control h body) = (h AND kFixedHeaderTypeMask \<noteq> type_byte Publish \<and> length body \<le> 268435455)"

fun packet_bytes :: "broker_packet \<Rightarrow> byte list" where
  "packet_bytes (Message topic payload) = framed 0x30 (str_bytes topic @ map char_byte payload)"
| "packet_bytes (Control h body) = framed h body"

fun packet_events :: "'cb MqttClient \<Rightarrow> broker_packet \<Rightarrow> 'cb mqtt_event list" where
  "packet_events c (Message topic payload) =
     (case map_of (mq_subscriptions c) topic of Some cb \<Rightarrow> [Callback cb topic payload] | None \<Rightarrow> [])"
| "packet_events c (Control h body) = []"

definition is_message :: "broker_packet \<Rightarrow> bool" where
  "is_message p = (case p of Message t x \<Rightarrow> True | _ \<Rightarrow> False)"

text \<open>The bytes of a message are those \<^const>\<open>buildPublish\<close> makes for it.\<close>

lemma fits_body: "length body \<le> 268435455 \<Longrightarrow> body_fits body \<and> length body < 2 ^ 32"
  by (simp add: body_fits_def kMaxRemainingLength_def word_le_nat_alt unat_of_nat)

lemma message_built:
  assumes "packet_ok (Message topic payload)"
  shows "buildPublish topic payload = Inr (packet_bytes (Message topic payload))"
  using assms fits_body [of "str_bytes topic @ map char_byte payload"] by (simp add: publish_framed)

lemma receive_packet:
  assumes "worker c" and "session c = Some s" and "between s" and "packet_ok p"
  shows "\<exists>h. receive (packet_bytes p) c =
    (c\<lparr>receivedCount := receivedCount c + (if is_message p then 1 else 0), session := Some (s\<lparr>readFixedHeader := h\<rparr>)\<rparr>, packet_events c p)"
proof (cases p)
  case (Message topic payload)
  let ?b = "str_bytes topic @ map char_byte payload"
  have f: "body_fits ?b" "length ?b < 2 ^ 32" using fits_body [of ?b] assms(4) Message by simp_all
  have "parsePublish (framed 0x30 ?b) = Inr \<lparr>pp_topic = topic, pp_payload = payload\<rparr>"
    using parse_built_publish [OF message_built] assms(4) Message by simp
  then have "dispatchFrame 0x30 (encode_length_loop (of_nat (length ?b))) ?b c =
      (c\<lparr>receivedCount := receivedCount c + 1\<rparr>, packet_events c p)"
    using Message by (simp add: dispatchFrame_def framed_def deliverInboundPublish_def kFixedHeaderTypeMask_def split: option.split)
  then show ?thesis using receive_framed [OF assms(1-3) f(2,1), of "0x30"] Message by (auto simp: is_message_def)
next
  case (Control h body)
  then have "dispatchFrame h (encode_length_loop (of_nat (length body))) body c = (c, [])" using assms(4) by (simp add: dispatchFrame_def)
  then show ?thesis using receive_framed [OF assms(1-3), of body h] fits_body [of body] assms(4) Control by (auto simp: is_message_def)
qed

lemma broker_stream:
  assumes "worker c" and "session c = Some s" and "between s" and "\<forall>p\<in>set ps. packet_ok p"
  shows "snd (receive (concat (map packet_bytes ps)) c) = concat (map (packet_events c) ps) \<and>
    (\<exists>s'. session (fst (receive (concat (map packet_bytes ps)) c)) = Some s' \<and> between s') \<and>
    running (fst (receive (concat (map packet_bytes ps)) c)) = running c \<and>
    receivedCount (fst (receive (concat (map packet_bytes ps)) c)) = receivedCount c + of_nat (length (filter is_message ps))"
  using assms
proof (induction ps arbitrary: c s)
  case Nil
  then show ?case by simp
next
  case (Cons p ps)
  obtain h where h: "receive (packet_bytes p) c =
      (c\<lparr>receivedCount := receivedCount c + (if is_message p then 1 else 0), session := Some (s\<lparr>readFixedHeader := h\<rparr>)\<rparr>, packet_events c p)"
    using receive_packet [of c s p] Cons.prems by auto
  let ?c = "c\<lparr>receivedCount := receivedCount c + (if is_message p then 1 else 0), session := Some (s\<lparr>readFixedHeader := h\<rparr>)\<rparr>"
  have e: "packet_events ?c = packet_events c"
  proof
    show "packet_events ?c q = packet_events c q" for q by (cases q) simp_all
  qed
  have "between (s\<lparr>readFixedHeader := h\<rparr>)" using Cons.prems(3) by (simp add: between_def)
  then show ?case using Cons.IH [of ?c "s\<lparr>readFixedHeader := h\<rparr>"] Cons.prems(1,4)
    by (simp add: receive_append h e case_prod_beta)
qed


definition demo_config :: MqttConfig where
  "demo_config = \<lparr>brokerHost = ''h'', brokerPort = 1883, clientId = ''c'', mq_keepAlive = 60\<rparr>"

definition demo_client :: "'cb MqttClient \<Rightarrow> 'cb \<Rightarrow> 'cb MqttClient" where
  "demo_client c cb = c\<lparr>worker := True, running := True, session := Some (startReadLoop fresh_session), mq_subscriptions := [(''t'', cb)]\<rparr>"


text \<open>
  No input leads the client astray. Whatever a client's callers do and whatever bytes the broker
  sends, in any order, the packet parser never runs beyond the packet it is given, and every callback invoked
  was registered for the topic it is invoked with.
\<close>

theorem inbound_always_defined:
  "Undefined \<notin> set (snd (mqtt_run (mqtt_client_new cfg) ops)) \<and>
    (\<forall>cb t p. Callback cb t p \<in> set (snd (mqtt_run (mqtt_client_new cfg) ops)) \<longrightarrow> OpSubscribe t cb \<in> set ops)"
proof -
  let ?R = "{(t, cb). OpSubscribe t cb \<in> set ops}"
  have "registers ?R op" if m: "op \<in> set ops" for op by (cases op) (use m in simp_all)
  then have "list_all (registers ?R) ops" by (simp add: list_all_iff)
  moreover have "client_inv ?R (mqtt_client_new cfg)" by (simp add: client_inv_def mqtt_client_new_def)
  ultimately have "list_all (event_ok ?R) (snd (mqtt_run (mqtt_client_new cfg) ops))" using mqtt_run_ok by blast
  then show ?thesis by (fastforce simp: list_all_iff event_ok_def)
qed

theorem inbound_always_defined_witness:
  "Callback (1 :: nat) ''t'' ''42'' \<notin> set (snd (mqtt_run (mqtt_client_new demo_config) [OpReceive 0x30, OpSubscribe ''u'' 1]))"
  using inbound_always_defined [of demo_config "[OpReceive 0x30, OpSubscribe ''u'' (1 :: nat)]"] by auto

section \<open>Going down\<close>

fun is_start :: "'cb mqtt_op \<Rightarrow> bool" where
  "is_start (OpStart wr order broker) = True"
| "is_start _ = False"

definition lost :: "'cb MqttClient \<Rightarrow> bool" where
  "lost c = (\<not> running c \<and> worker c \<and> posted c = [])"

lemma body_read_keeps [simp]:
  "running (fst (body_read s c)) = running c" "worker (fst (body_read s c)) = worker c" "posted (fst (body_read s c)) = posted c"
  by (simp_all add: body_read_def dispatchFrame_def split: sum.split mqtt_error.split)

lemma receive_byte_lost: "lost c \<Longrightarrow> lost (fst (receive_byte b c))"
  by (auto simp: lost_def receive_byte_def length_byte_read_def readFrameBody_def Let_def split: option.split read_step.split sum.split)

lemma lost_exec: "lost c \<Longrightarrow> \<not> is_start op \<Longrightarrow> lost (fst (mqtt_exec c op))"
proof (cases op)
  case (OpBeat wr)
  then show "lost c \<Longrightarrow> ?thesis" by (auto simp: lost_def heartbeat_def scheduleHeartbeat_def Let_def split: option.split)
next
  case OpReadError
  then show "lost c \<Longrightarrow> ?thesis" by (auto simp: lost_def read_error_def split: option.split)
qed (use receive_byte_lost in \<open>auto simp: lost_def mqtt_stop_def mq_publish_def canPublish_def mq_subscribe_def run_posted_def Let_def\<close>)

lemma lost_run: "lost c \<Longrightarrow> list_all (\<lambda>op. \<not> is_start op) ops \<Longrightarrow> lost (fst (mqtt_run c ops))"
  by (induction ops arbitrary: c) (simp_all add: case_prod_beta lost_exec)

text \<open>
  A lost connection is lost for good. Once the broker drops a client that has nothing queued, then
  whatever its callers do: \<^verbatim>\<open>stop\<close> does nothing, and \<^verbatim>\<open>start\<close> does not bring it back; it throws, or, when
  the broker accepts, does not return, because it joins a worker that never leaves its loop.
\<close>

theorem lost_connection_is_final:
  assumes "running c" and "worker c" and "session c = Some s" and "outstanding s \<noteq> None" and "posted c = []"
    and "\<forall>op\<in>set ops. \<not> is_start op" and "c' = fst (mqtt_run c (OpReadError # ops))"
  shows "\<not> running c' \<and> mqtt_stop wr c' = (c', []) \<and> fst (mqtt_start wr order broker c') \<noteq> Started"
proof -
  have "lost (fst (mqtt_exec c OpReadError))" using assms(1-5) by (simp add: read_error_def lost_def)
  then have l: "lost c'" using lost_run [of "fst (mqtt_exec c OpReadError)" ops] assms(6,7)
    by (simp add: case_prod_beta list_all_iff)
  then show ?thesis
    by (simp add: lost_def mqtt_stop_def start_cases case_prod_beta split: sum.split)
qed

theorem lost_connection_is_final_witness:
  "fst (mqtt_start (\<lambda>_. True) id (ConnAckBytes [0x20, 2, 0, 0])
     (fst (mqtt_run (demo_client (mqtt_client_new demo_config) (1 :: nat)) [OpReadError, OpStop (\<lambda>_. True)]))) \<noteq> Started"
  using lost_connection_is_final [of "demo_client (mqtt_client_new demo_config) (1 :: nat)" "startReadLoop fresh_session" "[OpStop (\<lambda>_. True)]"
      _ "\<lambda>_. True" id "ConnAckBytes [0x20, 2, 0, 0]"]
  by (simp add: demo_client_def mqtt_client_new_def startReadLoop_def)

text \<open>A topic too long for the wire stops the worker: the exception of \<^const>\<open>buildPublish\<close> leaves the event loop,
  and nothing is sent or received any more.\<close>

definition dead :: "'cb MqttClient \<Rightarrow> bool" where
  "dead c = (\<not> running c \<and> \<not> worker c)"

lemma dead_exec: "dead c \<Longrightarrow> \<not> is_start op \<Longrightarrow> dead (fst (mqtt_exec c op)) \<and> snd (mqtt_exec c op) = []"
  by (cases op) (auto simp: dead_def mqtt_stop_def mq_publish_def canPublish_def mq_subscribe_def run_posted_def heartbeat_def
      receive_byte_def read_error_def Let_def split: option.split)

lemma dead_run: "dead c \<Longrightarrow> list_all (\<lambda>op. \<not> is_start op) ops \<Longrightarrow> snd (mqtt_run c ops) = []"
  by (induction ops arbitrary: c) (simp_all add: case_prod_beta dead_exec)

lemma long_topic_stops_client:
  assumes "running c" and "worker c" and "session c \<noteq> None" and "posted c = []" and "length topic > 65535"
    and "list_all (\<lambda>op. \<not> is_start op) ops"
  shows "snd (mqtt_run c (OpPublish topic payload # OpRun wr # ops)) = []"
proof -
  let ?c = "c\<lparr>posted := [TaskPublish topic payload]\<rparr>"
  have e: "mqtt_exec ?c (OpRun wr) = (?c\<lparr>posted := [], running := False, worker := False\<rparr>, [])"
    using assms(2,3,5) by (auto simp: run_posted_def run_task_def publish_framed)
  have "mqtt_exec c (OpPublish topic payload) = (?c, [])" using assms by (simp add: mq_publish_def canPublish_def)
  moreover have "dead (?c\<lparr>posted := [], running := False, worker := False\<rparr>)" by (simp add: dead_def)
  ultimately show ?thesis using dead_run assms(6) e by (simp add: case_prod_beta del: mqtt_exec.simps)
qed

text \<open>A client that published and was then stopped cleanly reports itself as degraded.\<close>

lemma clean_stop_is_degraded:
  "running c \<Longrightarrow> publishedCount c > 0 \<Longrightarrow> mqtt_connectionState (fst (mqtt_stop wr c)) = BackendDegraded"
  by (simp add: mqtt_stop_def mqtt_connectionState_def)

text \<open>A second registration for a topic replaces the first.\<close>

lemma map_of_insert_or_assign [simp]: "map_of (insert_or_assign k v m) = (map_of m)(k \<mapsto> v)"
  by (induction k v m rule: insert_or_assign.induct) auto

end
