(* ===== verification/SensorIngest.thy ===== *)
theory SensorIngest
  imports MqttClient SimulatedModel SerialFrameParser
begin

text \<open>
  \<^verbatim>\<open>integration/SensorIngestBridge.cpp\<close> and \<^verbatim>\<open>integration/EquipmentStateReading.h\<close>: readings of field sensors,
  from the broker and from the serial link, turned into calls of the production model. The bridge's lambdas
  are the values of \<open>sensor_callback\<close>; a \<^verbatim>\<open>float\<close> may be an infinity or a NaN here, and the rounding of
  \<^verbatim>\<open>strtof\<close> is an argument.

  The theorems: the chain from the broker's bytes to the calls of the model, what its parsers accept, and
  that both links read an equipment state alike.
\<close>

section \<open>Payloads\<close>

definition trimAsciiWs :: "string \<Rightarrow> string" where
  "trimAsciiWs raw = rev (dropWhile isspace (rev (dropWhile isspace raw)))"

text \<open>The vocabulary of both links.\<close>

definition on_off :: "string \<Rightarrow> bool option" where
  "on_off lower =
     (if lower = ''on'' \<or> lower = ''1'' \<or> lower = ''true'' then Some True
      else if lower = ''off'' \<or> lower = ''0'' \<or> lower = ''false'' then Some False
      else None)"

definition parseOnOffPayload :: "string \<Rightarrow> bool option" where
  "parseOnOffPayload raw = (let raw = trimAsciiWs raw in if raw = [] then None else on_off (map tolower raw))"

definition parseIntPayload :: "string \<Rightarrow> int option" where
  "parseIntPayload raw =
     (let raw = trimAsciiWs raw in
      if raw = [] then None
      else case from_chars_int raw of Parsed v rest \<Rightarrow> if rest \<noteq> [] then None else Some v | _ \<Rightarrow> None)"

text \<open>\<^verbatim>\<open>*endPtr\<close> is NUL at the end of the text and at a NUL inside it.\<close>

definition parseFloatPayload :: "rounding \<Rightarrow> string \<Rightarrow> flt option" where
  "parseFloatPayload rnd raw =
     (let buf = trimAsciiWs raw in
      if buf = [] then None
      else case strtof rnd buf of
          None \<Rightarrow> None
        | Some (v, erange, rest) \<Rightarrow> if rest \<noteq> [] \<and> hd rest \<noteq> CHR 0x00 then None else Some v)"

section \<open>The bridge\<close>

record SensorConfig =
  topicPrefix :: string
  equipmentCount :: u32
  qualityCount :: u32

definition default_sensor_config :: SensorConfig where
  "default_sensor_config = \<lparr>topicPrefix = ''industrial-hmi-sensors'', equipmentCount = 3, qualityCount = 3\<rparr>"

datatype sensor_callback = OnState u32 | OnSupply u32 | OnRate u32

datatype model_call = SetEquipmentEnabled u32 bool | SetEquipmentSupplyLevel u32 int | SetQualityPassRate u32 flt

fun sensor_topic :: "SensorConfig \<Rightarrow> sensor_callback \<Rightarrow> string" where
  "sensor_topic cfg (OnState i) = topicPrefix cfg @ ''/equipment/'' @ nat_str (unat i) @ ''/state''"
| "sensor_topic cfg (OnSupply i) = topicPrefix cfg @ ''/equipment/'' @ nat_str (unat i) @ ''/supply''"
| "sensor_topic cfg (OnRate i) = topicPrefix cfg @ ''/quality/'' @ nat_str (unat i) @ ''/rate''"

text \<open>The callbacks in the order \<^verbatim>\<open>wire\<close> registers them.\<close>

definition sensor_callbacks :: "SensorConfig \<Rightarrow> sensor_callback list" where
  "sensor_callbacks cfg =
     concat (map (\<lambda>i. [OnState (of_nat i), OnSupply (of_nat i)]) [0..<unat (equipmentCount cfg)]) @
     map (\<lambda>i. OnRate (of_nat i)) [0..<unat (qualityCount cfg)]"

definition wire :: "SensorConfig \<Rightarrow> sensor_callback MqttClient \<Rightarrow> sensor_callback MqttClient" where
  "wire cfg c = foldl (\<lambda>c cb. mq_subscribe (sensor_topic cfg cb) cb c) c (sensor_callbacks cfg)"

text \<open>The lambdas.\<close>

fun on_message :: "rounding \<Rightarrow> sensor_callback \<Rightarrow> string \<Rightarrow> model_call option" where
  "on_message rnd (OnState i) payload = map_option (SetEquipmentEnabled i) (parseOnOffPayload payload)"
| "on_message rnd (OnSupply i) payload = map_option (SetEquipmentSupplyLevel i) (parseIntPayload payload)"
| "on_message rnd (OnRate i) payload = map_option (SetQualityPassRate i) (parseFloatPayload rnd payload)"

text \<open>The calls a run of the client makes.\<close>

definition calls_of :: "rounding \<Rightarrow> sensor_callback mqtt_event list \<Rightarrow> model_call list" where
  "calls_of rnd evs = List.map_filter (\<lambda>e. case e of Callback cb t p \<Rightarrow> on_message rnd cb p | _ \<Rightarrow> None) evs"

section \<open>Serial readings\<close>

definition kStatePrefix :: string where "kStatePrefix = ''equipment/''"
definition kStateSuffix :: string where "kStateSuffix = ''/state''"

definition toEquipmentStateCommand :: "SerialReading \<Rightarrow> (u32 \<times> bool) option" where
  "toEquipmentStateCommand reading =
     (let sid = sensorId reading in
      if length sid \<le> length kStatePrefix + length kStateSuffix then None
      else if take (length kStatePrefix) sid \<noteq> kStatePrefix \<or> drop (length sid - length kStateSuffix) sid \<noteq> kStateSuffix then None
      else
        let number = take (length sid - length kStatePrefix - length kStateSuffix) (drop (length kStatePrefix) sid)
        in case from_chars_u32 number of
             Parsed n rest \<Rightarrow>
               if rest \<noteq> [] then None else map_option (\<lambda>b. (n, b)) (on_off (map tolower (sr_value reading)))
           | _ \<Rightarrow> None)"

section \<open>Registration\<close>

lemma sensor_topic_inject: "sensor_topic cfg a = sensor_topic cfg b \<longleftrightarrow> a = b"
proof
  assume e: "sensor_topic cfg a = sensor_topic cfg b"
  then have "take 4 (rev (sensor_topic cfg a)) = take 4 (rev (sensor_topic cfg b))" by simp
  then show "a = b" using e by (cases a; cases b) (simp_all add: word_unat_eq_iff)
qed simp

lemma distinct_callbacks: "distinct (sensor_callbacks cfg)"
proof -
  have u: "of_nat i = (of_nat j :: u32) \<longleftrightarrow> i = j" if "i < unat n" "j < unat n" for i j and n :: u32
  proof -
    have "unat n < 2 ^ 32" using unsigned_less [of n] by simp
    then show ?thesis using that by (simp add: word_unat_eq_iff unat_of_nat)
  qed
  have d: "distinct (concat (map (\<lambda>i. [OnState (of_nat i), OnSupply (of_nat i)]) ks))" if "set ks \<subseteq> {..<unat n}" "distinct ks"
    for ks and n :: u32 using that by (induction ks) (auto simp: u)
  show ?thesis using d [of "[0..<unat (equipmentCount cfg)]" "equipmentCount cfg"]
    by (auto simp: sensor_callbacks_def distinct_map inj_on_def u atLeast0LessThan)
qed

lemma subscribed_all:
  assumes "\<forall>cb\<in>set cbs. 0 < length (sensor_topic cfg cb) \<and> length (sensor_topic cfg cb) \<le> 65535" and "distinct cbs"
  shows "\<forall>cb\<in>set cbs. map_of (mq_subscriptions (foldl (\<lambda>c cb. mq_subscribe (sensor_topic cfg cb) cb c) c cbs)) (sensor_topic cfg cb) = Some cb"
  using assms
proof (induction cbs rule: rev_induct)
  case (snoc x cbs)
  then show ?case by (auto simp: mq_subscribe_def kMaxStringLength_def sensor_topic_inject Let_def)
qed simp

lemma wire_keeps:
  "worker (wire cfg c) = worker c" "session (wire cfg c) = session c" "running (wire cfg c) = running c"
proof -
  let ?f = "\<lambda>c cb. mq_subscribe (sensor_topic cfg cb) cb c"
  have "worker (foldl ?f c cbs) = worker c \<and> session (foldl ?f c cbs) = session c \<and> running (foldl ?f c cbs) = running c" for cbs
    by (induction cbs arbitrary: c) (simp_all add: mq_subscribe_def Let_def)
  then show "worker (wire cfg c) = worker c" "session (wire cfg c) = session c" "running (wire cfg c) = running c"
    by (simp_all add: wire_def)
qed
section \<open>Properties\<close>

lemma topic_length:
  "length (sensor_topic cfg cb) \<le> length (topicPrefix cfg) + 30" "0 < length (sensor_topic cfg cb)"
proof -
  have n: "length (nat_str (unat i)) \<le> 10" for i :: u32
  proof -
    have "unat i < 2 ^ 32" using unsigned_less [of i] by simp
    then show ?thesis by (intro nat_str_length) simp_all
  qed
  show "length (sensor_topic cfg cb) \<le> length (topicPrefix cfg) + 30"
  proof (cases cb)
    case (OnState i)
    then show ?thesis using n [of i] by simp
  next
    case (OnSupply i)
    then show ?thesis using n [of i] by simp
  next
    case (OnRate i)
    then show ?thesis using n [of i] by simp
  qed
  show "0 < length (sensor_topic cfg cb)" by (cases cb) simp_all
qed

lemma packet_ok_small: "length t \<le> 65030 \<Longrightarrow> length p \<le> 2 ^ 20 \<Longrightarrow> packet_ok (Message t p)"
  by simp

text \<open>A reading: the callback whose topic it is published on, and its payload.\<close>

definition reading_packet :: "SensorConfig \<Rightarrow> sensor_callback \<times> string \<Rightarrow> broker_packet" where
  "reading_packet cfg r = Message (sensor_topic cfg (fst r)) (snd r)"

lemma calls_of_concat: "calls_of rnd (concat evss) = concat (map (calls_of rnd) evss)"
  by (induction evss) (simp_all add: calls_of_def map_filter_def)

lemma trim_padded:
  assumes "list_all isspace pre" and "list_all isspace post" and "s \<noteq> []" and "\<not> isspace (hd s)" and "\<not> isspace (last s)"
  shows "trimAsciiWs (pre @ s @ post) = s"
proof -
  have "dropWhile isspace (pre @ s @ post) = s @ post"
    using assms by (cases s) (auto simp: dropWhile_append list_all_iff dropWhile_eq_Nil_conv)
  moreover have "dropWhile isspace (rev post @ rev s) = rev s"
    using assms by (cases s rule: rev_cases) (auto simp: dropWhile_append list_all_iff dropWhile_eq_Nil_conv)
  ultimately show ?thesis by (simp add: trimAsciiWs_def)
qed

lemma number_ends:
  assumes "list_all (\<lambda>c. isdigit c \<or> c = CHR ''-'' \<or> c = CHR ''.'') s" and "s \<noteq> []"
  shows "\<not> isspace (hd s)" "\<not> isspace (last s)"
proof -
  have "\<not> isspace c" if "c \<in> set s" for c
    using that assms(1) by (auto simp: list_all_iff isdigit_def isspace_def ch_code_def)
  then show "\<not> isspace (hd s)" "\<not> isspace (last s)" using assms(2) by auto
qed

lemma int_str_chars: "list_all (\<lambda>c. isdigit c \<or> c = CHR ''-'' \<or> c = CHR ''.'') (int_str i)" "int_str i \<noteq> []"
  using nat_str_digits by (auto simp: int_str_def list_all_iff)

lemma fixed_str_chars: "list_all (\<lambda>c. isdigit c \<or> c = CHR ''-'' \<or> c = CHR ''.'') (fixed_str 1 x)" "fixed_str 1 x \<noteq> []"
proof -
  have d: "list_all (\<lambda>c. isdigit c \<or> c = CHR ''-'' \<or> c = CHR ''.'') (nat_str n)" for n
    using nat_str_digits [of n] by (auto simp: list_all_iff)
  have z: "list_all (\<lambda>c. isdigit c \<or> c = CHR ''-'' \<or> c = CHR ''.'') (replicate k (CHR ''0''))" for k
    by (simp add: list_all_iff isdigit_def ch_code_def)
  show "list_all (\<lambda>c. isdigit c \<or> c = CHR ''-'' \<or> c = CHR ''.'') (fixed_str 1 x)" "fixed_str 1 x \<noteq> []"
    using d z by (simp_all add: fixed_str_body fixed_body_def)
qed

lemma padded_numbers:
  assumes "list_all isspace pre" and "list_all isspace post"
  shows "- (2 ^ 31) \<le> l \<Longrightarrow> l < 2 ^ 31 \<Longrightarrow> parseIntPayload (pre @ int_str l @ post) = Some l"
    and "parseFloatPayload rnd (pre @ fixed_str 1 x @ post) = Some (fst (rnd (printed 1 x)))"
  using trim_padded [OF assms, of "int_str l"] number_ends [OF int_str_chars, of l] int_str_chars(2) [of l]
    from_chars_int_str [of l "[]"] trim_padded [OF assms, of "fixed_str 1 x"] number_ends [OF fixed_str_chars, of x]
    fixed_str_chars(2) [of x] strtof_fixed_str [of 1 "[]" rnd x]
  by (simp_all add: parseIntPayload_def parseFloatPayload_def no_digit_def ends_number_def)

text \<open>
  C25. From the sensor to the model. On a connected client that the bridge has wired, whatever readings
  the broker forwards on the bridge's topics, however the bytes are split, the production model gets exactly
  the calls the payloads ask for, on the equipment or checkpoint of the topic and in order; payloads that do
  not parse make no call. A level or a rate printed as a decimal number, with any white space around it, is
  the level or the rate the model gets.
\<close>

theorem sensor_readings_reach_model:
  assumes "worker c" and "session c = Some s" and "between s" and "length (topicPrefix cfg) \<le> 65000"
    and "\<forall>r\<in>set rs. fst r \<in> set (sensor_callbacks cfg) \<and> length (snd r) \<le> 2 ^ 20"
  shows "calls_of rnd (snd (receive (concat (map (packet_bytes \<circ> reading_packet cfg) rs)) (wire cfg c))) =
      List.map_filter (\<lambda>r. on_message rnd (fst r) (snd r)) rs \<and>
    (list_all isspace (pre @ post) \<and> - (2 ^ 31) \<le> l \<and> l < 2 ^ 31 \<longrightarrow>
      on_message rnd (OnSupply i) (pre @ int_str l @ post) = Some (SetEquipmentSupplyLevel i l)) \<and>
    (list_all isspace (pre @ post) \<longrightarrow>
      on_message rnd (OnRate i) (pre @ fixed_str 1 x @ post) = Some (SetQualityPassRate i (fst (rnd (printed 1 x)))))"
proof -
  let ?c = "wire cfg c" and ?ps = "map (reading_packet cfg) rs"
  have t: "length (sensor_topic cfg cb) \<le> 65030" for cb using topic_length(1) [of cfg cb] assms(4) by linarith
  then have len: "\<forall>cb\<in>set (sensor_callbacks cfg). 0 < length (sensor_topic cfg cb) \<and> length (sensor_topic cfg cb) \<le> 65535"
    using topic_length(2) [of cfg] le_trans [OF t, of 65535] by simp
  have m: "map_of (mq_subscriptions ?c) (sensor_topic cfg cb) = Some cb" if "cb \<in> set (sensor_callbacks cfg)" for cb
    using subscribed_all [OF len distinct_callbacks, of c] that by (simp add: wire_def)
  have "packet_ok (reading_packet cfg r)" if "r \<in> set rs" for r
    using packet_ok_small [OF t, of "snd r"] assms(5) that by (simp add: reading_packet_def del: packet_ok.simps)
  then have ok: "\<forall>p\<in>set ?ps. packet_ok p" by simp
  have "snd (receive (concat (map packet_bytes ?ps)) ?c) = concat (map (packet_events ?c) ?ps)"
    using broker_stream [of ?c s ?ps] assms(1-3) ok by (simp add: wire_keeps)
  moreover have "calls_of rnd (packet_events ?c (reading_packet cfg r)) = (case on_message rnd (fst r) (snd r) of None \<Rightarrow> [] | Some a \<Rightarrow> [a])"
    if "r \<in> set rs" for r
    using m [of "fst r"] assms(5) that by (simp add: reading_packet_def calls_of_def map_filter_def split: option.split)
  ultimately have "calls_of rnd (snd (receive (concat (map packet_bytes ?ps)) ?c)) =
      concat (map (\<lambda>r. case on_message rnd (fst r) (snd r) of None \<Rightarrow> [] | Some a \<Rightarrow> [a]) rs)"
    by (simp add: calls_of_concat o_def cong: map_cong)
  also have "\<dots> = List.map_filter (\<lambda>r. on_message rnd (fst r) (snd r)) rs"
    by (induction rs) (simp_all add: map_filter_def split: option.split)
  finally show ?thesis using padded_numbers(1) [of pre post l] padded_numbers(2) [of pre post rnd x] by simp
qed

definition demo_bridge_client :: "sensor_callback MqttClient" where
  "demo_bridge_client = (mqtt_client_new demo_config)\<lparr>worker := True, running := True, session := Some (startReadLoop fresh_session)\<rparr>"

theorem sensor_readings_reach_model_witness:
  "calls_of (\<lambda>x. (Fin x, False)) (snd (receive
     (packet_bytes (Message ''industrial-hmi-sensors/equipment/1/supply'' ''42'') @
      packet_bytes (Message ''industrial-hmi-sensors/equipment/1/supply'' ''4x''))
     (wire default_sensor_config demo_bridge_client))) = [SetEquipmentSupplyLevel 1 42]"
proof -
  have c: "OnSupply 1 \<in> set (sensor_callbacks default_sensor_config)" by (auto simp: sensor_callbacks_def default_sensor_config_def intro: bexI [of _ 1])
  have t: "sensor_topic default_sensor_config (OnSupply 1) = ''industrial-hmi-sensors/equipment/1/supply''" by code_simp
  have p: "parseIntPayload ''42'' = Some 42" "parseIntPayload ''4x'' = None" by code_simp+
  have s: "worker demo_bridge_client" "session demo_bridge_client = Some (startReadLoop fresh_session)" "between (startReadLoop fresh_session)"
    by (simp_all add: demo_bridge_client_def between_def startReadLoop_def)
  show ?thesis
    using sensor_readings_reach_model [OF s, of default_sensor_config "[(OnSupply 1, ''42''), (OnSupply 1, ''4x'')]" "\<lambda>x. (Fin x, False)"] c t p
    by (simp add: reading_packet_def map_filter_def default_sensor_config_def del: packet_bytes.simps)
qed

text \<open>
  Both links speak the same language. A serial reading of \<^verbatim>\<open>equipment/<n>/state\<close> asks for exactly
  what the broker's message on the state topic of line \<open>n\<close> with the same text asks for, when the text has no
  surrounding white space; nothing else is a command, whatever the device sends.
\<close>

theorem links_agree_on_state:
  "(trimAsciiWs v = v \<longrightarrow>
    toEquipmentStateCommand \<lparr>sensorId = kStatePrefix @ nat_str (unat i) @ kStateSuffix, sr_value = v\<rparr> =
      (case on_message rnd (OnState i) v of Some (SetEquipmentEnabled j b) \<Rightarrow> Some (j, b) | _ \<Rightarrow> None)) \<and>
   (toEquipmentStateCommand r = Some (i, b) \<longrightarrow>
    (\<exists>ds. sensorId r = kStatePrefix @ ds @ kStateSuffix \<and> ds \<noteq> [] \<and> list_all isdigit ds \<and>
      digits_value 10 dec_digit ds = unat i \<and> on_off (map tolower (sr_value r)) = Some b))"
proof (intro conjI impI)
  assume v: "trimAsciiWs v = v"
  have n: "nat_str (unat i) \<noteq> []" using nat_str_digits by blast
  have f: "from_chars_u32 (nat_str (unat i)) = Parsed i []" using from_chars_u32_str [of "[]" i] by (simp add: no_digit_def)
  have e: "on_off [] = None" by (simp add: on_off_def)
  have "toEquipmentStateCommand \<lparr>sensorId = kStatePrefix @ nat_str (unat i) @ kStateSuffix, sr_value = v\<rparr> =
      map_option (\<lambda>b. (i, b)) (on_off (map tolower v))"
    using n f by (simp add: toEquipmentStateCommand_def kStatePrefix_def kStateSuffix_def Let_def)
  then show "toEquipmentStateCommand \<lparr>sensorId = kStatePrefix @ nat_str (unat i) @ kStateSuffix, sr_value = v\<rparr> =
      (case on_message rnd (OnState i) v of Some (SetEquipmentEnabled j b) \<Rightarrow> Some (j, b) | _ \<Rightarrow> None)"
    using v e by (cases "on_off (map tolower v)") (auto simp: parseOnOffPayload_def)
next
  assume c: "toEquipmentStateCommand r = Some (i, b)"
  define sid where "sid = sensorId r"
  define number where "number = take (length sid - length kStatePrefix - length kStateSuffix) (drop (length kStatePrefix) sid)"
  have l: "length sid > length kStatePrefix + length kStateSuffix" "take (length kStatePrefix) sid = kStatePrefix"
    "drop (length sid - length kStateSuffix) sid = kStateSuffix" "on_off (map tolower (sr_value r)) = Some b"
    "from_chars_u32 number = Parsed i []"
    using c by (auto simp: toEquipmentStateCommand_def Let_def number_def sid_def split: if_splits from_chars_result.splits)
  have "sid = take (length kStatePrefix) sid @ number @ drop (length sid - length kStateSuffix) sid"
  proof -
    let ?n = "length sid - length kStatePrefix - length kStateSuffix"
    have "drop ?n (drop (length kStatePrefix) sid) = drop (length sid - length kStateSuffix) sid" using l(1) by simp
    then have "drop (length kStatePrefix) sid = number @ drop (length sid - length kStateSuffix) sid"
      using append_take_drop_id [of ?n "drop (length kStatePrefix) sid"] by (simp add: number_def)
    then show ?thesis using append_take_drop_id [of "length kStatePrefix" sid] by simp
  qed
  then have s: "sid = kStatePrefix @ number @ kStateSuffix" using l(2,3) by simp
  have t: "takeWhile isdigit number \<noteq> []" "dropWhile isdigit number = []" "digits_value 10 dec_digit (takeWhile isdigit number) < 2 ^ 32"
    "of_nat (digits_value 10 dec_digit (takeWhile isdigit number)) = i"
    using l(5) by (auto simp: from_chars_u32_def Let_def split: if_splits)
  have d: "list_all isdigit number" "takeWhile isdigit number = number"
    using t(2) takeWhile_dropWhile_id [of isdigit number] by (simp_all add: dropWhile_eq_Nil_conv list_all_iff)
  have "digits_value 10 dec_digit number = unat i" using t(3,4) d(2) by (auto simp: unat_of_nat)
  then show "\<exists>ds. sensorId r = kStatePrefix @ ds @ kStateSuffix \<and> ds \<noteq> [] \<and> list_all isdigit ds \<and>
      digits_value 10 dec_digit ds = unat i \<and> on_off (map tolower (sr_value r)) = Some b"
    using s d t(1) l(4) by (auto simp: sid_def)
qed

theorem links_agree_on_state_witness:
  "toEquipmentStateCommand \<lparr>sensorId = kStatePrefix @ nat_str (unat (2 :: u32)) @ kStateSuffix, sr_value = ''ON''\<rparr> = Some (2, True)"
proof -
  have "trimAsciiWs ''ON'' = ''ON''" "parseOnOffPayload ''ON'' = Some True" by code_simp+
  then show ?thesis using links_agree_on_state [of "''ON''" 2 "\<lambda>x. (Fin x, False)"] by simp
qed

text \<open>A text that is not a number of a rate can still be a \<^verbatim>\<open>float\<close>, and is passed on; a level may not carry a
  plus sign, though a rate may; white space around a state is dropped on one link and refused on the other.\<close>

lemma odd_payloads:
  "parseFloatPayload rnd ''nan'' = Some NaN" "parseFloatPayload rnd '' Infinity'' = Some (Inf False)"
  "parseIntPayload ''+42'' = None" "parseOnOffPayload '' on'' = Some True"
  by code_simp+

lemma padded_serial_state_refused: "toEquipmentStateCommand \<lparr>sensorId = sid, sr_value = '' on''\<rparr> = None"
proof -
  have "on_off (map tolower '' on'') = None" by code_simp
  then show ?thesis by (simp add: toEquipmentStateCommand_def Let_def split: from_chars_result.split)
qed

end
