(* ===== verification/OtaAgent.thy ===== *)
theory OtaAgent
  imports OtaSession
begin

text \<open>
  \<^verbatim>\<open>integration/OtaAgent.cpp\<close>: the owner of one OTA session, its thread and its timer. Callers' calls and
  the handlers the agent's thread runs are the operations; the interleaving of the threads is the sequence of
  operations. An operation returns what it does to the outside in order: bytes handed to the link, the
  progress handed to \<^verbatim>\<open>onDone\<close>. The clock, the link's answer to a send and the timer firing are arguments or
  operations of their own. When a finished update leaves the event loop without work the thread ends; the
  model keeps it serving, which makes no difference, since a finished session absorbs everything.

  The theorems: the agent is the session driven by its calls, with the published progress never behind it;
  \<^verbatim>\<open>onDone\<close> is called once, with the final progress; a stopped agent is silent for ever.
\<close>

section \<open>Progress\<close>

record OtaProgress =
  pr_stage :: OtaStage
  pr_failure :: OtaFailure
  pr_failureText :: string
  pr_nakCode :: byte
  pr_bytesAcknowledged :: nat
  pr_imageSize :: nat
  pr_alreadyUpToDate :: bool
  pr_transportFailed :: bool

definition hex_upper :: "nat \<Rightarrow> char" where
  "hex_upper n = (if n < 10 then char_of (48 + n) else char_of (55 + n))"

definition failureText :: "OtaSession \<Rightarrow> string" where
  "failureText s =
     (let c = ctx s in
      case c_failure c of
        FailNone \<Rightarrow> []
      | BoardRefused \<Rightarrow> ''the board refused the update, NAK code 0x'' @
          [hex_upper (unat (c_nakCode c) div 16), hex_upper (unat (c_nakCode c) mod 16)]
      | NoAnswer \<Rightarrow> ''the board stopped answering after '' @ int_str (tm_resends (c_timing c)) @ '' resends''
      | ProtocolError \<Rightarrow> (if c_image c = [] then ''the image is empty, nothing to send''
          else ''the board sent a frame the protocol does not allow at this point'')
      | WrongVersion \<Rightarrow> ''after the update the board reports version '' @ nat_str (unat (c_boardVersion c)) @ '', not '' @
          nat_str (unat (c_version c)))"

definition progress_of :: "OtaSession \<Rightarrow> bool \<Rightarrow> OtaProgress" where
  "progress_of s transportFailed =
     \<lparr>pr_stage = stage s, pr_failure = c_failure (ctx s), pr_failureText = failureText s, pr_nakCode = c_nakCode (ctx s),
      pr_bytesAcknowledged = c_sentBytes (ctx s), pr_imageSize = length (c_image (ctx s)),
      pr_alreadyUpToDate = c_alreadyUpToDate (ctx s), pr_transportFailed = transportFailed\<rparr>"

section \<open>State\<close>

text \<open>A task posted to the agent's context, and the members; \<open>ag_serving\<close>: the agent's thread runs the
  context and the context is not stopped, \<open>ag_has_done\<close>: an \<^verbatim>\<open>onDone\<close> was given, \<open>ag_done_stops\<close>: it calls
  \<^verbatim>\<open>stop\<close>.\<close>

datatype agent_task = BeginUpdate | HandleFrame FlashFrame

record OtaAgent =
  ag_session :: OtaSession
  ag_has_done :: bool
  ag_done_stops :: bool
  ag_started :: bool
  ag_running :: bool
  ag_serving :: bool
  ag_tick_armed :: bool
  ag_posted :: "agent_task list"
  ag_progress :: OtaProgress
  ag_transportFailed :: bool
  ag_doneFired :: bool

datatype agent_event = Sent "byte list" | DoneCalled OtaProgress

definition publishProgress :: "OtaAgent \<Rightarrow> OtaAgent" where
  "publishProgress a = a\<lparr>ag_progress := progress_of (ag_session a) (ag_transportFailed a)\<rparr>"

definition agent_new :: "byte list \<Rightarrow> u32 \<Rightarrow> Timing \<Rightarrow> bool \<Rightarrow> bool \<Rightarrow> OtaAgent" where
  "agent_new img version timing has_done done_stops =
     \<lparr>ag_session = ota_new img version timing, ag_has_done = has_done, ag_done_stops = done_stops, ag_started = False,
      ag_running = False, ag_serving = False, ag_tick_armed = False, ag_posted = [],
      ag_progress = progress_of (ota_new img version timing) False, ag_transportFailed = False, ag_doneFired = False\<rparr>"

section \<open>The agent's thread\<close>

text \<open>\<^verbatim>\<open>doSend\<close>: \<open>link\<close> is the answer of the send function, \<^const>\<open>False\<close> also when there is none.\<close>

definition doSend :: "(byte list \<Rightarrow> bool) \<Rightarrow> byte list \<Rightarrow> OtaAgent \<Rightarrow> OtaAgent \<times> agent_event list" where
  "doSend link bytes a =
     (if bytes = [] then (a, [])
      else (if link bytes then a else a\<lparr>ag_transportFailed := True\<rparr>, [Sent bytes]))"

text \<open>\<^verbatim>\<open>fireDoneIfTerminal\<close>. A \<^verbatim>\<open>stop\<close> from inside the callback ends the run without joining.\<close>

definition fireDoneIfTerminal :: "OtaAgent \<Rightarrow> bool \<times> OtaAgent \<times> agent_event list" where
  "fireDoneIfTerminal a =
     (if stage (ag_session a) \<noteq> Done \<and> stage (ag_session a) \<noteq> Failed then (False, a, [])
      else if ag_doneFired a then (True, a, [])
      else
        let a = a\<lparr>ag_doneFired := True\<rparr> in
        if \<not> ag_has_done a then (True, a, [])
        else (True, if ag_done_stops a then a\<lparr>ag_running := False, ag_serving := False\<rparr> else a, [DoneCalled (ag_progress a)]))"

definition scheduleTick :: "OtaAgent \<Rightarrow> OtaAgent" where
  "scheduleTick a = a\<lparr>ag_tick_armed := True\<rparr>"

text \<open>What the three handlers share: ask the session, send, publish, report.\<close>

definition drive :: "(byte list \<Rightarrow> bool) \<Rightarrow> ota_call \<Rightarrow> OtaAgent \<Rightarrow> bool \<times> OtaAgent \<times> agent_event list" where
  "drive link call a =
     (case ota_exec (ag_session a) call of
        (s, bytes) \<Rightarrow>
          (case doSend link bytes (a\<lparr>ag_session := s\<rparr>) of
             (a, evs) \<Rightarrow> (case fireDoneIfTerminal (publishProgress a) of (terminal, a, evs') \<Rightarrow> (terminal, a, evs @ evs'))))"

definition beginUpdate :: "(byte list \<Rightarrow> bool) \<Rightarrow> int \<Rightarrow> OtaAgent \<Rightarrow> OtaAgent \<times> agent_event list" where
  "beginUpdate link now a =
     (case drive link (StartCall now) a of (terminal, a, evs) \<Rightarrow> (if terminal then a else scheduleTick a, evs))"

definition agent_onTick :: "(byte list \<Rightarrow> bool) \<Rightarrow> int \<Rightarrow> OtaAgent \<Rightarrow> OtaAgent \<times> agent_event list" where
  "agent_onTick link now a =
     (if \<not> ag_running a then (a, [])
      else case drive link (TickCall now) a of (terminal, a, evs) \<Rightarrow> (if terminal then a else scheduleTick a, evs))"

definition agent_onFrame :: "(byte list \<Rightarrow> bool) \<Rightarrow> int \<Rightarrow> FlashFrame \<Rightarrow> OtaAgent \<Rightarrow> OtaAgent \<times> agent_event list" where
  "agent_onFrame link now frame a =
     (if \<not> ag_running a then (a, [])
      else case drive link (FrameCall frame now) a of (terminal, a, evs) \<Rightarrow> (a, evs))"

section \<open>The operations\<close>

text \<open>\<^verbatim>\<open>start\<close>; \<open>raced\<close>: a \<^verbatim>\<open>stop\<close> of another thread came between the latch and the creation of the thread.\<close>

definition agent_start :: "bool \<Rightarrow> OtaAgent \<Rightarrow> OtaAgent" where
  "agent_start raced a =
     (if ag_started a then a
      else
        let a = a\<lparr>ag_started := True, ag_running := True, ag_posted := ag_posted a @ [BeginUpdate]\<rparr>;
            a = (if raced then a\<lparr>ag_running := False\<rparr> else a)
        in if \<not> ag_running a then a else a\<lparr>ag_serving := True\<rparr>)"

definition agent_stop :: "OtaAgent \<Rightarrow> OtaAgent" where
  "agent_stop a = (if \<not> ag_running a then a else a\<lparr>ag_running := False, ag_serving := False\<rparr>)"

text \<open>\<^verbatim>\<open>frameSink\<close> on the transport's thread: it only posts.\<close>

definition frameSink :: "FlashFrame \<Rightarrow> OtaAgent \<Rightarrow> OtaAgent" where
  "frameSink frame a = a\<lparr>ag_posted := ag_posted a @ [HandleFrame frame]\<rparr>"

definition run_agent_task :: "(byte list \<Rightarrow> bool) \<Rightarrow> int \<Rightarrow> OtaAgent \<Rightarrow> OtaAgent \<times> agent_event list" where
  "run_agent_task link now a =
     (if \<not> ag_serving a then (a, [])
      else case ag_posted a of
          [] \<Rightarrow> (a, [])
        | BeginUpdate # rest \<Rightarrow> beginUpdate link now (a\<lparr>ag_posted := rest\<rparr>)
        | HandleFrame frame # rest \<Rightarrow> agent_onFrame link now frame (a\<lparr>ag_posted := rest\<rparr>))"

definition timer_fires :: "(byte list \<Rightarrow> bool) \<Rightarrow> int \<Rightarrow> OtaAgent \<Rightarrow> OtaAgent \<times> agent_event list" where
  "timer_fires link now a =
     (if \<not> ag_serving a \<or> \<not> ag_tick_armed a then (a, []) else agent_onTick link now (a\<lparr>ag_tick_armed := False\<rparr>))"

datatype agent_op =
    AgentStart bool | AgentStop | FrameArrives FlashFrame | RunTask "byte list \<Rightarrow> bool" int | TimerFires "byte list \<Rightarrow> bool" int

fun agent_exec :: "OtaAgent \<Rightarrow> agent_op \<Rightarrow> OtaAgent \<times> agent_event list" where
  "agent_exec a (AgentStart raced) = (agent_start raced a, [])"
| "agent_exec a AgentStop = (agent_stop a, [])"
| "agent_exec a (FrameArrives f) = (frameSink f a, [])"
| "agent_exec a (RunTask link now) = run_agent_task link now a"
| "agent_exec a (TimerFires link now) = timer_fires link now a"

text \<open>The agent and everything it has done so far.\<close>

definition agent_step :: "OtaAgent \<times> agent_event list \<Rightarrow> agent_op \<Rightarrow> OtaAgent \<times> agent_event list" where
  "agent_step t op = (case agent_exec (fst t) op of (a, evs) \<Rightarrow> (a, snd t @ evs))"

section \<open>The agent is its session\<close>

text \<open>What a session says to a sequence of calls.\<close>

fun session_says :: "OtaSession \<Rightarrow> ota_call list \<Rightarrow> byte list list" where
  "session_says s [] = []"
| "session_says s (c # cs) = (if snd (ota_exec s c) = [] then [] else [snd (ota_exec s c)]) @ session_says (ota_apply s c) cs"

lemma session_says_snoc:
  "session_says s (cs @ [c]) = session_says s cs @ (let out = snd (ota_exec (foldl ota_apply s cs) c) in if out = [] then [] else [out])"
  by (induction cs arbitrary: s) (simp_all add: Let_def)

fun sent_bytes :: "agent_event list \<Rightarrow> byte list list" where
  "sent_bytes [] = []"
| "sent_bytes (Sent bs # evs) = bs # sent_bytes evs"
| "sent_bytes (DoneCalled p # evs) = sent_bytes evs"

fun done_calls :: "agent_event list \<Rightarrow> OtaProgress list" where
  "done_calls [] = []"
| "done_calls (Sent bs # evs) = done_calls evs"
| "done_calls (DoneCalled p # evs) = p # done_calls evs"

lemma events_append [simp]:
  "sent_bytes (xs @ ys) = sent_bytes xs @ sent_bytes ys" "done_calls (xs @ ys) = done_calls xs @ done_calls ys"
proof -
  show "sent_bytes (xs @ ys) = sent_bytes xs @ sent_bytes ys" by (induction xs rule: sent_bytes.induct) simp_all
  show "done_calls (xs @ ys) = done_calls xs @ done_calls ys" by (induction xs rule: done_calls.induct) simp_all
qed

definition terminal :: "OtaSession \<Rightarrow> bool" where
  "terminal s = (stage s = Done \<or> stage s = Failed)"

text \<open>The invariant over the agent and its past: the session is the one its calls made, the bytes are what it
  said, the published progress is its progress, and \<^verbatim>\<open>onDone\<close> has been called as often as it should.\<close>

definition agent_inv :: "byte list \<Rightarrow> u32 \<Rightarrow> Timing \<Rightarrow> bool \<Rightarrow> OtaAgent \<times> agent_event list \<Rightarrow> bool" where
  "agent_inv img v tm has_done t =
     (\<exists>calls. ag_session (fst t) = ota_run img v tm calls \<and> sent_bytes (snd t) = session_says (ota_new img v tm) calls \<and>
        ag_has_done (fst t) = has_done \<and>
        ag_progress (fst t) = progress_of (ag_session (fst t)) (ag_transportFailed (fst t)) \<and>
        (ag_doneFired (fst t) \<longleftrightarrow> terminal (ag_session (fst t))) \<and>
        done_calls (snd t) = (if has_done \<and> terminal (ag_session (fst t)) then [ag_progress (fst t)] else []))"

lemma terminal_absorbs: "terminal s \<Longrightarrow> ota_exec s call = (s, [])"
  by (cases call) (auto simp: terminal_def ota_start_def ota_onFrame_def ota_onTick_def)

lemma drive_inv:
  assumes "agent_inv img v tm h (a, past)" and "drive link call a = (b, a', evs)"
  shows "agent_inv img v tm h (a', past @ evs) \<and> b = terminal (ag_session a')"
proof -
  obtain calls where c: "ag_session a = ota_run img v tm calls" "sent_bytes past = session_says (ota_new img v tm) calls"
    "ag_has_done a = h" "ag_progress a = progress_of (ag_session a) (ag_transportFailed a)" "ag_doneFired a \<longleftrightarrow> terminal (ag_session a)"
    "done_calls past = (if h \<and> terminal (ag_session a) then [ag_progress a] else [])"
    using assms(1) by (auto simp: agent_inv_def)
  show ?thesis
  proof (cases "terminal (ag_session a)")
    case True
    then have "drive link call a = (True, a\<lparr>ag_progress := progress_of (ag_session a) (ag_transportFailed a)\<rparr>, [])"
      using c(5) terminal_absorbs [OF True, of call]
      by (auto simp: drive_def doSend_def fireDoneIfTerminal_def publishProgress_def terminal_def)
    then have "b = True" "a' = a" "evs = []" using assms(2) c(4) by auto
    then show ?thesis using assms(1) True by simp
  next
    case False
    obtain s bytes where e: "ota_exec (ag_session a) call = (s, bytes)" by fastforce
    have "agent_inv img v tm h (a', past @ evs) \<longleftrightarrow> (\<exists>calls. s = ota_run img v tm calls \<and>
        sent_bytes past @ (if bytes = [] then [] else [bytes]) = session_says (ota_new img v tm) calls)"
      and "b = terminal (ag_session a')"
      using assms(2) e False c(3,5,6)
      by (auto simp: agent_inv_def drive_def doSend_def fireDoneIfTerminal_def publishProgress_def terminal_def Let_def split: if_splits)
    moreover have "s = ota_run img v tm (calls @ [call])" using e c(1) by (simp add: ota_run_def ota_apply_def)
    moreover have "sent_bytes past @ (if bytes = [] then [] else [bytes]) = session_says (ota_new img v tm) (calls @ [call])"
      using e c(1,2) by (simp add: session_says_snoc ota_run_def)
    ultimately show ?thesis by blast
  qed
qed

text \<open>The fields the invariant does not look at.\<close>

lemma agent_inv_frame:
  "agent_inv img v tm h (a\<lparr>ag_tick_armed := x\<rparr>, past) = agent_inv img v tm h (a, past)"
  "agent_inv img v tm h (a\<lparr>ag_posted := y\<rparr>, past) = agent_inv img v tm h (a, past)"
  "agent_inv img v tm h (a\<lparr>ag_running := z\<rparr>, past) = agent_inv img v tm h (a, past)"
  "agent_inv img v tm h (a\<lparr>ag_serving := w\<rparr>, past) = agent_inv img v tm h (a, past)"
  "agent_inv img v tm h (a\<lparr>ag_started := u\<rparr>, past) = agent_inv img v tm h (a, past)"
  by (simp_all add: agent_inv_def)

lemma handlers_inv:
  assumes "agent_inv img v tm h (a, past)"
  shows "agent_inv img v tm h (fst (beginUpdate link now a), past @ snd (beginUpdate link now a))"
    "agent_inv img v tm h (fst (agent_onFrame link now f a), past @ snd (agent_onFrame link now f a))"
    "agent_inv img v tm h (fst (agent_onTick link now a), past @ snd (agent_onTick link now a))"
  using assms drive_inv [OF assms]
  by (auto simp: beginUpdate_def agent_onFrame_def agent_onTick_def scheduleTick_def agent_inv_frame split: prod.split)

lemma agent_step_inv: "agent_inv img v tm h t \<Longrightarrow> agent_inv img v tm h (agent_step t op)"
proof -
  assume "agent_inv img v tm h t"
  then obtain a past where t: "t = (a, past)" and i: "agent_inv img v tm h (a, past)" by (cases t) auto
  have p: "agent_inv img v tm h (a\<lparr>ag_posted := rest\<rparr>, past)" "agent_inv img v tm h (a\<lparr>ag_tick_armed := x\<rparr>, past)" for rest x
    using i by (simp_all add: agent_inv_frame)
  show ?thesis
  proof (cases op)
    case (RunTask link now)
    then show ?thesis using i handlers_inv(1,2) [OF p(1)]
      by (auto simp: t agent_step_def run_agent_task_def case_prod_beta split: list.split agent_task.split)
  next
    case (TimerFires link now)
    then show ?thesis using i handlers_inv(3) [OF p(2)] by (simp add: t agent_step_def timer_fires_def case_prod_beta)
  qed (use i in \<open>simp_all add: t agent_step_def agent_start_def agent_stop_def frameSink_def agent_inv_frame Let_def\<close>)
qed

interpretation agent: invariant_machine agent_step "agent_inv img v tm h" for img v tm h
  by unfold_locales (rule agent_step_inv)

lemma agent_inv_new: "agent_inv img v tm h (agent_new img v tm h stops, [])"
  by (auto simp: agent_inv_def agent_new_def terminal_def ota_run_def ota_new_def stage_def intro!: exI [of _ "[]"])

section \<open>Properties\<close>



text \<open>A stopped agent, and an agent that ran a handler.\<close>

definition silenced :: "OtaAgent \<Rightarrow> bool" where
  "silenced a = (ag_started a \<and> \<not> ag_running a \<and> \<not> ag_serving a)"

lemma silenced_step: "silenced (fst t) \<Longrightarrow> silenced (fst (agent_step t op)) \<and> snd (agent_step t op) = snd t"
  by (cases op) (simp_all add: silenced_def agent_step_def agent_start_def agent_stop_def frameSink_def run_agent_task_def timer_fires_def)

lemma silenced_run: "silenced (fst t) \<Longrightarrow> snd (foldl agent_step t ops) = snd t"
proof (induction ops arbitrary: t)
  case (Cons op ops)
  then show ?case using silenced_step [OF Cons.prems, of op] Cons.IH [of "agent_step t op"] by simp
qed simp

text \<open>While the agent runs and is not yet served, or serves and has been started.\<close>

definition agent_flags :: "OtaAgent \<Rightarrow> bool" where
  "agent_flags a = ((ag_serving a \<longrightarrow> ag_started a) \<and> (ag_running a \<longleftrightarrow> ag_serving a))"

lemma drive_flags: "agent_flags a \<Longrightarrow> agent_flags (fst (snd (drive link call a)))"
  by (auto simp: agent_flags_def drive_def doSend_def publishProgress_def fireDoneIfTerminal_def Let_def split: prod.split)

lemma flags_step: "agent_flags (fst t) \<Longrightarrow> agent_flags (fst (agent_step t op))"
proof -
  assume i: "agent_flags (fst t)"
  have d: "agent_flags (fst (snd (drive link call (fst t\<lparr>ag_posted := x\<rparr>))))"
    "agent_flags (fst (snd (drive link call (fst t\<lparr>ag_tick_armed := y\<rparr>))))" for link call x y
    using i by (auto intro!: drive_flags) (auto simp: agent_flags_def)
  have s: "agent_flags (scheduleTick a) = agent_flags a" for a by (simp add: agent_flags_def scheduleTick_def)
  show ?thesis
  proof (cases op)
    case (RunTask link now)
    then show ?thesis using i d s
      by (auto simp: agent_step_def run_agent_task_def beginUpdate_def agent_onFrame_def case_prod_beta
          split: list.split agent_task.split) (simp_all add: agent_flags_def)
  next
    case (TimerFires link now)
    then show ?thesis using i d s
      by (auto simp: agent_step_def timer_fires_def agent_onTick_def case_prod_beta) (simp_all add: agent_flags_def)
  qed (use i in \<open>auto simp: agent_flags_def agent_step_def agent_start_def agent_stop_def frameSink_def Let_def\<close>)
qed

interpretation flags: invariant_machine agent_step "\<lambda>t. agent_flags (fst t)"
  by unfold_locales (rule flags_step)

text \<open>
  C27. The outcome is reported once. In every interleaving \<^verbatim>\<open>onDone\<close> has been called exactly once
  when the update has finished or failed, with the progress everybody reads from then on, and not before; and
  once \<^verbatim>\<open>stop\<close> has returned on a started agent, nothing is sent or reported any more, whatever arrives.
\<close>

theorem outcome_reported_once:
  assumes "(a, evs) = foldl agent_step (agent_new img v tm True stops, []) ops"
  shows "done_calls evs = (if pr_stage (ag_progress a) \<in> {Done, Failed} then [ag_progress a] else []) \<and>
    (ag_started a \<longrightarrow> snd (foldl agent_step (agent_step (a, evs) AgentStop) more_ops) = evs)"
proof -
  have "agent_inv img v tm True (a, evs)"
    unfolding assms by (rule agent.all_ops.inv_run) (simp_all add: agent_inv_new)
  then have "done_calls evs = (if pr_stage (ag_progress a) \<in> {Done, Failed} then [ag_progress a] else [])"
    by (auto simp: agent_inv_def progress_of_def terminal_def)
  moreover have "agent_flags (fst (a, evs))"
    unfolding assms by (rule flags.all_ops.inv_run) (simp_all add: agent_flags_def agent_new_def)
  then have "ag_started a \<Longrightarrow> silenced (fst (agent_step (a, evs) AgentStop))"
    by (auto simp: silenced_def agent_flags_def agent_step_def agent_stop_def)
  then have "ag_started a \<Longrightarrow> snd (foldl agent_step (agent_step (a, evs) AgentStop) more_ops) = evs"
    using silenced_run [of "agent_step (a, evs) AgentStop" more_ops] by (simp add: agent_step_def)
  ultimately show ?thesis by blast
qed

theorem outcome_reported_once_witness:
  "let t = foldl agent_step (agent_new [] 7 defaultTiming True True, []) [AgentStart False, RunTask (\<lambda>_. True) 0]
   in length (done_calls (snd t)) = 1 \<and> snd (foldl agent_step (agent_step t AgentStop) [FrameArrives (info_frame 9 7 0 0), RunTask (\<lambda>_. True) 5]) = snd t"
proof -
  let ?t = "foldl agent_step (agent_new [] 7 defaultTiming True True, []) [AgentStart False, RunTask (\<lambda>_. True) 0]"
  have "ag_started (fst ?t)" "pr_stage (ag_progress (fst ?t)) = Failed" by code_simp+
  then show ?thesis
    using outcome_reported_once [OF surjective_pairing [symmetric], of "[]" 7 defaultTiming True
        "[AgentStart False, RunTask (\<lambda>_. True) 0]" "[FrameArrives (info_frame 9 7 0 0), RunTask (\<lambda>_. True) 5]"]
    by (simp add: Let_def)
qed

end
