(* ===== verification/TcpBackend.thy ===== *)
theory TcpBackend
  imports ProductSerializers SerialFrameParser "HOL-Library.Sublist"
begin

text \<open>
  \<^verbatim>\<open>integration/TcpBackend.cpp\<close> and \<^verbatim>\<open>integration/StatusJson.cpp\<close>: the line-oriented command protocol over
  TCP. The command dispatcher is a function to the answer, the calls made to the production model and
  whether the connection stays open; the server is a state machine whose steps are the calls of its owner,
  what the network does, and one turn of the connection loop, so that every cut of the incoming bytes and
  every interleaving with the other threads is a sequence of steps. Sockets are the environment; the text
  nlohmann-json prints for a value is an argument.

  The theorems: a connection is exactly the session of its command lines, however the bytes arrive; the
  product listing is read back by the JSON reader of the program, exactly for the texts without runs of
  white space; a silent client keeps every other client and a pending \<^verbatim>\<open>stop\<close> waiting.
\<close>

section \<open>Texts\<close>

definition trim :: "string \<Rightarrow> string" where
  "trim s = rev (dropWhile isspace (rev (dropWhile isspace s)))"

function tokenize :: "string \<Rightarrow> string list" where
  "tokenize line =
     (let w = dropWhile isspace line in
      if w = [] then [] else takeWhile (\<lambda>c. \<not> isspace c) w # tokenize (dropWhile (\<lambda>c. \<not> isspace c) w))"
  by pat_completeness auto
termination
proof (relation "measure length", simp)
  fix line w assume w: "w = dropWhile isspace line" "w \<noteq> []"
  then obtain c r where c: "w = c # r" by (meson list.exhaust)
  then have "\<not> isspace c" using hd_dropWhile [of isspace line] w by (metis list.sel(1))
  with c have "length (dropWhile (\<lambda>c. \<not> isspace c) w) \<le> length r" by (simp add: length_dropWhile_le)
  also have "length r < length line" using c w(1) length_dropWhile_le [of isspace line] by simp
  finally show "(dropWhile (\<lambda>c. \<not> isspace c) w, line) \<in> measure length" by simp
qed

declare tokenize.simps [simp del]

definition parseId :: "string \<Rightarrow> u32 option" where
  "parseId s = (case from_chars_u32 s of Parsed v rest \<Rightarrow> if rest \<noteq> [] then None else Some v | _ \<Rightarrow> None)"

text \<open>The line of a product: the array the file export writes, without its brackets, white space collapsed.\<close>

fun collapse :: "bool \<Rightarrow> string \<Rightarrow> string" where
  "collapse prevSpace [] = []"
| "collapse prevSpace (c # r) =
     (let c = (if c = lf \<or> c = cr \<or> c = CHR 0x09 then CHR '' '' else c) in
      if c = CHR '' '' then (if prevSpace then collapse prevSpace r else c # collapse True r)
      else c # collapse False r)"

definition productToJsonLine :: "Product \<Rightarrow> string" where
  "productToJsonLine p =
     (let body = json_writeProducts [p];
          body = (if body \<noteq> [] \<and> hd body = CHR ''['' then tl body else body);
          body = rev (dropWhile (\<lambda>c. c = lf \<or> c = CHR '']'') (rev body))
      in trim (collapse False body))"

text \<open>\<^verbatim>\<open>buildStatusJson\<close>; a JSON value of the third-party library, whose text is an argument.\<close>

datatype json = JString string | JBool bool | JObject "(string \<times> json) list"

definition systemStateName :: "SystemState \<Rightarrow> string" where
  "systemStateName st = (case st of IDLE \<Rightarrow> ''idle'' | RUNNING \<Rightarrow> ''running'' | ERROR \<Rightarrow> ''error'' | CALIBRATION \<Rightarrow> ''calibration'')"

definition buildStatusJson :: "SystemState \<Rightarrow> json" where
  "buildStatusJson st = JObject [(''state'', JString (systemStateName st)), (''running'', JBool (st = RUNNING))]"

definition help_text :: string where
  "help_text =
     ''Available commands:'' @ [lf] @
     ''  status                    JSON snapshot (running, equipment count)'' @ [lf] @
     ''  products                  count line, then N JSON product objects'' @ [lf] @
     ''  eq <id> on|off            toggle equipment (id is unsigned int)'' @ [lf] @
     ''  production start|stop|reset'' @ [lf] @
     ''  help                      this banner'' @ [lf] @
     ''  quit                      close the connection'' @ [lf]"

section \<open>Commands\<close>

text \<open>The commands \<^verbatim>\<open>eq\<close> and \<^verbatim>\<open>production\<close>: the answer, and the calls made to the production model.\<close>

definition eq_command :: "string list \<Rightarrow> string \<times> 'cb sim_op list" where
  "eq_command args =
     (case args of [idText, sw] \<Rightarrow>
        (case parseId idText of
           None \<Rightarrow> (''ERR bad id (expected unsigned integer)'' @ [lf], [])
         | Some i \<Rightarrow>
             if sw = ''on'' then (''OK'' @ [lf], [SEnable i True])
             else if sw = ''off'' then (''OK'' @ [lf], [SEnable i False])
             else (''ERR expected on|off'' @ [lf], []))
      | _ \<Rightarrow> (''ERR usage: eq <id> on|off'' @ [lf], []))"

definition production_command :: "string list \<Rightarrow> string \<times> 'cb sim_op list" where
  "production_command args =
     (case args of [sub] \<Rightarrow>
        if sub = ''start'' then (''OK'' @ [lf], [SStart])
        else if sub = ''stop'' then (''OK'' @ [lf], [SStop])
        else if sub = ''reset'' then (''OK'' @ [lf], [SReset])
        else (''ERR expected start|stop|reset'' @ [lf], [])
      | _ \<Rightarrow> (''ERR usage: production start|stop|reset'' @ [lf], []))"

text \<open>Whether the connection stays open, the answer, and the calls; \<^const>\<open>None\<close>: the product repository threw.\<close>

definition dispatchCommand ::
    "(json \<Rightarrow> string) \<Rightarrow> Product list option \<Rightarrow> SystemState \<Rightarrow> string \<Rightarrow> (bool \<times> string \<times> 'cb sim_op list) option" where
  "dispatchCommand dump products st line =
     (case tokenize line of
        [] \<Rightarrow> Some (True, ''ERR empty command'' @ [lf], [])
      | cmd # args \<Rightarrow>
          if cmd = ''quit'' \<or> cmd = ''exit'' then Some (False, ''BYE'' @ [lf], [])
          else if cmd = ''help'' then Some (True, help_text, [])
          else if cmd = ''status'' then Some (True, dump (buildStatusJson st) @ [lf], [])
          else if cmd = ''products'' then
            (case products of None \<Rightarrow> None
             | Some ps \<Rightarrow> Some (True, nat_str (length ps) @ [lf] @ concat (map (\<lambda>p. productToJsonLine p @ [lf]) ps), []))
          else if cmd = ''eq'' then Some (True, eq_command args)
          else if cmd = ''production'' then Some (True, production_command args)
          else Some (True, ''ERR unknown command: '' @ cmd @ [lf], []))"

text \<open>The calls, on the model behind the interface; the rounding of the model's arithmetic is an argument.\<close>

definition call_model :: "(real \<Rightarrow> real) \<Rightarrow> 'cb sim_op list \<Rightarrow> 'cb SimulatedModel \<Rightarrow> 'cb SimulatedModel" where
  "call_model rf ops m = foldl (\<lambda>m op. fst (sim_exec rf m op)) m ops"

section \<open>The server\<close>

text \<open>\<open>tb_client\<close>: the bytes read and not yet consumed on the connection being served, \<open>tb_backlog\<close>: clients
  that connected and are not accepted yet, \<open>tb_accepting\<close>: the accept loop is armed or serving,
  \<open>tb_stopping\<close>: a \<^verbatim>\<open>stop\<close> that is waiting for the worker thread.\<close>

record 'cb TcpBackend =
  tb_running :: bool
  tb_boundPort :: u16
  tb_activeClients :: nat
  tb_accepting :: bool
  tb_client :: "string option"
  tb_backlog :: nat
  tb_stopping :: bool
  tb_production :: "'cb SimulatedModel"

definition tcp_new :: "'cb SimulatedModel \<Rightarrow> 'cb TcpBackend" where
  "tcp_new m = \<lparr>tb_running = False, tb_boundPort = 0, tb_activeClients = 0, tb_accepting = False, tb_client = None,
     tb_backlog = 0, tb_stopping = False, tb_production = m\<rparr>"

text \<open>\<^verbatim>\<open>start\<close>, when no \<^verbatim>\<open>stop\<close> is under way: \<open>bind\<close> is the port the system gave, \<^const>\<open>None\<close> when an acceptor call
  throws. The flag: whether it returned.\<close>

definition tcp_start :: "u16 option \<Rightarrow> 'cb TcpBackend \<Rightarrow> bool \<times> 'cb TcpBackend" where
  "tcp_start bind st =
     (if tb_running st then (True, st)
      else case bind of
          None \<Rightarrow> (False, st\<lparr>tb_running := False\<rparr>)
        | Some p \<Rightarrow> (True, st\<lparr>tb_running := True, tb_boundPort := p, tb_accepting := True, tb_backlog := 0\<rparr>))"

text \<open>The end of \<^verbatim>\<open>stopImpl\<close>, once the worker thread has ended: the context and with it the acceptor are
  replaced.\<close>

definition finish_stop :: "'cb TcpBackend \<Rightarrow> 'cb TcpBackend" where
  "finish_stop st =
     (if tb_stopping st \<and> tb_client st = None
      then st\<lparr>tb_stopping := False, tb_boundPort := 0, tb_accepting := False, tb_backlog := 0\<rparr> else st)"

definition tcp_stop :: "'cb TcpBackend \<Rightarrow> 'cb TcpBackend" where
  "tcp_stop st = (if \<not> tb_running st then st else finish_stop (st\<lparr>tb_running := False, tb_stopping := True\<rparr>))"

text \<open>A completed accept: a context that is stopped runs no handler.\<close>

definition accept_next :: "'cb TcpBackend \<Rightarrow> 'cb TcpBackend" where
  "accept_next st =
     (if tb_accepting st \<and> \<not> tb_stopping st \<and> tb_client st = None \<and> 0 < tb_backlog st
      then st\<lparr>tb_client := Some [], tb_activeClients := tb_activeClients st + 1, tb_backlog := tb_backlog st - 1\<rparr> else st)"

text \<open>\<^verbatim>\<open>handleConnection\<close> returns: the guard counts down, the socket closes, the next accept is armed.\<close>

definition close_client :: "'cb TcpBackend \<Rightarrow> 'cb TcpBackend" where
  "close_client st = accept_next (finish_stop (st\<lparr>tb_client := None, tb_activeClients := tb_activeClients st - 1\<rparr>))"

definition strip_cr :: "string \<Rightarrow> string" where
  "strip_cr line = (if line \<noteq> [] \<and> last line = cr then butlast line else line)"

text \<open>One turn of the loop, from \<^verbatim>\<open>read_until\<close> on to the test of the loop condition; with no complete line
  \<^verbatim>\<open>read_until\<close> keeps waiting. An exception ends the worker thread. The answer written, if any.\<close>

definition serve_turn ::
    "(json \<Rightarrow> string) \<Rightarrow> Product list option \<Rightarrow> bool \<Rightarrow> 'cb TcpBackend \<Rightarrow> 'cb TcpBackend \<times> string list" where
  "serve_turn dump products write_ok st =
     (case tb_client st of None \<Rightarrow> (st, [])
      | Some buf \<Rightarrow>
          (case next_line buf of None \<Rightarrow> (st, [])
           | Some (raw, rest) \<Rightarrow>
               let line = trim (strip_cr raw); st = st\<lparr>tb_client := Some rest\<rparr> in
               if line = [] then (if tb_running st then st else close_client st, [])
               else case dispatchCommand dump products (getState (tb_production st)) line of
                   None \<Rightarrow> (finish_stop (st\<lparr>tb_client := None, tb_activeClients := tb_activeClients st - 1, tb_running := False,
                             tb_accepting := False\<rparr>), [])
                 | Some (keepOpen, response, calls) \<Rightarrow>
                     let st = st\<lparr>tb_production := call_model id calls (tb_production st)\<rparr> in
                     if \<not> write_ok then (close_client st, [])
                     else (if keepOpen \<and> tb_running st then st else close_client st, [response])))"

definition tcp_connectionState :: "'cb TcpBackend \<Rightarrow> BackendState" where
  "tcp_connectionState st =
     (if \<not> tb_running st then BackendDisconnected
      else if tb_activeClients st = 0 then BackendConnecting else BackendConnected)"

definition tcp_metricsSummary :: "'cb TcpBackend \<Rightarrow> string" where
  "tcp_metricsSummary st = ''port '' @ nat_str (unat (tb_boundPort st)) @ '' | '' @ nat_str (tb_activeClients st) @ '' clients''"

datatype 'cb tcp_op =
    TcpStart "u16 option" | TcpStop | ClientConnects | AcceptFails | Received string | ClientGone
  | ServeTurn "Product list option" bool | ModelCalled "real \<Rightarrow> real" "'cb sim_op"

fun tcp_exec :: "(json \<Rightarrow> string) \<Rightarrow> 'cb TcpBackend \<Rightarrow> 'cb tcp_op \<Rightarrow> 'cb TcpBackend \<times> string list" where
  "tcp_exec dump st (TcpStart bind) = (if tb_stopping st then st else snd (tcp_start bind st), [])"
| "tcp_exec dump st TcpStop = (tcp_stop st, [])"
| "tcp_exec dump st ClientConnects = (if tb_boundPort st = 0 then st else accept_next (st\<lparr>tb_backlog := tb_backlog st + 1\<rparr>), [])"
| "tcp_exec dump st AcceptFails = (if tb_client st = None then st\<lparr>tb_accepting := False\<rparr> else st, [])"
| "tcp_exec dump st (Received bytes) = (st\<lparr>tb_client := map_option (\<lambda>buf. buf @ bytes) (tb_client st)\<rparr>, [])"
| "tcp_exec dump st ClientGone = (if tb_client st = None then st else close_client st, [])"
| "tcp_exec dump st (ServeTurn products write_ok) = serve_turn dump products write_ok st"
| "tcp_exec dump st (ModelCalled rf op) = (st\<lparr>tb_production := call_model rf [op] (tb_production st)\<rparr>, [])"

text \<open>The server and the answers it has written.\<close>

definition tcp_step :: "(json \<Rightarrow> string) \<Rightarrow> 'cb TcpBackend \<times> string list \<Rightarrow> 'cb tcp_op \<Rightarrow> 'cb TcpBackend \<times> string list" where
  "tcp_step dump t op = (fst (tcp_exec dump (fst t) op), snd t @ snd (tcp_exec dump (fst t) op))"

section \<open>The product listing\<close>

text \<open>What the collapsing of white space does to a text: runs of spaces become one space. Other white space is
  escaped before.\<close>

fun squeeze :: "bool \<Rightarrow> string \<Rightarrow> string" where
  "squeeze prev [] = []"
| "squeeze prev (c # r) =
     (if c = CHR '' '' then (if prev then squeeze prev r else c # squeeze True r) else c # squeeze False r)"

definition squeezed :: "Product \<Rightarrow> Product" where
  "squeezed p = p\<lparr>productCode := squeeze False (productCode p), prod_name := squeeze False (prod_name p),
     prod_status := squeeze False (prod_status p)\<rparr>"

lemma collapse_append: "collapse b (xs @ ys) = collapse b xs @ collapse (if xs = [] then b else json_ws (last xs)) ys"
  by (induction xs arbitrary: b) (auto simp: Let_def json_ws_def)

lemma collapse_plain: "list_all (\<lambda>c. \<not> json_ws c) xs \<Longrightarrow> collapse b xs = xs"
  by (induction xs arbitrary: b) (auto simp: Let_def json_ws_def)

lemma escape_char_plain: "c \<noteq> CHR '' '' \<Longrightarrow> list_all (\<lambda>c. \<not> json_ws c) (escape_char c) \<and> escape_char c \<noteq> []"
proof -
  assume "c \<noteq> CHR '' ''"
  moreover have "\<not> json_ws (hex_char n)" if "n < 16" for n
  proof -
    have "ch_code (hex_char n) \<ge> 48" using that by (simp add: hex_char_def ch_code_def)
    moreover have "json_ws d \<Longrightarrow> ch_code d \<le> 32" for d by (auto simp: json_ws_def ch_code_def)
    ultimately show ?thesis by fastforce
  qed
  moreover have "ch_code c < 32 \<Longrightarrow> ch_code c div 16 < 16" by simp
  ultimately show ?thesis by (auto simp: escape_char_def json_ws_def)
qed

lemma collapse_escaped: "collapse b (escapeString s) = escapeString (squeeze b s)"
proof (induction s arbitrary: b)
  case (Cons c s)
  show ?case
  proof (cases "c = CHR '' ''")
    case True
    then have "escape_char c = [c]" by (simp add: escape_char_def ch_code_def)
    then show ?thesis using Cons True by (simp add: escapeString_def)
  next
    case False
    note e = escape_char_plain [OF False]
    then have "\<not> json_ws (last (escape_char c))" by (auto simp: list_all_iff)
    then show ?thesis using False e Cons [of False] by (simp add: escapeString_def collapse_append collapse_plain)
  qed
qed (simp add: escapeString_def)

text \<open>The line of a product whose texts are squeezed already.\<close>

definition flat_member :: "string \<Rightarrow> string \<Rightarrow> string" where
  "flat_member key v = '' '' @ quoted key @ '': '' @ v"

definition flat_line :: "Product \<Rightarrow> string" where
  "flat_line p = ''{'' @ flat_member ''productCode'' (quoted (escapeString (productCode p))) @ '','' @
     flat_member ''name'' (quoted (escapeString (prod_name p))) @ '','' @
     flat_member ''status'' (quoted (escapeString (prod_status p))) @ '','' @
     flat_member ''stock'' (int_str (stock p)) @ '','' @
     flat_member ''qualityRate'' (fmtRate (qualityRate p)) @ '' }''"

lemma collapse_quoted: "collapse b (quoted (escapeString s) @ r) = quoted (escapeString (squeeze False s)) @ collapse False r"
  by (auto simp: quoted_def collapse_append collapse_escaped json_ws_def Let_def)

lemma collapse_member:
  assumes "list_all (\<lambda>c. \<not> json_ws c) key"
  shows "collapse False (lf # json_line key v) = '' '' @ quoted key @ '': '' @ collapse True v"
  using assms by (simp add: json_line_def quoted_def collapse_append collapse_plain json_ws_def list_all_iff Let_def)

lemma number_plain: "list_all (\<lambda>c. \<not> json_ws c) (int_str i)" "list_all (\<lambda>c. \<not> json_ws c) (fmtRate v)"
  "int_str i \<noteq> []" "fmtRate v \<noteq> []"
proof -
  have n: "number_char c \<Longrightarrow> \<not> json_ws c" for c by (auto simp: number_char_def isdigit_def json_ws_def ch_code_def)
  show "list_all (\<lambda>c. \<not> json_ws c) (int_str i)" using written_numbers(1) [of i] n by (auto simp: list_all_iff)
  show "list_all (\<lambda>c. \<not> json_ws c) (fmtRate v)"
    using written_numbers(3) n by (cases v) (auto simp: fmtRate_def list_all_iff json_ws_def)
  show "int_str i \<noteq> []" "fmtRate v \<noteq> []" using written_numbers(2,4) by (auto simp: fmtRate_def split: flt.splits)
qed

lemma collapse_number:
  assumes "list_all (\<lambda>c. \<not> json_ws c) n" and "n \<noteq> []"
  shows "collapse b (n @ r) = n @ collapse False r"
  using assms by (simp add: collapse_append collapse_plain list_all_iff)

lemma productToJsonLine_flat: "productToJsonLine p = flat_line (squeezed p)"
proof -
  have body: "rev (dropWhile (\<lambda>c. c = lf \<or> c = CHR '']'') (rev (lf # json_object p @ [lf] @ '']'' @ [lf]))) = lf # json_object p"
    by (simp add: json_object_def)
  have "collapse False (lf # json_object p) = '' '' @ flat_line (squeezed p)"
  proof -
    have "collapse False (lf # ''  {'' @ r) = '' {'' @ collapse False r" for r by (simp add: Let_def)
    moreover have "lf # json_object p = lf # ''  {'' @ object_body p []" using json_object_body [of p "[]"] by simp
    moreover have "collapse False (lf # ''  }'') = '' }''" by (simp add: Let_def)
    moreover have "collapse False (CHR '','' # r) = CHR '','' # collapse False r" for r by (simp add: Let_def)
    ultimately show ?thesis
      by (simp add: object_body_def collapse_member json_ws_def collapse_quoted collapse_number [OF number_plain(1,3)]
          collapse_number [OF number_plain(2,4)] flat_line_def flat_member_def squeezed_def
          del: collapse.simps)
  qed
  moreover have "trim ('' '' @ flat_line q) = flat_line q" for q
    by (simp add: trim_def flat_line_def isspace_def ch_code_def)
  ultimately show ?thesis using body by (simp add: productToJsonLine_def json_writeProducts_def Let_def)
qed

lemma flat_members:
  assumes "list_all (\<lambda>c. ch_code c \<ge> 32 \<and> c \<noteq> quote \<and> c \<noteq> backslash) key"
  shows "members rnd True q (flat_member key v) =
      (case member_value rnd q key (skipWs v) of Inl e \<Rightarrow> Inl e | Inr (q', r) \<Rightarrow> members rnd False q' r)"
    and "members rnd False q (CHR '','' # flat_member key v) =
      (case member_value rnd q key (skipWs v) of Inl e \<Rightarrow> Inl e | Inr (q', r) \<Rightarrow> members rnd False q' r)"
  using parse_member_line [OF assms, of rnd q v]
  by (subst members.simps, simp add: flat_member_def quoted_def expect_def)+

lemma flat_rate:
  assumes "in_range rnd p" and "finite_rate p"
  shows "member_value rnd q ''qualityRate'' (skipWs (fmtRate (qualityRate p) @ CHR '' '' # r)) =
    Inr (q\<lparr>im_qualityRate := im_qualityRate (imported rnd p)\<rparr>, CHR '' '' # r)"
proof -
  obtain x where x: "qualityRate p = Fin x" using assms(2) by (auto simp: finite_rate_def split: flt.splits)
  have "stof rnd (fixed_str 1 x) = im_qualityRate (imported rnd p)" using stof_fmtRate [OF assms(1)] x by (simp add: fmtRate_def)
  moreover have "\<not> number_char (CHR '' '')" by (simp add: number_char_def isdigit_def ch_code_def)
  ultimately show ?thesis using x number_taken [OF written_numbers(3,4), of "CHR '' ''" x r]
    by (simp add: member_value_def fmtRate_def imported_def)
qed

lemma flat_line_read:
  assumes "in_range rnd p" and "json_ok p"
  shows "json_readProducts rnd (CHR ''['' # flat_line p @ '']'') = Inr [imported rnd p]"
proof -
  have k: "list_all (\<lambda>c. ch_code c \<ge> 32 \<and> c \<noteq> quote \<and> c \<noteq> backslash) key"
    if "key \<in> {''productCode'', ''name'', ''status'', ''stock'', ''qualityRate''}" for key
    using that by (elim insertE emptyE) (simp_all add: ch_code_def)
  have a: "flat_member key v @ r = flat_member key (v @ r)" for key v r by (simp add: flat_member_def)
  have e: "members rnd False q ('' }'' @ r) = Inr (q, r)" for q r by (subst members.simps) simp
  have "finite_rate p" using assms(2) by (simp add: json_ok_def)
  note rate = flat_rate [OF assms(1) this, of _ "''}]''"] and ml = flat_members [OF k]
  have m: "members rnd True unassigned (tl (flat_line p) @ '']'') = Inr (imported rnd p, '']'')"
    using assms(2) rate e [of _ "'']''"] written_values written_stock [OF assms(1)]
    by (simp add: flat_line_def a ml json_ok_def imported_def unassigned_def)
  have f: "flat_line p = CHR ''{'' # tl (flat_line p)" by (simp add: flat_line_def)
  have "objects rnd [] (CHR ''{'' # tl (flat_line p) @ '']'') = Inr [imported rnd p]"
    by (subst objects.simps) (simp add: expect_def m)
  moreover have "json_readProducts rnd (CHR ''['' # CHR ''{'' # r) = objects rnd [] (CHR ''{'' # r)" for r
    by (simp add: json_readProducts_def expect_def)
  ultimately show ?thesis by (subst f) simp
qed

section \<open>Sessions\<close>

text \<open>The lines of a text that are complete, and the commands among them.\<close>

function complete_lines :: "string \<Rightarrow> string list" where
  "complete_lines s = (case next_line s of None \<Rightarrow> [] | Some (line, rest) \<Rightarrow> line # complete_lines rest)"
  by pat_completeness auto
termination by (relation "measure length") (auto dest: next_line_shorter)

declare complete_lines.simps [simp del]

definition commands_in :: "string list \<Rightarrow> string list" where
  "commands_in lines = filter (\<lambda>l. l \<noteq> []) (map (\<lambda>l. trim (strip_cr l)) lines)"

text \<open>A session on command lines: whether the connection is still open, the answers, the model.\<close>

fun session_on :: "(json \<Rightarrow> string) \<Rightarrow> Product list \<Rightarrow> 'cb SimulatedModel \<Rightarrow> string list \<Rightarrow> bool \<times> string list \<times> 'cb SimulatedModel" where
  "session_on dump ps m [] = (True, [], m)"
| "session_on dump ps m (l # ls) =
     (case dispatchCommand dump (Some ps) (getState m) l of None \<Rightarrow> (True, [], m)
      | Some (keepOpen, response, calls) \<Rightarrow>
          if keepOpen then
            (case session_on dump ps (call_model id calls m) ls of (k, outs, m') \<Rightarrow> (k, response # outs, m'))
          else (False, [response], call_model id calls m))"

lemma dispatch_some: "\<exists>k r cs. dispatchCommand dump (Some ps) st l = Some (k, r, cs)"
  unfolding dispatchCommand_def by (cases "tokenize l"; simp; metis surj_pair)

lemma session_append:
  fixes m :: "'cb SimulatedModel"
  shows "session_on dump ps m (xs @ ys) =
     (case session_on dump ps m xs of (k, outs, m') \<Rightarrow>
        if k then (case session_on dump ps m' ys of (k', outs', m'') \<Rightarrow> (k', outs @ outs', m'')) else (False, outs, m'))"
proof (induction xs arbitrary: m)
  case (Cons l ls)
  obtain k r and cs :: "'cb sim_op list" where "dispatchCommand dump (Some ps) (getState m) l = Some (k, r, cs)"
    using dispatch_some by blast
  then show ?case using Cons by (cases k) (auto split: prod.splits)
qed (auto split: prod.splits)

lemma complete_lines_rest: "kFrameDelimiter \<notin> set rest \<Longrightarrow> complete_lines rest = []"
  by (subst complete_lines.simps) (simp add: next_line_None [THEN iffD2])

lemma complete_lines_Cons:
  "kFrameDelimiter \<notin> set l \<Longrightarrow> complete_lines (l @ kFrameDelimiter # r) = l # complete_lines r"
  by (subst complete_lines.simps) (simp add: next_line_Some [THEN iffD2])

definition unlines :: "string list \<Rightarrow> string" where
  "unlines ls = concat (map (\<lambda>l. l @ [kFrameDelimiter]) ls)"

lemma complete_lines_unlines:
  "\<forall>l\<in>set ls. kFrameDelimiter \<notin> set l \<Longrightarrow> complete_lines (unlines ls @ r) = ls @ complete_lines r"
  by (induction ls) (simp_all add: unlines_def complete_lines_Cons)

text \<open>The steps of one connection: bytes arrive, the loop turns; nobody stops the server and no write
  fails.\<close>

fun serving_op :: "Product list \<Rightarrow> 'cb tcp_op \<Rightarrow> bool" where
  "serving_op ps (Received bytes) = True"
| "serving_op ps (ServeTurn products write_ok) = (products = Some ps \<and> write_ok)"
| "serving_op ps _ = False"

fun received :: "'cb tcp_op \<Rightarrow> string" where
  "received (Received bytes) = bytes"
| "received _ = []"

text \<open>What holds along the way: the lines \<open>ls\<close> are consumed, \<open>rest\<close> is not.\<close>

definition in_session ::
    "(json \<Rightarrow> string) \<Rightarrow> Product list \<Rightarrow> 'cb SimulatedModel \<Rightarrow> string \<Rightarrow> 'cb TcpBackend \<times> string list \<Rightarrow> bool" where
  "in_session dump ps m got t =
     (\<exists>ls rest. got = unlines ls @ rest \<and> (\<forall>l\<in>set ls. kFrameDelimiter \<notin> set l) \<and>
        tb_running (fst t) \<and> \<not> tb_stopping (fst t) \<and> tb_backlog (fst t) = 0 \<and>
        (case session_on dump ps m (commands_in ls) of (k, outs, m') \<Rightarrow>
           snd t = outs \<and> tb_production (fst t) = m' \<and> tb_client (fst t) = (if k then Some rest else None)))"

lemma close_quiet:
  "\<not> tb_stopping st \<Longrightarrow> tb_backlog st = 0 \<Longrightarrow>
     close_client st = st\<lparr>tb_client := None, tb_activeClients := tb_activeClients st - 1\<rparr>"
  by (simp add: close_client_def finish_stop_def accept_next_def)

lemma turn_taken:
  fixes st :: "'cb TcpBackend" and cs :: "'cb sim_op list"
  assumes "tb_client st = Some buf" and "next_line buf = Some (raw, rest)" and "trim (strip_cr raw) = l" and "l \<noteq> []"
    and "dispatchCommand dump (Some ps) (getState (tb_production st)) l = Some (k, resp, cs)" and "tb_running st"
  shows "serve_turn dump (Some ps) True st =
    (let st = st\<lparr>tb_client := Some rest, tb_production := call_model id cs (tb_production st)\<rparr> in
     (if k then st else close_client st, [resp]))"
  using assms by (simp add: serve_turn_def Let_def)

lemma in_session_step:
  fixes m :: "'cb SimulatedModel"
  assumes "in_session dump ps m got t" and "serving_op ps op"
  shows "in_session dump ps m (got @ received op) (tcp_step dump t op)"
proof -
  obtain ls rest where i0: "got = unlines ls @ rest" "\<forall>l\<in>set ls. kFrameDelimiter \<notin> set l"
    "tb_running (fst t)" "\<not> tb_stopping (fst t)" "tb_backlog (fst t) = 0"
    "case session_on dump ps m (commands_in ls) of (k, outs, m') \<Rightarrow>
      snd t = outs \<and> tb_production (fst t) = m' \<and> tb_client (fst t) = (if k then Some rest else None)"
    using assms(1) unfolding in_session_def by (elim exE conjE) (rule that)
  obtain k outs m' where "session_on dump ps m (commands_in ls) = (k, outs, m')"
    using surj_pair [of "session_on dump ps m (commands_in ls)"] surj_pair by metis
  with i0 have i: "got = unlines ls @ rest" "\<forall>l\<in>set ls. kFrameDelimiter \<notin> set l"
    "tb_running (fst t)" "\<not> tb_stopping (fst t)" "tb_backlog (fst t) = 0"
    "session_on dump ps m (commands_in ls) = (k, outs, m')" "snd t = outs" "tb_production (fst t) = m'"
    "tb_client (fst t) = (if k then Some rest else None)"
    by simp_all
  show ?thesis
  proof (cases op)
    case (Received bytes)
    with i show ?thesis
      unfolding in_session_def by (intro exI [of _ ls] exI [of _ "rest @ bytes"]) (simp add: tcp_step_def)
  next
    case (ServeTurn products write_ok)
    then have op: "op = ServeTurn (Some ps) True" using assms(2) by simp
    show ?thesis
    proof (cases "k \<and> next_line rest \<noteq> None")
      case False
      then have "k \<Longrightarrow> next_line rest = None" by blast
      then have "serve_turn dump (Some ps) True (fst t) = (fst t, [])" using i(9) by (cases k) (simp_all add: serve_turn_def)
      then have "tcp_step dump t op = t" by (simp add: op tcp_step_def)
      then show ?thesis using assms(1) op by simp
    next
      case True
      then obtain raw rest' where l: "next_line rest = Some (raw, rest')" by auto
      then have r: "kFrameDelimiter \<notin> set raw" "rest = raw @ kFrameDelimiter # rest'" by (simp_all add: next_line_Some)
      let ?l = "trim (strip_cr raw)"
      have u: "got = unlines (ls @ [raw]) @ rest'" "\<forall>l\<in>set (ls @ [raw]). kFrameDelimiter \<notin> set l"
        using i(1,2) r by (simp_all add: unlines_def)
      show ?thesis
      proof (cases "?l = []")
        case empty: True
        have c: "commands_in (ls @ [raw]) = commands_in ls" using empty by (simp add: commands_in_def)
        have "serve_turn dump (Some ps) True (fst t) = ((fst t)\<lparr>tb_client := Some rest'\<rparr>, [])"
          using i(3,9) True l empty by (simp add: serve_turn_def)
        then have "tcp_step dump t op = ((fst t)\<lparr>tb_client := Some rest'\<rparr>, outs)" using i(7) by (simp add: op tcp_step_def)
        then show ?thesis using u i(3-6,8) True op
          unfolding in_session_def
          by (intro exI [of _ "ls @ [raw]"] exI [of _ rest']) (simp add: c)
      next
        case line: False
        obtain k' resp and cs :: "'cb sim_op list" where d: "dispatchCommand dump (Some ps) (getState m') ?l = Some (k', resp, cs)"
          by (metis dispatch_some)
        have c: "commands_in (ls @ [raw]) = commands_in ls @ [?l]" using line by (simp add: commands_in_def)
        have s: "session_on dump ps m (commands_in (ls @ [raw])) = (k', outs @ [resp], call_model id cs m')"
          using True i(6) d by (cases k') (simp_all add: c session_append)
        let ?st = "(fst t)\<lparr>tb_client := Some rest', tb_production := call_model id cs m'\<rparr>"
        have "tcp_step dump t op = (if k' then ?st else close_client ?st, outs @ [resp])"
          using turn_taken [OF _ l refl line, of "fst t" dump ps k' resp cs] i(3,7-9) True d
          by (simp add: op tcp_step_def Let_def)
        then show ?thesis using u s i(3-5) op
          unfolding in_session_def
          by (intro exI [of _ "ls @ [raw]"] exI [of _ rest']) (simp add: close_quiet)
      qed
    qed
  qed (use assms(2) in simp_all)
qed

lemma in_session_run:
  "in_session dump ps m got t \<Longrightarrow> \<forall>op\<in>set ops. serving_op ps op \<Longrightarrow>
     in_session dump ps m (got @ concat (map received ops)) (foldl (tcp_step dump) t ops)"
  by (induction ops arbitrary: t got) (use in_session_step in fastforce)+

section \<open>Properties\<close>

text \<open>
  C30. A connection is the session of its command lines. However the bytes of a client are cut into reads and
  whenever the loop turns, once the connection is closed or no complete line is left, the answers written and
  the state of the model are those of the session on the command lines received: each line trimmed, blank
  lines skipped, one answer per command in order, nothing after the first \<^verbatim>\<open>quit\<close>; and the connection is
  closed exactly when the session has ended.
\<close>

theorem connection_is_session:
  assumes "tb_client st = Some []" and "tb_running st" and "\<not> tb_stopping st" and "tb_backlog st = 0"
    and "\<forall>op\<in>set ops. serving_op ps op" and "(st', outs) = foldl (tcp_step dump) (st, []) ops"
    and "\<forall>buf. tb_client st' = Some buf \<longrightarrow> kFrameDelimiter \<notin> set buf"
  shows "session_on dump ps (tb_production st) (commands_in (complete_lines (concat (map received ops)))) =
    (tb_client st' \<noteq> None, outs, tb_production st')"
proof -
  have "in_session dump ps (tb_production st) [] (st, [])"
    unfolding in_session_def by (intro exI [of _ "[]"]) (use assms(1-4) in \<open>simp add: unlines_def commands_in_def\<close>)
  from in_session_run [OF this assms(5)] have "in_session dump ps (tb_production st) (concat (map received ops)) (st', outs)"
    using assms(6) by simp
  then obtain ls rest where l: "concat (map received ops) = unlines ls @ rest" "\<forall>l\<in>set ls. kFrameDelimiter \<notin> set l"
    "case session_on dump ps (tb_production st) (commands_in ls) of (k, os, m') \<Rightarrow>
      outs = os \<and> tb_production st' = m' \<and> tb_client st' = (if k then Some rest else None)"
    unfolding in_session_def by auto
  obtain k os m' where s: "session_on dump ps (tb_production st) (commands_in ls) = (k, os, m')" by (metis surj_pair)
  have c: "commands_in (complete_lines (concat (map received ops))) = commands_in ls @ commands_in (complete_lines rest)"
    using l(1,2) by (simp add: complete_lines_unlines commands_in_def)
  show ?thesis
  proof (cases k)
    case True
    then have "complete_lines rest = []" using assms(7) l(3) s complete_lines_rest by simp
    then show ?thesis using l(3) s c True by (simp add: commands_in_def)
  next
    case False
    then show ?thesis using l(3) s c by (simp add: session_append)
  qed
qed

definition demo_connection :: "unit TcpBackend" where
  "demo_connection = fst (tcp_exec (\<lambda>_. []) (fst (tcp_exec (\<lambda>_. []) (tcp_new sim_new) (TcpStart (Some 5555)))) ClientConnects)"

definition demo_bytes :: "unit tcp_op list" where
  "demo_bytes = [Received ''eq x '', ServeTurn (Some []) True, Received (''on'' @ [cr, lf] @ ''qu''), ServeTurn (Some []) True,
     Received (''it'' @ [lf] @ ''status'' @ [lf]), ServeTurn (Some []) True]"

lemma demo_texts:
  "next_line ''eq x '' = None" "next_line (''eq x on'' @ [cr, lf] @ ''qu'') = Some (''eq x on'' @ [cr], ''qu'')"
  "next_line (''quit'' @ [lf] @ ''status'' @ [lf]) = Some (''quit'', ''status'' @ [lf])"
  "trim (strip_cr (''eq x on'' @ [cr])) = ''eq x on''" "trim (strip_cr ''quit'') = ''quit''" "trim (strip_cr ''status'') = ''status''"
  "tokenize ''eq x on'' = [''eq'', ''x'', ''on'']" "tokenize ''quit'' = [''quit'']" "parseId ''x'' = None"
  by code_simp+

lemma demo_closed:
  "tb_client (fst (foldl (tcp_step (\<lambda>_. [])) (demo_connection, []) demo_bytes)) = None"
  using demo_texts
  by (simp add: demo_connection_def demo_bytes_def tcp_step_def tcp_new_def tcp_start_def accept_next_def serve_turn_def dispatchCommand_def
      eq_command_def call_model_def close_client_def finish_stop_def Let_def)

theorem connection_is_session_witness:
  "snd (foldl (tcp_step (\<lambda>_. [])) (demo_connection, []) demo_bytes) =
     [''ERR bad id (expected unsigned integer)'' @ [lf], ''BYE'' @ [lf]]"
proof -
  have "complete_lines (concat (map received demo_bytes)) = [''eq x on'' @ [cr], ''quit'', ''status'']" by code_simp
  then have "commands_in (complete_lines (concat (map received demo_bytes))) = [''eq x on'', ''quit'', ''status'']"
    using demo_texts by (simp add: commands_in_def)
  then show ?thesis
    using connection_is_session [of demo_connection demo_bytes "[]" "fst (foldl (tcp_step (\<lambda>_. [])) (demo_connection, []) demo_bytes)"
        "snd (foldl (tcp_step (\<lambda>_. [])) (demo_connection, []) demo_bytes)" "\<lambda>_. []"] demo_closed demo_texts
    by (simp add: demo_connection_def demo_bytes_def tcp_new_def tcp_start_def accept_next_def dispatchCommand_def eq_command_def)
qed

subsection \<open>The listing\<close>

lemma squeeze_set: "set (squeeze b s) \<subseteq> set s"
proof (induction s arbitrary: b)
  case (Cons c r)
  then show ?case using Cons [of True] Cons [of False] by auto
qed simp

lemma squeeze_length: "length (squeeze b s) \<le> length s"
  by (induction s arbitrary: b) (auto intro: le_SucI)

lemma squeeze_id_iff: "squeeze b s = s \<longleftrightarrow> \<not> sublist ''  '' s \<and> \<not> (b \<and> s \<noteq> [] \<and> hd s = CHR '' '')"
proof (induction s arbitrary: b)
  case (Cons c r)
  have "squeeze True r \<noteq> CHR '' '' # r" using squeeze_length [of True r] by (metis impossible_Cons)
  then show ?case using Cons by (cases r) (auto simp: sublist_Cons_right)
qed simp

lemma collapse_no_lf: "lf \<notin> set (collapse b s)"
  by (induction s arbitrary: b) (auto simp: Let_def)

lemma productToJsonLine_no_lf: "lf \<notin> set (productToJsonLine p)"
  using collapse_no_lf by (auto simp: productToJsonLine_def trim_def Let_def dest!: set_dropWhileD)

lemma squeezed_ok: "in_range rnd p \<Longrightarrow> in_range rnd (squeezed p)" "json_ok p \<Longrightarrow> json_ok (squeezed p)"
  using squeeze_set by (fastforce simp: in_range_def json_ok_def squeezed_def finite_rate_def list_ex_iff)+

lemma squeezed_id_iff:
  "squeezed p = p \<longleftrightarrow> (\<forall>t \<in> {productCode p, prod_name p, prod_status p}. \<not> sublist ''  '' t)"
  by (cases p) (simp add: squeezed_def squeeze_id_iff)

text \<open>
  The product listing can be read again. The answer to \<^verbatim>\<open>products\<close> is the number of products and one
  line for each; put between brackets, each line is read by the program's JSON reader as the product, up to
  the runs of spaces in its texts, which have become single spaces: exactly the products without such a run
  come through as they are.
\<close>

theorem product_listing_read_again:
  assumes "list_all (in_range rnd) ps" and "list_all json_ok ps" and "tokenize line = ''products'' # args"
  shows "\<exists>rows. dispatchCommand dump (Some ps) st line =
      Some (True, nat_str (length ps) @ [lf] @ concat (map (\<lambda>r. r @ [lf]) rows), []) \<and>
    list_all (\<lambda>r. lf \<notin> set r) rows \<and>
    map (\<lambda>r. json_readProducts rnd (''['' @ r @ '']'')) rows = map (\<lambda>p. Inr [imported rnd (squeezed p)]) ps \<and>
    list_all (\<lambda>p. (squeezed p = p) = (\<forall>t \<in> {productCode p, prod_name p, prod_status p}. \<not> sublist ''  '' t)) ps"
proof (intro exI [of _ "map productToJsonLine ps"] conjI)
  show "dispatchCommand dump (Some ps) st line =
      Some (True, nat_str (length ps) @ [lf] @ concat (map (\<lambda>r. r @ [lf]) (map productToJsonLine ps)), [])"
    using assms(3) by (simp add: dispatchCommand_def comp_def)
  show "list_all (\<lambda>r. lf \<notin> set r) (map productToJsonLine ps)" using productToJsonLine_no_lf by (simp add: list_all_iff)
  show "map (\<lambda>r. json_readProducts rnd (''['' @ r @ '']'')) (map productToJsonLine ps) = map (\<lambda>p. Inr [imported rnd (squeezed p)]) ps"
    using assms(1,2) flat_line_read [OF squeezed_ok] by (simp add: productToJsonLine_flat list_all_iff)
  show "list_all (\<lambda>p. (squeezed p = p) = (\<forall>t \<in> {productCode p, prod_name p, prod_status p}. \<not> sublist ''  '' t)) ps"
    by (simp only: squeezed_id_iff list_all_iff) blast
qed

theorem product_listing_read_again_witness:
  "\<exists>rows. dispatchCommand (\<lambda>_. []) (Some [sample_product ''A  B'']) IDLE ''products'' =
      Some (True, nat_str 1 @ [lf] @ concat (map (\<lambda>r. r @ [lf]) rows), [] :: unit sim_op list) \<and>
    map (\<lambda>r. json_readProducts exact (''['' @ r @ '']'')) rows = [Inr [imported exact (sample_product ''A B'')]]"
proof -
  have "json_ok (sample_product ''A  B'')" by (simp add: json_ok_def sample_product_def needs_u_def ch_code_def finite_rate_def)
  moreover have "in_range exact (sample_product ''A  B'')" by (rule percentage_in_range(1) [OF sample_product_ok])
  moreover have "tokenize ''products'' = [''products'']" by code_simp
  moreover have "squeezed (sample_product ''A  B'') = sample_product ''A B''" by (simp add: squeezed_def sample_product_def)
  ultimately show ?thesis
    using product_listing_read_again [of exact "[sample_product ''A  B'']" "''products''" "[]" "\<lambda>_. []" IDLE] by auto
qed

section \<open>A silent client\<close>

fun other_op :: "'cb tcp_op \<Rightarrow> bool" where
  "other_op (Received bytes) = False"
| "other_op ClientGone = False"
| "other_op _ = True"

lemma held_step:
  assumes "tb_client (fst t) = Some buf" and "kFrameDelimiter \<notin> set buf" and "other_op op"
  shows "tb_client (fst (tcp_step dump t op)) = Some buf" "snd (tcp_step dump t op) = snd t"
    "tb_activeClients (fst (tcp_step dump t op)) = tb_activeClients (fst t)"
    "tb_stopping (fst t) \<Longrightarrow> tb_stopping (fst (tcp_step dump t op))"
    "tb_running (fst t) \<or> tb_stopping (fst t) \<Longrightarrow> tb_running (fst (tcp_step dump t op)) \<or> tb_stopping (fst (tcp_step dump t op))"
    "tb_running (fst t) \<or> tb_stopping (fst t) \<Longrightarrow> op = TcpStop \<Longrightarrow> tb_stopping (fst (tcp_step dump t op))"
  using assms next_line_None [of buf]
  by (cases op; auto simp: tcp_step_def tcp_start_def tcp_stop_def finish_stop_def accept_next_def serve_turn_def split: option.splits)+

lemma held_run:
  assumes "tb_client (fst t) = Some buf" and "kFrameDelimiter \<notin> set buf" and "\<forall>op\<in>set ops. other_op op"
    and "tb_running (fst t) \<or> tb_stopping (fst t)"
  shows "case foldl (tcp_step dump) t ops of (st', outs) \<Rightarrow>
    tb_client st' = Some buf \<and> outs = snd t \<and> tb_activeClients st' = tb_activeClients (fst t) \<and>
    (tb_stopping (fst t) \<or> TcpStop \<in> set ops \<longrightarrow> tb_stopping st')"
  using assms
proof (induction ops arbitrary: t)
  case (Cons op ops)
  have "other_op op" using Cons.prems(3) by simp
  note h = held_step [OF Cons.prems(1,2) this, of dump]
  show ?case using Cons.IH [of "tcp_step dump t op"] h Cons.prems(2-4) by (auto split: prod.splits)
next
  case Nil
  then show ?case by (cases t) simp
qed

text \<open>
  C31. A silent client holds the server. While a connected client sends no complete line, and whatever anyone
  else does, no other client is accepted, nothing is answered, and a \<^verbatim>\<open>stop\<close> does not return; it returns, and
  the port is released, as soon as that client goes away.
\<close>

theorem silent_client_holds_server:
  assumes "tb_client st = Some buf" and "kFrameDelimiter \<notin> set buf" and "tb_running st" and "\<forall>op\<in>set ops. other_op op"
    and "(st', outs) = foldl (tcp_step dump) (st, []) ops"
  shows "tb_client st' = Some buf \<and> tb_activeClients st' = tb_activeClients st \<and> outs = [] \<and>
    (TcpStop \<in> set ops \<longrightarrow> tb_stopping st' \<and>
      \<not> tb_stopping (fst (tcp_exec dump st' ClientGone)) \<and> tb_boundPort (fst (tcp_exec dump st' ClientGone)) = 0)"
proof -
  have "tb_client st' = Some buf \<and> outs = [] \<and> tb_activeClients st' = tb_activeClients st \<and> (TcpStop \<in> set ops \<longrightarrow> tb_stopping st')"
    using held_run [of "(st, [])" buf ops dump] assms(1-4) unfolding assms(5) [symmetric] by simp
  then show ?thesis by (simp add: close_client_def finish_stop_def accept_next_def)
qed

theorem silent_client_holds_server_witness:
  "let st = fst (foldl (tcp_step (\<lambda>_. [])) (demo_connection, []) [ClientConnects, TcpStop, ServeTurn (Some []) True])
   in tb_client st = Some [] \<and> tb_activeClients st = 1 \<and> tb_stopping st"
proof -
  have d: "tb_client demo_connection = Some []" "tb_running demo_connection" "tb_activeClients demo_connection = 1"
    by (simp_all add: demo_connection_def tcp_new_def tcp_start_def accept_next_def)
  show ?thesis
    using silent_client_holds_server [OF d(1) _ d(2) _ surjective_pairing [symmetric],
        of "[ClientConnects, TcpStop, ServeTurn (Some []) True]" "\<lambda>_. []"] d(3)
    by (simp add: Let_def)
qed

end
