(* ===== verification/SerialBackend.thy ===== *)
theory SerialBackend
  imports FlashFrameParser SerialFrameParser "HOL-Library.Sublist"
begin

text \<open>
  \<^verbatim>\<open>integration/SerialBackend.cpp\<close>: one serial line that carries telemetry text and flash frames. Every byte
  goes through the frame parser first and what is not part of a frame through the text parser; writes leave
  one at a time from a queue. The steps are the calls of other threads and the handlers of the worker
  thread; the port, the thread and Boost.Asio are the environment.

  The theorems: frames and readings come out of the shared line exactly, however the bytes are cut; what is
  written is what was accepted, in order; on a link that has died, \<^verbatim>\<open>send\<close> keeps accepting bytes that never
  leave.
\<close>

section \<open>Reading\<close>

definition kReadBufferBytes :: nat where "kReadBufferBytes = 256"

record parsers =
  flashParser :: FlashFrameParser
  textParser :: string

datatype routed = FrameSink FlashFrame | ReadingSink SerialReading

text \<open>\<^verbatim>\<open>routeChunk\<close>: the parsers, the false starts to add to the running total, and the calls of the sinks.\<close>

definition routeChunk :: "bool \<Rightarrow> byte list \<Rightarrow> parsers \<Rightarrow> parsers \<times> nat \<times> routed list" where
  "routeChunk hasFrameSink chunk p =
     (case fp_consume (flashParser p) chunk of (fp, split) \<Rightarrow>
      (case serial_consume (textParser p) (out_text split) of (tp, readings) \<Rightarrow>
        (\<lparr>flashParser = fp, textParser = tp\<rparr>, falseStarts fp - falseStarts (flashParser p),
         (if hasFrameSink then map FrameSink (frames split) else []) @ map ReadingSink readings)))"

definition fresh_parsers :: parsers where
  "fresh_parsers = \<lparr>flashParser = fp_new, textParser = []\<rparr>"

section \<open>The backend\<close>

text \<open>\<open>sb_reading\<close>: a read is armed, \<open>sb_posted\<close>: sends posted to the context and not run yet, \<open>sb_alive\<close>: the worker
  thread runs the context. The context runs out of work, and \<^verbatim>\<open>run\<close> returns for good, when nothing is armed,
  posted or in flight.\<close>

record SerialBackend =
  sb_running :: bool
  sb_parsers :: parsers
  sb_falseStarts :: nat
  sb_hasFrameSink :: bool
  sb_reading :: bool
  sb_posted :: "byte list list"
  sb_writeQueue :: "byte list list"
  sb_alive :: bool

datatype serial_event = Routed routed | WriteStarts "byte list" | Accepted "byte list"

definition serial_new :: "bool \<Rightarrow> SerialBackend" where
  "serial_new hasFrameSink =
     \<lparr>sb_running = False, sb_parsers = fresh_parsers, sb_falseStarts = 0, sb_hasFrameSink = hasFrameSink, sb_reading = False,
      sb_posted = [], sb_writeQueue = [], sb_alive = False\<rparr>"

definition fresh_io :: "SerialBackend \<Rightarrow> SerialBackend" where
  "fresh_io b = b\<lparr>sb_reading := False, sb_posted := [], sb_writeQueue := [], sb_alive := False\<rparr>"

text \<open>\<open>opened\<close>: opening and configuring the port succeed. The flag: whether it returned.\<close>

definition serial_start :: "bool \<Rightarrow> SerialBackend \<Rightarrow> bool \<times> SerialBackend" where
  "serial_start opened b =
     (if sb_running b then (True, b)
      else
        let b = b\<lparr>sb_running := True, sb_parsers := fresh_parsers\<rparr> in
        if \<not> opened then (False, fresh_io (b\<lparr>sb_running := False\<rparr>))
        else (True, b\<lparr>sb_reading := True, sb_alive := True\<rparr>))"

definition serial_stop :: "SerialBackend \<Rightarrow> SerialBackend" where
  "serial_stop b = (if \<not> sb_running b then b else fresh_io (b\<lparr>sb_running := False\<rparr>))"

definition serial_send :: "byte list \<Rightarrow> SerialBackend \<Rightarrow> bool \<times> SerialBackend" where
  "serial_send bytes b = (if \<not> sb_running b then (False, b) else (True, b\<lparr>sb_posted := sb_posted b @ [bytes]\<rparr>))"

text \<open>After every handler: the worker thread ends when there is no work left.\<close>

definition out_of_work :: "SerialBackend \<Rightarrow> SerialBackend" where
  "out_of_work b = (if \<not> sb_reading b \<and> sb_posted b = [] \<and> sb_writeQueue b = [] then b\<lparr>sb_alive := False\<rparr> else b)"

text \<open>The completion of a read: \<^const>\<open>None\<close> is an error, after which the read is not armed again.\<close>

definition read_handler :: "byte list option \<Rightarrow> SerialBackend \<Rightarrow> SerialBackend \<times> serial_event list" where
  "read_handler chunk b =
     (if \<not> sb_alive b \<or> \<not> sb_reading b then (b, [])
      else case chunk of
          None \<Rightarrow> (out_of_work (b\<lparr>sb_reading := False\<rparr>), [])
        | Some bytes \<Rightarrow>
            (case routeChunk (sb_hasFrameSink b) bytes (sb_parsers b) of (p, n, calls) \<Rightarrow>
               (b\<lparr>sb_parsers := p, sb_falseStarts := sb_falseStarts b + n\<rparr>, map Routed calls)))"

definition writeNext :: "SerialBackend \<Rightarrow> serial_event list" where
  "writeNext b = [WriteStarts (hd (sb_writeQueue b))]"

text \<open>A posted send.\<close>

definition send_handler :: "SerialBackend \<Rightarrow> SerialBackend \<times> serial_event list" where
  "send_handler b =
     (case sb_posted b of [] \<Rightarrow> (b, [])
      | data # rest \<Rightarrow>
          if \<not> sb_alive b then (b, [])
          else
            let b = b\<lparr>sb_posted := rest\<rparr> in
            if data = [] then (out_of_work b, [])
            else
              let b = b\<lparr>sb_writeQueue := sb_writeQueue b @ [data]\<rparr>
              in (b, if length (sb_writeQueue b) = 1 then writeNext b else []))"

text \<open>The completion of a write.\<close>

definition write_handler :: "bool \<Rightarrow> SerialBackend \<Rightarrow> SerialBackend \<times> serial_event list" where
  "write_handler ok b =
     (if \<not> sb_alive b \<or> sb_writeQueue b = [] then (b, [])
      else if \<not> ok then (out_of_work (b\<lparr>sb_writeQueue := []\<rparr>), [])
      else
        let b = b\<lparr>sb_writeQueue := tl (sb_writeQueue b)\<rparr>
        in if sb_writeQueue b \<noteq> [] then (b, writeNext b) else (out_of_work b, []))"

definition serial_metricsSummary :: "string \<Rightarrow> nat \<Rightarrow> SerialBackend \<Rightarrow> string" where
  "serial_metricsSummary device baudRate b =
     device @ '' @ '' @ nat_str baudRate @
     (if 0 < sb_falseStarts b then '' | '' @ nat_str (sb_falseStarts b) @ '' false starts'' else [])"

datatype serial_op =
    SerialStart bool | SerialStop | Send "byte list" | ReadDone "byte list option" | RunSend | WriteDone bool

fun serial_exec :: "SerialBackend \<Rightarrow> serial_op \<Rightarrow> SerialBackend \<times> serial_event list" where
  "serial_exec b (SerialStart opened) = (snd (serial_start opened b), [])"
| "serial_exec b SerialStop = (serial_stop b, [])"
| "serial_exec b (Send bytes) = (snd (serial_send bytes b), if fst (serial_send bytes b) then [Accepted bytes] else [])"
| "serial_exec b (ReadDone chunk) = read_handler chunk b"
| "serial_exec b RunSend = send_handler b"
| "serial_exec b (WriteDone ok) = write_handler ok b"

definition serial_step :: "SerialBackend \<times> serial_event list \<Rightarrow> serial_op \<Rightarrow> SerialBackend \<times> serial_event list" where
  "serial_step t op = (fst (serial_exec (fst t) op), snd t @ snd (serial_exec (fst t) op))"

section \<open>What the events say\<close>

fun frames_routed :: "serial_event list \<Rightarrow> FlashFrame list" where
  "frames_routed [] = []"
| "frames_routed (Routed (FrameSink f) # es) = f # frames_routed es"
| "frames_routed (e # es) = frames_routed es"

fun readings_routed :: "serial_event list \<Rightarrow> SerialReading list" where
  "readings_routed [] = []"
| "readings_routed (Routed (ReadingSink r) # es) = r # readings_routed es"
| "readings_routed (e # es) = readings_routed es"

fun starts :: "serial_event list \<Rightarrow> byte list list" where
  "starts [] = []"
| "starts (WriteStarts bs # es) = bs # starts es"
| "starts (e # es) = starts es"

fun accepted :: "serial_event list \<Rightarrow> byte list list" where
  "accepted [] = []"
| "accepted (Accepted bs # es) = bs # accepted es"
| "accepted (e # es) = accepted es"

lemma serial_events_append [simp]:
  "frames_routed (xs @ ys) = frames_routed xs @ frames_routed ys"
  "readings_routed (xs @ ys) = readings_routed xs @ readings_routed ys"
  "starts (xs @ ys) = starts xs @ starts ys" "accepted (xs @ ys) = accepted xs @ accepted ys"
proof -
  show "frames_routed (xs @ ys) = frames_routed xs @ frames_routed ys" by (induction xs rule: frames_routed.induct) simp_all
  show "readings_routed (xs @ ys) = readings_routed xs @ readings_routed ys" by (induction xs rule: readings_routed.induct) simp_all
  show "starts (xs @ ys) = starts xs @ starts ys" by (induction xs rule: starts.induct) simp_all
  show "accepted (xs @ ys) = accepted xs @ accepted ys" by (induction xs rule: accepted.induct) simp_all
qed

lemma serial_events_routed [simp]:
  "frames_routed (map (Routed \<circ> FrameSink) fs) = fs" "readings_routed (map (Routed \<circ> FrameSink) fs) = []"
  "frames_routed (map (Routed \<circ> ReadingSink) rs) = []" "readings_routed (map (Routed \<circ> ReadingSink) rs) = rs"
  "starts (map Routed cs) = []" "accepted (map Routed cs) = []"
proof -
  show "frames_routed (map (Routed \<circ> FrameSink) fs) = fs" "readings_routed (map (Routed \<circ> FrameSink) fs) = []"
    by (induction fs) simp_all
  show "frames_routed (map (Routed \<circ> ReadingSink) rs) = []" "readings_routed (map (Routed \<circ> ReadingSink) rs) = rs"
    by (induction rs) simp_all
  show "starts (map Routed cs) = []" "accepted (map Routed cs) = []" by (induction cs) simp_all
qed

section \<open>The shared line\<close>

text \<open>The text the frame parser passes on, chunk by chunk.\<close>

fun texts_of :: "FlashFrameParser \<Rightarrow> byte list list \<Rightarrow> string list" where
  "texts_of p [] = []"
| "texts_of p (c # cs) = out_text (snd (fp_consume p c)) # texts_of (fst (fp_consume p c)) cs"

lemma fp_feed_snoc:
  "fp_feed p out (cs @ [c]) =
     (fst (fp_consume (fst (fp_feed p out cs)) c), join_output (snd (fp_feed p out cs)) (snd (fp_consume (fst (fp_feed p out cs)) c)))"
  by (induction cs arbitrary: p out) simp_all

lemma texts_of_snoc: "texts_of p (cs @ [c]) = texts_of p cs @ [out_text (snd (fp_consume (fst (fp_feed p out cs)) c))]"
  by (induction cs arbitrary: p out) simp_all

lemma concat_texts: "out_text (snd (fp_feed p out cs)) = out_text out @ concat (texts_of p cs)"
  by (induction cs arbitrary: p out) (simp_all add: join_output_def)

lemma serial_feed_snoc:
  "serial_feed buf out (cs @ [c]) =
     (fst (serial_consume (fst (serial_feed buf out cs)) c), snd (serial_feed buf out cs) @ snd (serial_consume (fst (serial_feed buf out cs)) c))"
  by (induction cs arbitrary: buf out) simp_all

text \<open>The steps on an open line that receives: chunks arrive, others send, writes complete or fail.\<close>

fun line_op :: "serial_op \<Rightarrow> bool" where
  "line_op (SerialStart opened) = False"
| "line_op SerialStop = False"
| "line_op (ReadDone None) = False"
| "line_op _ = True"

fun chunk_of :: "serial_op \<Rightarrow> byte list list" where
  "chunk_of (ReadDone (Some c)) = [c]"
| "chunk_of _ = []"

definition line_inv :: "nat \<Rightarrow> byte list list \<Rightarrow> SerialBackend \<times> serial_event list \<Rightarrow> bool" where
  "line_inv n cs t =
     (sb_alive (fst t) \<and> sb_reading (fst t) \<and> sb_hasFrameSink (fst t) \<and>
      flashParser (sb_parsers (fst t)) = fst (fp_feed fp_new no_output cs) \<and>
      textParser (sb_parsers (fst t)) = fst (serial_feed [] [] (texts_of fp_new cs)) \<and>
      frames_routed (snd t) = frames (snd (fp_feed fp_new no_output cs)) \<and>
      readings_routed (snd t) = snd (serial_feed [] [] (texts_of fp_new cs)) \<and>
      sb_falseStarts (fst t) = n + falseStarts (fst (fp_feed fp_new no_output cs)))"

lemma falseStarts_mono: "falseStarts p \<le> falseStarts (fst (fp_consume p c))"
  using scan_pieces [of "fp_buffer p @ c" "falseStarts p" no_output]
  by (auto simp: fp_consume_def accounted_def split_beta Let_def)

lemma chunk_step:
  assumes "line_inv n cs t"
  shows "line_inv n (cs @ [c]) (serial_step t (ReadDone (Some c)))"
proof -
  let ?b = "fst t" and ?p = "flashParser (sb_parsers (fst t))"
  let ?fp = "fst (fp_consume ?p c)" and ?out = "snd (fp_consume ?p c)"
  let ?tc = "serial_consume (textParser (sb_parsers ?b)) (out_text ?out)"
  have i: "sb_alive ?b" "sb_reading ?b" "sb_hasFrameSink ?b" "fst (fp_feed fp_new no_output cs) = ?p"
    "fst (serial_feed [] [] (texts_of fp_new cs)) = textParser (sb_parsers ?b)"
    "frames_routed (snd t) = frames (snd (fp_feed fp_new no_output cs))"
    "readings_routed (snd t) = snd (serial_feed [] [] (texts_of fp_new cs))"
    "sb_falseStarts ?b = n + falseStarts ?p"
    using assms by (simp_all add: line_inv_def)
  have x: "texts_of fp_new (cs @ [c]) = texts_of fp_new cs @ [out_text ?out]"
    using texts_of_snoc [of fp_new cs c no_output] i(4) by simp
  have r: "read_handler (Some c) ?b =
      (?b\<lparr>sb_parsers := \<lparr>flashParser = ?fp, textParser = fst ?tc\<rparr>, sb_falseStarts := sb_falseStarts ?b + (falseStarts ?fp - falseStarts ?p)\<rparr>,
       map (Routed \<circ> FrameSink) (frames ?out) @ map (Routed \<circ> ReadingSink) (snd ?tc))"
    using i(1-3) by (simp add: read_handler_def routeChunk_def split_beta)
  have "snd (serial_feed [] [] (texts_of fp_new (cs @ [c]))) = snd (serial_feed [] [] (texts_of fp_new cs)) @ snd ?tc"
    "fst (serial_feed [] [] (texts_of fp_new (cs @ [c]))) = fst ?tc"
    unfolding x serial_feed_snoc i(5) by simp_all
  moreover have "frames (snd (fp_feed fp_new no_output (cs @ [c]))) = frames (snd (fp_feed fp_new no_output cs)) @ frames ?out"
    "fst (fp_feed fp_new no_output (cs @ [c])) = ?fp"
    unfolding fp_feed_snoc i(4) by (simp_all add: join_output_def)
  moreover have "n + falseStarts ?p + (falseStarts ?fp - falseStarts ?p) = n + falseStarts ?fp" using falseStarts_mono [of ?p c] by simp
  ultimately show ?thesis using i(1-3,6-8) by (simp add: line_inv_def serial_step_def r)
qed

lemma line_step:
  assumes "line_inv n cs t" and "line_op op"
  shows "line_inv n (cs @ chunk_of op) (serial_step t op)"
proof (cases "chunk_of op = []")
  case False
  then obtain c where "op = ReadDone (Some c)" by (cases op rule: chunk_of.cases) auto
  then show ?thesis using chunk_step [OF assms(1)] by simp
next
  case True
  with assms have "fst (serial_step t op) = (fst t)\<lparr>sb_posted := sb_posted (fst (serial_step t op)), sb_writeQueue := sb_writeQueue (fst (serial_step t op))\<rparr>"
    by (cases op rule: line_op.cases)
      (auto simp: line_inv_def serial_step_def serial_send_def send_handler_def write_handler_def out_of_work_def Let_def split: list.splits)
  moreover have "frames_routed (snd (serial_step t op)) = frames_routed (snd t)" "readings_routed (snd (serial_step t op)) = readings_routed (snd t)"
    using True assms(2) by (cases op rule: line_op.cases; auto simp: serial_step_def send_handler_def write_handler_def writeNext_def Let_def split: list.splits)+
  moreover have "line_inv n cs t' = line_inv n cs t"
    if "fst t' = (fst t)\<lparr>sb_posted := x, sb_writeQueue := y\<rparr>" "frames_routed (snd t') = frames_routed (snd t)"
      "readings_routed (snd t') = readings_routed (snd t)" for t' x y
    using that by (simp add: line_inv_def)
  ultimately show ?thesis using assms(1) True by (metis append_Nil2)
qed

lemma line_run:
  "line_inv n cs t \<Longrightarrow> \<forall>op\<in>set ops. line_op op \<Longrightarrow> line_inv n (cs @ concat (map chunk_of ops)) (foldl serial_step t ops)"
proof (induction ops arbitrary: t cs)
  case (Cons op ops)
  then show ?case using Cons.IH [OF line_step [OF Cons.prems(1), of op]] by simp
qed simp

text \<open>Whole lines, none longer than the buffer.\<close>

definition lines_text :: "string list \<Rightarrow> string" where
  "lines_text ls = concat (map (\<lambda>l. l @ [kFrameDelimiter]) ls)"

lemma loop_lines_text:
  "list_all2 reading_line ls rs \<Longrightarrow> \<forall>l\<in>set ls. kFrameDelimiter \<notin> set l \<Longrightarrow> lines_loop (lines_text ls) out = (out @ rs, [])"
proof (induction ls rs arbitrary: out rule: list_all2_induct)
  case (Cons l ls r rs)
  then show ?case by (simp add: lines_text_def loop_line reading_line_parsed)
qed (simp add: lines_text_def loop_rest)

lemma short_lines:
  "\<forall>l\<in>set ls. kFrameDelimiter \<notin> set l \<and> length l \<le> kMaxBufferBytes \<Longrightarrow>
     length (snd (lines_loop (take n (lines_text ls)) out)) \<le> kMaxBufferBytes"
proof (induction ls arbitrary: n out)
  case (Cons l ls)
  show ?case
  proof (cases "n \<le> length l")
    case True
    then have "take n (lines_text (l # ls)) = take n l" by (simp add: lines_text_def)
    moreover have "kFrameDelimiter \<notin> set (take n l)" using Cons.prems by (auto dest: in_set_takeD)
    ultimately show ?thesis using Cons.prems True by (simp add: loop_rest min_def)
  next
    case False
    then have "take n (lines_text (l # ls)) = l @ kFrameDelimiter # take (n - length l - 1) (lines_text ls)"
      by (simp add: lines_text_def take_Cons')
    then show ?thesis using Cons by (simp add: loop_line)
  qed
qed (simp add: lines_text_def loop_rest)

text \<open>
  C32. Frames and readings share the line. When the device sends encoded frames anywhere between, and inside,
  lines of telemetry, then however the bytes are cut into reads, and whatever is being sent meanwhile, the
  frame sink gets exactly those frames and the reading sink exactly those readings, each in order, and no
  false start is counted.
\<close>

theorem frames_and_readings_share_line:
  assumes "\<forall>p \<in> set ps. piece_ok p \<and> p \<noteq> Dropped" and "concat (map piece_text ps) = lines_text ls"
    and "list_all2 reading_line ls rs" and "\<forall>l\<in>set ls. kFrameDelimiter \<notin> set l \<and> length l \<le> kMaxBufferBytes"
    and "\<forall>op\<in>set ops. line_op op" and "concat (concat (map chunk_of ops)) = stream_bytes ps"
    and "\<not> sb_running b" and "sb_hasFrameSink b"
    and "(b', outs) = foldl serial_step (snd (serial_start True b), []) ops"
  shows "frames_routed outs = concat (map piece_frames ps) \<and> readings_routed outs = rs \<and> sb_falseStarts b' = sb_falseStarts b"
proof -
  let ?cs = "concat (map chunk_of ops)"
  have "line_inv (sb_falseStarts b) [] (snd (serial_start True b), [])"
    using assms(7,8) by (simp add: line_inv_def serial_start_def fresh_parsers_def fp_new_def no_output_def)
  from line_run [OF this assms(5)] have i: "line_inv (sb_falseStarts b) ?cs (b', outs)" using assms(9) by simp
  have "fp_inv fp_new" by (simp add: fp_inv_def fp_new_def turn_of_def)
  then have "fp_feed fp_new no_output ?cs = (fst (fp_consume fp_new (stream_bytes ps)), snd (fp_consume fp_new (stream_bytes ps)))"
    by (simp add: fp_feed_eq flash_stream.feed_concat assms(6))
  then have f: "fp_feed fp_new no_output ?cs =
      (fp_new, \<lparr>frames = concat (map piece_frames ps), out_text = concat (map piece_text ps)\<rparr>)"
    using assms(1) scan_stream [of ps 0 no_output] by (auto simp: fp_consume_def fp_new_def no_output_def list_all_iff)
  have "concat (texts_of fp_new ?cs) = lines_text ls"
    using concat_texts [of fp_new no_output ?cs] f assms(2) by (simp add: no_output_def)
  moreover have "no_long_line [] (lines_text ls)" using short_lines [OF assms(4)] by (simp add: no_long_line_def)
  ultimately have "serial_feed [] [] (texts_of fp_new ?cs) = prod.swap (lines_loop (lines_text ls) [])"
    by (simp add: serial_feed_eq serial_stream.feed_concat consume_fits prod.swap_def serial_inv_def)
  then have "snd (serial_feed [] [] (texts_of fp_new ?cs)) = rs" using loop_lines_text [OF assms(3), of "[]"] assms(4) by simp
  then show ?thesis using i f by (simp add: line_inv_def fp_new_def)
qed

definition demo_frame :: FlashFrame where
  "demo_frame = \<lparr>ff_type = 0x82, ff_seq = 7, ff_payload = []\<rparr>"

definition demo_reads :: "serial_op list" where
  "demo_reads = [ReadDone (Some [0x74, 0xA5, 0x82, 0x07]), Send [1], RunSend,
     ReadDone (Some ([0, 0, 0] @ le16 (crc16CcittFalse [0x82, 7, 0, 0, 0]) @ [0x2C])), WriteDone False, ReadDone (Some [0x31, 0x0A])]"

theorem frames_and_readings_share_line_witness:
  "let t = foldl serial_step (snd (serial_start True (serial_new True)), []) demo_reads
   in frames_routed (snd t) = [demo_frame] \<and> readings_routed (snd t) = [\<lparr>sensorId = ''t'', sr_value = ''1''\<rparr>]"
proof -
  let ?ps = "[Plain 0x74, Whole demo_frame, Plain 0x2C, Plain 0x31, Plain 0x0A]"
  have chars: "byte_char 0x74 = CHR ''t''" "byte_char 0x2C = CHR '',''" "byte_char 0x31 = CHR ''1''" "byte_char 0x0A = CHR 0x0A"
    by code_simp+
  have "\<forall>p\<in>set ?ps. piece_ok p \<and> p \<noteq> Dropped" by (simp add: demo_frame_def flash_consts)
  moreover have "concat (map piece_text ?ps) = lines_text [''t,1'']" by (simp add: chars lines_text_def kFrameDelimiter_def)
  moreover have "list_all2 reading_line [''t,1''] [\<lparr>sensorId = ''t'', sr_value = ''1''\<rparr>]"
    by (simp add: reading_line_def kFieldDelimiter_def kCarriageReturn_def)
  moreover have "\<forall>l\<in>set [''t,1'']. kFrameDelimiter \<notin> set l \<and> length l \<le> kMaxBufferBytes"
    by (simp add: kFrameDelimiter_def kMaxBufferBytes_def)
  moreover have "\<forall>op\<in>set demo_reads. line_op op" by (simp add: demo_reads_def)
  moreover have "concat (concat (map chunk_of demo_reads)) = stream_bytes ?ps"
    by (simp add: demo_reads_def demo_frame_def stream_bytes_def wire_def encodeFlashFrame_def le16_def flash_consts Let_def)
  ultimately show ?thesis
    using frames_and_readings_share_line [OF _ _ _ _ _ _ _ _ surjective_pairing [symmetric], of ?ps "[''t,1'']"
        "[\<lparr>sensorId = ''t'', sr_value = ''1''\<rparr>]" demo_reads "serial_new True"]
    by (simp add: serial_new_def demo_frame_def Let_def)
qed

section \<open>Writing\<close>

text \<open>The empty sends are accepted and put nothing on the line.\<close>

abbreviation payloads :: "byte list list \<Rightarrow> byte list list" where
  "payloads bss \<equiv> filter (\<lambda>bs. bs \<noteq> []) bss"

definition in_order :: "SerialBackend \<times> serial_event list \<Rightarrow> bool" where
  "in_order t = subseq (starts (snd t) @ tl (sb_writeQueue (fst t)) @ payloads (sb_posted (fst t))) (payloads (accepted (snd t)))"

definition all_kept :: "SerialBackend \<times> serial_event list \<Rightarrow> bool" where
  "all_kept t = (starts (snd t) @ tl (sb_writeQueue (fst t)) @ payloads (sb_posted (fst t)) = payloads (accepted (snd t)))"

text \<open>The steps of a session in which no write fails.\<close>

fun no_loss :: "serial_op \<Rightarrow> bool" where
  "no_loss (SerialStart opened) = False"
| "no_loss SerialStop = False"
| "no_loss (WriteDone ok) = ok"
| "no_loss _ = True"

text \<open>What is on its way: started writes, what waits behind the one in flight, what is posted.\<close>

definition on_its_way :: "SerialBackend \<times> serial_event list \<Rightarrow> byte list list" where
  "on_its_way t = starts (snd t) @ tl (sb_writeQueue (fst t)) @ payloads (sb_posted (fst t))"

lemma on_its_way_step:
  "no_loss op \<Longrightarrow> on_its_way (serial_step t op) = on_its_way t @ (case op of Send bs \<Rightarrow> if sb_running (fst t) then payloads [bs] else [] | _ \<Rightarrow> [])"
  "\<not> no_loss op \<Longrightarrow> subseq (on_its_way (serial_step t op)) (on_its_way t)"
proof -
  have q: "length (q @ [d]) = 1 \<longleftrightarrow> q = []" for q and d :: "byte list" by simp
  show "no_loss op \<Longrightarrow> on_its_way (serial_step t op) = on_its_way t @ (case op of Send bs \<Rightarrow> if sb_running (fst t) then payloads [bs] else [] | _ \<Rightarrow> [])"
    by (cases op; cases "sb_writeQueue (fst t)")
      (auto simp: on_its_way_def serial_step_def serial_send_def read_handler_def send_handler_def write_handler_def out_of_work_def writeNext_def
        Let_def q hd_append split: list.splits option.splits prod.splits)
  show "\<not> no_loss op \<Longrightarrow> subseq (on_its_way (serial_step t op)) (on_its_way t)"
    by (cases op)
      (auto simp: on_its_way_def serial_step_def serial_start_def serial_stop_def fresh_io_def write_handler_def out_of_work_def Let_def
        intro!: list_emb_append_mono)
qed

lemma accepted_step:
  "payloads (accepted (snd (serial_step t op))) =
     payloads (accepted (snd t)) @ (case op of Send bs \<Rightarrow> if sb_running (fst t) then payloads [bs] else [] | _ \<Rightarrow> [])"
  by (cases op) (auto simp: serial_step_def serial_send_def read_handler_def send_handler_def write_handler_def writeNext_def Let_def
      split: list.splits option.splits prod.splits)

interpretation writes: invariant_machine serial_step "\<lambda>t. subseq (on_its_way t) (payloads (accepted (snd t)))"
proof unfold_locales
  fix t op assume i: "subseq (on_its_way t) (payloads (accepted (snd t)))"
  show "subseq (on_its_way (serial_step t op)) (payloads (accepted (snd (serial_step t op))))"
  proof (cases "no_loss op")
    case True
    show ?thesis unfolding accepted_step on_its_way_step(1) [OF True] by (rule list_emb_append_mono [OF i]) simp
  next
    case False
    then have "(case op of Send bs \<Rightarrow> if sb_running (fst t) then payloads [bs] else [] | _ \<Rightarrow> []) = []" by (cases op) simp_all
    then show ?thesis using subseq_order.order_trans [OF on_its_way_step(2) [OF False] i] by (simp add: accepted_step)
  qed
qed

interpretation lossless: guarded_machine serial_step no_loss "\<lambda>t. on_its_way t = payloads (accepted (snd t))"
  by unfold_locales (simp only: on_its_way_step(1) accepted_step)



section \<open>A dead line\<close>

text \<open>
  A dead line takes everything and sends nothing. After a read error on an idle line, as when the device is
  unplugged, the worker thread has ended; until someone stops the backend it still counts as running, every
  \<^verbatim>\<open>send\<close> answers that the bytes are queued, no write is ever begun, nothing is ever routed, and \<^verbatim>\<open>start\<close> does
  nothing.
\<close>

definition dead_line :: "SerialBackend \<Rightarrow> bool" where
  "dead_line b = (sb_running b \<and> \<not> sb_alive b)"

lemma dead_step:
  assumes "dead_line (fst t)" and "op \<noteq> SerialStop"
  shows "dead_line (fst (serial_step t op))"
    "snd (serial_step t op) = snd t @ (case op of Send bs \<Rightarrow> [Accepted bs] | _ \<Rightarrow> [])"
  using assms by (cases op; auto simp: dead_line_def serial_step_def serial_start_def serial_send_def read_handler_def send_handler_def
      write_handler_def split: list.splits)+

fun sends :: "serial_op list \<Rightarrow> byte list list" where
  "sends [] = []"
| "sends (Send bs # ops) = bs # sends ops"
| "sends (op # ops) = sends ops"

lemma dead_line_run:
  "dead_line (fst t) \<Longrightarrow> SerialStop \<notin> set ops \<Longrightarrow>
     dead_line (fst (foldl serial_step t ops)) \<and> snd (foldl serial_step t ops) = snd t @ map Accepted (sends ops)"
proof (induction ops arbitrary: t)
  case (Cons op ops)
  have n: "op \<noteq> SerialStop" using Cons.prems(2) by auto
  show ?case using Cons.IH [of "serial_step t op"] dead_step [OF Cons.prems(1) n] Cons.prems(2) by (cases op) simp_all
qed simp

theorem dead_line_swallows_sends:
  assumes "sb_running b" and "sb_posted b = []" and "sb_writeQueue b = []" and "sb_reading b" and "SerialStop \<notin> set ops"
    and "(b', outs) = foldl serial_step (b, []) (ReadDone None # ops)"
  shows "sb_running b' \<and> outs = map Accepted (sends ops)"
proof -
  have "dead_line (fst (serial_step (b, []) (ReadDone None)))" "snd (serial_step (b, []) (ReadDone None)) = []"
    using assms(1-4) by (simp_all add: dead_line_def serial_step_def read_handler_def out_of_work_def)
  from dead_line_run [OF this(1) assms(5)] this(2) show ?thesis using assms(6) by (simp add: dead_line_def) (metis fst_conv snd_conv)
qed

theorem dead_line_swallows_sends_witness:
  "snd (foldl serial_step (snd (serial_start True (serial_new True)), []) [ReadDone None, Send [1], RunSend, SerialStart True, Send [2]]) =
     [Accepted [1], Accepted [2]]"
  using dead_line_swallows_sends [OF _ _ _ _ _ surjective_pairing [symmetric], of "snd (serial_start True (serial_new True))"
      "[Send [1], RunSend, SerialStart True, Send [2]]"]
  by (simp add: serial_start_def serial_new_def)

end
