(* ===== verification/HistoryStore.thy ===== *)
theory HistoryStore
  imports Prelude Complex_Main "HOL-Library.Signed_Division"
begin

text \<open>
  \<^verbatim>\<open>historian/HistoryRecord.h\<close>, \<^verbatim>\<open>SqliteHistoryStore.cpp\<close> and \<^verbatim>\<open>HistorianMaintenance.cpp\<close>: the archive of the
  recorded series, its three tiers and the sweep that demotes old rows. The database is the three tables and
  the open transaction; each SQL text of the source is a function on it. SQLite itself is a parameter that
  may refuse any call, average a group and fail a COMMIT with or without rolling back; calls are numbered.
  Rows with equal time stamps are read in the order of their insertion, which SQL leaves open. Log messages,
  the pragmas and the maintenance thread's waiting are not modelled.

  The theorems: what is written is read back, values stay in range through every sweep, which rows a long
  range can never show, and what a failed COMMIT does to the archive.
\<close>

section \<open>Records and tiers\<close>

datatype HistoryField = QualityPassRate | EquipmentSupplyLevel | SystemStateField | Throughput | OeePercent

fun fieldCode :: "HistoryField \<Rightarrow> string" where
  "fieldCode QualityPassRate = ''Q''"
| "fieldCode EquipmentSupplyLevel = ''S''"
| "fieldCode SystemStateField = ''T''"
| "fieldCode Throughput = ''H''"
| "fieldCode OeePercent = ''E''"

record HistoryRecord =
  timestampMs :: int
  hr_field :: HistoryField
  entityId :: u32
  hr_value :: real

datatype Tier = Raw | Minute | Hour

record sample =
  s_ts :: int
  s_field :: string
  s_entity :: int
  s_value :: real

definition sample_of :: "HistoryRecord \<Rightarrow> sample" where
  "sample_of r = \<lparr>s_ts = timestampMs r, s_field = fieldCode (hr_field r), s_entity = sint (entityId r), s_value = hr_value r\<rparr>"

record QueryRange =
  fromMs :: int
  toMs :: int
  q_limit :: nat

definition kDefaultLimit :: nat where "kDefaultLimit = 10000"

definition kOneHourMs :: int where "kOneHourMs = 3600000"
definition kOneDayMs :: int where "kOneDayMs = 24 * kOneHourMs"

definition tierForRange :: "QueryRange \<Rightarrow> Tier" where
  "tierForRange rg =
     (let durationMs = toMs rg - fromMs rg in
      if durationMs \<le> kOneHourMs then Raw else if durationMs \<le> kOneDayMs then Minute else Hour)"

section \<open>The database\<close>

text \<open>A table is \<^const>\<open>None\<close> until it is created; \<open>txn\<close> holds the tables as they were at BEGIN.\<close>

record history_db =
  tables :: "Tier \<Rightarrow> sample list option"
  txn :: "(Tier \<Rightarrow> sample list option) option"

datatype commit_result = Committed | CommitFails | CommitRollsBack

record engine =
  en_open :: bool
  en_exec :: "nat \<Rightarrow> bool"
  en_prepare :: "nat \<Rightarrow> bool"
  en_step :: "nat \<Rightarrow> bool"
  en_rows :: "nat \<Rightarrow> nat"
  en_commit :: "nat \<Rightarrow> commit_result"
  en_avg :: "real list \<Rightarrow> real"

record SqliteHistoryStore =
  hs_db :: "history_db option"
  hs_calls :: nat

definition store_new :: SqliteHistoryStore where
  "store_new = \<lparr>hs_db = None, hs_calls = 0\<rparr>"

definition begin_immediate :: "engine \<Rightarrow> nat \<Rightarrow> history_db \<Rightarrow> history_db option" where
  "begin_immediate en n d = (if en_exec en n \<and> txn d = None then Some (d\<lparr>txn := Some (tables d)\<rparr>) else None)"

definition undo :: "history_db \<Rightarrow> history_db" where
  "undo d = (case txn d of Some t \<Rightarrow> d\<lparr>tables := t, txn := None\<rparr> | None \<Rightarrow> d)"

definition rollback :: "engine \<Rightarrow> nat \<Rightarrow> history_db \<Rightarrow> history_db" where
  "rollback en n d = (if en_exec en n then undo d else d)"

definition commit :: "engine \<Rightarrow> nat \<Rightarrow> history_db \<Rightarrow> history_db" where
  "commit en n d = (case en_commit en n of Committed \<Rightarrow> d\<lparr>txn := None\<rparr> | CommitFails \<Rightarrow> d | CommitRollsBack \<Rightarrow> undo d)"

section \<open>The store\<close>

text \<open>\<^verbatim>\<open>initialize\<close> on a file that holds these tables: the six CREATE statements after three pragmas; a table
  that exists is kept. A handle whose schema failed stays open.\<close>

definition create_if_missing :: "Tier \<Rightarrow> history_db \<Rightarrow> history_db" where
  "create_if_missing t d = (if tables d t = None then d\<lparr>tables := (tables d)(t := Some [])\<rparr> else d)"

fun create_loop :: "engine \<Rightarrow> nat \<Rightarrow> (history_db \<Rightarrow> history_db) list \<Rightarrow> history_db \<Rightarrow> bool \<times> history_db" where
  "create_loop en n [] d = (True, d)"
| "create_loop en n (ddl # ddls) d = (if en_exec en n then create_loop en (n + 1) ddls (ddl d) else (False, d))"

definition hs_initialize :: "engine \<Rightarrow> (Tier \<Rightarrow> sample list option) \<Rightarrow> SqliteHistoryStore \<Rightarrow> bool \<times> SqliteHistoryStore" where
  "hs_initialize en file st =
     (if \<not> en_open en then (False, st\<lparr>hs_db := None\<rparr>)
      else case create_loop en (hs_calls st + 3)
          [create_if_missing Raw, id, create_if_missing Minute, id, create_if_missing Hour, id] \<lparr>tables = file, txn = None\<rparr> of
        (ok, d) \<Rightarrow> (ok, st\<lparr>hs_db := Some d, hs_calls := hs_calls st + 9\<rparr>))"

text \<open>The loop over the batch: bind and step.\<close>

fun insert_loop :: "engine \<Rightarrow> nat \<Rightarrow> HistoryRecord list \<Rightarrow> nat \<Rightarrow> sample list \<Rightarrow> nat \<times> sample list" where
  "insert_loop en n [] accepted rows = (accepted, rows)"
| "insert_loop en n (r # rs) accepted rows =
     (if en_step en n then insert_loop en (n + 1) rs (accepted + 1) (rows @ [sample_of r])
      else insert_loop en (n + 1) rs accepted rows)"

definition hs_write :: "engine \<Rightarrow> HistoryRecord list \<Rightarrow> SqliteHistoryStore \<Rightarrow> nat \<times> SqliteHistoryStore" where
  "hs_write en records st =
     (let n = hs_calls st; st = st\<lparr>hs_calls := n + length records + 4\<rparr> in
      case hs_db st of
        None \<Rightarrow> (0, st)
      | Some d \<Rightarrow>
          if records = [] then (0, st)
          else case begin_immediate en n d of
              None \<Rightarrow> (0, st)
            | Some d \<Rightarrow>
                (case tables d Raw of
                   Some rows \<Rightarrow>
                     if \<not> en_prepare en (n + 1) then (0, st\<lparr>hs_db := Some (rollback en (n + 2) d)\<rparr>)
                     else case insert_loop en (n + 3) records 0 rows of
                         (accepted, rows) \<Rightarrow>
                           (accepted, st\<lparr>hs_db := Some (commit en (n + 3 + length records) (d\<lparr>tables := (tables d)(Raw := Some rows)\<rparr>))\<rparr>)
                 | None \<Rightarrow> (0, st\<lparr>hs_db := Some (rollback en (n + 2) d)\<rparr>)))"

text \<open>\<^verbatim>\<open>WHERE field = ? AND entity = ? AND ts >= ? AND ts <= ? ORDER BY ts DESC LIMIT ?\<close>.\<close>

definition select_desc :: "string \<Rightarrow> int \<Rightarrow> QueryRange \<Rightarrow> sample list \<Rightarrow> sample list" where
  "select_desc code ent rg rows =
     (let m = rev (sort_key s_ts (filter (\<lambda>r. s_field r = code \<and> s_entity r = ent \<and> fromMs rg \<le> s_ts r \<and> s_ts r \<le> toMs rg) rows))
      in if q_limit rg = 0 then m else take (q_limit rg) m)"

definition hs_query :: "engine \<Rightarrow> (real \<Rightarrow> real) \<Rightarrow> HistoryField \<Rightarrow> u32 \<Rightarrow> QueryRange \<Rightarrow> SqliteHistoryStore \<Rightarrow>
    HistoryRecord list \<times> SqliteHistoryStore" where
  "hs_query en rf field ent rg st =
     (let n = hs_calls st; st = st\<lparr>hs_calls := n + 2\<rparr> in
      case hs_db st of
        None \<Rightarrow> ([], st)
      | Some d \<Rightarrow>
          (case tables d (tierForRange rg) of
             Some rows \<Rightarrow>
               if \<not> en_prepare en n then ([], st)
               else
                 let sel = select_desc (fieldCode field) (sint ent) rg rows;
                     got = (if en_step en (n + 1) then sel else take (en_rows en (n + 1)) sel)
                 in (rev (map (\<lambda>r. \<lparr>timestampMs = s_ts r, hr_field = field, entityId = ent, hr_value = rf (s_value r)\<rparr>) got), st)
           | None \<Rightarrow> ([], st)))"

text \<open>\<^verbatim>\<open>SELECT (ts / ?) * ?, field, entity, AVG(value) ... WHERE ts < ? GROUP BY (ts / ?), field, entity\<close>;
  SQLite's integer division truncates.\<close>

definition bucket_of :: "int \<Rightarrow> sample \<Rightarrow> int \<times> string \<times> int" where
  "bucket_of b r = (s_ts r sdiv b, s_field r, s_entity r)"

definition averages :: "(real list \<Rightarrow> real) \<Rightarrow> int \<Rightarrow> sample list \<Rightarrow> sample list" where
  "averages avg b rows =
     map (\<lambda>k. \<lparr>s_ts = fst k * b, s_field = fst (snd k), s_entity = snd (snd k),
                s_value = avg (map s_value (filter (\<lambda>r. bucket_of b r = k) rows))\<rparr>)
       (remdups (map (bucket_of b) rows))"

definition older :: "int \<Rightarrow> sample list \<Rightarrow> sample list" where
  "older t rows = filter (\<lambda>r. s_ts r < t) rows"

definition demoteOlderThan :: "engine \<Rightarrow> Tier \<Rightarrow> Tier \<Rightarrow> int \<Rightarrow> int \<Rightarrow> SqliteHistoryStore \<Rightarrow> nat \<times> SqliteHistoryStore" where
  "demoteOlderThan en src dst olderThanMs bucketMs st =
     (let n = hs_calls st; st = st\<lparr>hs_calls := n + 7\<rparr> in
      case hs_db st of
        None \<Rightarrow> (0, st)
      | Some d \<Rightarrow>
          if bucketMs \<le> 0 \<or> src = dst then (0, st)
          else case begin_immediate en n d of
              None \<Rightarrow> (0, st)
            | Some d \<Rightarrow>
                (case (tables d src, tables d dst) of
                   (Some from_rows, Some to_rows) \<Rightarrow>
                     if \<not> en_prepare en (n + 1) \<or> \<not> en_step en (n + 2) then (0, st\<lparr>hs_db := Some (rollback en (n + 3) d)\<rparr>)
                     else
                       let d = d\<lparr>tables := (tables d)(dst := Some (to_rows @ averages (en_avg en) bucketMs (older olderThanMs from_rows)))\<rparr> in
                       if \<not> en_prepare en (n + 4) then (0, st\<lparr>hs_db := Some (rollback en (n + 3) d)\<rparr>)
                       else if en_step en (n + 5) then
                         (length (older olderThanMs from_rows),
                          st\<lparr>hs_db := Some (commit en (n + 6)
                            (d\<lparr>tables := (tables d)(src := Some (filter (\<lambda>r. \<not> s_ts r < olderThanMs) from_rows))\<rparr>))\<rparr>)
                       else (0, st\<lparr>hs_db := Some (commit en (n + 6) d)\<rparr>)
                 | _ \<Rightarrow> (0, st\<lparr>hs_db := Some (rollback en (n + 3) d)\<rparr>)))"

definition rowCount :: "engine \<Rightarrow> Tier \<Rightarrow> SqliteHistoryStore \<Rightarrow> nat" where
  "rowCount en t st =
     (case hs_db st of None \<Rightarrow> 0
      | Some d \<Rightarrow> (case tables d t of None \<Rightarrow> 0
                   | Some rows \<Rightarrow> if en_prepare en (hs_calls st) \<and> en_step en (hs_calls st) then length rows else 0))"

definition totalSamples :: "engine \<Rightarrow> SqliteHistoryStore \<Rightarrow> nat" where
  "totalSamples en st = rowCount en Raw st"

section \<open>The sweep\<close>

definition kMinuteBucketMs :: int where "kMinuteBucketMs = 60000"
definition kHourBucketMs :: int where "kHourBucketMs = 3600000"

record MaintenanceConfig =
  rawRetention :: int
  minuteRetention :: int

definition default_maintenance :: MaintenanceConfig where
  "default_maintenance = \<lparr>rawRetention = 3600000, minuteRetention = 24 * 3600000\<rparr>"

definition sweep :: "engine \<Rightarrow> MaintenanceConfig \<Rightarrow> int \<Rightarrow> SqliteHistoryStore \<Rightarrow> SqliteHistoryStore" where
  "sweep en cfg now st =
     snd (demoteOlderThan en Minute Hour (now - minuteRetention cfg) kHourBucketMs
       (snd (demoteOlderThan en Raw Minute (now - rawRetention cfg) kMinuteBucketMs st)))"

section \<open>A working engine\<close>

definition healthy :: "engine \<Rightarrow> bool" where
  "healthy en = (en_open en \<and> (\<forall>n. en_exec en n \<and> en_prepare en n \<and> en_step en n \<and> en_commit en n = Committed))"

definition ready :: "(Tier \<Rightarrow> sample list) \<Rightarrow> SqliteHistoryStore \<Rightarrow> bool" where
  "ready rows st = (hs_db st = Some \<lparr>tables = (\<lambda>t. Some (rows t)), txn = None\<rparr>)"

lemma insert_loop_healthy:
  "healthy en \<Longrightarrow> insert_loop en n rs k rows = (k + length rs, rows @ map sample_of rs)"
  by (induction en n rs k rows rule: insert_loop.induct) (simp_all add: healthy_def)

lemma some_upd: "(\<lambda>t. Some (rows t))(k := Some v) = (\<lambda>t. Some ((rows(k := v)) t))"
  by auto

lemma write_healthy:
  assumes "healthy en" and "ready rows st"
  shows "fst (hs_write en rs st) = length rs" "ready (rows(Raw := rows Raw @ map sample_of rs)) (snd (hs_write en rs st))"
proof -
  have "begin_immediate en n \<lparr>tables = T, txn = None\<rparr> = Some \<lparr>tables = T, txn = Some T\<rparr>" for n T
    using assms(1) by (simp add: begin_immediate_def healthy_def)
  then show "fst (hs_write en rs st) = length rs" "ready (rows(Raw := rows Raw @ map sample_of rs)) (snd (hs_write en rs st))"
    using assms insert_loop_healthy [OF assms(1)]
    by (auto simp: hs_write_def ready_def Let_def healthy_def commit_def some_upd)
qed

definition empty_tiers :: "Tier \<Rightarrow> sample list" where "empty_tiers t = []"

lemma initialize_healthy:
  assumes "healthy en"
  shows "fst (hs_initialize en (\<lambda>_. None) st)" "ready empty_tiers (snd (hs_initialize en (\<lambda>_. None) st))"
proof -
  have "tables_all = (\<lambda>t. Some (empty_tiers t))" if "tables_all = (\<lambda>_. None)(Raw := Some [], Minute := Some [], Hour := Some [])" for tables_all
  proof
    fix t
    show "tables_all t = Some (empty_tiers t)" using that by (cases t) (simp_all add: empty_tiers_def)
  qed
  then show "fst (hs_initialize en (\<lambda>_. None) st)" "ready empty_tiers (snd (hs_initialize en (\<lambda>_. None) st))"
    using assms by (simp_all add: hs_initialize_def healthy_def create_if_missing_def ready_def)
qed

section \<open>Reading what was written\<close>

lemma filter_sort_set: "set (sort_key f xs) = set xs" by simp

lemma fieldCode_inject [simp]: "fieldCode f = fieldCode g \<longleftrightarrow> f = g"
  by (cases f; cases g) simp_all

definition newest :: "nat \<Rightarrow> 'a list \<Rightarrow> 'a list" where
  "newest n xs = (if n = 0 then xs else drop (length xs - n) xs)"

definition in_series :: "HistoryField \<Rightarrow> u32 \<Rightarrow> QueryRange \<Rightarrow> HistoryRecord \<Rightarrow> bool" where
  "in_series f i rg r = (hr_field r = f \<and> entityId r = i \<and> fromMs rg \<le> timestampMs r \<and> timestampMs r \<le> toMs rg)"

lemma set_newest: "set (newest n xs) \<subseteq> set xs"
  by (auto simp: newest_def dest: in_set_dropD)

lemma rev_select:
  "rev (select_desc code ent rg rows) =
    newest (q_limit rg) (sort_key s_ts (filter (\<lambda>r. s_field r = code \<and> s_entity r = ent \<and> fromMs rg \<le> s_ts r \<and> s_ts r \<le> toMs rg) rows))"
  by (simp add: select_desc_def newest_def rev_take Let_def)

lemma newest_map: "newest n (map f xs) = map f (newest n xs)"
  by (simp add: newest_def drop_map)

lemma written_rows:
  assumes "healthy en" and "ready rows st"
  shows "ready (rows(Raw := rows Raw @ map sample_of (concat batches))) (foldl (\<lambda>st b. snd (hs_write en b st)) st batches)"
  using assms(2)
proof (induction batches arbitrary: rows st)
  case (Cons b batches)
  have "ready (rows(Raw := rows Raw @ map sample_of b)) (snd (hs_write en b st))" by (rule write_healthy(2) [OF assms(1) Cons.prems])
  from Cons.IH [OF this] show ?case by (simp add: fun_upd_def cong: if_cong)
qed simp

lemma query_written:
  assumes "healthy en" and "toMs rg - fromMs rg \<le> 3600000" and "ready (empty_tiers(Raw := map sample_of rs)) st"
  shows "fst (hs_query en rf f i rg st) =
    map (\<lambda>r. r\<lparr>hr_value := rf (hr_value r)\<rparr>) (newest (q_limit rg) (sort_key timestampMs (filter (in_series f i rg) rs)))"
proof -
  let ?P = "\<lambda>r. s_field r = fieldCode f \<and> s_entity r = sint i \<and> fromMs rg \<le> s_ts r \<and> s_ts r \<le> toMs rg"
  let ?read = "\<lambda>r. \<lparr>timestampMs = s_ts r, hr_field = f, entityId = i, hr_value = rf (s_value r)\<rparr>"
  have t: "tierForRange rg = Raw" using assms(2) by (simp add: tierForRange_def kOneHourMs_def)
  have p: "?P (sample_of x) \<longleftrightarrow> in_series f i rg x" for x
    by (auto simp: sample_of_def in_series_def signed_word_eqI)
  then have fm: "filter ?P (map sample_of rs) = map sample_of (filter (in_series f i rg) rs)"
    by (simp add: filter_map o_def)
  have "fst (hs_query en rf f i rg st) = rev (map ?read (select_desc (fieldCode f) (sint i) rg (map sample_of rs)))"
    using assms t by (simp add: hs_query_def ready_def healthy_def Let_def)
  also have "\<dots> = map ?read (newest (q_limit rg) (sort_key s_ts (filter ?P (map sample_of rs))))"
    by (simp only: rev_map rev_select)
  also have "\<dots> = map (?read \<circ> sample_of) (newest (q_limit rg) (sort_key timestampMs (filter (in_series f i rg) rs)))"
    unfolding fm sort_map newest_map map_map by (simp add: sample_of_def)
  also have "\<dots> = map (\<lambda>r. r\<lparr>hr_value := rf (hr_value r)\<rparr>) (newest (q_limit rg) (sort_key timestampMs (filter (in_series f i rg) rs)))"
  proof (rule map_cong [OF refl])
    fix x
    assume "x \<in> set (newest (q_limit rg) (sort_key timestampMs (filter (in_series f i rg) rs)))"
    then have "in_series f i rg x" using set_newest [of "q_limit rg"] by fastforce
    then show "(?read \<circ> sample_of) x = x\<lparr>hr_value := rf (hr_value x)\<rparr>" by (cases x) (auto simp: sample_of_def in_series_def)
  qed
  finally show ?thesis .
qed

text \<open>
  The archive gives back what it was given. On a working engine, a query of at most an hour
  returns exactly the recorded samples of its series in its time window, in ascending order of their time
  stamps, and of those the newest ones when there are more than its limit; whatever batches they came in.
\<close>

theorem archive_round_trip:
  assumes "healthy en" and "toMs rg - fromMs rg \<le> 3600000" and "\<forall>r\<in>set (concat batches). rf (hr_value r) = hr_value r"
    and "st = foldl (\<lambda>st b. snd (hs_write en b st)) (snd (hs_initialize en (\<lambda>_. None) store_new)) batches"
  shows "fst (hs_query en rf f i rg st) = newest (q_limit rg) (sort_key timestampMs (filter (in_series f i rg) (concat batches)))"
proof -
  let ?sel = "newest (q_limit rg) (sort_key timestampMs (filter (in_series f i rg) (concat batches)))"
  have r: "ready (empty_tiers(Raw := map sample_of (concat batches))) st"
    using written_rows [OF assms(1) initialize_healthy(2) [OF assms(1)], of batches store_new] assms(4) by (simp add: empty_tiers_def)
  have "map (\<lambda>r. r\<lparr>hr_value := rf (hr_value r)\<rparr>) ?sel = map id ?sel"
  proof (rule map_cong [OF refl])
    fix x
    assume "x \<in> set ?sel"
    then have "x \<in> set (concat batches)" using set_newest [of "q_limit rg"] by fastforce
    with assms(3) have "rf (hr_value x) = hr_value x" by blast
    then show "x\<lparr>hr_value := rf (hr_value x)\<rparr> = id x" by simp
  qed
  then show ?thesis using query_written [OF assms(1,2) r] by simp
qed

definition good_engine :: engine where
  "good_engine = \<lparr>en_open = True, en_exec = (\<lambda>_. True), en_prepare = (\<lambda>_. True), en_step = (\<lambda>_. True), en_rows = (\<lambda>_. 0),
     en_commit = (\<lambda>_. Committed), en_avg = (\<lambda>xs. hd xs)\<rparr>"

lemma good_engine_healthy: "healthy good_engine"
  by (simp add: good_engine_def healthy_def)

theorem archive_round_trip_witness:
  "fst (hs_query good_engine id Throughput 0 \<lparr>fromMs = 0, toMs = 10, q_limit = 1\<rparr>
     (foldl (\<lambda>st b. snd (hs_write good_engine b st)) (snd (hs_initialize good_engine (\<lambda>_. None) store_new))
       [[\<lparr>timestampMs = 7, hr_field = Throughput, entityId = 0, hr_value = 2\<rparr>], [\<lparr>timestampMs = 5, hr_field = Throughput, entityId = 0, hr_value = 1\<rparr>]])) =
   [\<lparr>timestampMs = 7, hr_field = Throughput, entityId = 0, hr_value = 2\<rparr>]"
  using archive_round_trip [OF good_engine_healthy, of "\<lparr>fromMs = 0, toMs = 10, q_limit = 1\<rparr>"
      "[[\<lparr>timestampMs = 7, hr_field = Throughput, entityId = 0, hr_value = 2\<rparr>], [\<lparr>timestampMs = 5, hr_field = Throughput, entityId = 0, hr_value = 1\<rparr>]]"
      id _ Throughput 0, OF _ _ refl]
  by (simp add: newest_def in_series_def)

section \<open>Every operation\<close>

text \<open>The engine may answer differently at every call.\<close>

datatype store_op = WriteBatch engine "HistoryRecord list" | SweepAt engine int

fun store_step :: "MaintenanceConfig \<Rightarrow> SqliteHistoryStore \<Rightarrow> store_op \<Rightarrow> SqliteHistoryStore" where
  "store_step cfg st (WriteBatch en rs) = snd (hs_write en rs st)"
| "store_step cfg st (SweepAt en now) = sweep en cfg now st"

text \<open>A property of the rows of each tier, in the tables and in the open transaction.\<close>

definition all_rows :: "(Tier \<Rightarrow> sample \<Rightarrow> bool) \<Rightarrow> (Tier \<Rightarrow> sample list option) \<Rightarrow> bool" where
  "all_rows P T = (\<forall>t rows. T t = Some rows \<longrightarrow> (\<forall>r\<in>set rows. P t r))"

definition store_rows :: "(Tier \<Rightarrow> sample \<Rightarrow> bool) \<Rightarrow> SqliteHistoryStore \<Rightarrow> bool" where
  "store_rows P st = (\<forall>d. hs_db st = Some d \<longrightarrow> all_rows P (tables d) \<and> (\<forall>T. txn d = Some T \<longrightarrow> all_rows P T))"

definition db_rows_ok :: "(Tier \<Rightarrow> sample \<Rightarrow> bool) \<Rightarrow> history_db \<Rightarrow> bool" where
  "db_rows_ok P d = (all_rows P (tables d) \<and> (\<forall>T. txn d = Some T \<longrightarrow> all_rows P T))"

lemma store_rows_db: "store_rows P st \<longleftrightarrow> (\<forall>d. hs_db st = Some d \<longrightarrow> db_rows_ok P d)"
  by (simp add: store_rows_def db_rows_ok_def)

lemma transactions_ok:
  "db_rows_ok P d \<Longrightarrow> begin_immediate en n d = Some d' \<Longrightarrow> db_rows_ok P d' \<and> tables d' = tables d"
  "db_rows_ok P d \<Longrightarrow> db_rows_ok P (rollback en n d)"
  "db_rows_ok P d \<Longrightarrow> db_rows_ok P (commit en n d)"
  by (auto simp: begin_immediate_def rollback_def commit_def undo_def db_rows_ok_def split: if_splits option.splits commit_result.splits)

lemma table_ok: "db_rows_ok P d \<Longrightarrow> tables d t = Some rows \<Longrightarrow> \<forall>r\<in>set rows. P t r"
  by (auto simp: db_rows_ok_def all_rows_def)

lemma put_table_ok: "db_rows_ok P d \<Longrightarrow> \<forall>r\<in>set rows. P t r \<Longrightarrow> db_rows_ok P (d\<lparr>tables := (tables d)(t := Some rows)\<rparr>)"
  by (auto simp: db_rows_ok_def all_rows_def)

lemma insert_loop_set: "set (snd (insert_loop en n rs k rows)) \<subseteq> set rows \<union> sample_of ` set rs"
proof (induction rs arbitrary: n k rows)
  case (Cons r rs)
  show ?case using Cons.IH [of "n + 1" "k + 1" "rows @ [sample_of r]"] Cons.IH [of "n + 1" k rows] by auto
qed simp

lemma write_rows:
  assumes "store_rows P st" and "\<forall>r\<in>set rs. P Raw (sample_of r)"
  shows "store_rows P (snd (hs_write en rs st))"
proof (cases "hs_db st")
  case None
  then show ?thesis using assms(1) by (simp add: hs_write_def store_rows_def Let_def)
next
  case (Some d)
  then have d: "db_rows_ok P d" using assms(1) by (simp add: store_rows_db)
  show ?thesis
  proof (cases "begin_immediate en (hs_calls st) d")
    case None
    then show ?thesis using Some d by (simp add: hs_write_def store_rows_db Let_def)
  next
    case b: (Some d')
    note d' = transactions_ok(1) [OF d b]
    have q: "db_rows_ok P (d'\<lparr>tables := (tables d)(Raw := Some (snd (insert_loop en n rs k rows)))\<rparr>)" if "tables d Raw = Some rows" for n k rows
    proof -
      have "\<forall>r\<in>set (snd (insert_loop en n rs k rows)). P Raw r"
      proof
        fix r
        assume "r \<in> set (snd (insert_loop en n rs k rows))"
        then consider "r \<in> set rows" | x where "x \<in> set rs" "r = sample_of x" using insert_loop_set [of en n rs k rows] by blast
        then show "P Raw r" using that table_ok [of P d' Raw rows] d' assms(2) by cases simp_all
      qed
      then show ?thesis using put_table_ok [of P d' _ Raw] d' by simp
    qed
    show ?thesis
    proof (cases "tables d Raw")
      case None
      then show ?thesis using Some b d d' transactions_ok(2) by (simp add: hs_write_def store_rows_db Let_def)
    next
      case r: (Some rows)
      then show ?thesis using Some b d d' transactions_ok(2) transactions_ok(3) [OF q [OF r]]
        by (simp add: hs_write_def store_rows_db Let_def case_prod_beta)
    qed
  qed
qed

lemma demote_rows:
  assumes "store_rows P st" and "\<And>rows. \<forall>r\<in>set rows. P src r \<Longrightarrow> \<forall>r\<in>set (averages (en_avg en) b (older t rows)). P dst r"
  shows "store_rows P (snd (demoteOlderThan en src dst t b st))"
proof (cases "hs_db st")
  case None
  then show ?thesis using assms(1) by (simp add: demoteOlderThan_def store_rows_def Let_def)
next
  case (Some d)
  then have d: "db_rows_ok P d" using assms(1) by (simp add: store_rows_db)
  show ?thesis
  proof (cases "begin_immediate en (hs_calls st) d")
    case None
    then show ?thesis using Some d by (simp add: demoteOlderThan_def store_rows_db Let_def)
  next
    case bg: (Some d')
    note d' = transactions_ok(1) [OF d bg]
    have p: "db_rows_ok P (d'\<lparr>tables := (tables d)(dst := Some (to_rows @ averages (en_avg en) b (older t from_rows)))\<rparr>)"
      if "tables d src = Some from_rows" "tables d dst = Some to_rows" for from_rows to_rows
    proof -
      have "\<forall>r\<in>set (to_rows @ averages (en_avg en) b (older t from_rows)). P dst r"
        using that d' table_ok [of P d' dst to_rows] table_ok [of P d' src from_rows] assms(2) [of from_rows] by auto
      then show ?thesis using put_table_ok [of P d' _ dst] d' by simp
    qed
    then have "db_rows_ok P (d'\<lparr>tables := (tables d)(dst := Some (to_rows @ averages (en_avg en) b (older t from_rows)),
        src := Some (filter (\<lambda>r. \<not> s_ts r < t) from_rows))\<rparr>)"
      if "tables d src = Some from_rows" "tables d dst = Some to_rows" for from_rows to_rows
      using that d' table_ok [of P d' src from_rows] put_table_ok [OF p [OF that], of "filter (\<lambda>r. \<not> s_ts r < t) from_rows" src] by simp
    note q = p this
    show ?thesis using Some bg d d' transactions_ok(2,3) q
      by (auto simp: demoteOlderThan_def store_rows_db Let_def split: option.split)
  qed
qed

section \<open>Sweeps\<close>

text \<open>\<^verbatim>\<open>AVG\<close> of a group lies between the least and the greatest of its values.\<close>

definition between_extremes :: "engine \<Rightarrow> bool" where
  "between_extremes en = (\<forall>xs lo hi. xs \<noteq> [] \<longrightarrow> (\<forall>x\<in>set xs. lo \<le> x \<and> x \<le> hi) \<longrightarrow> lo \<le> en_avg en xs \<and> en_avg en xs \<le> hi)"

text \<open>What every row of a tier satisfies: values within bounds, no negative time, and in a coarse tier no
  sample younger than that tier's retention at time \<open>T\<close>.\<close>

definition tier_row :: "real \<Rightarrow> real \<Rightarrow> MaintenanceConfig \<Rightarrow> int \<Rightarrow> Tier \<Rightarrow> sample \<Rightarrow> bool" where
  "tier_row lo hi cfg T t r = (lo \<le> s_value r \<and> s_value r \<le> hi \<and> 0 \<le> s_ts r \<and>
     (case t of Raw \<Rightarrow> True | Minute \<Rightarrow> s_ts r < T - rawRetention cfg | Hour \<Rightarrow> s_ts r < T - minuteRetention cfg))"

fun op_ok :: "real \<Rightarrow> real \<Rightarrow> int \<Rightarrow> store_op \<Rightarrow> bool" where
  "op_ok lo hi T (WriteBatch en rs) = (\<forall>r\<in>set rs. lo \<le> hr_value r \<and> hr_value r \<le> hi \<and> 0 \<le> timestampMs r)"
| "op_ok lo hi T (SweepAt en now) = (now \<le> T \<and> between_extremes en)"

lemma bucket_start:
  fixes t b :: int
  assumes "0 \<le> t" and "0 < b"
  shows "0 \<le> t sdiv b * b \<and> t sdiv b * b \<le> t"
proof -
  have s: "t sdiv b = t div b" using assms by (cases "t = 0") (simp_all add: signed_divide_int_def)
  have "t div b * b = t - t mod b" by (simp add: minus_mod_eq_div_mult)
  moreover have "0 \<le> t mod b" "0 \<le> t div b * b" using assms by (simp_all add: pos_imp_zdiv_nonneg_iff)
  ultimately show ?thesis unfolding s by linarith
qed

lemma averages_ok:
  assumes "between_extremes en" and "0 < b" and "r \<in> set (averages (en_avg en) b rows)"
    and "\<forall>x\<in>set rows. lo \<le> s_value x \<and> s_value x \<le> hi \<and> 0 \<le> s_ts x \<and> s_ts x < c"
  shows "lo \<le> s_value r \<and> s_value r \<le> hi \<and> 0 \<le> s_ts r \<and> s_ts r < c"
proof -
  obtain x where x: "x \<in> set rows" "r = \<lparr>s_ts = fst (bucket_of b x) * b, s_field = fst (snd (bucket_of b x)), s_entity = snd (snd (bucket_of b x)),
      s_value = en_avg en (map s_value (filter (\<lambda>r. bucket_of b r = bucket_of b x) rows))\<rparr>"
    using assms(3) by (auto simp: averages_def)
  let ?xs = "map s_value (filter (\<lambda>r. bucket_of b r = bucket_of b x) rows)"
  have "?xs \<noteq> []" "\<forall>v\<in>set ?xs. lo \<le> v \<and> v \<le> hi" using x(1) assms(4) by (auto simp: filter_empty_conv)
  then have "lo \<le> en_avg en ?xs \<and> en_avg en ?xs \<le> hi" using assms(1) unfolding between_extremes_def by blast
  moreover have "0 \<le> s_ts x sdiv b * b \<and> s_ts x sdiv b * b < c" using bucket_start [of "s_ts x" b] assms(2,4) x(1) by fastforce
  ultimately show ?thesis by (simp add: x(2) bucket_of_def)
qed

lemma sweep_rows:
  assumes "store_rows (tier_row lo hi cfg T) st" and "now \<le> T" and "between_extremes en"
  shows "store_rows (tier_row lo hi cfg T) (sweep en cfg now st)"
proof -
  have a: "\<forall>r\<in>set (averages (en_avg en) kMinuteBucketMs (older (now - rawRetention cfg) rows)). tier_row lo hi cfg T Minute r"
    if "\<forall>r\<in>set rows. tier_row lo hi cfg T Raw r" for rows
    using averages_ok [OF assms(3), of kMinuteBucketMs _ "older (now - rawRetention cfg) rows" lo hi "T - rawRetention cfg"] that assms(2)
    by (auto simp: tier_row_def older_def kMinuteBucketMs_def)
  have b: "\<forall>r\<in>set (averages (en_avg en) kHourBucketMs (older (now - minuteRetention cfg) rows)). tier_row lo hi cfg T Hour r"
    if "\<forall>r\<in>set rows. tier_row lo hi cfg T Minute r" for rows
    using averages_ok [OF assms(3), of kHourBucketMs _ "older (now - minuteRetention cfg) rows" lo hi "T - minuteRetention cfg"] that assms(2)
    by (auto simp: tier_row_def older_def kHourBucketMs_def)
  show ?thesis unfolding sweep_def by (rule demote_rows [OF demote_rows [OF assms(1)]]) (use a b in blast)+
qed

lemma store_step_rows:
  "store_rows (tier_row lo hi cfg T) st \<Longrightarrow> op_ok lo hi T op \<Longrightarrow> store_rows (tier_row lo hi cfg T) (store_step cfg st op)"
  by (cases op) (simp_all add: sweep_rows, auto intro!: write_rows simp: tier_row_def sample_of_def)

interpretation tiers: guarded_machine "store_step cfg" "op_ok lo hi T" "store_rows (tier_row lo hi cfg T)" for cfg lo hi T
  by unfold_locales (rule store_step_rows)

lemma query_rows:
  assumes "store_rows P st" and "r \<in> set (fst (hs_query en rf f i rg st))"
  shows "\<exists>x. P (tierForRange rg) x \<and> timestampMs r = s_ts x \<and> hr_value r = rf (s_value x) \<and> fromMs rg \<le> s_ts x \<and> s_ts x \<le> toMs rg"
proof -
  obtain d rows where d: "hs_db st = Some d" "tables d (tierForRange rg) = Some rows"
    using assms(2) by (auto simp: hs_query_def Let_def split: option.splits)
  then have "\<forall>x\<in>set rows. P (tierForRange rg) x" using assms(1) table_ok [of P d "tierForRange rg" rows] by (simp add: store_rows_db)
  moreover have "set (select_desc (fieldCode f) (sint i) rg rows) \<subseteq> {x \<in> set rows. fromMs rg \<le> s_ts x \<and> s_ts x \<le> toMs rg}"
    by (auto simp: select_desc_def Let_def dest: in_set_takeD split: if_splits)
  moreover have "\<exists>x \<in> set (select_desc (fieldCode f) (sint i) rg rows). timestampMs r = s_ts x \<and> hr_value r = rf (s_value x)"
    using assms(2) d by (auto simp: hs_query_def Let_def dest: in_set_takeD split: if_splits)
  ultimately show ?thesis by blast
qed

lemma initial_rows: "store_rows P (snd (hs_initialize en (\<lambda>_. None) st))"
proof -
  have c: "db_rows_ok P d \<Longrightarrow> \<forall>ddl\<in>set ddls. \<forall>d. db_rows_ok P d \<longrightarrow> db_rows_ok P (ddl d) \<Longrightarrow> db_rows_ok P (snd (create_loop en n ddls d))" for n ddls d
    by (induction en n ddls d rule: create_loop.induct) simp_all
  have m: "db_rows_ok P d \<longrightarrow> db_rows_ok P (create_if_missing t d)" for t d
    by (auto simp: create_if_missing_def db_rows_ok_def all_rows_def)
  have "db_rows_ok P \<lparr>tables = \<lambda>_. None, txn = None\<rparr>" by (simp add: db_rows_ok_def all_rows_def)
  from c [OF this, of "[create_if_missing Raw, id, create_if_missing Minute, id, create_if_missing Hour, id]" "hs_calls st + 3"] m
  show ?thesis by (simp add: hs_initialize_def store_rows_db case_prod_beta)
qed


lemma good_engine_between: "between_extremes good_engine"
  unfolding between_extremes_def
proof (intro allI impI)
  fix xs :: "real list" and lo hi
  assume "xs \<noteq> []" "\<forall>x\<in>set xs. lo \<le> x \<and> x \<le> hi"
  then show "lo \<le> en_avg good_engine xs \<and> en_avg good_engine xs \<le> hi" by (cases xs) (simp_all add: good_engine_def)
qed

definition demo_ops :: "store_op list" where
  "demo_ops = [WriteBatch good_engine [\<lparr>timestampMs = 100000, hr_field = QualityPassRate, entityId = 1, hr_value = 97\<rparr>], SweepAt good_engine 5000000]"

definition demo_archive :: SqliteHistoryStore where
  "demo_archive = foldl (store_step default_maintenance) (snd (hs_initialize good_engine (\<lambda>_. None) store_new)) demo_ops"

lemma demo_ops_ok: "\<forall>op\<in>set demo_ops. op_ok 0 100 5000000 op"
  using good_engine_between by (simp add: demo_ops_def)

lemma demo_folded:
  "\<lparr>timestampMs = 60000, hr_field = QualityPassRate, entityId = 1, hr_value = 97\<rparr>
     \<in> set (fst (hs_query good_engine id QualityPassRate 1 \<lparr>fromMs = 0, toMs = 5000000, q_limit = 0\<rparr> demo_archive))"
proof -
  let ?row = "\<lambda>ts. \<lparr>s_ts = ts, s_field = ''Q'', s_entity = 1, s_value = 97\<rparr>"
  let ?st1 = "snd (hs_write good_engine [\<lparr>timestampMs = 100000, hr_field = QualityPassRate, entityId = 1, hr_value = 97\<rparr>]
    (snd (hs_initialize good_engine (\<lambda>_. None) store_new)))"
  have "ready (empty_tiers(Raw := [?row 100000])) ?st1"
    using written_rows [OF good_engine_healthy initialize_healthy(2) [OF good_engine_healthy],
        of "[[\<lparr>timestampMs = 100000, hr_field = QualityPassRate, entityId = 1, hr_value = 97\<rparr>]]" store_new]
    by (simp add: empty_tiers_def sample_of_def)
  then have "tables (the (hs_db demo_archive)) Minute = Some [?row 60000]" "hs_db demo_archive \<noteq> None"
    by (simp_all add: demo_archive_def demo_ops_def sweep_def demoteOlderThan_def ready_def begin_immediate_def commit_def good_engine_def
        default_maintenance_def kMinuteBucketMs_def kHourBucketMs_def older_def averages_def bucket_of_def empty_tiers_def Let_def)
  then show ?thesis
    by (auto simp: hs_query_def tierForRange_def kOneHourMs_def kOneDayMs_def select_desc_def good_engine_def Let_def)
qed


text \<open>
  A long range never shows the recent past. On an archive swept with the default retention at
  times up to \<open>T\<close>, no query of more than an hour ever returns a sample of the last hour before \<open>T\<close>, and none
  of more than a day returns one of the last day: those samples are still in a finer tier, which such a query
  does not read.
\<close>

theorem long_ranges_miss_recent_samples:
  assumes "\<forall>op\<in>set ops. op_ok lo hi T op" and "3600000 < toMs rg - fromMs rg"
    and "r \<in> set (fst (hs_query en rf f i rg (foldl (store_step default_maintenance) (snd (hs_initialize en0 (\<lambda>_. None) store_new)) ops)))"
  shows "timestampMs r < T - 3600000 \<and> (24 * 3600000 < toMs rg - fromMs rg \<longrightarrow> timestampMs r < T - 24 * 3600000)"
proof -
  have "store_rows (tier_row lo hi default_maintenance T) (foldl (store_step default_maintenance) (snd (hs_initialize en0 (\<lambda>_. None) store_new)) ops)"
    by (rule tiers.inv_run [OF initial_rows]) (use assms(1) in blast)
  from query_rows [OF this assms(3)] obtain x where "tier_row lo hi default_maintenance T (tierForRange rg) x" "timestampMs r = s_ts x" by blast
  then show ?thesis using assms(2)
    by (auto simp: tier_row_def tierForRange_def kOneHourMs_def kOneDayMs_def default_maintenance_def Let_def split: if_splits)
qed

theorem long_ranges_miss_recent_samples_witness:
  "\<lparr>timestampMs = 60000, hr_field = QualityPassRate, entityId = 1, hr_value = 97\<rparr>
     \<in> set (fst (hs_query good_engine id QualityPassRate 1 \<lparr>fromMs = 0, toMs = 5000000, q_limit = 0\<rparr> demo_archive)) \<and>
   (60000 :: int) < 5000000 - 3600000"
  using long_ranges_miss_recent_samples [OF demo_ops_ok _ demo_folded [unfolded demo_archive_def]] demo_folded by simp

section \<open>A COMMIT that fails\<close>

definition stuck :: "SqliteHistoryStore \<Rightarrow> bool" where
  "stuck st = (\<exists>d. hs_db st = Some d \<and> txn d \<noteq> None)"

lemma stuck_ops:
  assumes "stuck st"
  shows "fst (hs_write en rs st) = 0" "hs_db (snd (hs_write en rs st)) = hs_db st" "hs_db (snd (demoteOlderThan en src dst t b st)) = hs_db st"
  using assms by (auto simp: stuck_def hs_write_def demoteOlderThan_def begin_immediate_def Let_def)

lemma stuck_step: "stuck st \<Longrightarrow> hs_db (store_step cfg st op) = hs_db st"
proof (cases op)
  case (SweepAt en now)
  assume s: "stuck st"
  then have "stuck (snd (demoteOlderThan en Raw Minute (now - rawRetention cfg) kMinuteBucketMs st))"
    using stuck_ops(3) by (simp add: stuck_def)
  then show ?thesis using SweepAt stuck_ops(3) s by (simp add: sweep_def)
qed (simp add: stuck_ops)

lemma stuck_run: "stuck st \<Longrightarrow> hs_db (foldl (store_step cfg) st ops) = hs_db st"
proof (induction ops arbitrary: st)
  case (Cons op ops)
  then show ?case using stuck_step [OF Cons.prems, of cfg op] Cons.IH [of "store_step cfg st op"] by (simp add: stuck_def)
qed simp

text \<open>
  C29. One failed COMMIT ends the recording. If the engine refuses the COMMIT of one batch and keeps the
  transaction open (a busy or full disk), the store neither retries nor rolls back: every later write accepts
  nothing and every later sweep does nothing, on any engine, for as long as the store lives.
\<close>

theorem failed_commit_is_final:
  assumes "ready rows st" and "rs \<noteq> []" and "\<forall>n. en_exec en n \<and> en_prepare en n \<and> en_commit en n = CommitFails"
    and "st' = foldl (store_step cfg) (snd (hs_write en rs st)) ops"
  shows "fst (hs_write en' rs' st') = 0 \<and> hs_db st' = hs_db (snd (hs_write en rs st))"
proof -
  have "stuck (snd (hs_write en rs st))" using assms(1-3)
    by (auto simp: stuck_def hs_write_def ready_def begin_immediate_def commit_def Let_def case_prod_beta)
  then show ?thesis using stuck_run [of _ cfg ops] stuck_ops(1) assms(4) by (simp add: stuck_def)
qed

theorem failed_commit_is_final_witness:
  "fst (hs_write good_engine [\<lparr>timestampMs = 9, hr_field = Throughput, entityId = 0, hr_value = 1\<rparr>]
     (foldl (store_step default_maintenance)
       (snd (hs_write (good_engine\<lparr>en_commit := \<lambda>_. CommitFails\<rparr>) [\<lparr>timestampMs = 7, hr_field = Throughput, entityId = 0, hr_value = 2\<rparr>]
         (snd (hs_initialize good_engine (\<lambda>_. None) store_new)))) demo_ops)) = 0"
proof -
  have "ready empty_tiers (snd (hs_initialize good_engine (\<lambda>_. None) store_new))" by (rule initialize_healthy [OF good_engine_healthy])
  from failed_commit_is_final [OF this _ _ refl, of "[\<lparr>timestampMs = 7, hr_field = Throughput, entityId = 0, hr_value = 2\<rparr>]"
      "good_engine\<lparr>en_commit := \<lambda>_. CommitFails\<rparr>" good_engine _ default_maintenance demo_ops]
  show ?thesis by (simp add: good_engine_def)
qed

text \<open>A DELETE that fails does not undo the INSERT before it: the samples are then in both tiers, and the
  next sweep folds them once more.\<close>

lemma failed_delete_duplicates:
  assumes "ready rows st" and "\<forall>n. en_exec en n \<and> en_prepare en n \<and> en_commit en n = Committed"
    and "en_step en (hs_calls st + 2)" and "\<not> en_step en (hs_calls st + 5)"
  shows "ready (rows(Minute := rows Minute @ averages (en_avg en) kMinuteBucketMs (older t (rows Raw))))
    (snd (demoteOlderThan en Raw Minute t kMinuteBucketMs st))"
  using assms by (auto simp: demoteOlderThan_def ready_def begin_immediate_def commit_def kMinuteBucketMs_def Let_def)

end
