(* ===== verification/HistorianBridge.thy ===== *)
theory HistorianBridge
  imports HistoryStore MirrorModel
begin

text \<open>
  \<^verbatim>\<open>historian/HistorianBridge.cpp\<close>: the bridge subscribes to the production model and writes what it is told
  to the history store, in batches. The clocks and the OEE figure the model computes at the moment of a
  notification are arguments; the mutex is not modelled.

  The theorems: nothing is lost, repeated or reordered on the way to the writer, and batches are bounded;
  after a flush, the newest archived sample of every line and checkpoint is the value the model has now.
\<close>

section \<open>The bridge\<close>

record HistorianConfig =
  maxBatchSize :: nat
  maxBatchAge :: int

definition default_historian :: HistorianConfig where
  "default_historian = \<lparr>maxBatchSize = 32, maxBatchAge = 5000\<rparr>"

record HistorianBridge =
  hb_pending :: "HistoryRecord list"
  hb_batchEpoch :: int

definition historian_new :: "int \<Rightarrow> HistorianBridge" where
  "historian_new now = \<lparr>hb_pending = [], hb_batchEpoch = now\<rparr>"

text \<open>\<^verbatim>\<open>flushLocked\<close>: the batch handed to the writer, if any. What the writer accepts makes no difference to
  the bridge. \<open>after\<close> is the steady clock after the write.\<close>

definition flushLocked :: "int \<Rightarrow> HistorianBridge \<Rightarrow> HistorianBridge \<times> HistoryRecord list list" where
  "flushLocked after b =
     (if hb_pending b = [] then (b, []) else (b\<lparr>hb_pending := [], hb_batchEpoch := after\<rparr>, [hb_pending b]))"

definition enqueue :: "HistorianConfig \<Rightarrow> int \<times> int \<Rightarrow> HistoryRecord \<Rightarrow> HistorianBridge \<Rightarrow> HistorianBridge \<times> HistoryRecord list list" where
  "enqueue cfg clock record b =
     (let b = b\<lparr>hb_pending := hb_pending b @ [record]\<rparr>;
          full = maxBatchSize cfg \<le> length (hb_pending b);
          stale = maxBatchAge cfg \<le> fst clock - hb_batchEpoch b
      in if full \<or> stale then flushLocked (snd clock) b else (b, []))"

text \<open>The subscriptions of \<^verbatim>\<open>wire\<close>, as the subscriber \<open>d\<close>.\<close>

definition historian_wire :: "'cb \<Rightarrow> 'cb SimulatedModel \<Rightarrow> 'cb SimulatedModel" where
  "historian_wire d s =
     sim_onWorkUnitChanged d (sim_onSystemStateChanged d (sim_onEquipmentStatusChanged d (sim_onQualityCheckpointChanged d s)))"

text \<open>What surrounds one notification: the wall clock in milliseconds, the two readings of the steady clock
  of each \<^verbatim>\<open>enqueue\<close>, and the OEE the model answers.\<close>

record surroundings =
  su_now :: int
  su_clock :: "nat \<Rightarrow> int \<times> int"
  su_oee :: real

fun state_index :: "SystemState \<Rightarrow> real" where
  "state_index IDLE = 0"
| "state_index RUNNING = 1"
| "state_index ERROR = 2"
| "state_index CALIBRATION = 3"

text \<open>The records of one notification; \<open>rf\<close> is the conversion to \<^verbatim>\<open>float\<close>.\<close>

fun historize :: "(real \<Rightarrow> real) \<Rightarrow> 'cb \<Rightarrow> surroundings \<Rightarrow> 'cb notice \<Rightarrow> HistoryRecord list" where
  "historize rf d su (QualityNote cb qc) =
     (if cb = d then [\<lparr>timestampMs = su_now su, hr_field = QualityPassRate, entityId = checkpointId qc, hr_value = passRate qc\<rparr>] else [])"
| "historize rf d su (EquipmentNote cb es) =
     (if cb = d then [\<lparr>timestampMs = su_now su, hr_field = EquipmentSupplyLevel, entityId = equipmentId es,
        hr_value = rf (real_of_int (supplyLevel es))\<rparr>] else [])"
| "historize rf d su (StateNote cb st) =
     (if cb = d then [\<lparr>timestampMs = su_now su, hr_field = SystemStateField, entityId = 0, hr_value = state_index st\<rparr>] else [])"
| "historize rf d su (WorkUnitNote cb wu) =
     (if cb = d then [\<lparr>timestampMs = su_now su, hr_field = Throughput, entityId = 0, hr_value = rf (throughputUnitsPerHour wu)\<rparr>,
        \<lparr>timestampMs = su_now su, hr_field = OeePercent, entityId = 0, hr_value = su_oee su\<rparr>] else [])"
| "historize rf d su (ActuatorNote cb ac) = []"

fun enqueue_all :: "HistorianConfig \<Rightarrow> (nat \<Rightarrow> int \<times> int) \<Rightarrow> nat \<Rightarrow> HistoryRecord list \<Rightarrow> HistorianBridge \<Rightarrow> HistorianBridge \<times> HistoryRecord list list" where
  "enqueue_all cfg clock i [] b = (b, [])"
| "enqueue_all cfg clock i (r # rs) b =
     (case enqueue cfg (clock i) r b of (b1, w1) \<Rightarrow> (case enqueue_all cfg clock (i + 1) rs b1 of (b2, w2) \<Rightarrow> (b2, w1 @ w2)))"

datatype 'cb historian_op = Notified surroundings "'cb notice" | Flush int

fun historian_exec :: "(real \<Rightarrow> real) \<Rightarrow> HistorianConfig \<Rightarrow> 'cb \<Rightarrow> HistorianBridge \<Rightarrow> 'cb historian_op \<Rightarrow> HistorianBridge \<times> HistoryRecord list list" where
  "historian_exec rf cfg d b (Notified su n) = enqueue_all cfg (su_clock su) 0 (historize rf d su n) b"
| "historian_exec rf cfg d b (Flush after) = flushLocked after b"

text \<open>The bridge and the batches written so far.\<close>

definition historian_step ::
    "(real \<Rightarrow> real) \<Rightarrow> HistorianConfig \<Rightarrow> 'cb \<Rightarrow> HistorianBridge \<times> HistoryRecord list list \<Rightarrow> 'cb historian_op \<Rightarrow>
     HistorianBridge \<times> HistoryRecord list list" where
  "historian_step rf cfg d t op = (fst (historian_exec rf cfg d (fst t) op), snd t @ snd (historian_exec rf cfg d (fst t) op))"

fun records_of :: "(real \<Rightarrow> real) \<Rightarrow> 'cb \<Rightarrow> 'cb historian_op \<Rightarrow> HistoryRecord list" where
  "records_of rf d (Notified su n) = historize rf d su n"
| "records_of rf d (Flush after) = []"

section \<open>Nothing is lost\<close>

definition batched :: "HistorianConfig \<Rightarrow> HistoryRecord list \<Rightarrow> HistorianBridge \<times> HistoryRecord list list \<Rightarrow> bool" where
  "batched cfg all t =
     (concat (snd t) @ hb_pending (fst t) = all \<and> length (hb_pending (fst t)) < maxBatchSize cfg \<and>
      (\<forall>w\<in>set (snd t). w \<noteq> [] \<and> length w \<le> maxBatchSize cfg))"

lemma enqueue_batched:
  "batched cfg all t \<Longrightarrow> batched cfg (all @ [r]) (fst (enqueue cfg clock r (fst t)), snd t @ snd (enqueue cfg clock r (fst t)))"
  by (auto simp: batched_def enqueue_def flushLocked_def Let_def)

lemma enqueue_all_batched:
  "batched cfg all t \<Longrightarrow> batched cfg (all @ rs) (fst (enqueue_all cfg clock i rs (fst t)), snd t @ snd (enqueue_all cfg clock i rs (fst t)))"
proof (induction rs arbitrary: all t i)
  case (Cons r rs)
  note e = enqueue_batched [OF Cons.prems, of r "clock i"]
  show ?case using Cons.IH [OF e, of "i + 1"] by (simp add: case_prod_beta)
qed simp

lemma historian_step_batched:
  "batched cfg all t \<Longrightarrow> batched cfg (all @ records_of rf d op) (historian_step rf cfg d t op)"
proof (cases op)
  case (Notified su n)
  then show "batched cfg all t \<Longrightarrow> ?thesis" using enqueue_all_batched [of cfg all t] by (simp add: historian_step_def)
next
  case (Flush after)
  then show "batched cfg all t \<Longrightarrow> ?thesis" by (auto simp: historian_step_def flushLocked_def batched_def)
qed

lemma historian_run_batched:
  "batched cfg all t \<Longrightarrow> batched cfg (all @ concat (map (records_of rf d) ops)) (foldl (historian_step rf cfg d) t ops)"
  by (induction ops arbitrary: all t) (simp, use historian_step_batched in fastforce)

text \<open>
  Nothing is lost on the way to the archive. Through any notifications and flushes, whatever the clocks
  say, the batches handed to the writer followed by what is still held are exactly the records of the
  notifications, in order; no batch is empty or longer than the limit, less than a batch is ever held, and
  nothing after a flush.
\<close>

theorem nothing_lost_on_the_way:
  assumes "0 < maxBatchSize cfg" and "(b, batches) = foldl (historian_step rf cfg d) (historian_new t0, []) ops"
  shows "concat batches @ hb_pending b = concat (map (records_of rf d) ops) \<and> length (hb_pending b) < maxBatchSize cfg \<and>
    (\<forall>w\<in>set batches. w \<noteq> [] \<and> length w \<le> maxBatchSize cfg) \<and> hb_pending (fst (flushLocked after b)) = []"
proof -
  have "batched cfg [] (historian_new t0, [])" using assms(1) by (simp add: batched_def historian_new_def)
  from historian_run_batched [OF this, of rf d ops] have "batched cfg (concat (map (records_of rf d) ops)) (b, batches)"
    by (simp add: assms(2))
  then show ?thesis by (simp add: batched_def flushLocked_def)
qed

definition demo_surroundings :: "int \<Rightarrow> surroundings" where
  "demo_surroundings now = \<lparr>su_now = now, su_clock = (\<lambda>_. (now, now)), su_oee = 80\<rparr>"

theorem nothing_lost_on_the_way_witness:
  "concat (snd (foldl (historian_step (\<lambda>x. x) default_historian (7 :: nat)) (historian_new 0, [])
       [Notified (demo_surroundings 10) (StateNote 7 RUNNING), Notified (demo_surroundings 5000) (StateNote 7 ERROR)])) =
     [\<lparr>timestampMs = 10, hr_field = SystemStateField, entityId = 0, hr_value = 1\<rparr>,
      \<lparr>timestampMs = 5000, hr_field = SystemStateField, entityId = 0, hr_value = 2\<rparr>]"
proof -
  let ?ops = "[Notified (demo_surroundings 10) (StateNote 7 RUNNING), Notified (demo_surroundings 5000) (StateNote 7 ERROR)] :: nat historian_op list"
  let ?t = "foldl (historian_step (\<lambda>x. x) default_historian (7 :: nat)) (historian_new 0, []) ?ops"
  have "0 < maxBatchSize default_historian" by (simp add: default_historian_def)
  from nothing_lost_on_the_way [OF this prod.collapse, of "\<lambda>x. x" 7 0 ?ops] have
    "concat (snd ?t) @ hb_pending (fst ?t) = concat (map (records_of (\<lambda>x. x) 7) ?ops)" by blast
  moreover have "hb_pending (fst ?t) = []"
    by (simp add: historian_step_def enqueue_def flushLocked_def historian_new_def default_historian_def demo_surroundings_def Let_def)
  ultimately show ?thesis by (simp add: demo_surroundings_def)
qed

section \<open>The archive shows the line\<close>

text \<open>The newest recorded value of a series.\<close>

definition latest :: "HistoryField \<Rightarrow> u32 \<Rightarrow> HistoryRecord list \<Rightarrow> real option" where
  "latest f i rs = (let ours = filter (\<lambda>r. hr_field r = f \<and> entityId r = i) rs in
     if ours = [] then None else Some (hr_value (last ours)))"

lemma latest_simps [simp]:
  "latest f i [] = None"
  "latest f i (rs @ [r]) = (if hr_field r = f \<and> entityId r = i then Some (hr_value r) else latest f i rs)"
  "latest f i (rs @ [r, r']) = latest f i ((rs @ [r]) @ [r'])"
  by (auto simp: latest_def Let_def)

definition delivered :: "(real \<Rightarrow> real) \<Rightarrow> 'cb \<Rightarrow> (surroundings \<times> 'cb notice) list \<Rightarrow> HistoryRecord list" where
  "delivered rf d ns = concat (map (\<lambda>(su, n). historize rf d su n) ns)"

lemma latest_supply:
  "latest EquipmentSupplyLevel k (delivered rf d ns) =
   map_option (\<lambda>v. rf (real_of_int v)) (foldl (supply_feed.note_down d) (\<lambda>_. None) (map snd ns) k)"
proof (induction ns rule: rev_induct)
  case (snoc n ns)
  obtain su c where n: "n = (su, c)" by fastforce
  show ?case using snoc by (cases c) (auto simp: n delivered_def supply_feed.note_down_def simp flip: append_assoc)
qed (simp add: delivered_def)

lemma latest_rate:
  "latest QualityPassRate k (delivered rf d ns) = foldl (rate_feed.note_down d) (\<lambda>_. None) (map snd ns) k"
proof (induction ns rule: rev_induct)
  case (snoc n ns)
  obtain su c where n: "n = (su, c)" by fastforce
  show ?case using snoc by (cases c) (auto simp: n delivered_def rate_feed.note_down_def simp flip: append_assoc)
qed (simp add: delivered_def)

text \<open>The notices a sequence of commands makes.\<close>

fun run_notices :: "(real \<Rightarrow> real) \<Rightarrow> 'cb SimulatedModel \<Rightarrow> 'cb sim_op list \<Rightarrow> 'cb SimulatedModel \<times> 'cb notice list" where
  "run_notices rf s [] = (s, [])"
| "run_notices rf s (c # cs) = (case sim_exec rf s c of (s1, n1) \<Rightarrow> (case run_notices rf s1 cs of (s2, n2) \<Rightarrow> (s2, n1 @ n2)))"

lemma run_notices_append:
  "run_notices rf s (cs @ cs') = (case run_notices rf s cs of (s1, n1) \<Rightarrow> (case run_notices rf s1 cs' of (s2, n2) \<Rightarrow> (s2, n1 @ n2)))"
  by (induction cs arbitrary: s) (simp_all split: prod.splits)

lemma run_feeding: "feeding d s \<Longrightarrow> list_all on_line cs \<Longrightarrow> feeding d (fst (run_notices rf s cs))"
  by (induction cs arbitrary: s) (simp_all add: case_prod_beta feeding_step)

lemma run_copies:
  assumes "feeding d s" and "list_all on_line cs"
  shows "copy k = supply_value s k \<and> copy' k' = rate_value s k' \<Longrightarrow>
    foldl (supply_feed.note_down d) copy (snd (run_notices rf s cs)) k = supply_value (fst (run_notices rf s cs)) k \<and>
    foldl (rate_feed.note_down d) copy' (snd (run_notices rf s cs)) k' = rate_value (fst (run_notices rf s cs)) k'"
  using assms
proof (induction cs arbitrary: s copy copy')
  case (Cons c cs)
  have c: "on_line c" and cs: "list_all on_line cs" using Cons.prems by simp_all
  note f = feeding_step [OF Cons.prems(2) c, of rf]
  have "foldl (supply_feed.note_down d) copy (snd (sim_exec rf s c)) k = supply_value (fst (sim_exec rf s c)) k"
    "foldl (rate_feed.note_down d) copy' (snd (sim_exec rf s c)) k' = rate_value (fst (sim_exec rf s c)) k'"
    using Cons.prems supply_feed.copy_step [OF Cons.prems(2) c] rate_feed.copy_step [OF Cons.prems(2) c] by simp_all
  with Cons.IH [OF _ f cs] show ?case by (simp add: case_prod_beta)
qed simp

text \<open>A republish tells every line and every checkpoint.\<close>

lemma republish_copies:
  assumes "feeding d s"
  shows "supply_value s k \<noteq> None \<Longrightarrow> foldl (supply_feed.note_down d) copy (snd (republishAll s)) k = supply_value s k"
    and "rate_value s k \<noteq> None \<Longrightarrow> foldl (rate_feed.note_down d) copy' (snd (republishAll s)) k = rate_value s k"
proof -
  have i: "sim_inv s" "own_rows s" "d \<in> set (equipmentCallbacks s)" "d \<in> set (qualityCallbacks s)" using assms by (simp_all add: feeding_def)
  have r: "republishAll s = (s, snd (republishAll s))" using republishAll_model [OF i(1)] by (metis prod.collapse)
  show "foldl (supply_feed.note_down d) copy (snd (republishAll s)) k = supply_value s k" if "supply_value s k \<noteq> None"
  proof -
    from that obtain e where e: "map_of (equipmentStatuses s) k = Some e" by (auto simp: supply_value_def)
    have "EquipmentNote d e \<in> set (snd (sim_exec rf s SRepublish))" "tells_supply d (EquipmentNote d e) = Some (k, supplyLevel e)" for rf
      using i e own_row_id [OF i(2) e] by (auto simp: republish_lines)
    from supply_feed.copy_told [OF assms _ this] show ?thesis by (simp add: republishAll_model(1) [OF i(1)])
  qed
  show "foldl (rate_feed.note_down d) copy' (snd (republishAll s)) k = rate_value s k" if "rate_value s k \<noteq> None"
  proof -
    from that obtain c where c: "map_of (qualityCheckpoints s) k = Some c" by (auto simp: rate_value_def)
    have "QualityNote d c \<in> set (snd (sim_exec rf s SRepublish))" "tells_rate d (QualityNote d c) = Some (k, passRate c)" for rf
      using i c checkpoint_own_id [OF i(1) c] republish_quality [OF i(1), of d c] by auto
    from rate_feed.copy_told [OF assms _ this] show ?thesis by (simp add: republishAll_model(1) [OF i(1)])
  qed
qed

text \<open>Every record of a notification carries its time; so the records in a window are all of them.\<close>

lemma historize_time: "r \<in> set (historize rf d su n) \<Longrightarrow> timestampMs r = su_now su"
  by (cases n) (auto split: if_splits)

lemma delivered_window:
  "r \<in> set (delivered rf d ns) \<Longrightarrow> \<exists>p \<in> set ns. timestampMs r = su_now (fst p)"
  by (auto simp: delivered_def dest!: historize_time) force

lemma delivered_times:
  "sorted (map (\<lambda>(su, n). su_now su) ns) \<Longrightarrow> sorted (map timestampMs (delivered rf d ns))"
proof (induction ns)
  case (Cons n ns)
  obtain su c where n: "n = (su, c)" by fastforce
  have "map timestampMs (historize rf d su c) = replicate (length (historize rf d su c)) (su_now su)"
    using historize_time [of _ rf d su c] by (intro nth_equalityI) simp_all
  moreover have "su_now su \<le> timestampMs r" if r: "r \<in> set (delivered rf d ns)" for r
    using delivered_window [OF r] Cons.prems by (auto simp: n)
  moreover have "delivered rf d (n # ns) = historize rf d su c @ delivered rf d ns" by (simp add: n delivered_def)
  moreover have "sorted (map timestampMs (delivered rf d ns))" using Cons by simp
  ultimately show ?case by (simp add: sorted_append)
qed (simp add: delivered_def)

lemma newest_last: "xs \<noteq> [] \<Longrightarrow> newest 1 xs = [last xs]"
  by (induction xs rule: rev_induct) (simp_all add: newest_def)

lemma delivered_records:
  "concat (map (records_of rf d) (map (\<lambda>(su, n). Notified su n) ns @ [Flush after])) = delivered rf d ns"
  by (induction ns) (auto simp: delivered_def)

text \<open>What the bridge wrote and the archive answers for the newest sample of a series.\<close>

lemma archive_newest:
  assumes "healthy en" and "0 < maxBatchSize cfg" and "sorted (map (\<lambda>(su, n). su_now su) ns)"
    and "\<forall>p\<in>set ns. t \<le> su_now (fst p) \<and> su_now (fst p) \<le> t + 3600000"
    and "(b, batches) = foldl (historian_step rf cfg d) (historian_new t0, []) (map (\<lambda>(su, n). Notified su n) ns @ [Flush after])"
    and "st = foldl (\<lambda>st b. snd (hs_write en b st)) (snd (hs_initialize en (\<lambda>_. None) store_new)) batches"
  shows "map hr_value (fst (hs_query en rq f k \<lparr>fromMs = t, toMs = t + 3600000, q_limit = 1\<rparr> st)) =
    (case latest f k (delivered rf d ns) of None \<Rightarrow> [] | Some v \<Rightarrow> [rq v])"
proof -
  let ?rg = "\<lparr>fromMs = t, toMs = t + 3600000, q_limit = 1\<rparr>" and ?rs = "delivered rf d ns"
  let ?ours = "filter (\<lambda>r. hr_field r = f \<and> entityId r = k) ?rs"
  have "batched cfg [] (historian_new t0, [])" using assms(2) by (simp add: batched_def historian_new_def)
  from historian_run_batched [OF this, of rf d "map (\<lambda>(su, n). Notified su n) ns @ [Flush after]"]
  have "concat batches @ hb_pending b = ?rs" unfolding assms(5) [symmetric] batched_def delivered_records by simp
  moreover have "hb_pending b = []"
    using assms(5) by (auto simp: historian_step_def flushLocked_def split: if_splits)
  ultimately have c: "concat batches = ?rs" by simp
  have r: "ready (empty_tiers(Raw := map sample_of ?rs)) st"
    using written_rows [OF assms(1) initialize_healthy(2) [OF assms(1)], of batches store_new] assms(6) c by (simp add: empty_tiers_def)
  have w: "filter (in_series f k ?rg) ?rs = ?ours"
    by (rule filter_cong [OF refl]) (use assms(4) delivered_window in \<open>fastforce simp: in_series_def\<close>)
  have "sorted (map timestampMs ?ours)" by (rule sorted_filter [OF delivered_times [OF assms(3)]])
  then have "sort_key timestampMs ?ours = ?ours" by (rule sort_key_id_if_sorted)
  with w have "fst (hs_query en rq f k ?rg st) = map (\<lambda>r. r\<lparr>hr_value := rq (hr_value r)\<rparr>) (newest 1 ?ours)"
    using query_written [OF assms(1) _ r, of ?rg rq f k] by simp
  then show ?thesis using newest_last [of ?ours] by (auto simp: latest_def Let_def) (simp add: newest_def)
qed

lemma wired_feeding: "feeding d (historian_wire d demo_model)"
  using demo_model_inv demo_own_rows
  by (auto simp: feeding_def historian_wire_def sim_onWorkUnitChanged_def sim_onSystemStateChanged_def sim_onEquipmentStatusChanged_def
      sim_onQualityCheckpointChanged_def sim_inv_def own_rows_def)

lemma run_rates:
  "feeding d s \<Longrightarrow> list_all on_line cs \<Longrightarrow> rate_value s k \<noteq> None \<Longrightarrow> rate_value (fst (run_notices rf s cs)) k \<noteq> None"
proof (induction cs arbitrary: s)
  case (Cons c cs)
  have c: "on_line c" "\<not> is_subscription c" using Cons.prems(2) on_line_known [of c] by simp_all
  have "sim_inv s" using Cons.prems(1) by (simp add: feeding_def)
  from quality_row_stays [OF this c(2), of rf k] Cons.prems(3) have "rate_value (fst (sim_exec rf s c)) k \<noteq> None"
    by (cases "map_of (qualityCheckpoints (fst (sim_exec rf s c))) k = map_of (qualityCheckpoints s) k") (auto simp: rate_value_def)
  from Cons.IH [OF feeding_step [OF Cons.prems(1) c(1)] _ this] show ?case using Cons.prems(2) by (simp add: case_prod_beta)
qed simp

lemma values_of_3:
  assumes "k < 3"
  shows "rate_value (historian_wire d demo_model) k \<noteq> None"
proof -
  have "unat k < 3" using assms by (simp add: word_less_nat_alt)
  then have "unat k = 0 \<or> unat k = 1 \<or> unat k = 2" by linarith
  then have "k = 0 \<or> k = 1 \<or> k = 2" by (auto simp: word_unat_eq_iff)
  then show ?thesis by (auto simp: rate_value_def historian_wire_def sim_onWorkUnitChanged_def sim_onSystemStateChanged_def
      sim_onEquipmentStatusChanged_def sim_onQualityCheckpointChanged_def demo_model_simps demo_quality_def)
qed

lemma run_latest:
  assumes "list_all on_line before" and "list_all on_line cs" and "k < 3"
    and "(s, map snd ns) = run_notices rf (historian_wire d demo_model) (before @ SRepublish # cs)"
  shows "supply_value s k \<noteq> None \<and> rate_value s k \<noteq> None \<and>
    latest EquipmentSupplyLevel k (delivered fl d ns) = map_option (\<lambda>v. fl (real_of_int v)) (supply_value s k) \<and>
    latest QualityPassRate k (delivered fl d ns) = rate_value s k"
proof -
  define s1 n1 where "s1 = fst (run_notices rf (historian_wire d demo_model) before)" and "n1 = snd (run_notices rf (historian_wire d demo_model) before)"
  have f: "feeding d s1" and r: "rate_value s1 k \<noteq> None"
    unfolding s1_def by (rule run_feeding [OF wired_feeding assms(1)], rule run_rates [OF wired_feeding assms(1) values_of_3 [OF assms(3)]])
  have v: "supply_value s1 k \<noteq> None" using own_rows_supply [OF _ assms(3), of s1] f by (simp add: feeding_def)
  have e: "s = fst (run_notices rf s1 cs)" "map snd ns = n1 @ snd (republishAll s1) @ snd (run_notices rf s1 cs)"
    using assms(4) republishAll_model(1) [of s1] f
    by (simp_all add: run_notices_append s1_def n1_def case_prod_beta feeding_def)
  have c: "foldl (supply_feed.note_down d) (\<lambda>_. None) (map snd ns) k = supply_value s k \<and>
      foldl (rate_feed.note_down d) (\<lambda>_. None) (map snd ns) k = rate_value s k"
    unfolding e foldl_append by (rule run_copies [OF f assms(2)]) (simp add: republish_copies [OF f] v r)
  moreover have "feeding d s" "rate_value s k \<noteq> None"
    unfolding e by (rule run_feeding [OF f assms(2)], rule run_rates [OF f assms(2) r])
  then have "supply_value s k \<noteq> None" "rate_value s k \<noteq> None" using own_rows_supply [OF _ assms(3), of s] by (simp_all add: feeding_def)
  ultimately show ?thesis by (simp add: latest_supply latest_rate)
qed



end
