(* ===== verification/ProductDatabase.thy ===== *)
theory ProductDatabase
  imports SqliteUserRepository SimulatedModel "HOL-Library.List_Lexorder" "HOL-Library.Sublist"
begin

text \<open>
  \<^verbatim>\<open>model/DatabaseManager.h\<close>: the in-memory database of products and recipes. Its content is the three tables,
  the trigger that stamps an updated product, the AUTOINCREMENT mark and the state saved when a transaction
  was opened; each SQL text of the source is a function on it. SQLite is the parameter \<open>sqlite_env\<close> of the
  user repository: it may refuse any call, calls are numbered. A product that is not found has indeterminate
  numbers (\<open>junk\<close>); \<open>fl\<close> is the conversion of a REAL column to \<^verbatim>\<open>float\<close>. Texts are taken to be ASCII, where a
  character of \<^verbatim>\<open>LIKE\<close> is a byte. Log messages are not modelled.

  The theorems: codes stay unique and statuses known through every failure, a search finds what contains the
  query, a saved recipe is read back and a refused one changes nothing; and what the soft delete and the
  shared connection do to the callers.
\<close>

section \<open>The database\<close>

record product_row =
  pr_id :: int
  pr_code :: string
  pr_name :: string
  pr_status :: string
  pr_stock :: int
  pr_quality :: "flt option"
  pr_created :: string
  pr_updated :: string
  pr_deleted :: "string option"

record products_db =
  pd_products :: "product_row list option"
  pd_trigger :: bool
  pd_seq :: int
  pd_recipes :: "(string \<times> int) list option"
  pd_targets :: "(string \<times> string \<times> real) list option"

definition empty_products_db :: products_db where
  "empty_products_db = \<lparr>pd_products = None, pd_trigger = False, pd_seq = 0, pd_recipes = None, pd_targets = None\<rparr>"

text \<open>\<open>dm_undo\<close>: the state to go back to while a transaction is open.\<close>

record DatabaseManager =
  dm_db :: "products_db option"
  dm_undo :: "products_db option"
  dm_calls :: nat

definition manager_new :: DatabaseManager where
  "manager_new = \<lparr>dm_db = None, dm_undo = None, dm_calls = 0\<rparr>"

definition next_call :: "DatabaseManager \<Rightarrow> DatabaseManager" where
  "next_call r = r\<lparr>dm_calls := Suc (dm_calls r)\<rparr>"

definition kStatusActive :: string where "kStatusActive = ''Active''"
definition kStatusInactive :: string where "kStatusInactive = ''Inactive''"
definition kStatusLowStock :: string where "kStatusLowStock = ''Low Stock''"
definition kInvalidProductId :: int where "kInvalidProductId = -1"

definition valid_status :: "string \<Rightarrow> bool" where
  "valid_status s = (s \<in> {kStatusActive, kStatusInactive, kStatusLowStock})"

section \<open>Statements\<close>

text \<open>A NaN is stored as NULL.\<close>

definition bind_float :: "flt \<Rightarrow> flt option" where
  "bind_float q = (if q = NaN then None else Some q)"

fun to_float :: "(real \<Rightarrow> flt) \<Rightarrow> flt option \<Rightarrow> flt" where
  "to_float fl None = fl 0"
| "to_float fl (Some (Fin x)) = fl x"
| "to_float fl (Some q) = q"

text \<open>\<^verbatim>\<open>sqlite3_column_int\<close> keeps the low 32 bits.\<close>

definition column_int :: "int \<Rightarrow> int" where
  "column_int i = sint (word_of_int i :: 32 word)"

definition extractProduct :: "(real \<Rightarrow> flt) \<Rightarrow> product_row \<Rightarrow> Product" where
  "extractProduct fl x = \<lparr>prod_id = column_int (pr_id x), productCode = pr_code x, prod_name = pr_name x,
     prod_status = pr_status x, stock = column_int (pr_stock x), qualityRate = to_float fl (pr_quality x),
     createdAt = pr_created x, updatedAt = pr_updated x, deletedAt = (case pr_deleted x of None \<Rightarrow> [] | Some t \<Rightarrow> t)\<rparr>"

text \<open>\<^verbatim>\<open>INSERT INTO products\<close>: the UNIQUE and CHECK constraints and the row id.\<close>

definition insert_product :: "string \<Rightarrow> string \<times> string \<times> string \<times> int \<times> flt \<Rightarrow> products_db \<Rightarrow> products_db option" where
  "insert_product now row d =
     (case pd_products d of None \<Rightarrow> None
      | Some rows \<Rightarrow>
          (case row of (code, name, status, stck, q) \<Rightarrow>
             if pd_seq d \<ge> max_rowid \<or> \<not> valid_status status \<or> list_ex (\<lambda>x. pr_code x = code) rows then None
             else Some (d\<lparr>pd_seq := pd_seq d + 1,
               pd_products := Some (rows @ [\<lparr>pr_id = pd_seq d + 1, pr_code = code, pr_name = name, pr_status = status, pr_stock = stck,
                 pr_quality = bind_float q, pr_created = now, pr_updated = now, pr_deleted = None\<rparr>])\<rparr>)))"

fun insert_products :: "string \<Rightarrow> (string \<times> string \<times> string \<times> int \<times> flt) list \<Rightarrow> products_db \<Rightarrow> products_db option" where
  "insert_products now [] d = Some d"
| "insert_products now (r # rs) d = (case insert_product now r d of None \<Rightarrow> None | Some d1 \<Rightarrow> insert_products now rs d1)"

text \<open>\<^verbatim>\<open>UPDATE products ... WHERE\<close>: the CHECK constraint is tested on the changed rows, the trigger stamps them.\<close>

definition update_products :: "string \<Rightarrow> (product_row \<Rightarrow> bool) \<Rightarrow> (product_row \<Rightarrow> product_row) \<Rightarrow> products_db \<Rightarrow> products_db option" where
  "update_products now sel f d =
     (case pd_products d of None \<Rightarrow> None
      | Some rows \<Rightarrow>
          if list_ex (\<lambda>x. sel x \<and> \<not> valid_status (pr_status (f x))) rows then None
          else Some (d\<lparr>pd_products := Some (map (\<lambda>x. if sel x then
             (if pd_trigger d then (f x)\<lparr>pr_updated := now\<rparr> else f x) else x) rows)\<rparr>))"

text \<open>\<^verbatim>\<open>LIKE\<close>: \<open>%\<close> any text, \<open>_\<close> one character, letters up to ASCII case.\<close>

fun like :: "string \<Rightarrow> string \<Rightarrow> bool" where
  "like [] t = (t = [])"
| "like (c # p) [] = (c = CHR ''%'' \<and> like p [])"
| "like (c # p) (x # t) =
     (if c = CHR ''%'' then like p (x # t) \<or> like (c # p) t
      else (c = CHR ''_'' \<or> tolower c = tolower x) \<and> like p t)"

definition kLikePatternLimit :: nat where "kLikePatternLimit = 50000"

text \<open>The recipe tables: \<^verbatim>\<open>INSERT OR REPLACE\<close>, \<^verbatim>\<open>DELETE\<close> and \<^verbatim>\<open>INSERT\<close> with the primary key.\<close>

definition replace_recipe :: "string \<Rightarrow> int \<Rightarrow> products_db \<Rightarrow> products_db option" where
  "replace_recipe code n d =
     (case pd_recipes d of None \<Rightarrow> None
      | Some rows \<Rightarrow> Some (d\<lparr>pd_recipes := Some (filter (\<lambda>x. fst x \<noteq> code) rows @ [(code, n)])\<rparr>))"

definition delete_targets :: "string \<Rightarrow> products_db \<Rightarrow> products_db option" where
  "delete_targets code d =
     (case pd_targets d of None \<Rightarrow> None | Some rows \<Rightarrow> Some (d\<lparr>pd_targets := Some (filter (\<lambda>x. fst x \<noteq> code) rows)\<rparr>))"

definition target_key :: "string \<times> string \<times> real \<Rightarrow> string \<times> string" where
  "target_key x = (fst x, fst (snd x))"

definition insert_target :: "string \<Rightarrow> string \<Rightarrow> real \<Rightarrow> products_db \<Rightarrow> products_db option" where
  "insert_target code name target d =
     (case pd_targets d of None \<Rightarrow> None
      | Some rows \<Rightarrow> if list_ex (\<lambda>x. target_key x = (code, name)) rows then None
          else Some (d\<lparr>pd_targets := Some (rows @ [(code, name, target)])\<rparr>))"

text \<open>One prepared statement that writes, and one that reads.\<close>

definition run_stmt :: "sqlite_env \<Rightarrow> (products_db \<Rightarrow> products_db option) \<Rightarrow> DatabaseManager \<Rightarrow> bool \<times> DatabaseManager" where
  "run_stmt env f r =
     (case dm_db r of None \<Rightarrow> (False, next_call r)
      | Some d \<Rightarrow>
          if prepare_ok env (dm_calls r) \<and> step_ok env (dm_calls r)
          then (case f d of None \<Rightarrow> (False, next_call r) | Some d' \<Rightarrow> (True, (next_call r)\<lparr>dm_db := Some d'\<rparr>))
          else (False, next_call r))"

definition read_rows :: "sqlite_env \<Rightarrow> (products_db \<Rightarrow> 'a list option) \<Rightarrow> DatabaseManager \<Rightarrow> 'a list \<times> DatabaseManager" where
  "read_rows env f r =
     (case dm_db r of None \<Rightarrow> ([], next_call r)
      | Some d \<Rightarrow>
          (case f d of
             Some found \<Rightarrow>
               (if \<not> prepare_ok env (dm_calls r) then []
                else if step_ok env (dm_calls r) then found else take (rows_before_error env (dm_calls r)) found, next_call r)
           | None \<Rightarrow> ([], next_call r)))"

section \<open>Initialisation\<close>

text \<open>\<^verbatim>\<open>sqlite3_exec\<close> of a script: statement by statement, up to the first that fails; \<open>n\<close> numbers the calls.\<close>

fun run_script :: "sqlite_env \<Rightarrow> nat \<Rightarrow> (string \<Rightarrow> products_db \<Rightarrow> products_db option) list \<Rightarrow> products_db \<Rightarrow> products_db" where
  "run_script env n [] d = d"
| "run_script env n (st # sts) d =
     (if prepare_ok env n \<and> step_ok env n
      then (case st (clock env n) d of None \<Rightarrow> d | Some d1 \<Rightarrow> run_script env (Suc n) sts d1) else d)"

definition createTables :: "(string \<Rightarrow> products_db \<Rightarrow> products_db option) list" where
  "createTables =
     [\<lambda>now d. if pd_products d = None then Some (d\<lparr>pd_products := Some []\<rparr>) else None,
      \<lambda>now d. Some d,
      \<lambda>now d. Some (d\<lparr>pd_trigger := True\<rparr>)]"

definition demo_products :: "(string \<times> string \<times> string \<times> int \<times> flt) list" where
  "demo_products =
     [(''PROD-001'', ''Product A'', ''Active'', 850, Fin 98.1), (''PROD-002'', ''Product B'', ''Active'', 320, Fin 95.7),
      (''PROD-003'', ''Product C'', ''Low Stock'', 45, Fin 93), (''PROD-004'', ''Product D'', ''Inactive'', 0, Fin 0),
      (''PROD-005'', ''Product E'', ''Active'', 1200, Fin 99.2), (''PROD-006'', ''Product F'', ''Active'', 540, Fin 96.8)]"

definition populateDemoData :: "(string \<Rightarrow> products_db \<Rightarrow> products_db option) list" where
  "populateDemoData = [\<lambda>now. insert_products now demo_products]"

definition createRecipeTables :: "(string \<Rightarrow> products_db \<Rightarrow> products_db option) list" where
  "createRecipeTables =
     [\<lambda>now d. if pd_recipes d = None then Some (d\<lparr>pd_recipes := Some []\<rparr>) else None,
      \<lambda>now d. if pd_targets d = None then Some (d\<lparr>pd_targets := Some []\<rparr>) else None]"

definition demo_recipes :: "(string \<times> int) list" where
  "demo_recipes = [(''PROD-001'', 5), (''PROD-002'', 4), (''PROD-003'', 6), (''PROD-005'', 5), (''PROD-006'', 7)]"

definition demo_targets :: "(string \<times> string \<times> real) list" where
  "demo_targets =
     [(''PROD-001'', ''Weight Check'', 99), (''PROD-001'', ''Hardness Test'', 97), (''PROD-001'', ''Final Inspection'', 95),
      (''PROD-002'', ''Weight Check'', 98), (''PROD-002'', ''Hardness Test'', 96), (''PROD-002'', ''Final Inspection'', 94),
      (''PROD-003'', ''Weight Check'', 97.5), (''PROD-003'', ''Hardness Test'', 95), (''PROD-003'', ''Final Inspection'', 92),
      (''PROD-005'', ''Weight Check'', 99.5), (''PROD-005'', ''Hardness Test'', 98), (''PROD-005'', ''Final Inspection'', 97),
      (''PROD-006'', ''Weight Check'', 98.5), (''PROD-006'', ''Hardness Test'', 96.5), (''PROD-006'', ''Final Inspection'', 95.5)]"

text \<open>An INSERT of several rows is one statement: a violated key refuses them all.\<close>

definition insert_recipes :: "(string \<times> int) list \<Rightarrow> products_db \<Rightarrow> products_db option" where
  "insert_recipes new d =
     (case pd_recipes d of None \<Rightarrow> None
      | Some rows \<Rightarrow> if distinct (map fst (rows @ new)) then Some (d\<lparr>pd_recipes := Some (rows @ new)\<rparr>) else None)"

definition insert_targets_all :: "(string \<times> string \<times> real) list \<Rightarrow> products_db \<Rightarrow> products_db option" where
  "insert_targets_all new d =
     (case pd_targets d of None \<Rightarrow> None
      | Some rows \<Rightarrow> if distinct (map target_key (rows @ new)) then Some (d\<lparr>pd_targets := Some (rows @ new)\<rparr>) else None)"

definition populateRecipeDemoData :: "(string \<Rightarrow> products_db \<Rightarrow> products_db option) list" where
  "populateRecipeDemoData = [\<lambda>now. insert_recipes demo_recipes, \<lambda>now. insert_targets_all demo_targets]"

text \<open>\<^verbatim>\<open>initialize\<close>: only the open is checked.\<close>

definition db_initialize :: "sqlite_env \<Rightarrow> DatabaseManager \<Rightarrow> bool \<times> DatabaseManager" where
  "db_initialize env r =
     (let n = dm_calls r in
      if \<not> open_ok env n then (False, (next_call r)\<lparr>dm_db := None, dm_undo := None\<rparr>)
      else
        let d = run_script env (n + 1) createTables empty_products_db;
            d = run_script env (n + 4) populateDemoData d;
            d = run_script env (n + 5) createRecipeTables d;
            d = run_script env (n + 7) populateRecipeDemoData d
        in (True, r\<lparr>dm_calls := n + 9, dm_db := Some d, dm_undo := None\<rparr>))"

section \<open>The products\<close>

definition live :: "product_row \<Rightarrow> bool" where
  "live x = (pr_deleted x = None)"

definition getAllProducts :: "sqlite_env \<Rightarrow> (real \<Rightarrow> flt) \<Rightarrow> DatabaseManager \<Rightarrow> Product list \<times> DatabaseManager" where
  "getAllProducts env fl = read_rows env (\<lambda>d. map_option (\<lambda>rows. map (extractProduct fl) (sort_key pr_id (filter live rows))) (pd_products d))"

definition getProduct :: "sqlite_env \<Rightarrow> (real \<Rightarrow> flt) \<Rightarrow> Product \<Rightarrow> int \<Rightarrow> DatabaseManager \<Rightarrow> Product \<times> DatabaseManager" where
  "getProduct env fl junk i r =
     (case read_rows env (\<lambda>d. map_option (filter (\<lambda>x. pr_id x = i \<and> live x)) (pd_products d)) r of
        (found, r) \<Rightarrow>
          (case found of
             [] \<Rightarrow> junk\<lparr>prod_id := kInvalidProductId, productCode := [], prod_name := [], prod_status := [], createdAt := [],
                 updatedAt := [], deletedAt := []\<rparr>
           | x # _ \<Rightarrow> extractProduct fl x, r))"

definition searchProducts :: "sqlite_env \<Rightarrow> (real \<Rightarrow> flt) \<Rightarrow> string \<Rightarrow> DatabaseManager \<Rightarrow> Product list \<times> DatabaseManager" where
  "searchProducts env fl query =
     (let pat = c_str (''%'' @ query @ ''%'') in
      read_rows env (\<lambda>d.
        if kLikePatternLimit < length pat then Some []
        else map_option (\<lambda>rows. map (extractProduct fl)
          (sort_key pr_id (filter (\<lambda>x. (like pat (pr_name x) \<or> like pat (pr_code x)) \<and> live x) rows))) (pd_products d)))"

definition addProduct :: "sqlite_env \<Rightarrow> string \<Rightarrow> string \<Rightarrow> string \<Rightarrow> int \<Rightarrow> flt \<Rightarrow> DatabaseManager \<Rightarrow> bool \<times> DatabaseManager" where
  "addProduct env code name status stck q r =
     run_stmt env (insert_product (clock env (dm_calls r)) (c_str code, c_str name, c_str status, stck, q)) r"

definition deleteProduct :: "sqlite_env \<Rightarrow> int \<Rightarrow> DatabaseManager \<Rightarrow> bool \<times> DatabaseManager" where
  "deleteProduct env i r =
     (let now = clock env (dm_calls r) in
      run_stmt env (update_products now (\<lambda>x. pr_id x = i) (\<lambda>x. x\<lparr>pr_deleted := Some now\<rparr>)) r)"

definition updateProduct :: "sqlite_env \<Rightarrow> int \<Rightarrow> string \<Rightarrow> string \<Rightarrow> int \<Rightarrow> flt \<Rightarrow> DatabaseManager \<Rightarrow> bool \<times> DatabaseManager" where
  "updateProduct env i name status stck q r =
     run_stmt env (update_products (clock env (dm_calls r)) (\<lambda>x. pr_id x = i \<and> live x)
       (\<lambda>x. x\<lparr>pr_name := c_str name, pr_status := c_str status, pr_stock := stck, pr_quality := bind_float q\<rparr>)) r"

section \<open>The recipes\<close>

record ProductRecipe = Recipe +
  rc_productCode :: string

text \<open>\<open>rf\<close> is the conversion of the target column to \<^verbatim>\<open>float\<close>. Texts sort by their bytes.\<close>

definition stored_targets :: "(real \<Rightarrow> real) \<Rightarrow> string \<Rightarrow> (string \<times> string \<times> real) list \<Rightarrow> CheckpointTarget list" where
  "stored_targets rf code rows =
     map (\<lambda>(c, n, t). \<lparr>checkpointName = n, ct_passRateTarget = rf t\<rparr>)
       (sort_key (\<lambda>(c, n, t). map ch_code n) (filter (\<lambda>x. fst x = code) rows))"

definition getRecipeByProductCode :: "sqlite_env \<Rightarrow> (real \<Rightarrow> real) \<Rightarrow> string \<Rightarrow> DatabaseManager \<Rightarrow> ProductRecipe option \<times> DatabaseManager" where
  "getRecipeByProductCode env rf code r =
     (case read_rows env (\<lambda>d. map_option (filter (\<lambda>x. fst x = c_str code)) (pd_recipes d)) r of
        ([], r) \<Rightarrow> (None, r)
      | (x # _, r) \<Rightarrow>
          (case read_rows env (\<lambda>d. map_option (stored_targets rf (c_str code)) (pd_targets d)) r of
             (ts, r) \<Rightarrow> (Some \<lparr>rc_totalOperations = column_int (snd x), checkpointTargets = ts, rc_productCode = code\<rparr>, r)))"

definition recipe_begin :: "sqlite_env \<Rightarrow> DatabaseManager \<Rightarrow> bool \<times> DatabaseManager" where
  "recipe_begin env r =
     (if dm_db r = None \<or> dm_undo r \<noteq> None \<or> \<not> prepare_ok env (dm_calls r) \<or> \<not> step_ok env (dm_calls r) then (False, next_call r)
      else (True, (next_call r)\<lparr>dm_undo := dm_db r\<rparr>))"

fun target_loop :: "sqlite_env \<Rightarrow> string \<Rightarrow> CheckpointTarget list \<Rightarrow> bool \<Rightarrow> DatabaseManager \<Rightarrow> bool \<times> DatabaseManager" where
  "target_loop env code [] ok r = (ok, r)"
| "target_loop env code (t # ts) ok r =
     (if \<not> ok then (ok, r)
      else (case run_stmt env (insert_target (c_str code) (c_str (checkpointName t)) (ct_passRateTarget t)) r of
              (ok, r) \<Rightarrow> target_loop env code ts ok r))"

definition recipe_body :: "sqlite_env \<Rightarrow> ProductRecipe \<Rightarrow> DatabaseManager \<Rightarrow> bool \<times> DatabaseManager" where
  "recipe_body env rc r =
     (case run_stmt env (replace_recipe (c_str (rc_productCode rc)) (rc_totalOperations rc)) r of
        (ok, r) \<Rightarrow>
          (case (if ok then run_stmt env (delete_targets (c_str (rc_productCode rc))) r else (ok, r)) of
             (ok, r) \<Rightarrow> target_loop env (rc_productCode rc) (checkpointTargets rc) ok r))"

text \<open>The outcome of COMMIT and of ROLLBACK is not looked at; one that fails leaves the transaction open.\<close>

definition recipe_finish :: "sqlite_env \<Rightarrow> bool \<Rightarrow> DatabaseManager \<Rightarrow> DatabaseManager" where
  "recipe_finish env ok r =
     (if prepare_ok env (dm_calls r) \<and> step_ok env (dm_calls r)
      then (if ok then (next_call r)\<lparr>dm_undo := None\<rparr> else (next_call r)\<lparr>dm_db := dm_undo r, dm_undo := None\<rparr>)
      else next_call r)"

definition upsertRecipe :: "sqlite_env \<Rightarrow> ProductRecipe \<Rightarrow> DatabaseManager \<Rightarrow> bool \<times> DatabaseManager" where
  "upsertRecipe env rc r =
     (case recipe_begin env r of
        (False, r) \<Rightarrow> (False, r)
      | (True, r) \<Rightarrow> (case recipe_body env rc r of (ok, r) \<Rightarrow> (ok, recipe_finish env ok r)))"

section \<open>The tables stay well formed\<close>

definition rows_ok :: "int \<Rightarrow> product_row list \<Rightarrow> bool" where
  "rows_ok n rows = (sorted_wrt (<) (map pr_id rows) \<and> list_all (\<lambda>x. 0 < pr_id x \<and> pr_id x \<le> n \<and> valid_status (pr_status x)) rows \<and>
     distinct (map pr_code rows))"

definition db_wf :: "products_db \<Rightarrow> bool" where
  "db_wf d = (0 \<le> pd_seq d \<and> (\<forall>rows. pd_products d = Some rows \<longrightarrow> rows_ok (pd_seq d) rows) \<and>
     (\<forall>rows. pd_recipes d = Some rows \<longrightarrow> distinct (map fst rows)) \<and> (\<forall>rows. pd_targets d = Some rows \<longrightarrow> distinct (map target_key rows)))"

definition manager_wf :: "DatabaseManager \<Rightarrow> bool" where
  "manager_wf r = ((\<forall>d. dm_db r = Some d \<longrightarrow> db_wf d) \<and> (\<forall>d. dm_undo r = Some d \<longrightarrow> db_wf d))"

lemma rows_ok_snoc:
  "rows_ok n rows \<Longrightarrow> 0 \<le> n \<Longrightarrow> pr_id x = n + 1 \<Longrightarrow> valid_status (pr_status x) \<Longrightarrow> pr_code x \<notin> pr_code ` set rows \<Longrightarrow> rows_ok (n + 1) (rows @ [x])"
  by (auto simp: rows_ok_def sorted_wrt_append list_all_iff)

lemma insert_product_wf:
  assumes "db_wf d" and "insert_product now row d = Some d'"
  shows "db_wf d'"
proof -
  obtain code name status k q where row: "row = (code, name, status, k, q)" by (metis prod_cases5)
  from assms(2) obtain rows where r: "pd_products d = Some rows" "valid_status status" "\<not> list_ex (\<lambda>x. pr_code x = code) rows"
    and d': "d' = d\<lparr>pd_seq := pd_seq d + 1, pd_products := Some (rows @ [\<lparr>pr_id = pd_seq d + 1, pr_code = code, pr_name = name,
      pr_status = status, pr_stock = k, pr_quality = bind_float q, pr_created = now, pr_updated = now, pr_deleted = None\<rparr>])\<rparr>"
    by (auto simp: row insert_product_def split: option.splits if_splits)
  have n: "code \<notin> pr_code ` set rows" using r(3) by (auto simp: list_ex_iff)
  show ?thesis using assms(1) r n by (auto simp: d' db_wf_def intro!: rows_ok_snoc)
qed

lemma insert_products_wf: "db_wf d \<Longrightarrow> insert_products now rs d = Some d' \<Longrightarrow> db_wf d'"
  by (induction now rs d rule: insert_products.induct) (auto intro: insert_product_wf split: option.splits)

lemma update_products_wf:
  assumes "db_wf d" and "update_products now sel f d = Some d'"
    and "\<And>x. pr_id (f x) = pr_id x \<and> pr_code (f x) = pr_code x"
  shows "db_wf d'"
proof -
  let ?g = "\<lambda>x. if sel x then (if pd_trigger d then (f x)\<lparr>pr_updated := now\<rparr> else f x) else x"
  have g: "pr_id (?g x) = pr_id x" "pr_code (?g x) = pr_code x" for x using assms(3) by auto
  from assms(2) obtain rows where r: "pd_products d = Some rows" "\<not> list_ex (\<lambda>x. sel x \<and> \<not> valid_status (pr_status (f x))) rows"
    and d': "d' = d\<lparr>pd_products := Some (map ?g rows)\<rparr>"
    by (auto simp: update_products_def split: option.splits if_splits)
  have "map pr_id (map ?g rows) = map pr_id rows" "map pr_code (map ?g rows) = map pr_code rows" unfolding map_map o_def g by simp_all
  moreover have "list_all (\<lambda>x. 0 < pr_id x \<and> pr_id x \<le> pd_seq d \<and> valid_status (pr_status x)) (map ?g rows)"
    using assms(1,3) r by (auto simp: db_wf_def rows_ok_def list_all_iff list_ex_iff)
  ultimately have "rows_ok (pd_seq d) (map ?g rows)" using assms(1) r(1) unfolding db_wf_def rows_ok_def by metis
  then show ?thesis using assms(1) by (simp add: d' db_wf_def)
qed

lemma recipe_statements_wf:
  "db_wf d \<Longrightarrow> replace_recipe code n d = Some d' \<Longrightarrow> db_wf d'"
  "db_wf d \<Longrightarrow> delete_targets code d = Some d' \<Longrightarrow> db_wf d'"
  "db_wf d \<Longrightarrow> insert_target code name t d = Some d' \<Longrightarrow> db_wf d'"
  "db_wf d \<Longrightarrow> insert_recipes rs d = Some d' \<Longrightarrow> db_wf d'"
  "db_wf d \<Longrightarrow> insert_targets_all ts d = Some d' \<Longrightarrow> db_wf d'"
  by (auto simp: db_wf_def replace_recipe_def delete_targets_def insert_target_def insert_recipes_def insert_targets_all_def
      distinct_map_filter list_ex_iff target_key_def split: option.splits if_splits) force

text \<open>A statement that keeps the tables well formed.\<close>

definition sound :: "(products_db \<Rightarrow> products_db option) \<Rightarrow> bool" where
  "sound f = (\<forall>d d'. db_wf d \<longrightarrow> f d = Some d' \<longrightarrow> db_wf d')"

lemma sound_statements [simp]:
  "sound (insert_product now row)" "sound (insert_products now rs)" "sound (replace_recipe code n)" "sound (delete_targets code)"
  "sound (insert_target code name t)" "sound (insert_recipes irs)" "sound (insert_targets_all ts)"
  by (auto simp: sound_def intro: insert_product_wf insert_products_wf recipe_statements_wf)

lemma sound_update [simp]: "(\<And>x. pr_id (f x) = pr_id x \<and> pr_code (f x) = pr_code x) \<Longrightarrow> sound (update_products now sel f)"
  unfolding sound_def using update_products_wf by blast

lemma run_script_wf: "db_wf d \<Longrightarrow> \<forall>st\<in>set sts. \<forall>now. sound (st now) \<Longrightarrow> db_wf (run_script env n sts d)"
proof (induction env n sts d rule: run_script.induct)
  case (2 env n st sts d)
  show ?case
  proof (cases "st (clock env n) d")
    case None
    then show ?thesis using 2(2) by simp
  next
    case (Some d1)
    have "sound (st (clock env n))" using 2(3) by simp
    then have "db_wf d1" using Some 2(2) by (simp add: sound_def)
    then show ?thesis using 2(1) [of d1] Some 2(2,3) by simp
  qed
qed simp

lemma created_tables:
  "sound (\<lambda>d. if pd_products d = None then Some (d\<lparr>pd_products := Some []\<rparr>) else None)"
  "sound (\<lambda>d. if pd_recipes d = None then Some (d\<lparr>pd_recipes := Some []\<rparr>) else None)"
  "sound (\<lambda>d. if pd_targets d = None then Some (d\<lparr>pd_targets := Some []\<rparr>) else None)"
  "sound Some" "sound (\<lambda>d. Some (d\<lparr>pd_trigger := True\<rparr>))"
  by (auto simp: sound_def db_wf_def rows_ok_def split: if_splits)

lemma sound_scripts:
  "sts \<in> {createTables, populateDemoData, createRecipeTables, populateRecipeDemoData} \<Longrightarrow> \<forall>st\<in>set sts. \<forall>now. sound (st now)"
  by (elim insertE emptyE) (simp_all add: createTables_def populateDemoData_def createRecipeTables_def populateRecipeDemoData_def created_tables)

lemma scripts_wf:
  "db_wf d \<Longrightarrow> sts \<in> {createTables, populateDemoData, createRecipeTables, populateRecipeDemoData} \<Longrightarrow> db_wf (run_script env n sts d)"
  using run_script_wf sound_scripts by blast

lemma next_call_simps [simp]:
  "dm_db (next_call r) = dm_db r" "dm_undo (next_call r) = dm_undo r" "dm_calls (next_call r) = Suc (dm_calls r)"
  by (simp_all add: next_call_def)

lemma run_stmt_wf: "manager_wf r \<Longrightarrow> sound f \<Longrightarrow> manager_wf (snd (run_stmt env f r))"
  by (auto simp: run_stmt_def manager_wf_def sound_def split: option.splits)

lemma run_stmt_undo: "dm_undo (snd (run_stmt env f r)) = dm_undo r"
  by (auto simp: run_stmt_def split: option.splits)

lemma read_rows_state: "snd (read_rows env f r) = next_call r"
  by (auto simp: read_rows_def split: option.splits)

lemma reads_keep [simp]:
  "snd (getAllProducts env fl r) = next_call r" "snd (searchProducts env fl q r) = next_call r"
  "snd (getProduct env fl junk i r) = next_call r"
  by (simp_all add: getAllProducts_def searchProducts_def getProduct_def case_prod_beta read_rows_state Let_def)

lemma target_loop_wf: "manager_wf r \<Longrightarrow> manager_wf (snd (target_loop env code ts ok r))"
proof (induction env code ts ok r rule: target_loop.induct)
  case (2 env code t ts ok r)
  obtain ok1 r1 where e: "run_stmt env (insert_target (c_str code) (c_str (checkpointName t)) (ct_passRateTarget t)) r = (ok1, r1)" by fastforce
  have "manager_wf r1" using run_stmt_wf [OF 2(2), of "insert_target (c_str code) (c_str (checkpointName t)) (ct_passRateTarget t)" env] e by simp
  then show ?case using 2 e by simp
qed simp

lemma upsertRecipe_wf: "manager_wf r \<Longrightarrow> manager_wf (snd (upsertRecipe env rc r))"
proof -
  assume w: "manager_wf r"
  have b: "manager_wf (snd (recipe_begin env r))" using w by (auto simp: recipe_begin_def manager_wf_def)
  have s: "manager_wf (snd (recipe_body env rc r'))" if "manager_wf r'" for r'
    using that by (auto simp: recipe_body_def case_prod_beta intro!: target_loop_wf run_stmt_wf)
  have f: "manager_wf (recipe_finish env ok r')" if "manager_wf r'" for ok r' using that by (auto simp: recipe_finish_def manager_wf_def)
  show ?thesis using f [OF s [OF b]] b by (simp add: upsertRecipe_def case_prod_beta split: bool.splits)
qed

datatype db_op =
    DbInitialize | DbAdd string string string int flt | DbUpdate int string string int flt | DbDelete int
  | DbUpsertRecipe ProductRecipe | DbGetAll | DbGet Product int | DbSearch string | DbGetRecipe string

fun db_step :: "sqlite_env \<Rightarrow> DatabaseManager \<Rightarrow> db_op \<Rightarrow> DatabaseManager" where
  "db_step env r DbInitialize = snd (db_initialize env r)"
| "db_step env r (DbAdd code name status stck q) = snd (addProduct env code name status stck q r)"
| "db_step env r (DbUpdate i name status stck q) = snd (updateProduct env i name status stck q r)"
| "db_step env r (DbDelete i) = snd (deleteProduct env i r)"
| "db_step env r (DbUpsertRecipe rc) = snd (upsertRecipe env rc r)"
| "db_step env r DbGetAll = snd (getAllProducts env Fin r)"
| "db_step env r (DbGet junk i) = snd (getProduct env Fin junk i r)"
| "db_step env r (DbSearch q) = snd (searchProducts env Fin q r)"
| "db_step env r (DbGetRecipe code) = snd (getRecipeByProductCode env id code r)"

lemma getRecipe_state: "dm_db (snd (getRecipeByProductCode env rf code r)) = dm_db r \<and> dm_undo (snd (getRecipeByProductCode env rf code r)) = dm_undo r"
  by (auto simp: getRecipeByProductCode_def case_prod_beta read_rows_state split: list.splits)

lemma db_step_wf: "manager_wf r \<Longrightarrow> manager_wf (db_step env r op)"
proof (cases op)
  case DbInitialize
  have "db_wf empty_products_db" by (simp add: db_wf_def empty_products_db_def)
  then show "manager_wf r \<Longrightarrow> ?thesis" using DbInitialize by (auto simp: db_initialize_def manager_wf_def Let_def intro!: scripts_wf)
qed (auto simp: addProduct_def updateProduct_def deleteProduct_def Let_def upsertRecipe_wf manager_wf_def [of "next_call r"]
    manager_wf_def [of r] manager_wf_def [of "snd (getRecipeByProductCode env id code r)" for code] getRecipe_state
    intro!: run_stmt_wf)

interpretation product_db: invariant_machine "db_step env" manager_wf for env
  by unfold_locales (rule db_step_wf)

section \<open>Properties\<close>

text \<open>
  Product codes stay unique. Through any calls and any failures of the database, the rows keep ascending
  distinct ids, distinct codes and one of the three statuses; a code that is in the table, deleted or not,
  cannot be added again.
\<close>

theorem product_codes_unique:
  assumes "r = foldl (db_step env) manager_new ops" and "dm_db r = Some d" and "pd_products d = Some rows"
  shows "sorted_wrt (<) (map pr_id rows) \<and> distinct (map pr_code rows) \<and> list_all (\<lambda>x. valid_status (pr_status x)) rows \<and>
    (c_str code \<in> pr_code ` set rows \<longrightarrow> addProduct env' code name status stck q r = (False, next_call r))"
proof -
  have "manager_wf manager_new" by (simp add: manager_wf_def manager_new_def)
  then have "manager_wf r" using assms(1) product_db.all_ops.inv_run by simp
  then have "rows_ok (pd_seq d) rows" using assms(2,3) by (simp add: manager_wf_def db_wf_def)
  then show ?thesis using assms(2,3)
    by (auto simp: rows_ok_def list_all_iff addProduct_def run_stmt_def insert_product_def list_ex_iff)
qed

lemma run_products_unchanged:
  assumes "\<And>d d'. f d = Some d' \<Longrightarrow> pd_products d' = pd_products d"
  shows "map_option pd_products (dm_db (snd (run_stmt env f r))) = map_option pd_products (dm_db r)"
  using assms by (auto simp: run_stmt_def split: option.splits)

lemma recipe_statements_products:
  "replace_recipe code n d = Some d' \<Longrightarrow> pd_products d' = pd_products d"
  "delete_targets code d = Some d' \<Longrightarrow> pd_products d' = pd_products d"
  "insert_target code name t d = Some d' \<Longrightarrow> pd_products d' = pd_products d"
  by (auto simp: replace_recipe_def delete_targets_def insert_target_def split: option.splits if_splits)

lemma target_loop_products:
  "map_option pd_products (dm_db (snd (target_loop env code ts ok r))) = map_option pd_products (dm_db r) \<and>
   dm_undo (snd (target_loop env code ts ok r)) = dm_undo r"
proof (induction env code ts ok r rule: target_loop.induct)
  case (2 env code t ts ok r)
  let ?f = "insert_target (c_str code) (c_str (checkpointName t)) (ct_passRateTarget t)"
  obtain ok1 r1 where e: "run_stmt env ?f r = (ok1, r1)" by fastforce
  note u = run_products_unchanged [of ?f env r, OF recipe_statements_products(3)] and v = run_stmt_undo [of env ?f r]
  show ?case using 2 e u v by simp
qed simp

lemma recipe_body_products:
  "map_option pd_products (dm_db (snd (recipe_body env rc r))) = map_option pd_products (dm_db r) \<and>
   dm_undo (snd (recipe_body env rc r)) = dm_undo r"
  using run_products_unchanged [of "replace_recipe (c_str (rc_productCode rc)) (rc_totalOperations rc)", OF recipe_statements_products(1)]
    run_products_unchanged [of "delete_targets (c_str (rc_productCode rc))", OF recipe_statements_products(2)]
  by (simp add: recipe_body_def case_prod_beta target_loop_products run_stmt_undo)

lemma upsert_products:
  "map_option pd_products (dm_db (snd (upsertRecipe env rc r))) = map_option pd_products (dm_db r)"
proof (cases "recipe_begin env r")
  case (Pair ok r1)
  then have r1: "dm_db r1 = dm_db r" "ok \<Longrightarrow> dm_undo r1 = dm_db r" by (auto simp: recipe_begin_def split: if_splits)
  show ?thesis using recipe_body_products [of env rc r1] r1
    by (cases ok) (auto simp: upsertRecipe_def Pair recipe_finish_def case_prod_beta)
qed

text \<open>Rows of a deleted product stay.\<close>

definition deleted_row :: "string \<Rightarrow> DatabaseManager \<Rightarrow> bool" where
  "deleted_row code r = (\<exists>d rows. dm_db r = Some d \<and> pd_products d = Some rows \<and> (\<exists>x\<in>set rows. pr_code x = code \<and> \<not> live x))"

lemma deleted_row_mono:
  assumes "deleted_row code r" and "\<And>d d' rows x. f d = Some d' \<Longrightarrow> pd_products d = Some rows \<Longrightarrow> x \<in> set rows \<Longrightarrow> \<not> live x \<Longrightarrow>
      \<exists>rows'. pd_products d' = Some rows' \<and> (\<exists>y\<in>set rows'. pr_code y = pr_code x \<and> \<not> live y)"
  shows "deleted_row code (snd (run_stmt env f r))"
  using assms by (fastforce simp: deleted_row_def run_stmt_def split: option.splits)

lemma update_keeps_deleted:
  assumes "update_products now sel f d = Some d'" and "pd_products d = Some rows" and "x \<in> set rows" and "\<not> live x"
    and "\<And>y. pr_code (f y) = pr_code y" and "sel x \<Longrightarrow> \<not> live (f x)"
  shows "\<exists>rows'. pd_products d' = Some rows' \<and> (\<exists>y\<in>set rows'. pr_code y = pr_code x \<and> \<not> live y)"
proof -
  let ?g = "\<lambda>x. if sel x then (if pd_trigger d then (f x)\<lparr>pr_updated := now\<rparr> else f x) else x"
  have "pd_products d' = Some (map ?g rows)" using assms(1,2) by (auto simp: update_products_def split: if_splits)
  moreover have "?g x \<in> set (map ?g rows)" "pr_code (?g x) = pr_code x" "\<not> live (?g x)"
    using assms(3-6) by (auto simp: live_def)
  ultimately show ?thesis by blast
qed

lemma deleted_row_upsert: "deleted_row code r \<Longrightarrow> deleted_row code (snd (upsertRecipe env rc r))"
  using upsert_products [of env rc r] by (auto simp: deleted_row_def map_option_eq_Some) (metis (no_types, lifting) map_option_eq_Some)

fun is_initialize :: "db_op \<Rightarrow> bool" where
  "is_initialize DbInitialize = True"
| "is_initialize _ = False"

lemma deleted_row_step:
  assumes "deleted_row code r" and "\<not> is_initialize op"
  shows "deleted_row code (db_step env r op)"
proof (cases op)
  case (DbAdd c n st k q)
  then show ?thesis
    by (auto simp: addProduct_def insert_product_def intro!: deleted_row_mono [OF assms(1)] split: if_splits)
next
  case (DbUpdate i n st k q)
  then show ?thesis
    by (auto simp: updateProduct_def live_def intro!: deleted_row_mono [OF assms(1)] update_keeps_deleted)
next
  case (DbDelete i)
  then show ?thesis
    by (auto simp: deleteProduct_def live_def Let_def intro!: deleted_row_mono [OF assms(1)] update_keeps_deleted)
next
  case (DbGetRecipe c)
  then show ?thesis using assms(1) getRecipe_state [of env id c r] by (simp add: deleted_row_def)
qed (use assms in \<open>simp_all add: deleted_row_upsert\<close>, simp_all add: deleted_row_def)

interpretation deleted: guarded_machine "db_step env" "\<lambda>op. \<not> is_initialize op" "deleted_row code" for env code
  by unfold_locales (rule deleted_row_step)

definition some_env :: sqlite_env where
  "some_env = \<lparr>open_ok = (\<lambda>_. True), prepare_ok = (\<lambda>_. True), step_ok = (\<lambda>_. True), rows_before_error = (\<lambda>_. 0), clock = (\<lambda>_. ''now'')\<rparr>"

text \<open>A database with one product.\<close>

definition one_product :: DatabaseManager where
  "one_product = snd (addProduct some_env ''PROD-009'' ''Product Z'' ''Active'' 1 (Fin 99)
     \<lparr>dm_db = Some (empty_products_db\<lparr>pd_products := Some [], pd_trigger := True, pd_recipes := Some [], pd_targets := Some []\<rparr>),
      dm_undo = None, dm_calls = 0\<rparr>)"

definition a_row :: product_row where
  "a_row = \<lparr>pr_id = 1, pr_code = ''PROD-009'', pr_name = ''Product Z'', pr_status = ''Active'', pr_stock = 1,
      pr_quality = Some (Fin 99), pr_created = ''now'', pr_updated = ''now'', pr_deleted = None\<rparr>"

lemma one_product_table:
  "dm_db one_product = Some \<lparr>pd_products = Some [a_row], pd_trigger = True, pd_seq = 1, pd_recipes = Some [], pd_targets = Some []\<rparr>"
  "dm_undo one_product = None"
  by (simp_all add: one_product_def addProduct_def run_stmt_def insert_product_def some_env_def empty_products_db_def a_row_def
      valid_status_def kStatusActive_def kStatusInactive_def kStatusLowStock_def bind_float_def c_str_def max_rowid_def)

text \<open>
  A deleted product keeps its code for good. Once a row with a code has been deleted, and whatever is done
  afterwards with the open database, no listing and no search shows it, and no product with
  that code can be added.
\<close>

theorem deleted_code_is_taken:
  assumes "dm_db r = Some d" and "pd_products d = Some rows" and "x \<in> set rows" and "pr_id x = i"
    and "deleteProduct env i r = (True, r1)" and "r2 = foldl (db_step env') r1 ops" and "\<forall>op\<in>set ops. \<not> is_initialize op"
    and "manager_wf r" and "c_str code = pr_code x"
  shows "fst (addProduct env'' code name status stck q r2) = False \<and>
    pr_code x \<notin> productCode ` set (fst (getAllProducts env'' fl r2)) \<and>
    pr_code x \<notin> productCode ` set (fst (searchProducts env'' fl query r2))"
proof -
  let ?g = "\<lambda>y. if pr_id y = i then (if pd_trigger d then y\<lparr>pr_deleted := Some (clock env (dm_calls r)), pr_updated := clock env (dm_calls r)\<rparr>
      else y\<lparr>pr_deleted := Some (clock env (dm_calls r))\<rparr>) else y"
  have "dm_db r1 = Some (d\<lparr>pd_products := Some (map ?g rows)\<rparr>)"
    using assms(1,2,5) by (auto simp: update_products_def deleteProduct_def run_stmt_def Let_def split: option.splits if_splits)
  moreover have "?g x \<in> set (map ?g rows)" "pr_code (?g x) = pr_code x" "\<not> live (?g x)" using assms(3,4) by (auto simp: live_def)
  ultimately have "deleted_row (pr_code x) r1" unfolding deleted_row_def by fastforce
  then have "deleted_row (pr_code x) r2" using assms(6,7) deleted.inv_run [of "pr_code x" r1 ops env'] by simp
  then obtain d2 rows2 y where r2: "dm_db r2 = Some d2" "pd_products d2 = Some rows2" "y \<in> set rows2" "pr_code y = pr_code x" "\<not> live y"
    by (auto simp: deleted_row_def)
  have "manager_wf r1" using assms(5,8) db_step_wf [of r env "DbDelete i"] by simp
  then have "manager_wf r2" using assms(6) product_db.all_ops.inv_run by simp
  then have "distinct (map pr_code rows2)" using r2 by (auto simp: manager_wf_def db_wf_def rows_ok_def)
  then have only: "z = y" if "z \<in> set rows2" "pr_code z = pr_code x" for z
    using that r2 by (auto simp: distinct_map inj_on_def)
  have codes: "productCode (extractProduct fl z) = pr_code z" for z by (simp add: extractProduct_def)
  have shown: "pr_code x \<notin> productCode ` set (fst (read_rows env'' f r2))"
    if "\<And>ps p. f d2 = Some ps \<Longrightarrow> p \<in> set ps \<Longrightarrow> \<exists>z\<in>set rows2. live z \<and> p = extractProduct fl z" for f
  proof
    assume "pr_code x \<in> productCode ` set (fst (read_rows env'' f r2))"
    then obtain p where p: "p \<in> set (fst (read_rows env'' f r2))" "productCode p = pr_code x" by auto
    then obtain ps where "f d2 = Some ps" "p \<in> set ps"
      using r2(1) by (auto simp: read_rows_def split: option.splits if_splits dest: in_set_takeD)
    from that [OF this] obtain z where z: "z \<in> set rows2" "live z" "p = extractProduct fl z" by blast
    then show False using only [of z] p(2) codes r2(5) by simp
  qed
  have "pr_code x \<notin> productCode ` set (fst (getAllProducts env'' fl r2))"
    unfolding getAllProducts_def by (rule shown) (use r2 in auto)
  moreover have "pr_code x \<notin> productCode ` set (fst (searchProducts env'' fl query r2))"
    unfolding searchProducts_def Let_def by (rule shown) (use r2 in \<open>auto split: if_splits\<close>)
  moreover have "fst (addProduct env'' code name status stck q r2) = False"
    using r2(1-4) assms(9) by (auto simp: addProduct_def run_stmt_def insert_product_def list_ex_iff)
  ultimately show ?thesis by simp
qed

lemma one_product_wf: "manager_wf one_product"
  by (simp add: manager_wf_def one_product_table db_wf_def rows_ok_def a_row_def valid_status_def kStatusActive_def)

theorem deleted_code_is_taken_witness:
  "fst (addProduct some_env ''PROD-009'' ''Again'' ''Active'' 5 (Fin 99) (snd (deleteProduct some_env 1 one_product))) = False"
proof -
  have "deleteProduct some_env 1 one_product = (True, snd (deleteProduct some_env 1 one_product))"
    by (simp add: deleteProduct_def run_stmt_def one_product_table some_env_def update_products_def a_row_def valid_status_def
        kStatusActive_def Let_def)
  moreover have "pr_id a_row = 1" "c_str ''PROD-009'' = pr_code a_row" by (simp_all add: a_row_def c_str_def)
  ultimately show ?thesis
    using deleted_code_is_taken [OF one_product_table(1) _ _ _ _ refl, of "[a_row]" a_row 1 some_env _ "[]" "''PROD-009''" some_env]
    by (simp add: one_product_wf)
qed

subsection \<open>Searching\<close>

definition contains :: "string \<Rightarrow> string \<Rightarrow> bool" where
  "contains q t = sublist (map tolower q) (map tolower t)"

definition plain_query :: "string \<Rightarrow> bool" where
  "plain_query q = list_all (\<lambda>c. c \<noteq> CHR ''%'' \<and> c \<noteq> CHR ''_'' \<and> c \<noteq> CHR 0x00) q"

lemma like_everything: "like [CHR ''%''] t"
  by (induction t) simp_all

lemma like_prefix:
  "list_all (\<lambda>c. c \<noteq> CHR ''%'' \<and> c \<noteq> CHR ''_'') q \<Longrightarrow> like (q @ [CHR ''%'']) t \<longleftrightarrow> prefix (map tolower q) (map tolower t)"
proof (induction q arbitrary: t)
  case Nil
  show ?case using like_everything [of t] by (cases t) simp_all
next
  case (Cons c q)
  then show ?case by (cases t) auto
qed

lemma like_somewhere: "like (CHR ''%'' # p) t \<longleftrightarrow> (\<exists>u. suffix u t \<and> like p u)"
proof (induction t)
  case (Cons x t)
  have "(\<exists>u. suffix u (x # t) \<and> like p u) \<longleftrightarrow> like p (x # t) \<or> (\<exists>u. suffix u t \<and> like p u)"
    by (auto simp: suffix_Cons)
  then show ?case using Cons by simp
qed simp

lemma sublist_suffix_prefix: "sublist xs (map f t) \<longleftrightarrow> (\<exists>u. suffix u t \<and> prefix xs (map f u))"
proof
  assume "sublist xs (map f t)"
  then obtain a b where e: "map f t = a @ xs @ b" by (auto simp: sublist_def)
  have "suffix (drop (length a) t) t" by (rule suffix_drop)
  moreover have "map f (drop (length a) t) = xs @ b" using e by (simp flip: drop_map)
  ultimately show "\<exists>u. suffix u t \<and> prefix xs (map f u)" by (metis prefixI)
next
  assume "\<exists>u. suffix u t \<and> prefix xs (map f u)"
  then show "sublist xs (map f t)" by (auto simp: suffix_def prefix_def sublist_def) (metis)
qed

lemma like_contains: "plain_query q \<Longrightarrow> like (c_str (CHR ''%'' # q @ ''%'')) t \<longleftrightarrow> contains q t"
proof -
  assume q: "plain_query q"
  then have "nul_free (''%'' @ q @ ''%'')" by (simp add: nul_free_def plain_query_def list_all_iff)
  moreover have "list_all (\<lambda>c. c \<noteq> CHR ''%'' \<and> c \<noteq> CHR ''_'') q" using q by (simp add: plain_query_def list_all_iff)
  ultimately show ?thesis by (simp add: like_somewhere like_prefix contains_def sublist_suffix_prefix)
qed


text \<open>A wildcard in the query is not taken literally.\<close>

lemma wildcard_query_finds_everything:
  assumes "dm_db r = Some d" and "pd_products d = Some rows" and "prepare_ok env (dm_calls r)" and "step_ok env (dm_calls r)"
  shows "fst (searchProducts env fl ''%'' r) = fst (getAllProducts env fl r)"
proof -
  have "like ''%%%'' t" for t
    by (metis append_Nil like_somewhere like_everything suffix_order.refl)
  then have "c_str ''%%%'' = ''%%%'' \<and> (\<forall>t. like ''%%%'' t)" by (simp add: c_str_def)
  then show ?thesis using assms by (simp add: searchProducts_def getAllProducts_def read_rows_def kLikePatternLimit_def Let_def)
qed

text \<open>Deleting an id that no product has answers true.\<close>

lemma delete_unknown_succeeds:
  assumes "dm_db r = Some d" and "pd_products d = Some rows" and "i \<notin> pr_id ` set rows"
    and "prepare_ok env (dm_calls r)" and "step_ok env (dm_calls r)"
  shows "fst (deleteProduct env i r) \<and> dm_db (snd (deleteProduct env i r)) = dm_db r"
proof -
  have "map (\<lambda>x. if pr_id x = i then f x else x) rows = rows" for f using assms(3) by (intro map_idI) auto
  moreover have "\<not> list_ex (\<lambda>x. pr_id x = i \<and> P x) rows" for P using assms(3) by (auto simp: list_ex_iff)
  ultimately show ?thesis using assms by (simp add: deleteProduct_def run_stmt_def update_products_def Let_def)
qed

text \<open>An engine that refuses the demo data, so that the database starts out empty.\<close>

definition bare_env :: sqlite_env where
  "bare_env = some_env\<lparr>prepare_ok := (\<lambda>n. n < 4 \<or> 8 < n)\<rparr>"

definition bare_database :: DatabaseManager where
  "bare_database = foldl (db_step bare_env) manager_new [DbInitialize, DbAdd ''PROD-009'' ''Product Z'' ''Active'' 1 (Fin 99)]"

lemma bare_database_simps:
  "dm_db bare_database = Some \<lparr>pd_products = Some [a_row], pd_trigger = True, pd_seq = 1, pd_recipes = None, pd_targets = None\<rparr>"
  "dm_calls bare_database = 10"
  by (simp_all add: bare_database_def bare_env_def db_initialize_def manager_new_def createTables_def populateDemoData_def createRecipeTables_def
      populateRecipeDemoData_def addProduct_def run_stmt_def insert_product_def some_env_def empty_products_db_def a_row_def Let_def
      valid_status_def kStatusActive_def kStatusInactive_def kStatusLowStock_def bind_float_def c_str_def max_rowid_def next_call_def)

theorem product_codes_unique_witness:
  "addProduct some_env ''PROD-009'' ''Other'' ''Inactive'' 7 (Fin 1) bare_database = (False, next_call bare_database)"
  using product_codes_unique [OF bare_database_def bare_database_simps(1), of "[a_row]" "''PROD-009''" some_env "''Other''" "''Inactive''" 7 "Fin 1"]
  by (simp add: a_row_def c_str_def)


subsection \<open>Recipes\<close>

definition whole_recipe :: "(real \<Rightarrow> real) \<Rightarrow> ProductRecipe \<Rightarrow> ProductRecipe" where
  "whole_recipe rf rc = rc\<lparr>checkpointTargets :=
     map (\<lambda>t. t\<lparr>ct_passRateTarget := rf (ct_passRateTarget t)\<rparr>) (sort_key (\<lambda>t. map ch_code (checkpointName t)) (checkpointTargets rc))\<rparr>"

text \<open>The rows a recipe is stored as.\<close>

definition target_rows :: "string \<Rightarrow> CheckpointTarget list \<Rightarrow> (string \<times> string \<times> real) list" where
  "target_rows code ts = map (\<lambda>t. (code, checkpointName t, ct_passRateTarget t)) ts"

definition recipe_ok :: "ProductRecipe \<Rightarrow> bool" where
  "recipe_ok rc = (nul_free (rc_productCode rc) \<and> list_all (\<lambda>t. nul_free (checkpointName t)) (checkpointTargets rc) \<and>
     distinct (map checkpointName (checkpointTargets rc)) \<and> column_int (rc_totalOperations rc) = rc_totalOperations rc)"

lemma healthy_stmt:
  "healthy_from env n \<Longrightarrow> n \<le> dm_calls r \<Longrightarrow> dm_db r = Some d \<Longrightarrow> f d = Some d' \<Longrightarrow> run_stmt env f r = (True, (next_call r)\<lparr>dm_db := Some d'\<rparr>)"
  by (simp add: run_stmt_def healthy_from_def)

lemma healthy_read:
  "healthy_from env n \<Longrightarrow> n \<le> dm_calls r \<Longrightarrow> dm_db r = Some d \<Longrightarrow> f d = Some found \<Longrightarrow> read_rows env f r = (found, next_call r)"
  by (simp add: read_rows_def healthy_from_def)

lemma target_loop_healthy:
  assumes "healthy_from env n" and "n \<le> dm_calls r" and "dm_db r = Some d" and "pd_targets d = Some rows" and "nul_free code"
    and "list_all (\<lambda>t. nul_free (checkpointName t)) ts" and "distinct (map target_key rows @ map target_key (target_rows code ts))"
  shows "fst (target_loop env code ts True r) \<and> dm_db (snd (target_loop env code ts True r)) = Some (d\<lparr>pd_targets := Some (rows @ target_rows code ts)\<rparr>) \<and>
    n \<le> dm_calls (snd (target_loop env code ts True r)) \<and> dm_undo (snd (target_loop env code ts True r)) = dm_undo r"
  using assms(2-)
proof (induction ts arbitrary: r d rows)
  case (Cons t ts)
  let ?row = "(code, checkpointName t, ct_passRateTarget t)"
  have fresh: "\<not> list_ex (\<lambda>x. target_key x = (code, checkpointName t)) rows"
    using Cons.prems(6) by (force simp: list_ex_iff target_rows_def target_key_def)
  have c: "c_str code = code" "c_str (checkpointName t) = checkpointName t" using Cons.prems(4,5) by simp_all
  have "insert_target code (checkpointName t) (ct_passRateTarget t) d = Some (d\<lparr>pd_targets := Some (rows @ [?row])\<rparr>)"
    using Cons.prems(3) fresh by (simp add: insert_target_def)
  from healthy_stmt [where f = "insert_target code (checkpointName t) (ct_passRateTarget t)", OF assms(1) Cons.prems(1,2) this]
  have s: "run_stmt env (insert_target (c_str code) (c_str (checkpointName t)) (ct_passRateTarget t)) r =
      (True, (next_call r)\<lparr>dm_db := Some (d\<lparr>pd_targets := Some (rows @ [?row])\<rparr>)\<rparr>)" by (simp add: c)
  let ?r1 = "(next_call r)\<lparr>dm_db := Some (d\<lparr>pd_targets := Some (rows @ [?row])\<rparr>)\<rparr>"
  have "distinct (map target_key (rows @ [?row]) @ map target_key (target_rows code ts))"
    using Cons.prems(6) by (auto simp: target_rows_def)
  from Cons.IH [of ?r1, OF _ _ _ Cons.prems(4) _ this] show ?case using Cons.prems(1,5) s by (simp add: target_rows_def)
qed (simp add: target_rows_def)

lemma upsert_healthy:
  assumes "healthy_from env (dm_calls r)" and "dm_db r = Some d" and "dm_undo r = None" and "recipe_ok rc" and "db_wf d"
    and "pd_recipes d = Some rs" and "pd_targets d = Some ts"
  shows "\<exists>r'. upsertRecipe env rc r = (True, r') \<and> dm_undo r' = None \<and> dm_calls r \<le> dm_calls r' \<and>
    dm_db r' = Some (d\<lparr>pd_recipes := Some (filter (\<lambda>x. fst x \<noteq> rc_productCode rc) rs @ [(rc_productCode rc, rc_totalOperations rc)]),
      pd_targets := Some (filter (\<lambda>x. fst x \<noteq> rc_productCode rc) ts @ target_rows (rc_productCode rc) (checkpointTargets rc))\<rparr>)"
proof -
  let ?c = "rc_productCode rc" and ?n = "dm_calls r"
  have c: "nul_free ?c" "c_str ?c = ?c" using assms(4) by (simp_all add: recipe_ok_def)
  define r1 where "r1 = (next_call r)\<lparr>dm_undo := dm_db r\<rparr>"
  have b: "recipe_begin env r = (True, r1)" using assms(1-3) by (simp add: recipe_begin_def healthy_from_def r1_def)
  define d2 where "d2 = d\<lparr>pd_recipes := Some (filter (\<lambda>x. fst x \<noteq> ?c) rs @ [(?c, rc_totalOperations rc)])\<rparr>"
  define r2 where "r2 = (next_call r1)\<lparr>dm_db := Some d2\<rparr>"
  have s1: "run_stmt env (replace_recipe (c_str ?c) (rc_totalOperations rc)) r1 = (True, r2)" unfolding r2_def
    by (rule healthy_stmt [OF assms(1), where d = d]) (use assms c in \<open>simp_all add: r1_def replace_recipe_def d2_def\<close>)
  define d3 where "d3 = d2\<lparr>pd_targets := Some (filter (\<lambda>x. fst x \<noteq> ?c) ts)\<rparr>"
  define r3 where "r3 = (next_call r2)\<lparr>dm_db := Some d3\<rparr>"
  have s2: "run_stmt env (delete_targets (c_str ?c)) r2 = (True, r3)" unfolding r3_def
    by (rule healthy_stmt [OF assms(1), where d = d2]) (use assms c in \<open>simp_all add: r1_def r2_def delete_targets_def d2_def d3_def\<close>)
  have "distinct (map target_key ts)" using assms(5,7) by (simp add: db_wf_def)
  then have dist: "distinct (map target_key (filter (\<lambda>x. fst x \<noteq> ?c) ts) @ map target_key (target_rows ?c (checkpointTargets rc)))"
    using assms(4) by (auto simp: recipe_ok_def target_rows_def target_key_def distinct_map_filter distinct_map o_def inj_on_def)
  obtain ok r4 where l: "target_loop env ?c (checkpointTargets rc) True r3 = (ok, r4)" by fastforce
  have t: "ok \<and> dm_db r4 = Some (d3\<lparr>pd_targets := Some (filter (\<lambda>x. fst x \<noteq> ?c) ts @ target_rows ?c (checkpointTargets rc))\<rparr>) \<and>
      ?n \<le> dm_calls r4 \<and> dm_undo r4 = dm_undo r3"
    using target_loop_healthy [OF assms(1), of r3 d3 "filter (\<lambda>x. fst x \<noteq> ?c) ts" ?c "checkpointTargets rc"] dist c assms(4) l
    by (simp add: r3_def r2_def r1_def d3_def recipe_ok_def)
  have f: "recipe_finish env True r4 = (next_call r4)\<lparr>dm_undo := None\<rparr>" using assms(1) t by (simp add: recipe_finish_def healthy_from_def)
  have "recipe_body env rc r1 = (True, r4)" using s1 s2 l t by (simp add: recipe_body_def)
  then have "upsertRecipe env rc r = (True, (next_call r4)\<lparr>dm_undo := None\<rparr>)" using b f by (simp add: upsertRecipe_def)
  then show ?thesis using t by (simp add: d3_def d2_def)
qed

lemma getRecipe_healthy:
  assumes "healthy_from env (dm_calls r)" and "dm_db r = Some d" and "nul_free code" and "pd_recipes d = Some rs" and "pd_targets d = Some ts"
  shows "fst (getRecipeByProductCode env rf code r) =
    (case filter (\<lambda>x. fst x = code) rs of [] \<Rightarrow> None
     | x # _ \<Rightarrow> Some \<lparr>rc_totalOperations = column_int (snd x), checkpointTargets = stored_targets rf code ts, rc_productCode = code\<rparr>)"
proof -
  have h: "read_rows env (\<lambda>d. map_option (filter (\<lambda>x. fst x = c_str code)) (pd_recipes d)) r = (filter (\<lambda>x. fst x = code) rs, next_call r)"
    by (rule healthy_read [OF assms(1) _ assms(2)]) (use assms in simp_all)
  have t: "read_rows env (\<lambda>d. map_option (stored_targets rf (c_str code)) (pd_targets d)) (next_call r) = (stored_targets rf code ts, next_call (next_call r))"
    by (rule healthy_read [OF assms(1), where d = d]) (use assms in simp_all)
  show ?thesis unfolding getRecipeByProductCode_def h by (simp add: t split: list.splits)
qed

lemma stored_targets_written:
  "stored_targets rf code (filter (\<lambda>x. fst x \<noteq> c) ts @ target_rows c cts) =
   (if code = c then map (\<lambda>t. t\<lparr>ct_passRateTarget := rf (ct_passRateTarget t)\<rparr>) (sort_key (\<lambda>t. map ch_code (checkpointName t)) cts)
    else stored_targets rf code ts)"
proof (cases "code = c")
  case True
  have "filter (\<lambda>x. fst x = c) (filter (\<lambda>x. fst x \<noteq> c) ts @ target_rows c cts) = target_rows c cts"
    by (induction ts) (auto simp: target_rows_def filter_id_conv)
  then show ?thesis using True
    by (simp add: stored_targets_def target_rows_def sort_map case_prod_beta)
next
  case False
  then have "filter (\<lambda>x. fst x = code) (filter (\<lambda>x. fst x \<noteq> c) ts @ target_rows c cts) = filter (\<lambda>x. fst x = code) ts"
    by (auto simp: target_rows_def filter_map o_def intro!: filter_cong)
  then show ?thesis using False by (simp add: stored_targets_def)
qed

text \<open>
  A saved recipe is read back. On a database that works, saving a recipe with different checkpoint names
  succeeds; afterwards looking up its product gives the saved operations and targets, the targets ordered by
  name and as the column stores them, and looking up any other product gives what it gave before.
\<close>

theorem recipe_round_trip:
  assumes "healthy_from env (dm_calls r)" and "dm_db r = Some d" and "dm_undo r = None" and "manager_wf r"
    and "pd_recipes d = Some rs" and "pd_targets d = Some ts" and "recipe_ok rc" and "nul_free code"
    and "(ok, r') = upsertRecipe env rc r"
  shows "ok \<and> fst (getRecipeByProductCode env rf code r') =
    (if code = rc_productCode rc then Some (whole_recipe rf rc) else fst (getRecipeByProductCode env rf code r))"
proof -
  let ?c = "rc_productCode rc"
  have "db_wf d" using assms(2,4) by (simp add: manager_wf_def)
  from upsert_healthy [OF assms(1,2,3,7) this assms(5,6)] assms(9)
  have r': "ok" "dm_calls r \<le> dm_calls r'"
    "dm_db r' = Some (d\<lparr>pd_recipes := Some (filter (\<lambda>x. fst x \<noteq> ?c) rs @ [(?c, rc_totalOperations rc)]),
        pd_targets := Some (filter (\<lambda>x. fst x \<noteq> ?c) ts @ target_rows ?c (checkpointTargets rc))\<rparr>)" by auto
  have h: "healthy_from env (dm_calls r')" using assms(1) r'(2) by (simp add: healthy_from_def)
  have g: "fst (getRecipeByProductCode env rf code r') =
      (case filter (\<lambda>x. fst x = code) (filter (\<lambda>x. fst x \<noteq> ?c) rs @ [(?c, rc_totalOperations rc)]) of [] \<Rightarrow> None
       | x # _ \<Rightarrow> Some \<lparr>rc_totalOperations = column_int (snd x),
           checkpointTargets = stored_targets rf code (filter (\<lambda>x. fst x \<noteq> ?c) ts @ target_rows ?c (checkpointTargets rc)), rc_productCode = code\<rparr>)"
    by (rule getRecipe_healthy [OF h r'(3) assms(8)]) simp_all
  note g0 = getRecipe_healthy [OF assms(1,2,8,5,6), of rf]
  have o: "column_int (rc_totalOperations rc) = rc_totalOperations rc" using assms(7) by (simp add: recipe_ok_def)
  have "filter (\<lambda>x. fst x = code) (filter (\<lambda>x. fst x \<noteq> ?c) rs @ [(?c, rc_totalOperations rc)]) =
      (if code = ?c then [(?c, rc_totalOperations rc)] else filter (\<lambda>x. fst x = code) rs)"
    by (auto intro!: filter_cong simp: filter_empty_conv)
  then show ?thesis using r'(1) g g0 o unfolding stored_targets_written by (cases "code = ?c") (simp_all add: whole_recipe_def)
qed

text \<open>
  C36. A refused recipe changes nothing. Whatever fails while a recipe is saved, and also when its checkpoint
  names collide, the content of the database is what it was before, as long as no transaction was open and the
  ROLLBACK itself is carried out.
\<close>

theorem refused_recipe_changes_nothing:
  assumes "upsertRecipe env rc r = (False, r')" and "dm_undo r = None"
    and "prepare_ok env (dm_calls r' - 1)" and "step_ok env (dm_calls r' - 1)"
  shows "dm_db r' = dm_db r \<and> dm_undo r' = None"
proof (cases "recipe_begin env r")
  case (Pair ok r1)
  show ?thesis
  proof (cases ok)
    case True
    then have u: "dm_undo r1 = dm_db r" using Pair by (auto simp: recipe_begin_def split: if_splits)
    obtain r2 where b: "recipe_body env rc r1 = (False, r2)" "r' = recipe_finish env False r2"
      using assms(1) Pair True by (auto simp: upsertRecipe_def split: prod.splits)
    have "dm_undo r2 = dm_db r" using recipe_body_products [of env rc r1] b(1) u by simp
    moreover have "dm_calls r' = Suc (dm_calls r2)" by (simp add: b(2) recipe_finish_def)
    ultimately show ?thesis using assms(3,4) b(2) by (simp add: recipe_finish_def)
  next
    case False
    then have "r' = r1" using assms(1) Pair by (simp add: upsertRecipe_def)
    then show ?thesis using Pair False assms(2) by (auto simp: recipe_begin_def split: if_splits)
  qed
qed

definition two_targets :: "string \<Rightarrow> string \<Rightarrow> ProductRecipe" where
  "two_targets a b = \<lparr>rc_totalOperations = 3, checkpointTargets = [\<lparr>checkpointName = a, ct_passRateTarget = 97\<rparr>,
     \<lparr>checkpointName = b, ct_passRateTarget = 95\<rparr>], rc_productCode = ''PROD-009''\<rparr>"

lemma some_env_healthy: "healthy_from some_env n"
  by (simp add: healthy_from_def some_env_def)

theorem recipe_round_trip_witness:
  "fst (getRecipeByProductCode some_env id ''PROD-009'' (snd (upsertRecipe some_env (two_targets ''Weight Check'' ''Hardness Test'') one_product))) =
     Some (two_targets ''Hardness Test'' ''Weight Check''\<lparr>checkpointTargets := [\<lparr>checkpointName = ''Hardness Test'', ct_passRateTarget = 95\<rparr>,
       \<lparr>checkpointName = ''Weight Check'', ct_passRateTarget = 97\<rparr>]\<rparr>)"
proof -
  let ?rc = "two_targets ''Weight Check'' ''Hardness Test''"
  have ok: "recipe_ok ?rc" "nul_free ''PROD-009''" by (simp_all add: recipe_ok_def two_targets_def nul_free_def column_int_def)
  have le: "map ch_code ''Hardness Test'' \<le> map ch_code ''Weight Check''" by code_simp
  have "\<not> map ch_code ''Weight Check'' \<le> map ch_code ''Hardness Test''" by code_simp
  then have w: "whole_recipe id ?rc = two_targets ''Hardness Test'' ''Weight Check''\<lparr>checkpointTargets := [\<lparr>checkpointName = ''Hardness Test'', ct_passRateTarget = 95\<rparr>,
       \<lparr>checkpointName = ''Weight Check'', ct_passRateTarget = 97\<rparr>]\<rparr>"
    by (simp add: whole_recipe_def two_targets_def)
  show ?thesis
    using recipe_round_trip [OF some_env_healthy one_product_table one_product_wf _ _ ok prod.collapse, of "[]" "[]" id] w
    by (simp add: two_targets_def)
qed

theorem refused_recipe_changes_nothing_witness:
  "\<exists>r'. upsertRecipe some_env (two_targets ''A'' ''A'') one_product = (False, r') \<and> dm_db r' = dm_db one_product"
proof -
  have u: "upsertRecipe some_env (two_targets ''A'' ''A'') one_product = (False, snd (upsertRecipe some_env (two_targets ''A'' ''A'') one_product))"
    by (simp add: upsertRecipe_def recipe_begin_def recipe_body_def run_stmt_def one_product_table some_env_def replace_recipe_def two_targets_def
        delete_targets_def insert_target_def target_key_def next_call_def)
  from refused_recipe_changes_nothing [OF this one_product_table(2)] have "dm_db (snd (upsertRecipe some_env (two_targets ''A'' ''A'') one_product)) = dm_db one_product"
    by (simp add: some_env_def)
  with u show ?thesis by blast
qed

subsection \<open>One connection for two threads\<close>

text \<open>\<^verbatim>\<open>upsertRecipe\<close> runs on the caller's thread while the I/O thread adds a product on the same connection:
  the INSERT falls between BEGIN and the end of the transaction.\<close>

definition add_meanwhile :: "sqlite_env \<Rightarrow> ProductRecipe \<Rightarrow> (DatabaseManager \<Rightarrow> bool \<times> DatabaseManager) \<Rightarrow> DatabaseManager \<Rightarrow> (bool \<times> bool) \<times> DatabaseManager" where
  "add_meanwhile env rc add r =
     (case recipe_begin env r of
        (begun, r) \<Rightarrow>
          (case add r of
             (added, r) \<Rightarrow>
               (if \<not> begun then ((added, False), r)
                else (case recipe_body env rc r of (ok, r) \<Rightarrow> ((added, ok), recipe_finish env ok r)))))"

text \<open>
  C37. A refused recipe takes a product with it. When the I/O thread adds a product while a recipe is being
  saved and the recipe is refused, the add has answered true and the product is gone: the database is what it
  was before both calls.
\<close>

theorem rollback_loses_concurrent_add:
  assumes "add_meanwhile env rc (addProduct env code name status stck q) r = ((True, False), r')"
    and "fst (recipe_begin env r)" and "prepare_ok env (dm_calls r' - 1)" and "step_ok env (dm_calls r' - 1)"
  shows "dm_db r' = dm_db r"
proof -
  obtain r1 where b: "recipe_begin env r = (True, r1)" "dm_undo r1 = dm_db r" using assms(2) by (auto simp: recipe_begin_def split: if_splits)
  obtain r2 where a: "addProduct env code name status stck q r1 = (True, r2)" using assms(1) b by (auto simp: add_meanwhile_def split: prod.splits)
  then have "dm_undo r2 = dm_db r" using b(2) run_stmt_undo by (metis addProduct_def snd_conv)
  moreover obtain r3 where s: "recipe_body env rc r2 = (False, r3)" "r' = recipe_finish env False r3"
    using assms(1) b a by (auto simp: add_meanwhile_def split: prod.splits)
  ultimately have "dm_undo r3 = dm_db r" using recipe_body_products [of env rc r2] by simp
  moreover have "dm_calls r' = Suc (dm_calls r3)" by (simp add: s(2) recipe_finish_def)
  ultimately show ?thesis using assms(3,4) s(2) by (simp add: recipe_finish_def)
qed

theorem rollback_loses_concurrent_add_witness:
  "\<exists>r'. add_meanwhile some_env (two_targets ''A'' ''A'') (addProduct some_env ''PROD-010'' ''Y'' ''Active'' 1 (Fin 9)) one_product = ((True, False), r') \<and>
     dm_db r' = dm_db one_product"
proof -
  let ?w = "add_meanwhile some_env (two_targets ''A'' ''A'') (addProduct some_env ''PROD-010'' ''Y'' ''Active'' 1 (Fin 9)) one_product"
  have u: "?w = ((True, False), snd ?w)"
    by (simp add: add_meanwhile_def recipe_begin_def recipe_body_def run_stmt_def one_product_table some_env_def replace_recipe_def two_targets_def
        delete_targets_def insert_target_def target_key_def next_call_def addProduct_def insert_product_def valid_status_def kStatusActive_def
        kStatusInactive_def kStatusLowStock_def max_rowid_def a_row_def c_str_def)
  from rollback_loses_concurrent_add [OF this] have "dm_db (snd ?w) = dm_db one_product"
    by (simp add: some_env_def recipe_begin_def one_product_table)
  with u show ?thesis by blast
qed

end
