(* ===== verification/ProductsPresenter.thy ===== *)
theory ProductsPresenter
  imports ProductDatabase DashboardPresenter
begin

text \<open>
  \<^verbatim>\<open>presenter/ProductsPresenter.cpp\<close>, the asynchronous half of \<^verbatim>\<open>model/DatabaseManager.cpp\<close> and the I/O thread's
  queue of \<^verbatim>\<open>model/ModelContext.h\<close>: the Products page as the application wires it, on the singleton database. A
  write goes through two queues: posted to the I/O thread, which calls the database, and back to the user
  interface's idle queue, which runs the continuation. Both are explicit; who runs when is the sequence of
  operations. gettext is an argument. Log messages are not modelled; no posted task throws.

  The theorems: every request that was queued answers once and in order, with one audit row; who may change
  products; and the way of a recipe from the editor to the line.
\<close>

section \<open>The I/O thread's queue\<close>

definition kMaxPendingOperations :: nat where "kMaxPendingOperations = 1000"

record 't ModelContext =
  mc_queue :: "'t list"
  mc_pending :: nat
  mc_stopped :: bool

definition mcx_new :: "'t ModelContext" where
  "mcx_new = \<lparr>mc_queue = [], mc_pending = 0, mc_stopped = False\<rparr>"

definition mc_post :: "'t \<Rightarrow> 't ModelContext \<Rightarrow> bool \<times> 't ModelContext" where
  "mc_post t c = (if kMaxPendingOperations \<le> mc_pending c then (False, c)
     else (True, c\<lparr>mc_pending := mc_pending c + 1, mc_queue := mc_queue c @ [t]\<rparr>))"

definition mc_stop :: "'t ModelContext \<Rightarrow> 't ModelContext" where
  "mc_stop c = c\<lparr>mc_stopped := True\<rparr>"

text \<open>The thread takes the next task; when it has run it the count goes down.\<close>

definition mc_take :: "'t ModelContext \<Rightarrow> ('t \<times> 't ModelContext) option" where
  "mc_take c = (if mc_stopped c then None else case mc_queue c of [] \<Rightarrow> None
     | t # ts \<Rightarrow> Some (t, c\<lparr>mc_queue := ts, mc_pending := mc_pending c - 1\<rparr>))"

definition mc_isHealthy :: "'t ModelContext \<Rightarrow> bool" where
  "mc_isHealthy c = (\<not> mc_stopped c \<and> mc_pending c < kMaxPendingOperations)"

section \<open>The page\<close>

text \<open>What is posted, and what comes back to the user interface; \<open>cb\<close> names the caller's callback.\<close>

datatype db_task =
    AddTask string string string int flt nat
  | UpdateTask int string string int flt nat
  | DeleteTask int nat
  | ListTask nat

datatype idle_task = Finished string string nat bool | Listed nat "Product list"

record ProductItem =
  pi_id :: int
  pi_productCode :: string
  pi_name :: string
  pi_status :: string
  pi_stock :: int
  pi_qualityRate :: flt

record ViewProductDialogViewModel =
  vp_productId :: string
  vp_description :: string
  vp_createdDate :: string
  vp_isVerified :: bool

datatype 'v page_out =
    ProductsLoaded 'v "ProductItem list" | ViewProductReady 'v ViewProductDialogViewModel | RecipeLoaded 'v bool string
  | Answer nat bool | Exported nat "Product list" | Threw

text \<open>\<open>pp_recipes\<close>, \<open>pp_writer\<close>: the recipe hookups, both the database; \<open>pp_model\<close>: the production line.\<close>

record ('v, 'cb) ProductsPage =
  pp_observers :: "'v list"
  currentSearchQuery :: string
  pp_audit :: "AuditEvent list option"
  pp_session :: "Session option"
  pp_recipes :: bool
  pp_writer :: bool
  pp_model :: "'cb SimulatedModel option"
  pp_db :: DatabaseManager
  pp_io :: "db_task ModelContext"
  pp_idle :: "idle_task list"

text \<open>What surrounds a call: the database engine, the conversions of a column to \<^verbatim>\<open>float\<close>, the indeterminate
  members of a product that is not found, and gettext.\<close>

record page_env =
  pe_engine :: sqlite_env
  pe_float :: "real \<Rightarrow> flt"
  pe_target :: "real \<Rightarrow> real"
  pe_junk :: Product
  pe_gettext :: "string \<Rightarrow> string"

definition page_notify :: "('v \<Rightarrow> 'v page_out) \<Rightarrow> ('v, 'cb) ProductsPage \<Rightarrow> 'v page_out list" where
  "page_notify f p = map f (pp_observers p)"

definition kProduct :: string where "kProduct = ''PRODUCT''"

definition page_emitAudit :: "string \<Rightarrow> string \<Rightarrow> string \<Rightarrow> ('v, 'cb) ProductsPage \<Rightarrow> ('v, 'cb) ProductsPage" where
  "page_emitAudit action details outcome p =
     (case (pp_audit p, pp_session p) of
        (Some rows, Some se) \<Rightarrow>
          (let user = (case currentUser se of Some u \<Rightarrow> u | None \<Rightarrow> new_user) in
           p\<lparr>pp_audit := Some (rows @ [\<lparr>ae_timestamp = [], ae_username = username user, ae_role = roleName (role user),
              ae_category = kProduct, ae_action = action, ae_details = details, ae_result = outcome\<rparr>])\<rparr>)
      | _ \<Rightarrow> p)"

definition checkEditPermission :: "string \<Rightarrow> string \<Rightarrow> ('v, 'cb) ProductsPage \<Rightarrow> bool \<times> ('v, 'cb) ProductsPage" where
  "checkEditPermission action details p =
     (case pp_session p of None \<Rightarrow> (True, p)
      | Some se \<Rightarrow> (case currentUser se of None \<Rightarrow> (False, p)
         | Some u \<Rightarrow> if canEditProducts (role u) then (True, p) else (False, page_emitAudit action details kFailure p)))"

text \<open>A message with one parameter; a catalogue text that is no valid format string throws.\<close>

definition recipe_message :: "page_env \<Rightarrow> bool \<Rightarrow> string \<Rightarrow> string \<Rightarrow> ('v, 'cb) ProductsPage \<Rightarrow> 'v page_out list" where
  "recipe_message env ok msg arg p =
     (case vformat (pe_gettext env msg) [ArgS arg] of None \<Rightarrow> [Threw] | Some t \<Rightarrow> page_notify (\<lambda>v. RecipeLoaded v ok t) p)"

section \<open>Reading\<close>

text \<open>\<^verbatim>\<open>std::to_string\<close> of a \<^verbatim>\<open>float\<close>.\<close>

fun rate_text :: "flt \<Rightarrow> string" where
  "rate_text (Fin x) = fixed_str 6 x"
| "rate_text (Inf neg) = (if neg then ''-inf'' else ''inf'')"
| "rate_text NaN = ''nan''"

definition product_item :: "Product \<Rightarrow> ProductItem" where
  "product_item x = \<lparr>pi_id = prod_id x, pi_productCode = productCode x, pi_name = prod_name x, pi_status = prod_status x,
     pi_stock = stock x, pi_qualityRate = qualityRate x\<rparr>"

definition buildProductsViewModel :: "page_env \<Rightarrow> ('v, 'cb) ProductsPage \<Rightarrow> ProductItem list \<times> ('v, 'cb) ProductsPage" where
  "buildProductsViewModel env p =
     (case (if currentSearchQuery p = [] then getAllProducts (pe_engine env) (pe_float env) (pp_db p)
            else searchProducts (pe_engine env) (pe_float env) (currentSearchQuery p) (pp_db p)) of
        (found, dm) \<Rightarrow> (map product_item found, p\<lparr>pp_db := dm\<rparr>))"

definition show_products :: "page_env \<Rightarrow> string \<Rightarrow> ('v, 'cb) ProductsPage \<Rightarrow> ('v, 'cb) ProductsPage \<times> 'v page_out list" where
  "show_products env query p =
     (case buildProductsViewModel env (p\<lparr>currentSearchQuery := query\<rparr>) of
        (items, p) \<Rightarrow> (p, page_notify (\<lambda>v. ProductsLoaded v items) p))"

definition page_loadProducts :: "page_env \<Rightarrow> ('v, 'cb) ProductsPage \<Rightarrow> ('v, 'cb) ProductsPage \<times> 'v page_out list" where
  "page_loadProducts env = show_products env []"

definition page_searchProducts :: "page_env \<Rightarrow> string \<Rightarrow> ('v, 'cb) ProductsPage \<Rightarrow> ('v, 'cb) ProductsPage \<times> 'v page_out list" where
  "page_searchProducts env = show_products env"

definition page_getProduct :: "page_env \<Rightarrow> int \<Rightarrow> ('v, 'cb) ProductsPage \<Rightarrow> Product \<times> ('v, 'cb) ProductsPage" where
  "page_getProduct env i p =
     (case getProduct (pe_engine env) (pe_float env) (pe_junk env) i (pp_db p) of (x, dm) \<Rightarrow> (x, p\<lparr>pp_db := dm\<rparr>))"

definition buildProductDetailViewModel :: "page_env \<Rightarrow> int \<Rightarrow> ('v, 'cb) ProductsPage \<Rightarrow> ViewProductDialogViewModel \<times> ('v, 'cb) ProductsPage" where
  "buildProductDetailViewModel env i p =
     (case page_getProduct env i p of
        (x, p) \<Rightarrow>
          (if prod_id x = kInvalidProductId
           then \<lparr>vp_productId = ''NOT FOUND'', vp_description = ''Product not found or deleted'', vp_createdDate = [], vp_isVerified = False\<rparr>
           else \<lparr>vp_productId = productCode x,
             vp_description = prod_name x @ ''\<newline>Status: '' @ prod_status x @ ''\<newline>Stock: '' @ int_str (stock x) @ '' units\<newline>Quality: '' @
               rate_text (qualityRate x) @ ''%'',
             vp_createdDate = createdAt x, vp_isVerified = (prod_status x = kStatusActive)\<rparr>, p))"

definition page_viewProduct :: "page_env \<Rightarrow> int \<Rightarrow> ('v, 'cb) ProductsPage \<Rightarrow> ('v, 'cb) ProductsPage \<times> 'v page_out list" where
  "page_viewProduct env i p = (case buildProductDetailViewModel env i p of (vm, p) \<Rightarrow> (p, page_notify (\<lambda>v. ViewProductReady v vm) p))"

section \<open>Writing\<close>

text \<open>A posted task that the queue refuses is dropped; the result of \<^verbatim>\<open>post\<close> is not looked at.\<close>

definition post_task :: "db_task \<Rightarrow> ('v, 'cb) ProductsPage \<Rightarrow> ('v, 'cb) ProductsPage" where
  "post_task t p = p\<lparr>pp_io := snd (mc_post t (pp_io p))\<rparr>"

definition code_details :: "string \<Rightarrow> string" where "code_details code = ''code='' @ code"
definition id_details :: "int \<Rightarrow> string" where "id_details i = ''id='' @ int_str i"

definition request :: "string \<Rightarrow> string \<Rightarrow> db_task \<Rightarrow> nat \<Rightarrow> ('v, 'cb) ProductsPage \<Rightarrow> ('v, 'cb) ProductsPage \<times> 'v page_out list" where
  "request action details t cb p =
     (case checkEditPermission action details p of
        (False, p) \<Rightarrow> (p, [Answer cb False])
      | (True, p) \<Rightarrow> (post_task t p, []))"

definition page_addProduct :: "string \<Rightarrow> string \<Rightarrow> string \<Rightarrow> int \<Rightarrow> flt \<Rightarrow> nat \<Rightarrow> ('v, 'cb) ProductsPage \<Rightarrow> ('v, 'cb) ProductsPage \<times> 'v page_out list" where
  "page_addProduct code name status stck q cb = request ''ADD'' (code_details code) (AddTask code name status stck q cb) cb"

definition page_deleteProduct :: "int \<Rightarrow> nat \<Rightarrow> ('v, 'cb) ProductsPage \<Rightarrow> ('v, 'cb) ProductsPage \<times> 'v page_out list" where
  "page_deleteProduct i cb = request ''DELETE'' (id_details i) (DeleteTask i cb) cb"

definition page_updateProduct :: "int \<Rightarrow> string \<Rightarrow> string \<Rightarrow> int \<Rightarrow> flt \<Rightarrow> nat \<Rightarrow> ('v, 'cb) ProductsPage \<Rightarrow> ('v, 'cb) ProductsPage \<times> 'v page_out list" where
  "page_updateProduct i name status stck q cb = request ''UPDATE'' (id_details i) (UpdateTask i name status stck q cb) cb"

definition page_exportProducts :: "nat \<Rightarrow> ('v, 'cb) ProductsPage \<Rightarrow> ('v, 'cb) ProductsPage" where
  "page_exportProducts cb = post_task (ListTask cb)"

text \<open>The task on the I/O thread: the call, and the idle callback it leaves behind.\<close>

fun run_db_task :: "page_env \<Rightarrow> db_task \<Rightarrow> DatabaseManager \<Rightarrow> idle_task \<times> DatabaseManager" where
  "run_db_task env (AddTask code name status stck q cb) dm =
     (case addProduct (pe_engine env) code name status stck q dm of (ok, dm) \<Rightarrow> (Finished ''ADD'' (code_details code) cb ok, dm))"
| "run_db_task env (UpdateTask i name status stck q cb) dm =
     (case updateProduct (pe_engine env) i name status stck q dm of (ok, dm) \<Rightarrow> (Finished ''UPDATE'' (id_details i) cb ok, dm))"
| "run_db_task env (DeleteTask i cb) dm =
     (case deleteProduct (pe_engine env) i dm of (ok, dm) \<Rightarrow> (Finished ''DELETE'' (id_details i) cb ok, dm))"
| "run_db_task env (ListTask cb) dm =
     (case getAllProducts (pe_engine env) (pe_float env) dm of (found, dm) \<Rightarrow> (Listed cb found, dm))"

definition io_turn :: "page_env \<Rightarrow> ('v, 'cb) ProductsPage \<Rightarrow> ('v, 'cb) ProductsPage" where
  "io_turn env p =
     (case mc_take (pp_io p) of None \<Rightarrow> p
      | Some (t, io) \<Rightarrow> (case run_db_task env t (pp_db p) of (res, dm) \<Rightarrow> p\<lparr>pp_io := io, pp_db := dm, pp_idle := pp_idle p @ [res]\<rparr>))"

text \<open>The continuation on the user interface's thread.\<close>

definition idle_turn :: "page_env \<Rightarrow> ('v, 'cb) ProductsPage \<Rightarrow> ('v, 'cb) ProductsPage \<times> 'v page_out list" where
  "idle_turn env p =
     (case pp_idle p of [] \<Rightarrow> (p, [])
      | Listed cb found # rest \<Rightarrow> (p\<lparr>pp_idle := rest\<rparr>, [Exported cb found])
      | Finished action details cb ok # rest \<Rightarrow>
          (if ok then (case page_loadProducts env (page_emitAudit action details kSuccess (p\<lparr>pp_idle := rest\<rparr>)) of
              (p, shown) \<Rightarrow> (p, shown @ [Answer cb True]))
           else (page_emitAudit action details kFailure (p\<lparr>pp_idle := rest\<rparr>), [Answer cb False])))"

section \<open>Recipes\<close>

definition page_loadRecipe :: "page_env \<Rightarrow> int \<Rightarrow> ('v, 'cb) ProductsPage \<Rightarrow> ('v, 'cb) ProductsPage \<times> 'v page_out list \<times> 'cb notice list" where
  "page_loadRecipe env i p =
     (case pp_model p of
        None \<Rightarrow> (p, page_notify (\<lambda>v. RecipeLoaded v False (pe_gettext env ''Recipe loading is not available.'')) p, [])
      | Some m \<Rightarrow>
          if \<not> pp_recipes p then (p, page_notify (\<lambda>v. RecipeLoaded v False (pe_gettext env ''Recipe loading is not available.'')) p, [])
          else
            (case page_getProduct env i p of
               (x, p) \<Rightarrow>
                 if prod_id x = kInvalidProductId then (p, page_notify (\<lambda>v. RecipeLoaded v False (pe_gettext env ''Product not found.'')) p, [])
                 else
                   (case getRecipeByProductCode (pe_engine env) (pe_target env) (productCode x) (pp_db p) of
                      (None, dm) \<Rightarrow>
                        let p = p\<lparr>pp_db := dm\<rparr> in
                        (p, recipe_message env False ''No recipe defined for {}.'' (productCode x) p, [])
                    | (Some rc, dm) \<Rightarrow>
                        (case loadProduct x (Recipe.truncate rc) m of
                           (m, notices) \<Rightarrow>
                             let p = p\<lparr>pp_db := dm, pp_model := Some m\<rparr> in
                             (p, recipe_message env True ''Loaded recipe for {}.'' (prod_name x) p, notices)))))"

definition editor_target :: "ProductRecipe option \<Rightarrow> QualityCheckpoint \<Rightarrow> CheckpointTarget" where
  "editor_target saved cp =
     \<lparr>checkpointName = qc_name cp,
      ct_passRateTarget = (case saved of None \<Rightarrow> kDefaultPassRateTarget
        | Some rc \<Rightarrow> (case find (\<lambda>t. checkpointName t = qc_name cp) (checkpointTargets rc) of
            None \<Rightarrow> kDefaultPassRateTarget | Some t \<Rightarrow> ct_passRateTarget t))\<rparr>"

definition getRecipeForEditing :: "page_env \<Rightarrow> int \<Rightarrow> ('v, 'cb) ProductsPage \<Rightarrow> ProductRecipe \<times> ('v, 'cb) ProductsPage" where
  "getRecipeForEditing env i p =
     (case page_getProduct env i p of
        (x, p) \<Rightarrow>
          (case (if pp_recipes p then getRecipeByProductCode (pe_engine env) (pe_target env) (productCode x) (pp_db p) else (None, pp_db p)) of
             (saved, dm) \<Rightarrow>
               let total = (case saved of None \<Rightarrow> 5 | Some rc \<Rightarrow> rc_totalOperations rc);
                   checkpoints = (case pp_model p of None \<Rightarrow> [] | Some m \<Rightarrow> map snd (qualityCheckpoints m));
                   targets = (if checkpoints = [] then (case saved of None \<Rightarrow> [] | Some rc \<Rightarrow> checkpointTargets rc)
                              else map (editor_target saved) checkpoints)
               in (\<lparr>rc_totalOperations = total, checkpointTargets = targets, rc_productCode = productCode x\<rparr>, p\<lparr>pp_db := dm\<rparr>)))"

definition kMinOperations :: int where "kMinOperations = 1"
definition kMaxOperations :: int where "kMaxOperations = 100"
definition kRecipeMinPassRate :: real where "kRecipeMinPassRate = 0"
definition kRecipeMaxPassRate :: real where "kRecipeMaxPassRate = 100"

definition recipe_valid :: "ProductRecipe \<Rightarrow> bool" where
  "recipe_valid rc = (\<not> (rc_totalOperations rc < kMinOperations \<or> kMaxOperations < rc_totalOperations rc) \<and>
     list_all (\<lambda>t. \<not> (ct_passRateTarget t < kRecipeMinPassRate \<or> kRecipeMaxPassRate < ct_passRateTarget t)) (checkpointTargets rc))"

definition page_saveRecipe :: "page_env \<Rightarrow> ProductRecipe \<Rightarrow> nat \<Rightarrow> ('v, 'cb) ProductsPage \<Rightarrow> ('v, 'cb) ProductsPage \<times> 'v page_out list" where
  "page_saveRecipe env rc cb p =
     (if \<not> pp_writer p then (p, [Answer cb False])
      else
        (case checkEditPermission ''RECIPE_SAVE'' (code_details (rc_productCode rc)) p of
           (False, p) \<Rightarrow> (p, [Answer cb False])
         | (True, p) \<Rightarrow>
             if \<not> recipe_valid rc then (p, [Answer cb False])
             else
               (case upsertRecipe (pe_engine env) rc (pp_db p) of
                  (ok, dm) \<Rightarrow>
                    (page_emitAudit ''RECIPE_SAVE'' (code_details (rc_productCode rc)) (if ok then kSuccess else kFailure) (p\<lparr>pp_db := dm\<rparr>),
                     [Answer cb ok]))))"

section \<open>Every operation\<close>

datatype page_op =
    PageAdd string string string int flt nat | PageUpdate int string string int flt nat | PageDelete int nat | PageExport nat
  | PageLoad | PageSearch string | PageView int | PageLoadRecipe int | PageEditRecipe int | PageSaveRecipe ProductRecipe nat
  | IoTurn | IdleTurn | IoStop

fun page_exec :: "page_env \<Rightarrow> ('v, 'cb) ProductsPage \<Rightarrow> page_op \<Rightarrow> ('v, 'cb) ProductsPage \<times> 'v page_out list" where
  "page_exec env p (PageAdd code name status stck q cb) = page_addProduct code name status stck q cb p"
| "page_exec env p (PageUpdate i name status stck q cb) = page_updateProduct i name status stck q cb p"
| "page_exec env p (PageDelete i cb) = page_deleteProduct i cb p"
| "page_exec env p (PageExport cb) = (page_exportProducts cb p, [])"
| "page_exec env p PageLoad = page_loadProducts env p"
| "page_exec env p (PageSearch q) = page_searchProducts env q p"
| "page_exec env p (PageView i) = page_viewProduct env i p"
| "page_exec env p (PageLoadRecipe i) = (fst (page_loadRecipe env i p), fst (snd (page_loadRecipe env i p)))"
| "page_exec env p (PageEditRecipe i) = (snd (getRecipeForEditing env i p), [])"
| "page_exec env p (PageSaveRecipe rc cb) = page_saveRecipe env rc cb p"
| "page_exec env p IoTurn = (io_turn env p, [])"
| "page_exec env p IdleTurn = idle_turn env p"
| "page_exec env p IoStop = (p\<lparr>pp_io := mc_stop (pp_io p)\<rparr>, [])"

definition page_step :: "page_env \<Rightarrow> ('v, 'cb) ProductsPage \<times> 'v page_out list \<Rightarrow> page_op \<Rightarrow> ('v, 'cb) ProductsPage \<times> 'v page_out list" where
  "page_step env t op = (fst (page_exec env (fst t) op), snd t @ snd (page_exec env (fst t) op))"

section \<open>Who may change products\<close>

lemma emitAudit_frame [simp]:
  "pp_db (page_emitAudit a d ok p) = pp_db p" "pp_io (page_emitAudit a d ok p) = pp_io p" "pp_idle (page_emitAudit a d ok p) = pp_idle p"
  "pp_session (page_emitAudit a d ok p) = pp_session p" "pp_observers (page_emitAudit a d ok p) = pp_observers p"
  "pp_model (page_emitAudit a d ok p) = pp_model p" "pp_recipes (page_emitAudit a d ok p) = pp_recipes p"
  "pp_writer (page_emitAudit a d ok p) = pp_writer p"
  by (simp_all add: page_emitAudit_def split: option.splits)

text \<open>What a read leaves alone.\<close>

definition same_content :: "('v, 'cb) ProductsPage \<Rightarrow> ('v, 'cb) ProductsPage \<Rightarrow> bool" where
  "same_content p p' = (dm_db (pp_db p') = dm_db (pp_db p) \<and> dm_undo (pp_db p') = dm_undo (pp_db p) \<and> pp_io p' = pp_io p \<and>
     pp_idle p' = pp_idle p \<and> pp_session p' = pp_session p \<and> pp_audit p' = pp_audit p \<and> pp_writer p' = pp_writer p)"

lemma same_content_trans: "same_content p q \<Longrightarrow> same_content q r \<Longrightarrow> same_content p r"
  by (simp add: same_content_def)

lemma getProduct_content: "same_content p (snd (page_getProduct env i p))"
  by (simp add: page_getProduct_def same_content_def case_prod_beta)

lemma show_products_content: "same_content p (fst (show_products env q p))"
  by (simp add: show_products_def buildProductsViewModel_def same_content_def case_prod_beta)

lemma viewProduct_content: "same_content p (fst (page_viewProduct env i p))"
  using getProduct_content [of p env i] by (simp add: page_viewProduct_def buildProductDetailViewModel_def case_prod_beta)

lemma editing_content: "same_content p (snd (getRecipeForEditing env i p))"
  using getProduct_content [of p env i] getRecipe_state
  by (simp add: getRecipeForEditing_def case_prod_beta Let_def same_content_def)

lemma loadRecipe_content: "same_content p (fst (page_loadRecipe env i p))"
proof -
  obtain x q where q: "page_getProduct env i p = (x, q)" by fastforce
  have c: "same_content p q" using getProduct_content [of p env i] by (simp add: q)
  obtain rc dm where r: "getRecipeByProductCode (pe_engine env) (pe_target env) (productCode x) (pp_db q) = (rc, dm)" by fastforce
  have "dm_db dm = dm_db (pp_db q)" "dm_undo dm = dm_undo (pp_db q)"
    using getRecipe_state [of "pe_engine env" "pe_target env" "productCode x" "pp_db q"] by (simp_all add: r)
  then show ?thesis using c
    by (auto simp: page_loadRecipe_def q r Let_def same_content_def case_prod_beta split: option.splits)
qed

lemmas reads_content = getProduct_content show_products_content viewProduct_content editing_content loadRecipe_content

text \<open>The requests, and the row a refusal leaves.\<close>

fun request_of :: "page_op \<Rightarrow> (string \<times> string \<times> nat) option" where
  "request_of (PageAdd code name status stck q cb) = Some (''ADD'', code_details code, cb)"
| "request_of (PageUpdate i name status stck q cb) = Some (''UPDATE'', id_details i, cb)"
| "request_of (PageDelete i cb) = Some (''DELETE'', id_details i, cb)"
| "request_of (PageSaveRecipe rc cb) = Some (''RECIPE_SAVE'', code_details (rc_productCode rc), cb)"
| "request_of _ = None"

definition refusal_row :: "User \<Rightarrow> string \<times> string \<times> nat \<Rightarrow> AuditEvent" where
  "refusal_row u rq = \<lparr>ae_timestamp = [], ae_username = username u, ae_role = roleName (role u), ae_category = kProduct,
     ae_action = fst rq, ae_details = fst (snd rq), ae_result = kFailure\<rparr>"

definition locked_out :: "User \<Rightarrow> products_db option \<Rightarrow> ('v, 'cb) ProductsPage \<Rightarrow> bool" where
  "locked_out u d p = (\<not> canEditProducts (role u) \<and> (\<exists>se. pp_session p = Some se \<and> currentUser se = Some u) \<and> pp_writer p \<and>
     (\<forall>t\<in>set (mc_queue (pp_io p)). \<exists>cb. t = ListTask cb) \<and> (\<forall>t\<in>set (pp_idle p). \<exists>cb ps. t = Listed cb ps) \<and> dm_db (pp_db p) = d \<and>
     pp_audit p \<noteq> None)"

fun answers :: "'v page_out list \<Rightarrow> (nat \<times> bool) list" where
  "answers [] = []"
| "answers (Answer cb ok # outs) = (cb, ok) # answers outs"
| "answers (_ # outs) = answers outs"

lemma answers_append [simp]: "answers (a @ b) = answers a @ answers b"
  by (induction a rule: answers.induct) simp_all

lemma answers_notify [simp]: "(\<And>v. answers [f v] = []) \<Longrightarrow> answers (page_notify f p) = []"
proof -
  assume f: "\<And>v. answers [f v] = []"
  have "answers (map f vs) = []" for vs
  proof (induction vs)
    case (Cons v vs)
    then show ?case using f [of v] answers_append [of "[f v]" "map f vs"] by simp
  qed simp
  then show ?thesis by (simp add: page_notify_def)
qed

lemma reads_answer [simp]:
  "answers (snd (show_products env q p)) = []" "answers (snd (page_viewProduct env i p)) = []"
  "answers (fst (snd (page_loadRecipe env i p))) = []" "answers (recipe_message env ok msg arg p) = []"
  by (auto simp: show_products_def page_viewProduct_def page_loadRecipe_def recipe_message_def case_prod_beta Let_def split: option.splits)

definition refused :: "User \<Rightarrow> page_op \<Rightarrow> AuditEvent list" where
  "refused u op = (case request_of op of None \<Rightarrow> [] | Some rq \<Rightarrow> [refusal_row u rq])"

definition denied :: "page_op \<Rightarrow> (nat \<times> bool) list" where
  "denied op = (case request_of op of None \<Rightarrow> [] | Some rq \<Rightarrow> [(snd (snd rq), False)])"

lemma locked_gate:
  assumes "locked_out u d p"
  shows "checkEditPermission a det p = (False, p\<lparr>pp_audit := Some (the (pp_audit p) @ [refusal_row u (a, det, cb)])\<rparr>)"
  using assms by (auto simp: locked_out_def checkEditPermission_def page_emitAudit_def refusal_row_def)

lemma locked_audit: "locked_out u d p \<Longrightarrow> locked_out u d (p\<lparr>pp_audit := Some rows\<rparr>)"
  by (simp add: locked_out_def)

lemma locked_read: "locked_out u d p \<Longrightarrow> same_content p p' \<Longrightarrow> locked_out u d p' \<and> pp_audit p' = pp_audit p"
  by (simp add: locked_out_def same_content_def)

lemma locked_io: "locked_out u d p \<Longrightarrow> locked_out u d (io_turn env p) \<and> pp_audit (io_turn env p) = pp_audit p"
  by (auto simp: locked_out_def io_turn_def mc_take_def case_prod_beta split: option.splits list.splits)

lemma locked_idle: "locked_out u d p \<Longrightarrow> locked_out u d (fst (idle_turn env p)) \<and> pp_audit (fst (idle_turn env p)) = pp_audit p \<and> answers (snd (idle_turn env p)) = []"
  by (auto simp: locked_out_def idle_turn_def split: list.splits idle_task.splits)

lemma locked_step:
  assumes "locked_out u d p"
  shows "locked_out u d (fst (page_exec env p op)) \<and> pp_audit (fst (page_exec env p op)) = Some (the (pp_audit p) @ refused u op) \<and>
    answers (snd (page_exec env p op)) = denied op"
proof -
  have w: "pp_writer p" and a: "pp_audit p = Some (the (pp_audit p))" using assms by (auto simp: locked_out_def)
  note gate = locked_gate [OF assms] and keep = locked_audit [OF assms] and read = locked_read [OF assms reads_content(2)]
    locked_read [OF assms reads_content(3)] locked_read [OF assms reads_content(4)] locked_read [OF assms reads_content(5)]
  show ?thesis
  proof (cases op)
    case (PageAdd code name status stck q cb)
    show ?thesis by (simp add: PageAdd page_addProduct_def request_def gate [of _ _ cb] keep refused_def denied_def)
  next
    case (PageUpdate i name status stck q cb)
    show ?thesis by (simp add: PageUpdate page_updateProduct_def request_def gate [of _ _ cb] keep refused_def denied_def)
  next
    case (PageDelete i cb)
    show ?thesis by (simp add: PageDelete page_deleteProduct_def request_def gate [of _ _ cb] keep refused_def denied_def)
  next
    case (PageSaveRecipe rc cb)
    show ?thesis by (simp add: PageSaveRecipe page_saveRecipe_def gate [of _ _ cb] keep w refused_def denied_def)
  next
    case (PageExport cb)
    then show ?thesis using assms a by (auto simp: page_exportProducts_def post_task_def mc_post_def locked_out_def refused_def denied_def)
  next
    case IoStop
    then show ?thesis using assms a by (auto simp: mc_stop_def locked_out_def refused_def denied_def)
  next
    case IoTurn
    then show ?thesis using locked_io [OF assms] a by (auto simp: refused_def denied_def)
  next
    case IdleTurn
    then show ?thesis using locked_idle [OF assms] a by (auto simp: refused_def denied_def)
  qed (use read a in \<open>auto simp: page_loadProducts_def page_searchProducts_def refused_def denied_def\<close>)
qed

lemma locked_run:
  assumes "locked_out u d p" and "(p', outs) = foldl (page_step env) (p, outs0) ops"
  shows "dm_db (pp_db p') = d \<and> pp_audit p' = Some (the (pp_audit p) @ concat (map (refused u) ops)) \<and>
    answers outs = answers outs0 @ concat (map denied ops)"
  using assms
proof (induction ops arbitrary: p outs0)
  case (Cons op ops)
  note s = locked_step [OF Cons.prems(1), of env op]
  from Cons.IH [OF conjunct1 [OF s], of "outs0 @ snd (page_exec env p op)"] Cons.prems(2) s
  show ?case by (simp add: page_step_def)
qed (auto simp: locked_out_def)


definition demo_page :: "Role \<Rightarrow> (nat, nat) ProductsPage" where
  "demo_page ro = \<lparr>pp_observers = [7], currentSearchQuery = [], pp_audit = Some [],
     pp_session = Some (setUser \<lparr>current = None, changes = 0\<rparr> (new_user\<lparr>username := ''otto'', role := ro\<rparr>)), pp_recipes = True, pp_writer = True,
     pp_model = Some demo_model, pp_db = one_product, pp_io = mcx_new, pp_idle = []\<rparr>"

definition demo_page_env :: page_env where
  "demo_page_env = \<lparr>pe_engine = some_env, pe_float = Fin, pe_target = id, pe_junk = extractProduct Fin a_row, pe_gettext = id\<rparr>"


section \<open>Every queued request is answered once\<close>

fun callback_of :: "db_task \<Rightarrow> nat option" where
  "callback_of (AddTask code name status stck q cb) = Some cb"
| "callback_of (UpdateTask i name status stck q cb) = Some cb"
| "callback_of (DeleteTask i cb) = Some cb"
| "callback_of (ListTask cb) = None"

fun idle_callback :: "idle_task \<Rightarrow> nat option" where
  "idle_callback (Finished action details cb ok) = Some cb"
| "idle_callback (Listed cb ps) = None"

text \<open>The callbacks on their way, oldest first: those the idle queue holds, then those the I/O thread has.\<close>

definition under_way :: "('v, 'cb) ProductsPage \<Rightarrow> nat list" where
  "under_way p = List.map_filter idle_callback (pp_idle p) @ List.map_filter callback_of (mc_queue (pp_io p))"

text \<open>A request that is accepted into the queue.\<close>

definition may_edit :: "('v, 'cb) ProductsPage \<Rightarrow> bool" where
  "may_edit p = (case pp_session p of None \<Rightarrow> True | Some se \<Rightarrow> (case currentUser se of None \<Rightarrow> False | Some u \<Rightarrow> canEditProducts (role u)))"

fun queued_request :: "('v, 'cb) ProductsPage \<Rightarrow> page_op \<Rightarrow> nat list" where
  "queued_request p (PageAdd code name status stck q cb) = (if may_edit p \<and> mc_pending (pp_io p) < kMaxPendingOperations then [cb] else [])"
| "queued_request p (PageUpdate i name status stck q cb) = (if may_edit p \<and> mc_pending (pp_io p) < kMaxPendingOperations then [cb] else [])"
| "queued_request p (PageDelete i cb) = (if may_edit p \<and> mc_pending (pp_io p) < kMaxPendingOperations then [cb] else [])"
| "queued_request p _ = []"

text \<open>The answers the idle queue gives.\<close>

fun late_answers :: "page_env \<Rightarrow> ('v, 'cb) ProductsPage \<Rightarrow> page_op \<Rightarrow> nat list" where
  "late_answers env p IdleTurn = map fst (answers (snd (idle_turn env p)))"
| "late_answers env p _ = []"

lemma gate_frame:
  "fst (checkEditPermission a det p) = may_edit p"
  "pp_io (snd (checkEditPermission a det p)) = pp_io p" "pp_idle (snd (checkEditPermission a det p)) = pp_idle p"
  by (auto simp: checkEditPermission_def may_edit_def split: option.splits)

lemma request_under_way:
  "callback_of t = Some cb \<Longrightarrow> under_way (fst (request a det t cb p)) =
     under_way p @ (if may_edit p \<and> mc_pending (pp_io p) < kMaxPendingOperations then [cb] else [])"
  using gate_frame [of a det p]
  by (cases "checkEditPermission a det p") (auto simp: request_def post_task_def mc_post_def under_way_def map_filter_simps
      map_filter_def split: bool.splits)

lemma io_under_way: "under_way (io_turn env p) = under_way p"
proof (cases "mc_take (pp_io p)")
  case (Some tio)
  obtain t io where t: "tio = (t, io)" by fastforce
  obtain res dm where r: "run_db_task env t (pp_db p) = (res, dm)" by fastforce
  have "idle_callback res = callback_of t" using r by (cases t) (auto split: prod.splits)
  moreover have "mc_queue (pp_io p) = t # mc_queue io" using Some t by (auto simp: mc_take_def split: if_splits list.splits)
  ultimately show ?thesis using Some t r by (auto simp: io_turn_def under_way_def map_filter_def)
qed (simp add: io_turn_def)

lemma idle_under_way: "under_way p = map fst (answers (snd (idle_turn env p))) @ under_way (fst (idle_turn env p))"
proof (cases "pp_idle p")
  case (Cons t rest)
  have "pp_io (fst (page_loadProducts env q)) = pp_io q \<and> pp_idle (fst (page_loadProducts env q)) = pp_idle q \<and>
      answers (snd (page_loadProducts env q)) = []" for q :: "('a, 'b) ProductsPage"
    using show_products_content [of q env "[]"] by (simp add: page_loadProducts_def same_content_def)
  then show ?thesis using Cons by (cases t) (auto simp: idle_turn_def under_way_def map_filter_def case_prod_beta)
qed (simp add: idle_turn_def under_way_def)

lemma read_under_way: "same_content p p' \<Longrightarrow> under_way p' = under_way p"
  by (simp add: same_content_def under_way_def)

lemma saveRecipe_under_way: "under_way (fst (page_saveRecipe env rc cb p)) = under_way p"
  using gate_frame [of "''RECIPE_SAVE''" "code_details (rc_productCode rc)" p]
  by (cases "checkEditPermission ''RECIPE_SAVE'' (code_details (rc_productCode rc)) p")
    (auto simp: page_saveRecipe_def under_way_def case_prod_beta split: bool.splits)

lemma under_way_step: "late_answers env p op @ under_way (fst (page_exec env p op)) = under_way p @ queued_request p op"
proof (cases op)
  case IdleTurn
  then show ?thesis using idle_under_way [of p env] by simp
qed (simp_all add: page_addProduct_def page_updateProduct_def page_deleteProduct_def request_under_way io_under_way saveRecipe_under_way
    page_loadProducts_def page_searchProducts_def read_under_way [OF reads_content(2)] read_under_way [OF reads_content(3)]
    read_under_way [OF reads_content(4)] read_under_way [OF reads_content(5)],
    auto simp: page_exportProducts_def post_task_def mc_post_def mc_stop_def under_way_def map_filter_def)

text \<open>The queued requests and the late answers of a run.\<close>

fun queued_run :: "page_env \<Rightarrow> ('v, 'cb) ProductsPage \<Rightarrow> page_op list \<Rightarrow> nat list" where
  "queued_run env p [] = []"
| "queued_run env p (op # ops) = queued_request p op @ queued_run env (fst (page_exec env p op)) ops"

fun answered_run :: "page_env \<Rightarrow> ('v, 'cb) ProductsPage \<Rightarrow> page_op list \<Rightarrow> nat list" where
  "answered_run env p [] = []"
| "answered_run env p (op # ops) = late_answers env p op @ answered_run env (fst (page_exec env p op)) ops"

text \<open>
  C39. Every queued request is answered once. Whatever is clicked and however the two threads take turns, the
  answers given so far, followed by those still under way, are the requests the queue accepted, in the order
  they were made: none is lost, repeated or overtaken.
\<close>

theorem queued_requests_answered_in_order:
  "answered_run env p ops @ under_way (foldl (\<lambda>q op. fst (page_exec env q op)) p ops) = under_way p @ queued_run env p ops"
proof (induction ops arbitrary: p)
  case (Cons op ops)
  show ?case using Cons [of "fst (page_exec env p op)"] under_way_step [of env p op] by (simp flip: append_assoc) simp
qed simp

section \<open>From the editor to the line\<close>

lemma quality_loop_work: "currentWorkUnit (fst (notify_quality_ids ids s)) = currentWorkUnit s"
  by (induction ids arbitrary: s) (simp_all add: notifyQualityChange_def Let_def case_prod_beta)

lemma loadProduct_work:
  "totalOperations (currentWorkUnit (fst (loadProduct x r s))) = rc_totalOperations r \<and> productId (currentWorkUnit (fst (loadProduct x r s))) = productCode x"
  by (simp add: loadProduct_def Let_def case_prod_beta quality_loop_work)

lemma find_permuted:
  assumes "set ys = set xs" and "\<And>x y. x \<in> set xs \<Longrightarrow> y \<in> set xs \<Longrightarrow> P x \<Longrightarrow> P y \<Longrightarrow> x = y"
  shows "find P ys = find P xs"
proof (cases "find P xs")
  case None
  then have "find P ys = None" using assms(1) by (simp add: find_None_iff)
  with None show ?thesis by simp
next
  case (Some x)
  then have x: "x \<in> set xs" "P x" by (metis find_Some_iff nth_mem)+
  then have "find P ys \<noteq> None" using assms(1) by (auto simp: find_None_iff)
  then obtain y where y: "find P ys = Some y" by blast
  then have "y \<in> set ys" "P y" by (metis find_Some_iff nth_mem)+
  then show ?thesis using Some y assms x by auto
qed

lemma getProduct_found:
  assumes "dm_db r = Some d" and "pd_products d = Some rows" and "manager_wf r" and "x \<in> set rows" and "live x"
    and "prepare_ok env (dm_calls r)" and "step_ok env (dm_calls r)"
  shows "getProduct env fl junk (pr_id x) r = (extractProduct fl x, next_call r)"
proof -
  have "sorted_wrt (<) (map pr_id rows)" using assms(1-3) by (simp add: manager_wf_def db_wf_def rows_ok_def)
  then have "distinct (map pr_id rows)" by (simp add: strict_sorted_iff)
  then have "y = x" if "y \<in> set rows" "pr_id y = pr_id x" for y using that assms(4) by (auto simp: distinct_map inj_on_def)
  then have only: "filter (\<lambda>y. pr_id y = pr_id x \<and> live y) rows \<noteq> [] \<and> (\<forall>y\<in>set (filter (\<lambda>y. pr_id y = pr_id x \<and> live y) rows). y = x)"
    using assms(4,5) by (auto simp: filter_empty_conv)
  then obtain ys where "filter (\<lambda>y. pr_id y = pr_id x \<and> live y) rows = x # ys"
    by (cases "filter (\<lambda>y. pr_id y = pr_id x \<and> live y) rows") auto
  then show ?thesis using assms(1,2,6,7) by (simp add: getProduct_def read_rows_def)
qed

text \<open>The recipe the editor saves, as the line sees it.\<close>

definition target_of :: "ProductRecipe \<Rightarrow> QualityCheckpoint \<Rightarrow> real" where
  "target_of rc cp = (case find (\<lambda>t. checkpointName t = qc_name cp) (checkpointTargets rc) of None \<Rightarrow> passRateTarget cp | Some t \<Rightarrow> ct_passRateTarget t)"

lemma whole_recipe_targets:
  assumes "recipe_ok rc" and "list_all (\<lambda>t. rf (ct_passRateTarget t) = ct_passRateTarget t) (checkpointTargets rc)"
  shows "find (\<lambda>t. checkpointName t = n) (checkpointTargets (whole_recipe rf rc)) = find (\<lambda>t. checkpointName t = n) (checkpointTargets rc)"
proof -
  let ?sorted = "sort_key (\<lambda>t. map ch_code (checkpointName t)) (checkpointTargets rc)"
  have "map (\<lambda>t. t\<lparr>ct_passRateTarget := rf (ct_passRateTarget t)\<rparr>) ?sorted = ?sorted"
    using assms(2) by (intro map_idI) (simp add: list_all_iff)
  moreover have "find (\<lambda>t. checkpointName t = n) ?sorted = find (\<lambda>t. checkpointName t = n) (checkpointTargets rc)"
    by (rule find_permuted) (use assms(1) in \<open>auto simp: recipe_ok_def distinct_map inj_on_def\<close>)
  ultimately show ?thesis by (simp add: whole_recipe_def)
qed

lemma recipe_bounds:
  "(1 \<le> rc_totalOperations rc \<and> rc_totalOperations rc \<le> 100 \<and> list_all (\<lambda>t. 0 \<le> ct_passRateTarget t \<and> ct_passRateTarget t \<le> 100) (checkpointTargets rc)) = recipe_valid rc"
  by (auto simp: recipe_valid_def list_all_iff not_less kMinOperations_def kMaxOperations_def kRecipeMinPassRate_def kRecipeMaxPassRate_def)

text \<open>
  C40. A recipe reaches the line. When the recipe saved for a product asks for 1 to 100 operations, all its
  targets are within 0 to 100 and the database works, saving is answered with true; loading that product
  afterwards makes it the work unit, with the saved number of operations, and every checkpoint the recipe
  names gets the saved target, all others keep theirs. A recipe outside the bounds is refused and the
  database stays as it is.
\<close>

theorem saved_recipe_reaches_line:
  assumes "pp_model p = Some m" and "sim_inv m" and "pp_recipes p" and "pp_writer p" and "may_edit p"
    and "healthy_from (pe_engine env) (dm_calls (pp_db p))" and "dm_db (pp_db p) = Some d" and "dm_undo (pp_db p) = None"
    and "manager_wf (pp_db p)" and "pd_products d = Some rows" and "pd_recipes d = Some rs" and "pd_targets d = Some ts"
    and "x \<in> set rows" and "live x" and "column_int (pr_id x) = pr_id x" and "pr_code x = rc_productCode rc" and "recipe_ok rc"
    and "list_all (\<lambda>t. pe_target env (ct_passRateTarget t) = ct_passRateTarget t) (checkpointTargets rc)"
    and "(p1, outs) = page_saveRecipe env rc cb p" and "(p2, shown, notices) = page_loadRecipe env (pr_id x) p1"
  shows "if 1 \<le> rc_totalOperations rc \<and> rc_totalOperations rc \<le> 100 \<and> list_all (\<lambda>t. 0 \<le> ct_passRateTarget t \<and> ct_passRateTarget t \<le> 100) (checkpointTargets rc)
    then outs = [Answer cb True] \<and>
      (\<exists>m'. pp_model p2 = Some m' \<and> totalOperations (currentWorkUnit m') = rc_totalOperations rc \<and>
        productId (currentWorkUnit m') = pr_code x \<and>
        (\<forall>i. map_option passRateTarget (map_of (qualityCheckpoints m') i) = map_option (target_of rc) (map_of (qualityCheckpoints m) i)))
    else outs = [Answer cb False] \<and> dm_db (pp_db p1) = dm_db (pp_db p)"
proof (cases "recipe_valid rc")
  case False
  have "checkEditPermission a det p = (True, p)" for a det
    using assms(5) by (auto simp: may_edit_def checkEditPermission_def split: option.splits)
  then show ?thesis using False assms(4,19) unfolding recipe_bounds by (simp add: page_saveRecipe_def)
next
  case True
  let ?e = "pe_engine env" and ?c = "rc_productCode rc"
  have gate: "checkEditPermission a det p = (True, p)" for a det
    using assms(5) by (auto simp: may_edit_def checkEditPermission_def split: option.splits)
  have wf: "db_wf d" using assms(7,9) by (simp add: manager_wf_def)
  from upsert_healthy [OF assms(6,7,8,17) wf assms(11,12)] obtain r' where u: "upsertRecipe ?e rc (pp_db p) = (True, r')" "dm_calls (pp_db p) \<le> dm_calls r'"
    and r': "dm_db r' = Some (d\<lparr>pd_recipes := Some (filter (\<lambda>x. fst x \<noteq> ?c) rs @ [(?c, rc_totalOperations rc)]),
        pd_targets := Some (filter (\<lambda>x. fst x \<noteq> ?c) ts @ target_rows ?c (checkpointTargets rc))\<rparr>)" by blast
  have p1: "p1 = page_emitAudit ''RECIPE_SAVE'' (code_details ?c) kSuccess (p\<lparr>pp_db := r'\<rparr>)" "outs = [Answer cb True]"
    using assms(4,19) True gate u by (simp_all add: page_saveRecipe_def)
  have p1': "pp_db p1 = r'" "pp_model p1 = Some m" "pp_recipes p1" using assms(1,3) by (simp_all add: p1(1))
  have h: "healthy_from ?e (dm_calls r')" using assms(6) u(2) by (simp add: healthy_from_def)
  have w': "manager_wf r'" using upsertRecipe_wf [OF assms(9), of ?e rc] u(1) by simp
  have g: "getProduct ?e (pe_float env) (pe_junk env) (pr_id x) r' = (extractProduct (pe_float env) x, next_call r')"
    by (rule getProduct_found [OF r' _ w' assms(13,14)]) (use assms(10) h in \<open>simp_all add: healthy_from_def\<close>)
  have px: "prod_id (extractProduct (pe_float env) x) = pr_id x" "productCode (extractProduct (pe_float env) x) = ?c"
    using assms(15,16) by (simp_all add: extractProduct_def)
  have "0 < pr_id x" using wf assms(10,13) by (auto simp: db_wf_def rows_ok_def list_all_iff)
  then have valid: "pr_id x \<noteq> kInvalidProductId" by (simp add: kInvalidProductId_def)
  have nc: "nul_free ?c" and oc: "column_int (rc_totalOperations rc) = rc_totalOperations rc" using assms(17) by (simp_all add: recipe_ok_def)
  have "healthy_from ?e (dm_calls (next_call r'))" using h by (simp add: healthy_from_def)
  then have "fst (getRecipeByProductCode ?e (pe_target env) ?c (next_call r')) =
      (case filter (\<lambda>x. fst x = ?c) (filter (\<lambda>x. fst x \<noteq> ?c) rs @ [(?c, rc_totalOperations rc)]) of [] \<Rightarrow> None
       | x # _ \<Rightarrow> Some \<lparr>rc_totalOperations = column_int (snd x),
           checkpointTargets = stored_targets (pe_target env) ?c (filter (\<lambda>x. fst x \<noteq> ?c) ts @ target_rows ?c (checkpointTargets rc)), rc_productCode = ?c\<rparr>)"
    by (rule getRecipe_healthy [where d = "the (dm_db r')"]) (simp_all add: r' nc)
  moreover have "filter (\<lambda>x. fst x = ?c) (filter (\<lambda>x. fst x \<noteq> ?c) rs @ [(?c, rc_totalOperations rc)]) = [(?c, rc_totalOperations rc)]"
    by (auto simp: filter_empty_conv)
  ultimately have rec: "fst (getRecipeByProductCode ?e (pe_target env) ?c (next_call r')) = Some (whole_recipe (pe_target env) rc)"
    by (simp add: stored_targets_written whole_recipe_def oc)
  let ?m = "fst (loadProduct (extractProduct (pe_float env) x) (Recipe.truncate (whole_recipe (pe_target env) rc)) m)"
  have p2: "pp_model p2 = Some ?m"
    using assms(20) p1' g px valid rec
    by (auto simp: page_loadRecipe_def page_getProduct_def Let_def case_prod_beta split: option.splits prod.splits)
  have tot: "totalOperations (currentWorkUnit ?m) = rc_totalOperations rc" "productId (currentWorkUnit ?m) = pr_code x"
    using loadProduct_work [of "extractProduct (pe_float env) x" "Recipe.truncate (whole_recipe (pe_target env) rc)" m] px assms(16)
    by (simp_all add: Recipe.truncate_def whole_recipe_def)
  have tg: "checkpointTargets (Recipe.truncate (whole_recipe (pe_target env) rc)) = checkpointTargets (whole_recipe (pe_target env) rc)"
    by (simp add: Recipe.truncate_def)
  have "qualityCheckpoints ?m = map (\<lambda>(i, cp). (i, apply_targets (checkpointTargets (whole_recipe (pe_target env) rc)) cp)) (qualityCheckpoints m)"
    using loadProduct_model [OF assms(2) surjective_pairing] tg by simp
  then have "map_option passRateTarget (map_of (qualityCheckpoints ?m) i) = map_option (target_of rc) (map_of (qualityCheckpoints m) i)" for i
    by (auto simp: map_of_map_key option.map_comp o_def apply_targets_def target_of_def Let_def whole_recipe_targets [OF assms(17,18)]
        split: option.splits intro!: map_option_cong)
  then show ?thesis using True p1(2) p2 tot unfolding recipe_bounds by simp
qed

theorem saved_recipe_reaches_line_witness:
  "let p1 = fst (page_saveRecipe demo_page_env (two_targets ''Weight Check'' ''Hardness Test'') 4 (demo_page Admin)) in
     \<exists>m'. pp_model (fst (page_loadRecipe demo_page_env 1 p1)) = Some m' \<and> totalOperations (currentWorkUnit m') = 3 \<and>
       map_option passRateTarget (map_of (qualityCheckpoints m') 0) = Some 97"
proof -
  let ?rc = "two_targets ''Weight Check'' ''Hardness Test''" and ?p = "demo_page Admin" and ?e = demo_page_env
  let ?save = "page_saveRecipe ?e ?rc 4 ?p"
  let ?load = "page_loadRecipe ?e 1 (fst ?save)"
  have p: "pp_model ?p = Some demo_model" "pp_recipes ?p" "pp_writer ?p" "pp_db ?p = one_product" by (simp_all add: demo_page_def)
  have ed: "may_edit ?p"
    by (simp add: may_edit_def demo_page_def canEditProducts_def less_eq_Role_def Admin_def Maintenance_def)
  have row: "pr_id a_row = 1" "live a_row" "column_int 1 = 1" "pr_code a_row = rc_productCode ?rc"
    by (simp_all add: a_row_def live_def column_int_def two_targets_def)
  have ok: "recipe_ok ?rc" "recipe_valid ?rc"
    by (simp_all add: recipe_ok_def recipe_valid_def two_targets_def nul_free_def column_int_def kMinOperations_def kMaxOperations_def
        kRecipeMinPassRate_def kRecipeMaxPassRate_def)
  have first: "map_of (qualityCheckpoints (demo_model :: nat SimulatedModel)) 0 = Some (snd (hd demo_quality))" "qc_name (snd (hd demo_quality)) = ''Weight Check''"
    by (simp_all add: demo_model_simps demo_quality_def demo_checkpoint_def)
  have db: "healthy_from (pe_engine ?e) (dm_calls (pp_db ?p))"
    "dm_db (pp_db ?p) = Some \<lparr>pd_products = Some [a_row], pd_trigger = True, pd_seq = 1, pd_recipes = Some [], pd_targets = Some []\<rparr>"
    "dm_undo (pp_db ?p) = None" "manager_wf (pp_db ?p)"
    "pd_products \<lparr>pd_products = Some [a_row], pd_trigger = True, pd_seq = 1, pd_recipes = Some [], pd_targets = Some []\<rparr> = Some [a_row]"
    "pd_recipes \<lparr>pd_products = Some [a_row], pd_trigger = True, pd_seq = 1, pd_recipes = Some [], pd_targets = Some []\<rparr> = Some []"
    "pd_targets \<lparr>pd_products = Some [a_row], pd_trigger = True, pd_seq = 1, pd_recipes = Some [], pd_targets = Some []\<rparr> = Some []"
    "a_row \<in> set [a_row]" "column_int (pr_id a_row) = pr_id a_row"
    "list_all (\<lambda>t. pe_target ?e (ct_passRateTarget t) = ct_passRateTarget t) (checkpointTargets ?rc)"
    by (simp_all add: p(4) some_env_healthy one_product_table one_product_wf row demo_page_env_def list_all_iff)
  have l: "(fst ?load, fst (snd ?load), snd (snd ?load)) = page_loadRecipe ?e (pr_id a_row) (fst ?save)" by (simp add: row)
  have "\<exists>m'. pp_model (fst ?load) = Some m' \<and> totalOperations (currentWorkUnit m') = rc_totalOperations ?rc \<and>
      productId (currentWorkUnit m') = pr_code a_row \<and>
      (\<forall>i. map_option passRateTarget (map_of (qualityCheckpoints m') i) = map_option (target_of ?rc) (map_of (qualityCheckpoints (demo_model :: nat SimulatedModel)) i))"
    using saved_recipe_reaches_line [OF p(1) demo_model_inv p(2,3) ed db(1) db(2) db(3) db(4) db(5) db(6) db(7) db(8) row(2) db(9) row(4) ok(1) db(10) prod.collapse l] ok(2)
    unfolding recipe_bounds by simp
  moreover have "map_option (target_of ?rc) (map_of (qualityCheckpoints (demo_model :: nat SimulatedModel)) 0) = Some 97"
    using first by (simp add: target_of_def two_targets_def)
  ultimately show ?thesis by (auto simp: Let_def two_targets_def dest!: spec [of _ 0])
qed

end
