(* ===== verification/Spec2Isabelle.thy ===== *)
theory Spec2Isabelle
  imports SpscQueue SystemStateMachine AlertCenter OtaSession SerialFrameParser ModbusPollLoop MqttPacket AuthService UsersPresenter MirrorModel DashboardPresenter ProductSerializers SensorIngest OtaAgent TcpBackend SerialBackend HistorianBridge ProductsPresenter
begin

text \<open>
  A verification development for industrial-hmi, an operator terminal for a production line (C++20). Paths
  below are relative to \<^verbatim>\<open>src/src/\<close> of this tree.

  \<^bold>\<open>The program.\<close> A production model (\<^verbatim>\<open>model/SimulatedModel.h\<close>) holds the rows of the line: equipment with
  supply levels, quality checkpoints with pass rates, actuators, the current work unit and the lifecycle of
  the line (\<^verbatim>\<open>SystemStateMachine\<close>). It reports every change to observers. Three observers carry the program:
  the dashboard presenter turns reports into view models and raises and clears alarms in the alarm store,
  the bridge to a second station copies them into a mirror model, and the historian bridge archives them.
  Inputs come from the operator's clicks, from a line-oriented TCP command server, from MQTT sensor topics,
  from Modbus registers polled by a thread and handed over through a lock-free queue, and from a serial line
  that carries both telemetry text and the frames of a firmware-update protocol. Accounts live in SQLite;
  a login service, a user-management facade and the permission tests of the presenters decide who may do
  what, and every decision leaves an audit row. Products and recipes live in an in-memory SQLite database
  behind the Products page, whose writes run on an I/O thread.

  \<^bold>\<open>Theories and sources\<close>, in dependency order.

  \<^item> \<open>Prelude\<close>: machine types, bytes, lists, ordered maps, sorting by a key, and the interfaces
    (locales). \<open>NumberText\<close>: \<^verbatim>\<open><cctype>\<close>, \<^verbatim>\<open>std::format\<close>, \<^verbatim>\<open>from_chars\<close>, \<^verbatim>\<open>stof\<close> as far as used.
  \<^item> \<open>SpscQueue\<close>: \<^verbatim>\<open>core/SpscQueue.h\<close>. The ring on 64-bit free-running indices; the inductive relation
    \<open>spsc_step\<close> interleaves the atomic loads and stores of the two threads.
  \<^item> \<open>SystemStateMachine\<close>: \<^verbatim>\<open>model/SystemStateMachine.cpp\<close>, its table and notifications.
  \<^item> \<open>AlertCenter\<close>: \<^verbatim>\<open>presenter/AlertCenter.h\<close>, active alarms, shelving, the history ring.
  \<^item> \<open>FlashFrame\<close>, \<open>FlashFrameParser\<close>, \<open>OtaSession\<close>, \<open>OtaAgent\<close>: the firmware update of a board,
    \<^verbatim>\<open>integration/FlashFrame*\<close>, \<^verbatim>\<open>OtaSession.cpp\<close> (the transition table, row by row with its guards and
    actions) and \<^verbatim>\<open>OtaAgent.cpp\<close>, which runs a session on a thread with a timer.
  \<^item> \<open>SerialFrameParser\<close>, \<open>SerialBackend\<close>: telemetry text and the serial line that carries it together
    with the flash frames.
  \<^item> \<open>ModbusPdu\<close>, \<open>ModbusClient\<close>, \<open>ModbusPollLoop\<close>: \<^verbatim>\<open>integration/modbus/\<close>, codec, client, poll walk,
    drain and the deduplicating bridge to the model.
  \<^item> \<open>MqttPacket\<close>, \<open>MqttClient\<close>, \<open>SensorIngest\<close>: the MQTT wire format, the client with all its
    handlers, and the topics that feed the model.
  \<^item> \<open>UserRepository\<close>, \<open>SqliteUserRepository\<close>, \<open>AuthService\<close>, \<open>UsersPresenter\<close>: roles, accounts, the table
    with its migration ladder, login and seeding, the user-management facade.
  \<^item> \<open>ThroughputMeter\<close>, \<open>SimulatedModel\<close>, \<open>LineFeed\<close>, \<open>MirrorModel\<close>, \<open>DashboardPresenter\<close>: the
    production model, what its observers are told, the second station with its bridge, the dashboard.
  \<^item> \<open>TcpBackend\<close>: \<^verbatim>\<open>integration/TcpBackend.cpp\<close> and the status text it answers with.
  \<^item> \<open>HistoryStore\<close>, \<open>HistorianBridge\<close>: \<^verbatim>\<open>historian/\<close>, the archive of three tiers, its maintenance sweep
    and the bridge that fills it.
  \<^item> \<open>ProductSerializers\<close>, \<open>ProductDatabase\<close>, \<open>ProductsPresenter\<close>: CSV and JSON export and import,
    \<^verbatim>\<open>model/DatabaseManager.*\<close>, the I/O queue of \<^verbatim>\<open>model/ModelContext.h\<close> and the Products page.

  \<^bold>\<open>How the code is rendered.\<close> A class is a record of its members; a method is a function that takes and
  returns the record, and what it does outside (calls to observers, bytes written, audit rows, callbacks)
  is a list it returns or an append-only field, in the code's order. Exceptions and failed calls are values of
  sum and option types. Fixed-width integers that can wrap are words. Threads are explicit: the SPSC queue
  has a step relation on atomic accesses; everything that runs on an \<^verbatim>\<open>io_context\<close> (MQTT, TCP, serial, OTA
  agent, the I/O queue) is one operation for each handler, so a sequence of operations is an interleaving, and
  a theorem over all sequences covers them all. Definitions compute.

  \<^bold>\<open>Interfaces.\<close> \<open>guarded_machine\<close> and \<open>invariant_machine\<close> lift what each operation keeps to all sequences;
  \<open>stream_parser\<close> is the contract of an incremental parser (cutting the input anywhere does not matter), met
  by the flash and the text parser; \<open>fifo_channel\<close> is what the poll loop asks of the queue;
  \<open>user_store\<close> is what login and user management ask of a repository, met by the SQLite one through every
  failure; \<open>observed_store\<close> is what the observers of the model rely on (what is told is the value after the
  command, and no change goes untold), met by the state, supply and rate feeds; \<open>serializer\<close> is a text format
  that reads back what it writes, met by CSV and JSON. Each is interpreted on the definitions of the code.

  \<^bold>\<open>What is shown.\<close>

  \<^item> Alarms: no unacknowledged alarm is lost, the store is the alarm lifecycle of its class comment, the
    system alarm is on exactly in the safe state, alarm conditions are what the model reported.
  \<^item> Firmware update: Done only on the target version, bounded retries, completion with an answering
    board, the bytes in flight are the image; the agent sends what the session says and reports once.
  \<^item> Streams: encode/parse round trips and byte accounting for frames, MQTT, serial and TCP lines,
    independent of how the bytes are cut; the queue is first-in first-out under every interleaving.
  \<^item> Accounts: names stay unique through engine failures, exact login decision, user management refines
    an abstract policy, no escalation of privilege, no loss of the signed-in account.
  \<^item> The line: value ranges, ownership of external readings, the second station and the archive follow
    the model, operators cannot leave the safe state.
  \<^item> Products: exact search, atomic recipes, viewers change nothing, every accepted request is answered once.
  \<^item> Defects, proved as theorems about the code as it is: an interrupted migration is permanent, a failed COMMIT
    ends archiving, a silent TCP client holds the server, a rolled-back recipe takes a concurrent add with it.

  \<^bold>\<open>Termination, bounds and fuel.\<close> Loops are structural recursions or carry a measure. The drain of the Modbus
  queue has the queue's capacity (256) as fuel; a queue holds at most 255 elements, so it always suffices. The
  migration ladder \<open>migrate_loop\<close> is a \<^verbatim>\<open>partial_function (option)\<close>: it reads the version back after
  every rung and need not end while those reads fail, \<^const>\<open>None\<close> is that case; on a healthy engine it is
  proved to return from schema 0 and 1.

  \<^bold>\<open>Parameters.\<close> Code outside the tree is an argument: the SQLite engine (which call it refuses, the clock it
  supplies), the password hasher (libsodium), sockets, the serial port and timers (Boost.Asio), clocks, random
  draws, gettext, the dump of the JSON library, and the rounding of a real to a \<^verbatim>\<open>float\<close>. A statement that fails
  changes nothing, as SQLite documents.

  \<^bold>\<open>Simplifications.\<close> Reals stand for floating-point numbers between the explicit roundings; NaN and the sign
  of zero do not occur. \<^verbatim>\<open>NOCASE\<close>, \<^verbatim>\<open>LIKE\<close> and \<^verbatim>\<open><cctype>\<close> fold ASCII only (the C locale). Counters and
  milliseconds whose type cannot overflow in practice are integers. Memory orders of the queue are
  sequentially consistent steps on its indices. Mutexes that protect one call are left out, since a call is
  one operation. Callbacks return normally. Log messages are left out.

  \<^bold>\<open>Not modelled.\<close> The GTK, Qt and console views (toolkit calls), image classification (ONNX Runtime), OPC UA
  (open62541), the MCP and HTTP servers, configuration files and logging (third-party libraries or pure
  input and output), the audit log's own table (every emitted row is modelled where it is emitted), telemetry
  text formatters, and the wiring of the objects at start-up.
\<close>

section \<open>Accounts across components\<close>

text \<open>
  C16. A changed password is the password: when a signed-in user changes the own password through the
  user-management facade and the call answers Ok, the old password was verified against the stored hash and
  the new one is long enough; the login service on the same store then accepts the new password for that
  account, and rejects every password that does not verify against the new hash.
\<close>

theorem changed_password_signs_in:
  assumes "sur_ok (up_users p)" and "sur_live env 0 (up_users p)" and "actor p = Some me"
    and "x \<in> set (accounts p)" and "userId x = userId me" and "enabled x"
    and change: "changeOwnPassword (sqlite_repository env) H p old new = (Ok, p')"
    and "works_for H new" and "as_users svc = up_users p'"
  shows "pw_verify H old (passwordHash x) = Some True \<and> length new \<ge> kMinPasswordLen \<and>
    fst (login (sqlite_repository env) H svc (username x) new) = Success \<and>
    (pw_verify H q (the (pw_hash H new)) = Some False \<longrightarrow> fst (login (sqlite_repository env) H svc (username x) q) = InvalidCredentials)"
proof -
  from sur.changeOwnPassword_Ok [OF assms(1,3) change] obtain y h t where
    y: "find (has_id (userId me)) (accounts p) = Some y" "kMinPasswordLen \<le> length new" "pw_verify H old (passwordHash y) = Some True"
      "pw_hash H new = Some h" and p': "sur_ok (up_users p')" "sur_live env 0 (up_users p')"
      "accounts p' = map (edited (y\<lparr>passwordHash := h\<rparr>) t) (accounts p)"
    using assms(2) by blast
  have "find (has_id (userId me)) (accounts p) = Some x"
    using find_id_of_member [OF sur_wf [OF assms(1)] assms(4)] assms(5) by simp
  with y have xy: "y = x" by simp
  define z where "z = edited (x\<lparr>passwordHash := h\<rparr>) t x"
  have nf: "nul_free h" "pw_verify H new h = Some True" using assms(8) y(4) by (auto simp: works_for_def)
  have z: "enabled z" "passwordHash z = h" using assms(6) nf by (simp_all add: z_def edited_def)
  have "z \<in> set (accounts p')" using assms(4) p'(3) xy by (simp add: z_def)
  then have "find (same_name (username x)) (accounts p') = Some z"
    by (rule find_name_of_member [OF sur_wf [OF p'(1)]]) (simp add: same_name_def z_def)
  then have "fst (login (sqlite_repository env) H svc (username x) q') = verdict H q' (Some z)" for q'
    using sur.login_decision [of svc env H "username x" q'] p' assms(9) by (metis prod.collapse)
  then show ?thesis using y nf z xy by (auto simp: verdict_def)
qed

lemma demo_password_change:
  "\<exists>p'. changeOwnPassword (sqlite_repository healthy_env) plain_hasher (demo 0) ''h'' ''operator1'' = (Ok, p')"
  by (rule sur.changeOwnPassword_live [OF demo_simps(1,6,3), of "extractUser (demo_row 1 ''admin'' Admin)"])
    (auto simp: plain_hasher_def kMinPasswordLen_def extractUser_def demo_row_def c_str_def)

theorem changed_password_signs_in_witness:
  "\<exists>p'. changeOwnPassword (sqlite_repository healthy_env) plain_hasher (demo 0) ''h'' ''operator1'' = (Ok, p') \<and>
     fst (login (sqlite_repository healthy_env) plain_hasher
       \<lparr>as_users = up_users p', as_session = up_session p', as_audit = None\<rparr> ''admin'' ''operator1'') = Success"
proof -
  from demo_password_change obtain p' where
    c: "changeOwnPassword (sqlite_repository healthy_env) plain_hasher (demo 0) ''h'' ''operator1'' = (Ok, p')" by blast
  let ?x = "extractUser (demo_row 1 ''admin'' Admin)"
  have w: "works_for plain_hasher ''operator1''" by (simp add: works_for_def plain_hasher_def nul_free_def)
  have "username ?x = ''admin''" by (simp add: demo_row_def c_str_def)
  with changed_password_signs_in [OF demo_simps(1,6,3) _ _ _ c w, of ?x "\<lparr>as_users = up_users p', as_session = up_session p', as_audit = None\<rparr>" "[]"]
  show ?thesis using c by auto
qed

end
